(* ===== verification/Prelude.thy ===== *)
theory Prelude
  imports Main "HOL-Library.Word" "HOL-Library.List_Lexorder" "HOL-Library.Product_Lexorder"
begin

text \<open>
  Shared vocabulary of the development.

  \<^item> Rust's integer types as words, with the saturating and checked operations of the standard
    library and their meaning on natural numbers (collection \<open>rust_arith\<close>);
  \<^item> \<open>Result\<close> as a sum (\<open>Err\<close> is \<open>Inl\<close>, \<open>Ok\<close> is \<open>Inr\<close>), the \<open>?\<close> operator as
    \<open>res_bind\<close> and a loop that stops at the first error as \<open>try_fold\<close>;
  \<^item> big-endian byte encodings of integers (\<open>to_be_bytes\<close>, \<open>from_be_bytes\<close>);
  \<^item> the contract of a transition system with an invariant (locale \<open>invariant_system\<close>), used by
    every component whose public operations are the steps of a state machine.
\<close>

named_theorems rust_arith "meaning of Rust's integer operations on naturals"
named_theorems res_simps "unfolding of results and of the question-mark operator"

section \<open>Machine integers\<close>

type_synonym u8 = "8 word"
type_synonym u16 = "16 word"
type_synonym u32 = "32 word"
type_synonym u64 = "64 word"
type_synonym usize = "64 word"
type_synonym bytes = "u8 list"

definition saturating_add :: "'a::len word \<Rightarrow> 'a word \<Rightarrow> 'a word" where
  "saturating_add a b = (if unat a + unat b < 2 ^ LENGTH('a) then a + b else - 1)"

definition saturating_sub :: "'a::len word \<Rightarrow> 'a word \<Rightarrow> 'a word" where
  "saturating_sub a b = (if b \<le> a then a - b else 0)"

definition checked_add :: "'a::len word \<Rightarrow> 'a word \<Rightarrow> 'a word option" where
  "checked_add a b = (if unat a + unat b < 2 ^ LENGTH('a) then Some (a + b) else None)"

lemma unat_bound: "unat (w :: 'a::len word) < 2 ^ LENGTH('a)"
  by (rule unsigned_less)

lemma unat_minus_one_word_max: "unat (- 1 :: 'a::len word) = 2 ^ LENGTH('a) - 1"
  by (simp add: unsigned_minus_1_eq_mask mask_eq_exp_minus_1)

lemma unat_saturating_add [rust_arith]:
  "unat (saturating_add a (b :: 'a::len word)) = min (unat a + unat b) (2 ^ LENGTH('a) - 1)"
  by (auto simp: saturating_add_def unat_minus_one_word_max unat_word_ariths)

lemma unat_saturating_sub [rust_arith]:
  "unat (saturating_sub a (b :: 'a::len word)) = unat a - unat b"
  by (auto simp: saturating_sub_def unat_sub word_le_nat_alt)

lemma checked_add_Some_iff [rust_arith]:
  "checked_add a (b :: 'a::len word) = Some c \<longleftrightarrow>
     unat a + unat b < 2 ^ LENGTH('a) \<and> unat c = unat a + unat b"
  by (auto simp: checked_add_def unat_word_ariths word_unat_eq_iff)

lemma checked_add_None_iff [rust_arith]:
  "checked_add a (b :: 'a::len word) = None \<longleftrightarrow> 2 ^ LENGTH('a) \<le> unat a + unat b"
  by (auto simp: checked_add_def)

lemma saturating_add_mono: "a \<le> saturating_add a (b :: 'a::len word)"
proof -
  have "unat a \<le> 2 ^ LENGTH('a) - 1" using unat_bound [of a] by linarith
  then show ?thesis by (simp add: word_le_nat_alt unat_saturating_add)
qed

lemma saturating_add_exact:
  "unat a + unat b < 2 ^ LENGTH('a) \<Longrightarrow> saturating_add a (b :: 'a::len word) = a + b"
  by (simp add: saturating_add_def)

section \<open>Results and early returns\<close>

abbreviation Ok :: "'a \<Rightarrow> 'e + 'a" where "Ok \<equiv> Inr"
abbreviation Err :: "'e \<Rightarrow> 'e + 'a" where "Err \<equiv> Inl"

definition res_bind :: "'e + 'a \<Rightarrow> ('a \<Rightarrow> 'e + 'b) \<Rightarrow> 'e + 'b" where
  "res_bind r f = (case r of Inl e \<Rightarrow> Inl e | Inr x \<Rightarrow> f x)"

definition map_err :: "('e \<Rightarrow> 'f) \<Rightarrow> 'e + 'a \<Rightarrow> 'f + 'a" where
  "map_err f r = (case r of Inl e \<Rightarrow> Inl (f e) | Inr x \<Rightarrow> Inr x)"

definition ok_or :: "'a option \<Rightarrow> 'e \<Rightarrow> 'e + 'a" where
  "ok_or x e = (case x of None \<Rightarrow> Inl e | Some v \<Rightarrow> Inr v)"

lemma res_bind_simps [simp, res_simps]:
  "res_bind (Inl e) f = Inl e" "res_bind (Inr x) f = f x"
  by (simp_all add: res_bind_def)

lemma map_err_simps [simp, res_simps]:
  "map_err g (Inl e) = Inl (g e)" "map_err g (Inr x) = Inr x"
  by (simp_all add: map_err_def)

lemma ok_or_simps [simp, res_simps]: "ok_or None e = Inl e" "ok_or (Some x) e = Inr x"
  by (simp_all add: ok_or_def)

lemma res_bind_Ok_iff [res_simps]: "res_bind r f = Inr y \<longleftrightarrow> (\<exists>x. r = Inr x \<and> f x = Inr y)"
  by (cases r) auto

lemma res_bind_Err_iff [res_simps]:
  "res_bind r f = Inl e \<longleftrightarrow> r = Inl e \<or> (\<exists>x. r = Inr x \<and> f x = Inl e)"
  by (cases r) auto

lemma map_err_Ok_iff [res_simps]: "map_err f r = Inr y \<longleftrightarrow> r = Inr y"
  by (cases r) auto

lemma map_err_Err_iff [res_simps]: "map_err f r = Inl e \<longleftrightarrow> (\<exists>d. r = Inl d \<and> e = f d)"
  by (cases r) auto

lemma ok_or_Ok_iff [res_simps]: "ok_or x e = Inr v \<longleftrightarrow> x = Some v"
  by (cases x) auto

lemma ok_or_Err_iff [res_simps]: "ok_or x e = Inl d \<longleftrightarrow> x = None \<and> d = e"
  by (cases x) auto

text \<open>A \<open>for\<close> loop whose body may return early with an error.\<close>

fun try_fold :: "('a \<Rightarrow> 's \<Rightarrow> 'e + 's) \<Rightarrow> 'a list \<Rightarrow> 's \<Rightarrow> 'e + 's" where
  "try_fold f [] s = Inr s"
| "try_fold f (x # xs) s = res_bind (f x s) (try_fold f xs)"

lemma try_fold_append: "try_fold f (xs @ ys) s = res_bind (try_fold f xs s) (try_fold f ys)"
proof (induction xs arbitrary: s)
  case (Cons x xs)
  then show ?case by (cases "f x s") simp_all
qed simp

text \<open>An invariant of the accumulator is kept by the whole loop.\<close>

lemma try_fold_inv:
  assumes "try_fold f xs s = Inr t" "P s"
    and "\<And>x s s'. x \<in> set xs \<Longrightarrow> P s \<Longrightarrow> f x s = Inr s' \<Longrightarrow> P s'"
  shows "P t"
  using assms
proof (induction xs arbitrary: s)
  case (Cons x xs)
  from Cons.prems(1) obtain s' where s': "f x s = Inr s'" "try_fold f xs s' = Inr t"
    by (auto simp: res_bind_Ok_iff)
  have "P s'" by (rule Cons.prems(3) [of x s]) (use Cons.prems(2) s'(1) in simp_all)
  with s'(2) show ?case by (rule Cons.IH) (use Cons.prems(3) in auto)
qed simp

section \<open>Byte encodings of integers\<close>

text \<open>\<open>to_be_bytes\<close> of an \<open>n\<close>-byte integer: the most significant byte first.\<close>

fun be_bytes :: "nat \<Rightarrow> nat \<Rightarrow> bytes" where
  "be_bytes 0 v = []"
| "be_bytes (Suc n) v = be_bytes n (v div 256) @ [of_nat (v mod 256)]"

fun be_value_acc :: "nat \<Rightarrow> bytes \<Rightarrow> nat" where
  "be_value_acc a [] = a"
| "be_value_acc a (b # bs) = be_value_acc (a * 256 + unat b) bs"

definition be_value :: "bytes \<Rightarrow> nat" where
  "be_value = be_value_acc 0"

definition u64_to_be_bytes :: "u64 \<Rightarrow> bytes" where
  "u64_to_be_bytes w = be_bytes 8 (unat w)"

definition u32_to_be_bytes :: "u32 \<Rightarrow> bytes" where
  "u32_to_be_bytes w = be_bytes 4 (unat w)"

definition u32_from_be_bytes :: "bytes \<Rightarrow> u32" where
  "u32_from_be_bytes bs = of_nat (be_value bs)"

lemma length_be_bytes [simp]: "length (be_bytes n v) = n"
  by (induction n arbitrary: v) auto

lemma be_value_snoc: "be_value (bs @ [b]) = be_value bs * 256 + unat b"
proof -
  have "be_value_acc a (bs @ [b]) = be_value_acc a bs * 256 + unat b" for a
    by (induction bs arbitrary: a) auto
  then show ?thesis by (simp add: be_value_def)
qed

lemma be_value_be_bytes: "be_value (be_bytes n v) = v mod 256 ^ n"
proof (induction n arbitrary: v)
  case 0
  then show ?case by (simp add: be_value_def)
next
  case (Suc n)
  have "unat (of_nat (v mod 256) :: u8) = v mod 256"
    by (simp add: unat_of_nat)
  then have "be_value (be_bytes (Suc n) v) = v div 256 mod 256 ^ n * 256 + v mod 256"
    by (simp add: be_value_snoc Suc.IH)
  also have "\<dots> = v mod 256 ^ Suc n"
    using mod_mult2_eq [of v 256 "256 ^ n"] by (simp add: algebra_simps)
  finally show ?case .
qed

lemma be_value_bound: "be_value bs < 256 ^ length bs"
proof (induction bs rule: rev_induct)
  case (snoc b bs)
  have "unat b < 256" using unat_bound [of b] by simp
  then show ?case using snoc by (simp add: be_value_snoc)
qed (simp add: be_value_def)

lemma length_u64_to_be_bytes [simp]: "length (u64_to_be_bytes w) = 8"
  by (simp add: u64_to_be_bytes_def)

lemma length_u32_to_be_bytes [simp]: "length (u32_to_be_bytes w) = 4"
  by (simp add: u32_to_be_bytes_def)

lemma be_value_u64: "be_value (u64_to_be_bytes w) = unat w"
  using unat_bound [of w] by (simp add: u64_to_be_bytes_def be_value_be_bytes)

lemma be_value_u32: "be_value (u32_to_be_bytes w) = unat w"
  using unat_bound [of w] by (simp add: u32_to_be_bytes_def be_value_be_bytes)

lemma u32_from_to_be_bytes [simp]: "u32_from_be_bytes (u32_to_be_bytes w) = w"
  by (simp add: u32_from_be_bytes_def be_value_u32)

lemma inj_u64_to_be_bytes: "u64_to_be_bytes a = u64_to_be_bytes b \<longleftrightarrow> a = b"
  by (metis be_value_u64 word_unat_eq_iff)

lemma inj_u32_to_be_bytes: "u32_to_be_bytes a = u32_to_be_bytes b \<longleftrightarrow> a = b"
  by (metis be_value_u32 word_unat_eq_iff)

section \<open>Lists\<close>

lemma filter_none [simp]: "(\<And>x. x \<in> set xs \<Longrightarrow> \<not> P x) \<Longrightarrow> filter P xs = []"
  by (induction xs) auto

lemma find_SomeD: "find P xs = Some x \<Longrightarrow> x \<in> set xs \<and> P x"
  by (induction xs) (auto split: if_splits)

lemma sum_list_filter_le:
  "sum_list (map f (filter P xs)) \<le> sum_list (map (f :: 'a \<Rightarrow> nat) xs)"
  by (induction xs) auto

lemma sum_list_filter_split:
  "sum_list (map f xs) =
     sum_list (map f (filter P xs)) + sum_list (map (f :: 'a \<Rightarrow> nat) (filter (\<lambda>x. \<not> P x) xs))"
  by (induction xs) auto

section \<open>Transition systems and their invariants\<close>

text \<open>
  The states a component can reach: an initial state and any number of steps. A component
  proves that its invariant holds initially and that each of its operations keeps it, and gets
  the invariant of every reachable state.
\<close>

inductive reach :: "('s \<Rightarrow> bool) \<Rightarrow> ('s \<Rightarrow> 's \<Rightarrow> bool) \<Rightarrow> 's \<Rightarrow> bool" for init step where
  start: "init s \<Longrightarrow> reach init step s"
| step: "reach init step s \<Longrightarrow> step s t \<Longrightarrow> reach init step t"

lemma reach_steps: "reach init step s \<Longrightarrow> step\<^sup>*\<^sup>* s t \<Longrightarrow> reach init step t"
  by (rotate_tac 1) (induction rule: rtranclp_induct; auto intro: reach.step)

locale invariant_system =
  fixes init :: "'s \<Rightarrow> bool" and step :: "'s \<Rightarrow> 's \<Rightarrow> bool" and inv :: "'s \<Rightarrow> bool"
  assumes inv_init: "init s \<Longrightarrow> inv s"
    and inv_step: "inv s \<Longrightarrow> step s t \<Longrightarrow> inv t"
begin

lemma reach_inv: "reach init step s \<Longrightarrow> inv s"
  by (induction rule: reach.induct) (auto intro: inv_init inv_step)

lemma steps_inv: "step\<^sup>*\<^sup>* s t \<Longrightarrow> inv s \<Longrightarrow> inv t"
  by (induction rule: rtranclp_induct) (auto intro: inv_step)

end

end
