(* ===== verification/BTreeMap.thy ===== *)
theory BTreeMap
  imports Prelude "HOL-Library.Multiset"
begin

text \<open>
  Rust's ordered map \<open>BTreeMap\<close> (and the key-ordered view of an LMDB database): the list of its
  entries in increasing key order. Iteration, the first key and the order of values are those of
  the list. The contract clients rely on is the locale \<open>ordered_map\<close>: lookup after insertion,
  removal and filtering, and the weight of a map (a sum over its entries) under each of them.
\<close>

named_theorems bt_simps "lookups and invariants of ordered maps"

type_synonym ('k, 'v) btreemap = "('k \<times> 'v) list"

abbreviation bt_get :: "('k, 'v) btreemap \<Rightarrow> 'k \<Rightarrow> 'v option" where
  "bt_get m k \<equiv> map_of m k"

abbreviation bt_keys :: "('k, 'v) btreemap \<Rightarrow> 'k list" where
  "bt_keys m \<equiv> map fst m"

abbreviation bt_values :: "('k, 'v) btreemap \<Rightarrow> 'v list" where
  "bt_values m \<equiv> map snd m"

definition bt_wf :: "('k::linorder, 'v) btreemap \<Rightarrow> bool" where
  "bt_wf m \<longleftrightarrow> sorted_wrt (<) (bt_keys m)"

definition bt_contains :: "('k, 'v) btreemap \<Rightarrow> 'k \<Rightarrow> bool" where
  "bt_contains m k \<longleftrightarrow> bt_get m k \<noteq> None"

fun bt_insert :: "'k::linorder \<Rightarrow> 'v \<Rightarrow> ('k, 'v) btreemap \<Rightarrow> ('k, 'v) btreemap" where
  "bt_insert k v [] = [(k, v)]"
| "bt_insert k v (e # m) =
     (if k < fst e then (k, v) # e # m
      else if k = fst e then (k, v) # m
      else e # bt_insert k v m)"

definition bt_remove :: "'k \<Rightarrow> ('k, 'v) btreemap \<Rightarrow> ('k, 'v) btreemap" where
  "bt_remove k m = filter (\<lambda>e. fst e \<noteq> k) m"

definition bt_retain :: "('k \<Rightarrow> 'v \<Rightarrow> bool) \<Rightarrow> ('k, 'v) btreemap \<Rightarrow> ('k, 'v) btreemap" where
  "bt_retain P m = filter (\<lambda>e. P (fst e) (snd e)) m"

definition bt_of_list :: "('k::linorder \<times> 'v) list \<Rightarrow> ('k, 'v) btreemap" where
  "bt_of_list kvs = fold (\<lambda>(k, v). bt_insert k v) kvs []"

definition bt_weight :: "('v \<Rightarrow> nat) \<Rightarrow> ('k, 'v) btreemap \<Rightarrow> nat" where
  "bt_weight w m = sum_list (map w (bt_values m))"

section \<open>Well-formedness\<close>

lemma bt_wf_Nil [simp, bt_simps]: "bt_wf []"
  by (simp add: bt_wf_def)

lemma bt_wf_Cons: "bt_wf (e # m) \<longleftrightarrow> (\<forall>x \<in> set (bt_keys m). fst e < x) \<and> bt_wf m"
  by (simp add: bt_wf_def)

lemma bt_wf_distinct: "bt_wf m \<Longrightarrow> distinct (bt_keys m)"
  by (induction m) (auto simp: bt_wf_Cons)

lemma set_keys_bt_insert: "set (bt_keys (bt_insert k v m)) = insert k (set (bt_keys m))"
  by (induction m) auto

lemma bt_wf_insert [simp, bt_simps]: "bt_wf m \<Longrightarrow> bt_wf (bt_insert k v m)"
proof (induction m)
  case (Cons e m)
  then show ?case
    using set_keys_bt_insert [of k v m] by (auto simp: bt_wf_Cons simp del: set_map)
qed (simp add: bt_wf_Cons)

lemma bt_wf_filter: "bt_wf m \<Longrightarrow> bt_wf (filter P m)"
  by (induction m) (auto simp: bt_wf_Cons)

lemma bt_wf_remove [simp, bt_simps]: "bt_wf m \<Longrightarrow> bt_wf (bt_remove k m)"
  by (simp add: bt_remove_def bt_wf_filter)

lemma bt_wf_retain [simp, bt_simps]: "bt_wf m \<Longrightarrow> bt_wf (bt_retain P m)"
  by (simp add: bt_retain_def bt_wf_filter)

lemma bt_wf_map_snd: "bt_wf (map (\<lambda>(k, v). (k, f k v)) m) \<longleftrightarrow> bt_wf m"
  by (simp add: bt_wf_def comp_def case_prod_beta)

section \<open>Lookups\<close>

lemma bt_get_insert [simp, bt_simps]: "bt_get (bt_insert k v m) = (bt_get m)(k \<mapsto> v)"
  by (induction m) (auto simp: fun_eq_iff)

lemma bt_get_remove [simp, bt_simps]: "bt_get (bt_remove k m) = (bt_get m)(k := None)"
  by (induction m) (auto simp: bt_remove_def fun_eq_iff)

lemma bt_get_retain:
  "bt_wf m \<Longrightarrow> bt_get (bt_retain P m) k =
     (case bt_get m k of None \<Rightarrow> None | Some v \<Rightarrow> if P k v then Some v else None)"
proof (induction m)
  case (Cons e m)
  then have "fst e = k \<Longrightarrow> bt_get m k = None"
    by (auto simp: bt_wf_Cons map_of_eq_None_iff)
  with Cons show ?case
    by (auto simp: bt_retain_def bt_wf_Cons split: option.splits)
qed (simp add: bt_retain_def)

lemma bt_get_iff_mem: "bt_wf m \<Longrightarrow> bt_get m k = Some v \<longleftrightarrow> (k, v) \<in> set m"
  by (simp add: bt_wf_distinct map_of_eq_Some_iff)

lemma bt_contains_iff: "bt_contains m k \<longleftrightarrow> k \<in> set (bt_keys m)"
  by (simp add: bt_contains_def map_of_eq_None_iff)

lemma set_bt_insert:
  "bt_wf m \<Longrightarrow> set (bt_insert k v m) = insert (k, v) {e \<in> set m. fst e \<noteq> k}"
  by (induction m) (auto simp: bt_wf_Cons)

lemma bt_ext:
  assumes "bt_wf m" "bt_wf m'" "bt_get m = bt_get m'"
  shows "m = m'"
proof (rule map_sorted_distinct_set_unique)
  show sets: "set m = set m'"
  proof (rule set_eqI)
    fix e :: "'a \<times> 'b"
    show "e \<in> set m \<longleftrightarrow> e \<in> set m'"
      using bt_get_iff_mem [OF assms(1), of "fst e" "snd e"]
        bt_get_iff_mem [OF assms(2), of "fst e" "snd e"] assms(3) by simp
  qed
  show "sorted (map fst m)" "sorted (map fst m')"
    using assms(1,2) by (auto simp: bt_wf_def strict_sorted_iff)
  show "distinct (map fst m)" "distinct (map fst m')"
    using assms(1,2) by (simp_all add: bt_wf_distinct)
  then show "inj_on fst (set m \<union> set m')"
    using sets by (simp add: distinct_map)
qed

section \<open>Sizes and weights\<close>

lemma bt_remove_absent: "bt_get m k = None \<Longrightarrow> bt_remove k m = m"
  by (auto simp: bt_remove_def map_of_eq_None_iff intro: filter_True)

lemma length_bt_insert_new: "bt_get m k = None \<Longrightarrow> length (bt_insert k v m) = Suc (length m)"
  by (induction m) (auto split: if_splits)

lemma mset_bt_insert_new: "bt_get m k = None \<Longrightarrow> mset (bt_insert k v m) = add_mset (k, v) (mset m)"
  by (induction m) (auto split: if_splits)

lemma length_bt_insert_le: "length (bt_insert k v m) \<le> Suc (length m)"
  by (induction m) auto

lemma length_bt_remove:
  "bt_wf m \<Longrightarrow> bt_get m k = Some v \<Longrightarrow> Suc (length (bt_remove k m)) = length m"
proof (induction m)
  case (Cons e m)
  show ?case
  proof (cases "fst e = k")
    case True
    then have "bt_get m k = None" using Cons.prems(1) by (auto simp: bt_wf_Cons map_of_eq_None_iff)
    with True show ?thesis using bt_remove_absent [of m k] by (simp add: bt_remove_def)
  next
    case False
    with Cons show ?thesis by (simp add: bt_remove_def bt_wf_Cons)
  qed
qed simp

lemma length_bt_remove_le: "length (bt_remove k m) \<le> length m"
  by (simp add: bt_remove_def)

lemma bt_weight_insert_new:
  "bt_get m k = None \<Longrightarrow> bt_weight w (bt_insert k v m) = bt_weight w m + w v"
  by (induction m) (auto simp: bt_weight_def split: if_splits)

lemma bt_weight_remove:
  "bt_wf m \<Longrightarrow> bt_get m k = Some v \<Longrightarrow> bt_weight w (bt_remove k m) + w v = bt_weight w m"
proof (induction m)
  case (Cons e m)
  show ?case
  proof (cases "fst e = k")
    case True
    then have "bt_get m k = None" using Cons.prems(1) by (auto simp: bt_wf_Cons map_of_eq_None_iff)
    with True Cons.prems(2) show ?thesis
      using bt_remove_absent [of m k] by (simp add: bt_remove_def bt_weight_def)
  next
    case False
    with Cons show ?thesis by (simp add: bt_remove_def bt_wf_Cons bt_weight_def)
  qed
qed simp

lemma bt_weight_filter_le: "bt_weight w (filter P m) \<le> bt_weight w m"
  by (induction m) (auto simp: bt_weight_def)

lemma bt_weight_retain: "bt_weight w (bt_retain P m) \<le> bt_weight w m"
  by (simp add: bt_retain_def bt_weight_filter_le)

lemma length_bt_retain: "length (bt_retain P m) \<le> length m"
  by (simp add: bt_retain_def)

section \<open>The contract of an ordered map\<close>

locale ordered_map =
  fixes insert :: "'k::linorder \<Rightarrow> 'v \<Rightarrow> 'm \<Rightarrow> 'm"
    and remove :: "'k \<Rightarrow> 'm \<Rightarrow> 'm"
    and retain :: "('k \<Rightarrow> 'v \<Rightarrow> bool) \<Rightarrow> 'm \<Rightarrow> 'm"
    and get :: "'m \<Rightarrow> 'k \<Rightarrow> 'v option"
    and len :: "'m \<Rightarrow> nat"
    and weight :: "('v \<Rightarrow> nat) \<Rightarrow> 'm \<Rightarrow> nat"
    and wf :: "'m \<Rightarrow> bool"
  assumes wf_insert: "wf m \<Longrightarrow> wf (insert k v m)"
    and wf_remove: "wf m \<Longrightarrow> wf (remove k m)"
    and wf_retain: "wf m \<Longrightarrow> wf (retain P m)"
    and get_insert: "wf m \<Longrightarrow> get (insert k v m) = (get m)(k \<mapsto> v)"
    and get_remove: "wf m \<Longrightarrow> get (remove k m) = (get m)(k := None)"
    and get_retain: "wf m \<Longrightarrow> get (retain P m) k =
          (case get m k of None \<Rightarrow> None | Some v \<Rightarrow> if P k v then Some v else None)"
    and len_insert: "wf m \<Longrightarrow> get m k = None \<Longrightarrow> len (insert k v m) = Suc (len m)"
    and len_remove: "wf m \<Longrightarrow> get m k = Some v \<Longrightarrow> Suc (len (remove k m)) = len m"
    and len_retain: "wf m \<Longrightarrow> len (retain P m) \<le> len m"
    and weight_insert: "wf m \<Longrightarrow> get m k = None \<Longrightarrow> weight w (insert k v m) = weight w m + w v"
    and weight_remove: "wf m \<Longrightarrow> get m k = Some v \<Longrightarrow> weight w (remove k m) + w v = weight w m"
    and weight_retain: "wf m \<Longrightarrow> weight w (retain P m) \<le> weight w m"
begin

text \<open>Replacing an entry by one under a fresh key: the size stays, the weight is exchanged.\<close>

lemma len_replace:
  assumes "wf m" "get m old = Some u" "get m k = None"
  shows "len (insert k v (remove old m)) = len m"
  using assms len_remove [OF assms(1,2)]
  by (simp add: len_insert wf_remove get_remove)

lemma weight_replace:
  assumes "wf m" "get m old = Some u" "get m k = None"
  shows "weight w (insert k v (remove old m)) + w u = weight w m + w v"
  using assms weight_remove [OF assms(1,2), of w]
  by (simp add: weight_insert wf_remove get_remove)

lemma get_replace:
  assumes "wf m" "x \<noteq> k"
  shows "get (insert k v (remove old m)) x = (if x = old then None else get m x)"
  using assms by (simp add: get_insert get_remove wf_remove)

lemma dom_insert: "wf m \<Longrightarrow> dom (get (insert k v m)) = Set.insert k (dom (get m))"
  by (simp add: get_insert)

lemma dom_retain: "wf m \<Longrightarrow> dom (get (retain P m)) \<subseteq> dom (get m)"
  by (auto simp: get_retain split: option.splits)

end

interpretation bt: ordered_map bt_insert bt_remove bt_retain map_of length bt_weight bt_wf
  by unfold_locales
    (simp_all add: bt_get_retain length_bt_insert_new length_bt_remove bt_weight_insert_new
      bt_weight_remove length_bt_retain bt_weight_retain)

section \<open>Multimaps: a list of values under each key\<close>

text \<open>\<open>entry(k).or_default().push(v)\<close>.\<close>

definition bt_push :: "'k::linorder \<Rightarrow> 'v \<Rightarrow> ('k, 'v list) btreemap \<Rightarrow> ('k, 'v list) btreemap" where
  "bt_push k v m = bt_insert k ((case bt_get m k of None \<Rightarrow> [] | Some vs \<Rightarrow> vs) @ [v]) m"

definition bt_queue :: "('k, 'v list) btreemap \<Rightarrow> 'k \<Rightarrow> 'v list" where
  "bt_queue m k = (case bt_get m k of None \<Rightarrow> [] | Some vs \<Rightarrow> vs)"

lemma bt_wf_push [simp, bt_simps]: "bt_wf m \<Longrightarrow> bt_wf (bt_push k v m)"
  by (simp add: bt_push_def)

lemma bt_queue_push: "bt_queue (bt_push k v m) x = (if x = k then bt_queue m k @ [v] else bt_queue m x)"
  by (simp add: bt_push_def bt_queue_def)

end
