(* ===== verification/Core.thy ===== *)
theory Core
  imports BTreeMap
begin

text \<open>
  The vocabulary the node shares with the protocol crate \<open>paqus\<close>, and the node's own parameters
  (\<open>src/runtime/mod.rs\<close>, module \<open>params\<close>).

  The crate's source is not part of the repository. Its plain data (transactions, blocks, accounts,
  ledgers, with the fields the node reads or writes) are records; its functions are the fields of
  the record \<open>core\<close>, which every definition that calls the crate takes as its argument \<open>K\<close>.
  Nothing is assumed of these functions here. A theorem that relies on their documented behaviour
  says so with a named hypothesis (\<open>block_laws\<close>, \<open>ledger_laws\<close>), and \<open>sample_core\<close> is a concrete
  instance that shows the hypotheses can be met.
\<close>

type_synonym address = bytes
type_synonym hash = bytes

section \<open>Parameters of the node\<close>

definition STORAGE_VERSION :: u8 where "STORAGE_VERSION = 1"
definition DAY :: u64 where "DAY = 24 * 60 * 60"
definition MAX_RELAY_TRANSACTION_AGE_SECS :: u64 where "MAX_RELAY_TRANSACTION_AGE_SECS = DAY"
definition LOW_FEE_EXPIRY_SECS :: u64 where "LOW_FEE_EXPIRY_SECS = 30 * 60"
definition MEMPOOL_EXPIRY_SECS :: u64 where "MEMPOOL_EXPIRY_SECS = DAY"
definition MAX_MEMPOOL_TXS :: usize where "MAX_MEMPOOL_TXS = 1000"
definition MAX_MEMPOOL_BYTES :: usize where "MAX_MEMPOOL_BYTES = 10 * 1024 * 1024"
definition MAX_NETWORK_MESSAGE_SIZE :: usize where "MAX_NETWORK_MESSAGE_SIZE = 8 * 1024 * 1024"
definition BASE_FEE :: u32 where "BASE_FEE = 2"
definition DEFAULT_TRANSACTION_FEE :: u32 where "DEFAULT_TRANSACTION_FEE = BASE_FEE"
definition MIN_RELAY_FEE_FLOOR :: u32 where "MIN_RELAY_FEE_FLOOR = 1"
definition DEFAULT_MIN_RELAY_FEE :: u32 where "DEFAULT_MIN_RELAY_FEE = MIN_RELAY_FEE_FLOOR"
definition DEFAULT_MARKET_FEE :: u32 where "DEFAULT_MARKET_FEE = DEFAULT_TRANSACTION_FEE"

lemmas param_defs =
  STORAGE_VERSION_def DAY_def MAX_RELAY_TRANSACTION_AGE_SECS_def LOW_FEE_EXPIRY_SECS_def
  MEMPOOL_EXPIRY_SECS_def MAX_MEMPOOL_TXS_def MAX_MEMPOOL_BYTES_def MAX_NETWORK_MESSAGE_SIZE_def
  BASE_FEE_def DEFAULT_TRANSACTION_FEE_def MIN_RELAY_FEE_FLOOR_def DEFAULT_MIN_RELAY_FEE_def
  DEFAULT_MARKET_FEE_def

section \<open>Data of the protocol crate\<close>

record transaction =
  tx_from :: address
  tx_to :: address
  tx_amount :: u32
  tx_fee :: u32
  tx_nonce :: u64
  tx_timestamp :: u64

record signed_transaction =
  payload :: transaction
  public_key :: bytes
  signature :: bytes

record coinbase_transaction =
  cb_to :: address
  cb_subsidy :: u32
  cb_fees :: u32

record genesis_allocation =
  alloc_to :: address
  alloc_amount :: u32

record block_header =
  bh_height :: u64
  bh_previous_hash :: hash
  bh_merkle_root :: hash
  bh_state_root :: hash
  bh_miner_address :: address
  bh_difficulty :: u32
  bh_timestamp :: u64
  bh_nonce :: u64

record block =
  header :: block_header
  block_transactions :: "signed_transaction list"
  block_coinbase :: "coinbase_transaction option"
  genesis_allocations :: "genesis_allocation list"

abbreviation block_height :: "block \<Rightarrow> u64" where "block_height b \<equiv> bh_height (header b)"
abbreviation previous_hash :: "block \<Rightarrow> hash" where "previous_hash b \<equiv> bh_previous_hash (header b)"
abbreviation block_state_root :: "block \<Rightarrow> hash" where "block_state_root b \<equiv> bh_state_root (header b)"
abbreviation miner_address :: "block \<Rightarrow> address" where "miner_address b \<equiv> bh_miner_address (header b)"
abbreviation block_difficulty :: "block \<Rightarrow> u32" where "block_difficulty b \<equiv> bh_difficulty (header b)"
abbreviation block_timestamp :: "block \<Rightarrow> u64" where "block_timestamp b \<equiv> bh_timestamp (header b)"

record account =
  acc_address :: address
  acc_balance :: u32
  acc_nonce :: u64
  acc_credits :: "bytes list" \<comment> \<open>opaque: the node only counts them\<close>

record chain =
  chain_blocks :: "(u64, block) btreemap"

record ledger =
  ledger_accounts :: "(address, account) btreemap"
  ledger_chain :: chain

datatype transaction_error = FromFuture | Expired | OtherTransactionError nat
datatype state_error = InvalidNonce | BalanceOverflow | InsufficientBalance | OtherStateError nat
datatype block_error = BlockInvalidStateRoot | OtherBlockError nat
datatype ledger_error =
    AccountNotFound
  | InvalidState state_error
  | InvalidStateRoot
  | LedgerDuplicateBlock
  | OtherLedgerError nat
datatype consensus_error = UnexpectedDifficulty | InvalidBlock block_error | OtherConsensusError nat
datatype fork_choice_error = MissingParent | ForkDuplicateBlock | OtherForkChoiceError nat

section \<open>Functions of the protocol crate\<close>

record core =
  tx_hash :: "signed_transaction \<Rightarrow> hash"
  tx_serialized_size :: "signed_transaction \<Rightarrow> usize"
  validate_signed :: "signed_transaction \<Rightarrow> transaction_error + unit"
  validate_signed_at :: "signed_transaction \<Rightarrow> u64 \<Rightarrow> transaction_error + unit"
  block_hash :: "block \<Rightarrow> hash"
  block_serialized_size :: "block \<Rightarrow> usize"
  with_coinbase :: "u64 \<Rightarrow> hash \<Rightarrow> address \<Rightarrow> u32 \<Rightarrow> u64 \<Rightarrow> u64 \<Rightarrow>
    coinbase_transaction option \<Rightarrow> signed_transaction list \<Rightarrow> block"
  set_state_root :: "hash \<Rightarrow> block \<Rightarrow> block"
  available_balance_at :: "account \<Rightarrow> u64 \<Rightarrow> u32"
  unspendable_balance_at :: "account \<Rightarrow> u64 \<Rightarrow> u32"
  account_of :: "ledger \<Rightarrow> address \<Rightarrow> account option"
  ledger_balance :: "ledger \<Rightarrow> address \<Rightarrow> u32 option"
  ledger_confirmed_balance :: "ledger \<Rightarrow> address \<Rightarrow> u32 option"
  ledger_tip_height :: "ledger \<Rightarrow> u64 option"
  ledger_tip_hash :: "ledger \<Rightarrow> hash option"
  ledger_block :: "ledger \<Rightarrow> u64 \<Rightarrow> block option"
  ledger_state_root :: "ledger \<Rightarrow> hash"
  mintable_subsidy :: "ledger \<Rightarrow> u64 \<Rightarrow> ledger_error + u32"
  state_root_after_block :: "ledger \<Rightarrow> block \<Rightarrow> ledger_error + hash"
  ledger_apply_block :: "ledger \<Rightarrow> block \<Rightarrow> ledger_error + ledger"
  chain_insert_block :: "chain \<Rightarrow> block \<Rightarrow> ledger_error + chain"
  chain_new :: chain
  ledger_new :: ledger
  calculate_state_root :: "(address, account) btreemap \<Rightarrow> hash"
  is_snapshot_height :: "u64 \<Rightarrow> bool"
  BLOCK_TIME :: u32
  DIFFICULTY_START :: u32
  DIFFICULTY_ADJUSTMENT_INTERVAL :: u64
  HASH_SIZE :: nat
  ADDRESS_SIZE :: nat

definition zero_hash :: "core \<Rightarrow> hash" where "zero_hash K = replicate (HASH_SIZE K) 0"

text \<open>\<open>MAX_RELAY_TRANSACTION_FUTURE_SECS\<close> is the crate's block time, as a \<open>u64\<close>.\<close>

definition MAX_RELAY_TRANSACTION_FUTURE_SECS :: "core \<Rightarrow> u64" where
  "MAX_RELAY_TRANSACTION_FUTURE_SECS K = ucast (BLOCK_TIME K)"

section \<open>Documented behaviour of the crate, as hypotheses\<close>

text \<open>The block constructor and the state-root setter put their arguments into the header.\<close>

definition block_laws :: "core \<Rightarrow> bool" where
  "block_laws K \<longleftrightarrow>
     (\<forall>h p a d t n c txs. let b = with_coinbase K h p a d t n c txs in
        block_height b = h \<and> previous_hash b = p \<and> miner_address b = a \<and> block_difficulty b = d \<and>
        block_timestamp b = t \<and> bh_nonce (header b) = n \<and> block_coinbase b = c \<and>
        block_transactions b = txs) \<and>
     (\<forall>r b. set_state_root K r b = b\<lparr>header := (header b)\<lparr>bh_state_root := r\<rparr>\<rparr>)"

text \<open>
  The ledger's queries read its public maps: the account map and the blocks of the active chain,
  whose tip is the block of greatest height; a new ledger and a new chain are empty.
\<close>

definition ledger_laws :: "core \<Rightarrow> bool" where
  "ledger_laws K \<longleftrightarrow>
     chain_blocks (chain_new K) = [] \<and>
     ledger_accounts (ledger_new K) = [] \<and> ledger_chain (ledger_new K) = chain_new K \<and>
     (\<forall>L a. account_of K L a = bt_get (ledger_accounts L) a) \<and>
     (\<forall>L h. ledger_block K L h = bt_get (chain_blocks (ledger_chain L)) h) \<and>
     (\<forall>L. ledger_tip_height K L =
        (case rev (chain_blocks (ledger_chain L)) of [] \<Rightarrow> None | e # _ \<Rightarrow> Some (fst e))) \<and>
     (\<forall>L. ledger_tip_hash K L =
        (case rev (chain_blocks (ledger_chain L)) of [] \<Rightarrow> None | e # _ \<Rightarrow> Some (block_hash K (snd e))))"

section \<open>A concrete instance\<close>

text \<open>
  A small instance used to evaluate definitions on concrete inputs: a transaction's hash is its
  signature, a block's hash its Merkle root, every signature is valid, the whole balance is
  available and an applied block is appended to the chain.
\<close>

definition sample_core :: core where
  "sample_core = \<lparr>
     tx_hash = signature,
     tx_serialized_size = (\<lambda>_. 100),
     validate_signed = (\<lambda>_. Ok ()),
     validate_signed_at = (\<lambda>_ _. Ok ()),
     block_hash = (\<lambda>b. bh_merkle_root (header b)),
     block_serialized_size = (\<lambda>_. 200),
     with_coinbase = (\<lambda>h p a d t n c txs.
       \<lparr>header = \<lparr>bh_height = h, bh_previous_hash = p, bh_merkle_root = p, bh_state_root = [0],
          bh_miner_address = a, bh_difficulty = d, bh_timestamp = t, bh_nonce = n\<rparr>,
        block_transactions = txs, block_coinbase = c, genesis_allocations = []\<rparr>),
     set_state_root = (\<lambda>r b. b\<lparr>header := (header b)\<lparr>bh_state_root := r\<rparr>\<rparr>),
     available_balance_at = (\<lambda>a _. acc_balance a),
     unspendable_balance_at = (\<lambda>_ _. 0),
     account_of = (\<lambda>L a. bt_get (ledger_accounts L) a),
     ledger_balance = (\<lambda>L a. map_option acc_balance (bt_get (ledger_accounts L) a)),
     ledger_confirmed_balance = (\<lambda>L a. map_option acc_balance (bt_get (ledger_accounts L) a)),
     ledger_tip_height = (\<lambda>L. case rev (chain_blocks (ledger_chain L)) of [] \<Rightarrow> None | e # _ \<Rightarrow> Some (fst e)),
     ledger_tip_hash = (\<lambda>L. case rev (chain_blocks (ledger_chain L)) of
       [] \<Rightarrow> None | e # _ \<Rightarrow> Some (bh_merkle_root (header (snd e)))),
     ledger_block = (\<lambda>L h. bt_get (chain_blocks (ledger_chain L)) h),
     ledger_state_root = (\<lambda>_. [1]),
     mintable_subsidy = (\<lambda>_ _. Ok 50),
     state_root_after_block = (\<lambda>_ _. Ok [1]),
     ledger_apply_block = (\<lambda>L b. Ok (L\<lparr>ledger_chain :=
       \<lparr>chain_blocks = bt_insert (block_height b) b (chain_blocks (ledger_chain L))\<rparr>\<rparr>)),
     chain_insert_block = (\<lambda>c b. Ok \<lparr>chain_blocks = bt_insert (block_height b) b (chain_blocks c)\<rparr>),
     chain_new = \<lparr>chain_blocks = []\<rparr>,
     ledger_new = \<lparr>ledger_accounts = [], ledger_chain = \<lparr>chain_blocks = []\<rparr>\<rparr>,
     calculate_state_root = (\<lambda>_. [1]),
     is_snapshot_height = (\<lambda>h. h mod 100 = 0),
     BLOCK_TIME = 60,
     DIFFICULTY_START = 8,
     DIFFICULTY_ADJUSTMENT_INTERVAL = 10,
     HASH_SIZE = 1,
     ADDRESS_SIZE = 1\<rparr>"

lemma sample_block_laws: "block_laws sample_core"
  by (simp add: block_laws_def sample_core_def Let_def)

lemma sample_ledger_laws: "ledger_laws sample_core"
  by (simp add: ledger_laws_def sample_core_def split: list.splits)

end
