(* ===== verification/Mempool.thy ===== *)
theory Mempool
  imports Core
begin

text \<open>
  The transaction pool (\<open>src/runtime/mempool/mempool.rs\<close>, \<open>error.rs\<close>): admission with relay
  policy and ledger checks, replacement by fee, expiry, selection of transactions for a block and
  the candidate block. An operation on \<open>&mut self\<close> returns the new pool beside its result, since
  a failing call may already have changed the pool (every insertion prunes expired entries first).
\<close>

section \<open>Data\<close>

datatype mempool_error =
    DuplicateTransaction
  | FeeTooLow
  | MempoolFull
  | ReplacementFeeTooLow
  | InvalidTransaction transaction_error
  | InvalidLedgerState ledger_error

record mempool_config =
  max_transactions :: usize
  max_bytes :: usize
  transaction_ttl_secs :: u64
  low_fee_ttl_secs :: u64
  min_relay_fee :: u32
  market_fee :: u32

record mempool_entry =
  entry_transaction :: signed_transaction
  inserted_at :: u64

record mempool =
  pool_transactions :: "(hash, mempool_entry) btreemap"
  pool_config :: mempool_config
  total_bytes :: usize

definition default_mempool_config :: mempool_config where
  "default_mempool_config = \<lparr>
     max_transactions = MAX_MEMPOOL_TXS,
     max_bytes = MAX_MEMPOOL_BYTES,
     transaction_ttl_secs = MEMPOOL_EXPIRY_SECS,
     low_fee_ttl_secs = LOW_FEE_EXPIRY_SECS,
     min_relay_fee = DEFAULT_MIN_RELAY_FEE,
     market_fee = DEFAULT_MARKET_FEE\<rparr>"

definition with_config :: "mempool_config \<Rightarrow> mempool" where
  "with_config c = \<lparr>pool_transactions = [], pool_config = c, total_bytes = 0\<rparr>"

definition mempool_new :: mempool where
  "mempool_new = \<lparr>pool_transactions = [], pool_config = default_mempool_config, total_bytes = 0\<rparr>"

section \<open>Queries and removal\<close>

definition mempool_get :: "mempool \<Rightarrow> hash \<Rightarrow> signed_transaction option" where
  "mempool_get m h = map_option entry_transaction (bt_get (pool_transactions m) h)"

definition transactions :: "mempool \<Rightarrow> signed_transaction list" where
  "transactions m = map entry_transaction (bt_values (pool_transactions m))"

definition mempool_contains :: "mempool \<Rightarrow> hash \<Rightarrow> bool" where
  "mempool_contains m h = bt_contains (pool_transactions m) h"

definition mempool_len :: "mempool \<Rightarrow> nat" where
  "mempool_len m = length (pool_transactions m)"

definition entry_size :: "core \<Rightarrow> mempool_entry \<Rightarrow> usize" where
  "entry_size K e = tx_serialized_size K (entry_transaction e)"

definition mempool_remove :: "core \<Rightarrow> mempool \<Rightarrow> hash \<Rightarrow> mempool \<times> signed_transaction option" where
  "mempool_remove K m h =
     (case bt_get (pool_transactions m) h of
        None \<Rightarrow> (m, None)
      | Some e \<Rightarrow>
          (m\<lparr>pool_transactions := bt_remove h (pool_transactions m),
             total_bytes := saturating_sub (total_bytes m) (entry_size K e)\<rparr>,
           Some (entry_transaction e)))"

definition mempool_clear :: "mempool \<Rightarrow> mempool" where
  "mempool_clear m = m\<lparr>pool_transactions := [], total_bytes := 0\<rparr>"

definition entry_retained :: "mempool_config \<Rightarrow> u64 \<Rightarrow> mempool_entry \<Rightarrow> bool" where
  "entry_retained c now e =
     (let ttl = (if tx_fee (payload (entry_transaction e)) < market_fee c
                 then low_fee_ttl_secs c else transaction_ttl_secs c)
      in saturating_sub now (inserted_at e) \<le> ttl)"

definition prune_expired :: "core \<Rightarrow> mempool \<Rightarrow> u64 \<Rightarrow> mempool \<times> nat" where
  "prune_expired K m now =
     (let before = length (pool_transactions m);
          kept = bt_retain (\<lambda>_ e. entry_retained (pool_config m) now e) (pool_transactions m);
          retained_bytes = fold (\<lambda>e acc. saturating_add acc (entry_size K e)) (bt_values kept) 0
      in (m\<lparr>pool_transactions := kept, total_bytes := retained_bytes\<rparr>, before - length kept))"

definition remove_confirmed :: "core \<Rightarrow> mempool \<Rightarrow> block \<Rightarrow> mempool" where
  "remove_confirmed K m b =
     m\<lparr>pool_transactions :=
         fold (\<lambda>t. bt_remove (tx_hash K t)) (block_transactions b) (pool_transactions m)\<rparr>"

section \<open>Admission policy\<close>

definition validate_fee_policy :: "mempool \<Rightarrow> signed_transaction \<Rightarrow> mempool_error + unit" where
  "validate_fee_policy m tx =
     (let floor_fee = max (min_relay_fee (pool_config m)) MIN_RELAY_FEE_FLOOR
      in if tx_fee (payload tx) < floor_fee then Err FeeTooLow else Ok ())"

definition validate_timestamp_policy :: "core \<Rightarrow> signed_transaction \<Rightarrow> u64 \<Rightarrow> mempool_error + unit" where
  "validate_timestamp_policy K tx now =
     (if saturating_add now (MAX_RELAY_TRANSACTION_FUTURE_SECS K) < tx_timestamp (payload tx)
      then Err (InvalidTransaction FromFuture)
      else if MAX_RELAY_TRANSACTION_AGE_SECS < saturating_sub now (tx_timestamp (payload tx))
      then Err (InvalidTransaction Expired)
      else Ok ())"

definition same_slot :: "signed_transaction \<Rightarrow> signed_transaction \<Rightarrow> bool" where
  "same_slot t u \<longleftrightarrow> tx_from (payload t) = tx_from (payload u) \<and> tx_nonce (payload t) = tx_nonce (payload u)"

definition replacement_candidate :: "mempool \<Rightarrow> signed_transaction \<Rightarrow> mempool_error + hash option" where
  "replacement_candidate m tx =
     (case find (\<lambda>(_, e). same_slot (entry_transaction e) tx) (pool_transactions m) of
        None \<Rightarrow> Ok None
      | Some (h, e) \<Rightarrow>
          if tx_fee (payload tx) \<le> tx_fee (payload (entry_transaction e))
          then Err ReplacementFeeTooLow
          else Ok (Some h))"

text \<open>The loop over the sender's pending transactions: expected nonce and spendable balance.\<close>

fun check_pending :: "signed_transaction list \<Rightarrow> u64 \<Rightarrow> u32 \<Rightarrow> ledger_error + u64 \<times> u32" where
  "check_pending [] expected_nonce spendable = Ok (expected_nonce, spendable)"
| "check_pending (p # ps) expected_nonce spendable =
     (if tx_nonce (payload p) \<noteq> expected_nonce then Err (InvalidState InvalidNonce)
      else case checked_add (tx_amount (payload p)) (tx_fee (payload p)) of
        None \<Rightarrow> Err (InvalidState BalanceOverflow)
      | Some cost \<Rightarrow>
          if spendable < cost then Err (InvalidState InsufficientBalance)
          else check_pending ps (saturating_add expected_nonce 1) (spendable - cost))"

definition pending_from_sender :: "mempool \<Rightarrow> address \<Rightarrow> hash option \<Rightarrow> signed_transaction list" where
  "pending_from_sender m from excluded =
     sort_key (\<lambda>p. tx_nonce (payload p))
       (filter (\<lambda>p. tx_from (payload p) = from)
         (map (\<lambda>(_, e). entry_transaction e)
           (filter (\<lambda>(h, _). Some h \<noteq> excluded) (pool_transactions m))))"

definition validate_against_ledger_excluding ::
  "core \<Rightarrow> mempool \<Rightarrow> ledger \<Rightarrow> signed_transaction \<Rightarrow> hash option \<Rightarrow> mempool_error + unit" where
  "validate_against_ledger_excluding K m L tx excluded =
     res_bind (map_err InvalidTransaction (validate_signed K tx)) (\<lambda>_.
     res_bind (validate_fee_policy m tx) (\<lambda>_.
     res_bind (ok_or (account_of K L (tx_from (payload tx))) (InvalidLedgerState AccountNotFound)) (\<lambda>sender.
     let current_height = (case ledger_tip_height K L of None \<Rightarrow> 0 | Some h \<Rightarrow> h) in
     res_bind (map_err InvalidLedgerState
       (check_pending (pending_from_sender m (tx_from (payload tx)) excluded)
          (acc_nonce sender) (available_balance_at K sender current_height)))
     (\<lambda>(expected_nonce, spendable).
       if tx_nonce (payload tx) \<noteq> expected_nonce
       then Err (InvalidLedgerState (InvalidState InvalidNonce))
       else case checked_add (tx_amount (payload tx)) (tx_fee (payload tx)) of
         None \<Rightarrow> Err (InvalidLedgerState (InvalidState BalanceOverflow))
       | Some cost \<Rightarrow>
           if spendable < cost
           then Err (InvalidLedgerState (InvalidState InsufficientBalance))
           else Ok ()))))"

definition validate_against_ledger ::
  "core \<Rightarrow> mempool \<Rightarrow> ledger \<Rightarrow> signed_transaction \<Rightarrow> mempool_error + unit" where
  "validate_against_ledger K m L tx =
     res_bind (map_err InvalidTransaction (validate_signed K tx)) (\<lambda>_.
     res_bind (validate_fee_policy m tx) (\<lambda>_.
     validate_against_ledger_excluding K m L tx None))"

section \<open>Insertion\<close>

definition insert_unchecked ::
  "core \<Rightarrow> mempool \<Rightarrow> signed_transaction \<Rightarrow> u64 \<Rightarrow> hash option \<Rightarrow> mempool \<times> (mempool_error + hash)" where
  "insert_unchecked K m tx at replacement =
     (let h = tx_hash K tx in
      if bt_contains (pool_transactions m) h then (m, Err DuplicateTransaction)
      else
        let transaction_size = tx_serialized_size K tx;
            replacement_size =
              (case Option.bind replacement (bt_get (pool_transactions m)) of
                 None \<Rightarrow> 0 | Some e \<Rightarrow> entry_size K e)
        in if replacement = None \<and> unat (max_transactions (pool_config m)) \<le> length (pool_transactions m)
           then (m, Err MempoolFull)
           else if max_bytes (pool_config m) <
                  saturating_add (saturating_sub (total_bytes m) replacement_size) transaction_size
           then (m, Err MempoolFull)
           else
             let m' = (case replacement of None \<Rightarrow> m | Some r \<Rightarrow> fst (mempool_remove K m r))
             in (m'\<lparr>pool_transactions :=
                      bt_insert h \<lparr>entry_transaction = tx, inserted_at = at\<rparr> (pool_transactions m'),
                    total_bytes := saturating_add (total_bytes m') transaction_size\<rparr>,
                 Ok h))"

definition insert_at ::
  "core \<Rightarrow> mempool \<Rightarrow> signed_transaction \<Rightarrow> u64 \<Rightarrow> mempool \<times> (mempool_error + hash)" where
  "insert_at K m tx now =
     (let m' = fst (prune_expired K m now) in
      case res_bind (validate_timestamp_policy K tx now) (\<lambda>_.
           res_bind (map_err InvalidTransaction (validate_signed_at K tx now)) (\<lambda>_.
           validate_fee_policy m' tx)) of
        Inl e \<Rightarrow> (m', Err e)
      | Inr _ \<Rightarrow> insert_unchecked K m' tx now None)"

definition insert_validated_at ::
  "core \<Rightarrow> mempool \<Rightarrow> ledger \<Rightarrow> signed_transaction \<Rightarrow> u64 \<Rightarrow> mempool \<times> (mempool_error + hash)" where
  "insert_validated_at K m L tx now =
     (let m' = fst (prune_expired K m now) in
      case res_bind (validate_timestamp_policy K tx now) (\<lambda>_.
           res_bind (map_err InvalidTransaction (validate_signed_at K tx now)) (\<lambda>_.
           res_bind (validate_fee_policy m' tx) (\<lambda>_.
           res_bind (replacement_candidate m' tx) (\<lambda>replacement.
           res_bind (validate_against_ledger_excluding K m' L tx replacement) (\<lambda>_.
           Ok replacement))))) of
        Inl e \<Rightarrow> (m', Err e)
      | Inr replacement \<Rightarrow> insert_unchecked K m' tx now replacement)"

text \<open>The same with the system clock: the seconds since 1970, or nothing when the clock is set before.\<close>

definition current_unix_timestamp :: "u64 option \<Rightarrow> u64" where
  "current_unix_timestamp clock = (case clock of None \<Rightarrow> 0 | Some secs \<Rightarrow> secs)"

definition mempool_insert ::
  "core \<Rightarrow> mempool \<Rightarrow> signed_transaction \<Rightarrow> u64 option \<Rightarrow> mempool \<times> (mempool_error + hash)" where
  "mempool_insert K m tx clock = insert_at K m tx (current_unix_timestamp clock)"

definition mempool_insert_validated ::
  "core \<Rightarrow> mempool \<Rightarrow> ledger \<Rightarrow> signed_transaction \<Rightarrow> u64 option \<Rightarrow> mempool \<times> (mempool_error + hash)" where
  "mempool_insert_validated K m L tx clock = insert_validated_at K m L tx (current_unix_timestamp clock)"

section \<open>Selection for a block\<close>

definition group_by_sender :: "signed_transaction list \<Rightarrow> (address, signed_transaction list) btreemap" where
  "group_by_sender txs = fold (\<lambda>t. bt_push (tx_from (payload t)) t) txs []"

definition sort_queues ::
  "core \<Rightarrow> (address, signed_transaction list) btreemap \<Rightarrow> (address, signed_transaction list) btreemap" where
  "sort_queues K m = map (\<lambda>(s, q). (s, sort_key (\<lambda>t. (tx_nonce (payload t), tx_hash K t)) q)) m"

text \<open>
  The comparison of two candidates: greater fee, then smaller nonce, then smaller hash. \<open>max_by\<close>
  keeps the later of two candidates that compare equal.
\<close>

definition candidate_le :: "core \<Rightarrow> signed_transaction \<Rightarrow> signed_transaction \<Rightarrow> bool" where
  "candidate_le K l r \<longleftrightarrow>
     tx_fee (payload l) < tx_fee (payload r) \<or>
     tx_fee (payload l) = tx_fee (payload r) \<and>
       (tx_nonce (payload r) < tx_nonce (payload l) \<or>
        tx_nonce (payload r) = tx_nonce (payload l) \<and> tx_hash K r \<le> tx_hash K l)"

fun best_candidate ::
  "core \<Rightarrow> (address \<times> signed_transaction) \<Rightarrow> (address \<times> signed_transaction) list \<Rightarrow> address \<times> signed_transaction" where
  "best_candidate K x [] = x"
| "best_candidate K x (y # ys) = best_candidate K (if candidate_le K (snd x) (snd y) then y else x) ys"

definition queue_heads :: "(address, signed_transaction list) btreemap \<Rightarrow> (address \<times> signed_transaction) list" where
  "queue_heads m = List.map_filter (\<lambda>(s, q). case q of [] \<Rightarrow> None | t # _ \<Rightarrow> Some (s, t)) m"

definition best_sender :: "core \<Rightarrow> (address, signed_transaction list) btreemap \<Rightarrow> address option" where
  "best_sender K m = (case queue_heads m of [] \<Rightarrow> None | c # cs \<Rightarrow> Some (fst (best_candidate K c cs)))"

text \<open>
  The \<open>while\<close> loop, with the number of transactions still wanted (\<open>limit - selected.len()\<close>) as its
  counter. The last two branches of the inner case stand for the panics of \<open>expect\<close> and
  \<open>remove(0)\<close>; \<open>best_sender_queue\<close> below shows that they are never taken.
\<close>

fun select_loop ::
  "core \<Rightarrow> nat \<Rightarrow> (address, signed_transaction list) btreemap \<Rightarrow> signed_transaction list" where
  "select_loop K 0 m = []"
| "select_loop K (Suc n) m =
     (case best_sender K m of
        None \<Rightarrow> []
      | Some s \<Rightarrow>
          (case bt_get m s of
             Some (t # ts) \<Rightarrow>
               t # select_loop K n (if ts = [] then bt_remove s m else bt_insert s ts m)
           | Some [] \<Rightarrow> []
           | None \<Rightarrow> []))"

definition select_for_block :: "core \<Rightarrow> mempool \<Rightarrow> nat \<Rightarrow> signed_transaction list" where
  "select_for_block K m limit = select_loop K limit (sort_queues K (group_by_sender (transactions m)))"

definition create_candidate_block ::
  "core \<Rightarrow> mempool \<Rightarrow> ledger \<Rightarrow> address \<Rightarrow> u64 \<Rightarrow> u64 \<Rightarrow> nat \<Rightarrow> ledger_error + block" where
  "create_candidate_block K m L miner ts nonce transaction_limit =
     (let height = (case ledger_tip_height K L of None \<Rightarrow> 0 | Some h \<Rightarrow> saturating_add h 1);
          prev = (case ledger_tip_hash K L of None \<Rightarrow> zero_hash K | Some h \<Rightarrow> h);
          txs = select_for_block K m transaction_limit;
          fees = sum_list (map (\<lambda>t. tx_fee (payload t)) txs)
      in res_bind
           (if height = 0 \<and> prev = zero_hash K then Ok None
            else res_bind (mintable_subsidy K L height) (\<lambda>subsidy.
              Ok (Some \<lparr>cb_to = miner, cb_subsidy = subsidy, cb_fees = fees\<rparr>)))
           (\<lambda>coinbase.
             let b = with_coinbase K height prev miner (DIFFICULTY_START K) ts nonce coinbase txs
             in res_bind (state_root_after_block K L b) (\<lambda>root. Ok (set_state_root K root b))))"

end
