(* ===== verification/Mempool_Accounting.thy ===== *)
theory Mempool_Accounting
  imports Mempool
begin

text \<open>
  Byte and count accounting of the pool. The invariant \<open>pool_ok\<close> says that every entry is stored
  under its transaction's hash, that the recorded byte total covers the bytes really held and stays
  within the configured capacity, and that the entry count stays within its limit. Every public
  operation keeps it, so it holds in every reachable pool; pruning makes the recorded total exact.
\<close>

section \<open>The invariant\<close>

definition pool_bytes :: "core \<Rightarrow> mempool \<Rightarrow> nat" where
  "pool_bytes K m = bt_weight (\<lambda>e. unat (entry_size K e)) (pool_transactions m)"

definition pool_wf :: "core \<Rightarrow> mempool \<Rightarrow> bool" where
  "pool_wf K m \<longleftrightarrow> bt_wf (pool_transactions m) \<and>
     (\<forall>(h, e) \<in> set (pool_transactions m). h = tx_hash K (entry_transaction e))"

text \<open>The byte capacity is not the largest \<open>usize\<close>, where saturation would hide an overflow.\<close>

definition config_ok :: "mempool_config \<Rightarrow> bool" where
  "config_ok c \<longleftrightarrow> unat (max_bytes c) < 2 ^ 64 - 1"

definition pool_ok :: "core \<Rightarrow> mempool \<Rightarrow> bool" where
  "pool_ok K m \<longleftrightarrow> pool_wf K m \<and> config_ok (pool_config m) \<and>
     pool_bytes K m \<le> unat (total_bytes m) \<and>
     unat (total_bytes m) \<le> unat (max_bytes (pool_config m)) \<and>
     length (pool_transactions m) \<le> unat (max_transactions (pool_config m))"

lemma pool_okD:
  assumes "pool_ok K m"
  shows "pool_wf K m" "bt_wf (pool_transactions m)" "config_ok (pool_config m)"
    "pool_bytes K m \<le> unat (total_bytes m)"
    "unat (total_bytes m) \<le> unat (max_bytes (pool_config m))"
    "length (pool_transactions m) \<le> unat (max_transactions (pool_config m))"
  using assms by (simp_all add: pool_ok_def pool_wf_def)

lemma default_config_ok [simp]: "config_ok default_mempool_config"
  by (simp add: config_ok_def default_mempool_config_def param_defs)

lemma with_config_ok: "config_ok c \<Longrightarrow> pool_ok K (with_config c)"
  by (simp add: pool_ok_def with_config_def pool_wf_def pool_bytes_def bt_weight_def)

section \<open>Pruning\<close>

lemma unat_fold_saturating_add:
  "unat (fold (\<lambda>e acc. saturating_add acc (f e)) es (a :: usize)) =
     min (unat a + sum_list (map (\<lambda>e. unat (f e)) es)) (2 ^ 64 - 1)"
proof (induction es arbitrary: a)
  case Nil
  show ?case using unat_bound [of a] by simp
next
  case (Cons e es)
  show ?case by (simp add: Cons.IH unat_saturating_add)
qed

lemma pool_wf_filter:
  "pool_wf K m \<Longrightarrow> pool_wf K (m\<lparr>pool_transactions := filter P (pool_transactions m), total_bytes := n\<rparr>)"
  by (auto simp: pool_wf_def bt_wf_filter)

lemma prune_expired_config [simp]: "pool_config (fst (prune_expired K m now)) = pool_config m"
  by (simp add: prune_expired_def Let_def)

lemma prune_expired_transactions:
  "pool_transactions (fst (prune_expired K m now)) =
     bt_retain (\<lambda>_ e. entry_retained (pool_config m) now e) (pool_transactions m)"
  by (simp add: prune_expired_def Let_def)

lemma prune_expired_wf: "pool_wf K m \<Longrightarrow> pool_wf K (fst (prune_expired K m now))"
  by (simp add: prune_expired_def Let_def bt_retain_def pool_wf_filter)

lemma prune_expired_bytes_le: "pool_bytes K (fst (prune_expired K m now)) \<le> pool_bytes K m"
  by (simp add: pool_bytes_def prune_expired_transactions bt_weight_retain)

lemma prune_expired_total:
  assumes "pool_bytes K m < 2 ^ 64"
  shows "unat (total_bytes (fst (prune_expired K m now))) = pool_bytes K (fst (prune_expired K m now))"
proof -
  have "pool_bytes K (fst (prune_expired K m now)) \<le> 2 ^ 64 - 1"
    using prune_expired_bytes_le [of K m now] assms by linarith
  then show ?thesis
    by (simp add: prune_expired_def Let_def unat_fold_saturating_add pool_bytes_def bt_weight_def comp_def)
qed

lemma prune_expired_ok: "pool_ok K m \<Longrightarrow> pool_ok K (fst (prune_expired K m now))"
proof -
  assume ok: "pool_ok K m"
  note d = pool_okD [OF ok]
  have "pool_bytes K m < 2 ^ 64"
    using d(4) unat_bound [of "total_bytes m"] by simp
  from prune_expired_total [OF this] show ?thesis
    using d prune_expired_wf [OF d(1)] prune_expired_bytes_le [of K m now]
      length_bt_retain [of "\<lambda>_ e. entry_retained (pool_config m) now e" "pool_transactions m"]
    by (simp add: pool_ok_def prune_expired_transactions)
qed

lemma prune_expired_exact:
  "pool_ok K m \<Longrightarrow> unat (total_bytes (fst (prune_expired K m now))) = pool_bytes K (fst (prune_expired K m now))"
  using pool_okD(4) [of K m] unat_bound [of "total_bytes m"] by (simp add: prune_expired_total)

section \<open>Removal\<close>

lemma mempool_remove_config [simp]: "pool_config (fst (mempool_remove K m h)) = pool_config m"
  by (simp add: mempool_remove_def split: option.split)

lemma mempool_remove_transactions [simp]:
  "pool_transactions (fst (mempool_remove K m h)) = bt_remove h (pool_transactions m)"
  by (auto simp: mempool_remove_def bt_remove_absent split: option.split)

lemma mempool_remove_wf: "pool_wf K m \<Longrightarrow> pool_wf K (fst (mempool_remove K m h))"
  by (auto simp: pool_wf_def bt_remove_def bt_wf_filter)

lemma mempool_remove_total:
  "bt_get (pool_transactions m) h = Some e \<Longrightarrow>
     total_bytes (fst (mempool_remove K m h)) = saturating_sub (total_bytes m) (entry_size K e)"
  by (simp add: mempool_remove_def)

lemma mempool_remove_bytes:
  assumes "pool_wf K m" "bt_get (pool_transactions m) h = Some e"
  shows "pool_bytes K (fst (mempool_remove K m h)) + unat (entry_size K e) = pool_bytes K m"
  using bt.weight_remove [of "pool_transactions m" h e "\<lambda>e. unat (entry_size K e)"] assms
  by (simp add: pool_bytes_def pool_wf_def)

lemma mempool_remove_ok:
  assumes "pool_ok K m"
  shows "pool_ok K (fst (mempool_remove K m h))"
proof (cases "bt_get (pool_transactions m) h")
  case None
  then show ?thesis using assms by (simp add: mempool_remove_def)
next
  case (Some e)
  note d = pool_okD [OF assms]
  show ?thesis
    using d mempool_remove_wf [OF d(1), of h] mempool_remove_bytes [OF d(1) Some]
      length_bt_remove_le [of h "pool_transactions m"]
    by (auto simp: pool_ok_def mempool_remove_total [OF Some] unat_saturating_sub)
qed

lemma mempool_clear_ok: "pool_ok K m \<Longrightarrow> pool_ok K (mempool_clear m)"
  by (simp add: pool_ok_def mempool_clear_def pool_wf_def pool_bytes_def bt_weight_def)

lemma remove_confirmed_transactions:
  "pool_transactions (remove_confirmed K m b) =
     filter (\<lambda>e. fst e \<notin> tx_hash K ` set (block_transactions b)) (pool_transactions m)"
proof -
  have "fold (\<lambda>t. bt_remove (tx_hash K t)) ts es = filter (\<lambda>e. fst e \<notin> tx_hash K ` set ts) es"
    for ts and es :: "(hash, mempool_entry) btreemap"
    by (induction ts arbitrary: es) (auto simp: bt_remove_def intro!: filter_cong)
  then show ?thesis by (simp add: remove_confirmed_def)
qed

lemma remove_confirmed_frame [simp]:
  "total_bytes (remove_confirmed K m b) = total_bytes m"
  "pool_config (remove_confirmed K m b) = pool_config m"
  by (simp_all add: remove_confirmed_def)

lemma remove_confirmed_ok:
  assumes "pool_ok K m"
  shows "pool_ok K (remove_confirmed K m b)"
proof -
  note d = pool_okD [OF assms]
  have "pool_wf K (remove_confirmed K m b)"
    using d(1) by (auto simp: pool_wf_def remove_confirmed_transactions bt_wf_filter)
  moreover have "pool_bytes K (remove_confirmed K m b) \<le> pool_bytes K m"
    by (simp add: pool_bytes_def remove_confirmed_transactions bt_weight_filter_le)
  moreover have "length (pool_transactions (remove_confirmed K m b)) \<le> length (pool_transactions m)"
    by (simp add: remove_confirmed_transactions)
  ultimately show ?thesis using d by (simp add: pool_ok_def)
qed

section \<open>Insertion\<close>

text \<open>The replaced entry, when there is one, is in the pool.\<close>

definition replacement_ok :: "mempool \<Rightarrow> hash option \<Rightarrow> bool" where
  "replacement_ok m r \<longleftrightarrow> (case r of None \<Rightarrow> True | Some h \<Rightarrow> bt_get (pool_transactions m) h \<noteq> None)"

definition drop_replaced :: "core \<Rightarrow> mempool \<Rightarrow> hash option \<Rightarrow> mempool" where
  "drop_replaced K m r = (case r of None \<Rightarrow> m | Some h \<Rightarrow> fst (mempool_remove K m h))"

lemma drop_replaced_ok: "pool_ok K m \<Longrightarrow> pool_ok K (drop_replaced K m r)"
  by (simp add: drop_replaced_def mempool_remove_ok split: option.split)

lemma drop_replaced_config [simp]: "pool_config (drop_replaced K m r) = pool_config m"
  by (simp add: drop_replaced_def split: option.split)

lemma drop_replaced_transactions:
  "pool_transactions (drop_replaced K m r) =
     (case r of None \<Rightarrow> pool_transactions m | Some h \<Rightarrow> bt_remove h (pool_transactions m))"
  by (simp add: drop_replaced_def split: option.split)

text \<open>What a successful insertion did, in terms of the pool without the replaced entry.\<close>

lemma insert_unchecked_Ok:
  assumes "insert_unchecked K m tx at r = (m', Ok h)" "replacement_ok m r"
  shows "h = tx_hash K tx"
    "bt_get (pool_transactions m) h = None"
    "pool_transactions m' = bt_insert h \<lparr>entry_transaction = tx, inserted_at = at\<rparr>
       (pool_transactions (drop_replaced K m r))"
    "total_bytes m' = saturating_add (total_bytes (drop_replaced K m r)) (tx_serialized_size K tx)"
    "pool_config m' = pool_config m"
    "total_bytes m' \<le> max_bytes (pool_config m)"
    "r = None \<Longrightarrow> length (pool_transactions m) < unat (max_transactions (pool_config m))"
proof -
  have total: "total_bytes (drop_replaced K m r) =
      saturating_sub (total_bytes m)
        (case Option.bind r (bt_get (pool_transactions m)) of None \<Rightarrow> 0 | Some e \<Rightarrow> entry_size K e)"
    using assms(2)
    by (auto simp: drop_replaced_def replacement_ok_def mempool_remove_def saturating_sub_def
        split: option.splits)
  show "h = tx_hash K tx" "bt_get (pool_transactions m) h = None"
    "pool_transactions m' = bt_insert h \<lparr>entry_transaction = tx, inserted_at = at\<rparr>
       (pool_transactions (drop_replaced K m r))"
    "total_bytes m' = saturating_add (total_bytes (drop_replaced K m r)) (tx_serialized_size K tx)"
    "pool_config m' = pool_config m"
    using assms(1)
    by (auto simp: insert_unchecked_def Let_def drop_replaced_def bt_contains_def
        split: if_splits option.splits)
  then show "total_bytes m' \<le> max_bytes (pool_config m)"
    using assms(1) by (auto simp: insert_unchecked_def Let_def total not_less split: if_splits)
  show "length (pool_transactions m) < unat (max_transactions (pool_config m))" if "r = None"
    using assms(1) that by (auto simp: insert_unchecked_def Let_def split: if_splits)
qed

lemma insert_unchecked_Err:
  "insert_unchecked K m tx at r = (m', Err e) \<Longrightarrow> m' = m"
  by (auto simp: insert_unchecked_def Let_def split: if_splits)

lemma insert_unchecked_ok:
  assumes ok: "pool_ok K m" and r: "replacement_ok m r"
  shows "pool_ok K (fst (insert_unchecked K m tx at r))"
proof (cases "insert_unchecked K m tx at r")
  case (Pair m' res)
  show ?thesis
  proof (cases res)
    case (Inl e)
    with Pair show ?thesis using ok insert_unchecked_Err [of K m tx at r m' e] by simp
  next
    case (Inr h)
    note ins = insert_unchecked_Ok [OF Pair [unfolded Inr] r]
    let ?d = "drop_replaced K m r"
    have d: "pool_ok K ?d" by (rule drop_replaced_ok [OF ok])
    note dd = pool_okD [OF d]
    have new: "bt_get (pool_transactions ?d) h = None"
      using ins(2) by (simp add: drop_replaced_transactions split: option.split)
    have wf: "pool_wf K m'"
      using dd(1) ins(1,3) set_bt_insert [OF dd(2), of h] by (auto simp: pool_wf_def)
    have "unat (total_bytes m') < 2 ^ 64 - 1"
      using ins(6) pool_okD(3) [OF ok] by (simp add: config_ok_def word_le_nat_alt)
    then have total: "unat (total_bytes m') = unat (total_bytes ?d) + unat (tx_serialized_size K tx)"
      using ins(4) by (simp add: unat_saturating_add min_def split: if_splits)
    have bytes: "pool_bytes K m' = pool_bytes K ?d + unat (tx_serialized_size K tx)"
      using bt.weight_insert [OF dd(2) new] by (simp add: pool_bytes_def ins(3) entry_size_def)
    have "length (pool_transactions m') \<le> unat (max_transactions (pool_config m))"
    proof (cases r)
      case None
      then show ?thesis
        using ins(7) bt.len_insert [OF dd(2) new] by (simp add: ins(3) drop_replaced_transactions)
    next
      case (Some old)
      then obtain e where "bt_get (pool_transactions m) old = Some e"
        using r by (auto simp: replacement_ok_def)
      then show ?thesis
        using bt.len_replace [OF pool_okD(2) [OF ok] _ ins(2)] pool_okD(6) [OF ok] Some
        by (simp add: ins(3) drop_replaced_transactions)
    qed
    then show ?thesis
      using Pair wf bytes total ins(5,6) dd(4) pool_okD(3) [OF ok]
      by (simp add: pool_ok_def word_le_nat_alt)
  qed
qed

lemma replacement_candidate_ok:
  assumes "pool_wf K m" "replacement_candidate m tx = Ok r"
  shows "replacement_ok m r"
proof (cases r)
  case (Some h)
  then obtain e where "find (\<lambda>(_, e). same_slot (entry_transaction e) tx) (pool_transactions m) = Some (h, e)"
    using assms(2) by (auto simp: replacement_candidate_def split: option.splits if_splits)
  then have "(h, e) \<in> set (pool_transactions m)"
    by (auto dest: find_SomeD)
  then show ?thesis
    using assms(1) Some by (auto simp: replacement_ok_def pool_wf_def bt_get_iff_mem [symmetric])
qed (simp add: replacement_ok_def)

lemma insert_at_ok: "pool_ok K m \<Longrightarrow> pool_ok K (fst (insert_at K m tx now))"
  by (auto simp: insert_at_def Let_def replacement_ok_def prune_expired_ok
      intro!: insert_unchecked_ok split: sum.split)

lemma insert_validated_at_ok: "pool_ok K m \<Longrightarrow> pool_ok K (fst (insert_validated_at K m L tx now))"
  by (auto simp: insert_validated_at_def Let_def prune_expired_ok res_bind_Ok_iff
      intro!: insert_unchecked_ok replacement_candidate_ok [of K] pool_okD(1) split: sum.split)

end
