(* ===== verification/Mempool_Admission.thy ===== *)
theory Mempool_Admission
  imports Mempool_Accounting
begin

text \<open>
  Admission to the pool. The ledger check of the code, a loop over the sender's pending
  transactions with machine arithmetic, is characterised by a specification over natural numbers
  (\<open>admissible\<close>): the sender's queue with the new transaction at its end has consecutive nonces from
  the account's nonce on, and its total cost is covered by the available balance. From it follow
  the state of a sender's queue after an admission, the uniqueness of sender and nonce in the pool
  and the rejection of a transaction that is not the sender's last.
\<close>

section \<open>The ledger check and its specification\<close>

definition cost :: "signed_transaction \<Rightarrow> nat" where
  "cost t = unat (tx_amount (payload t)) + unat (tx_fee (payload t))"

definition nonce_of :: "signed_transaction \<Rightarrow> nat" where
  "nonce_of t = unat (tx_nonce (payload t))"

text \<open>A queue that an account with the given nonce and funds can pay for, in order.\<close>

definition payable :: "nat \<Rightarrow> nat \<Rightarrow> signed_transaction list \<Rightarrow> bool" where
  "payable n funds q \<longleftrightarrow> map nonce_of q = [n..<n + length q] \<and> sum_list (map cost q) \<le> funds"

lemma payable_Nil [simp]: "payable n funds []"
  by (simp add: payable_def)

lemma payable_Cons:
  "payable n funds (p # ps) \<longleftrightarrow>
     nonce_of p = n \<and> cost p \<le> funds \<and> payable (Suc n) (funds - cost p) ps"
  by (auto simp: payable_def upt_conv_Cons simp del: upt_Suc)

lemma payable_snoc:
  "payable n funds (ps @ [t]) \<longleftrightarrow>
     payable n funds ps \<and> nonce_of t = n + length ps \<and> sum_list (map cost ps) + cost t \<le> funds"
  by (auto simp: payable_def)

lemma payable_take: "payable n funds q \<Longrightarrow> payable n funds (take k q)"
proof -
  assume q: "payable n funds q"
  have "sum_list (map cost (take k q)) \<le> sum_list (map cost q)"
    by (subst (2) append_take_drop_id [of k q, symmetric]) (simp del: append_take_drop_id)
  with q show ?thesis by (simp add: payable_def take_map [symmetric] min_def)
qed

lemma payable_last_max: "payable n funds (ps @ [t]) \<Longrightarrow> p \<in> set ps \<Longrightarrow> nonce_of p < nonce_of t"
proof -
  assume "payable n funds (ps @ [t])" and p: "p \<in> set ps"
  then have "map nonce_of ps = [n..<n + length ps]" "nonce_of t = n + length ps"
    by (simp_all add: payable_def)
  with p show ?thesis by (metis atLeastLessThan_iff image_eqI set_map set_upt)
qed

lemma check_pending_step:
  assumes "unat n + 1 < 2 ^ 64"
  shows "check_pending (p # ps) n b = Ok r \<longleftrightarrow>
    nonce_of p = unat n \<and> cost p \<le> unat b \<and>
    check_pending ps (saturating_add n 1) (b - (tx_amount (payload p) + tx_fee (payload p))) = Ok r"
  using unat_bound [of b]
  by (auto simp: checked_add_def cost_def nonce_of_def word_unat_eq_iff [of "tx_nonce (payload p)"]
      word_less_nat_alt unat_word_ariths not_less)

lemma check_pending_Ok:
  assumes "unat n + length ps < 2 ^ 64"
  shows "(\<exists>r. check_pending ps n b = Ok r) \<longleftrightarrow> payable (unat n) (unat b) ps"
    and "check_pending ps n b = Ok (n', b') \<Longrightarrow>
      unat n' = unat n + length ps \<and> unat b' = unat b - sum_list (map cost ps)"
proof -
  have "((\<exists>r. check_pending ps n b = Ok r) \<longleftrightarrow> payable (unat n) (unat b) ps) \<and>
    (\<forall>n' b'. check_pending ps n b = Ok (n', b') \<longrightarrow>
      unat n' = unat n + length ps \<and> unat b' = unat b - sum_list (map cost ps))"
    using assms
  proof (induction ps arbitrary: n b)
    case Nil
    then show ?case by simp
  next
    case (Cons p ps)
    let ?c = "tx_amount (payload p) + tx_fee (payload p)"
    have bound: "unat n + 1 < 2 ^ 64" using Cons.prems by simp
    have sn: "unat (saturating_add n 1) = Suc (unat n)"
      using Cons.prems by (simp add: unat_saturating_add)
    have sb: "unat (b - ?c) = unat b - cost p" if "cost p \<le> unat b"
    proof -
      have "unat ?c = cost p"
        using that unat_bound [of b] by (simp add: cost_def unat_word_ariths)
      with that show ?thesis by (simp add: unat_sub word_le_nat_alt)
    qed
    note IH = Cons.IH [of "saturating_add n 1" "b - ?c", unfolded sn]
    show ?case
    proof (cases "nonce_of p = unat n \<and> cost p \<le> unat b")
      case True
      then have "check_pending (p # ps) n b = Ok r \<longleftrightarrow>
          check_pending ps (saturating_add n 1) (b - ?c) = Ok r" for r
        unfolding check_pending_step [OF bound] by simp
      then show ?thesis
        using IH Cons.prems True sb by (simp add: payable_Cons del: check_pending.simps)
    next
      case False
      then show ?thesis
        unfolding check_pending_step [OF bound] payable_Cons by blast
    qed
  qed
  then show "(\<exists>r. check_pending ps n b = Ok r) \<longleftrightarrow> payable (unat n) (unat b) ps"
    and "check_pending ps n b = Ok (n', b') \<Longrightarrow>
      unat n' = unat n + length ps \<and> unat b' = unat b - sum_list (map cost ps)"
    by blast+
qed

definition tip_or_zero :: "core \<Rightarrow> ledger \<Rightarrow> u64" where
  "tip_or_zero K L = (case ledger_tip_height K L of None \<Rightarrow> 0 | Some h \<Rightarrow> h)"

definition funds_of :: "core \<Rightarrow> ledger \<Rightarrow> account \<Rightarrow> nat" where
  "funds_of K L a = unat (available_balance_at K a (tip_or_zero K L))"

definition admissible :: "core \<Rightarrow> mempool \<Rightarrow> ledger \<Rightarrow> signed_transaction \<Rightarrow> hash option \<Rightarrow> bool" where
  "admissible K m L tx excluded \<longleftrightarrow>
     (\<exists>a. account_of K L (tx_from (payload tx)) = Some a \<and>
        payable (unat (acc_nonce a)) (funds_of K L a)
          (pending_from_sender m (tx_from (payload tx)) excluded @ [tx]))"

definition fee_ok :: "mempool \<Rightarrow> signed_transaction \<Rightarrow> bool" where
  "fee_ok m tx \<longleftrightarrow> max (min_relay_fee (pool_config m)) MIN_RELAY_FEE_FLOOR \<le> tx_fee (payload tx)"

lemma validate_fee_policy_Ok_iff: "validate_fee_policy m tx = Ok () \<longleftrightarrow> fee_ok m tx"
  by (auto simp: validate_fee_policy_def fee_ok_def Let_def not_less less_max_iff_disj)

lemma length_pending_from_sender: "length (pending_from_sender m s r) \<le> length (pool_transactions m)"
  using length_filter_le [of "\<lambda>p. tx_from (payload p) = s"
      "map (\<lambda>(_, e). entry_transaction e) (filter (\<lambda>(h, _). Some h \<noteq> r) (pool_transactions m))"]
    length_filter_le [of "\<lambda>(h, _). Some h \<noteq> r" "pool_transactions m"]
  by (simp add: pending_from_sender_def)

text \<open>The account's nonce leaves room for the pool's transactions in a \<open>u64\<close>.\<close>

definition nonce_room :: "core \<Rightarrow> mempool \<Rightarrow> ledger \<Rightarrow> signed_transaction \<Rightarrow> bool" where
  "nonce_room K m L tx \<longleftrightarrow>
     (\<forall>a. account_of K L (tx_from (payload tx)) = Some a \<longrightarrow>
        unat (acc_nonce a) + length (pool_transactions m) < 2 ^ 64)"

lemma validate_excluding_Ok_iff:
  assumes "nonce_room K m L tx"
  shows "validate_against_ledger_excluding K m L tx r = Ok () \<longleftrightarrow>
    validate_signed K tx = Ok () \<and> fee_ok m tx \<and> admissible K m L tx r"
proof (cases "account_of K L (tx_from (payload tx))")
  case None
  then show ?thesis
    by (auto simp: validate_against_ledger_excluding_def admissible_def res_bind_Ok_iff)
next
  case (Some a)
  define ps where "ps = pending_from_sender m (tx_from (payload tx)) r"
  define b where "b = available_balance_at K a (tip_or_zero K L)"
  have bound: "unat (acc_nonce a) + length ps < 2 ^ 64"
    using assms Some length_pending_from_sender [of m "tx_from (payload tx)" r]
    unfolding nonce_room_def ps_def by (meson add_le_cancel_left le_less_trans)
  note ok = check_pending_Ok [OF bound, of b]
  have final: "(if tx_nonce (payload tx) \<noteq> n' then Err (InvalidLedgerState (InvalidState InvalidNonce))
       else case checked_add (tx_amount (payload tx)) (tx_fee (payload tx)) of
         None \<Rightarrow> Err (InvalidLedgerState (InvalidState BalanceOverflow))
       | Some c \<Rightarrow> if b' < c then Err (InvalidLedgerState (InvalidState InsufficientBalance)) else Ok ())
       = Ok () \<longleftrightarrow> nonce_of tx = unat n' \<and> cost tx \<le> unat b'" for n' and b' :: u32
    using unat_bound [of b']
    by (auto simp: checked_add_def cost_def nonce_of_def word_unat_eq_iff [of "tx_nonce (payload tx)"]
        word_less_nat_alt unat_word_ariths not_less)
  have "validate_against_ledger_excluding K m L tx r = Ok () \<longleftrightarrow>
    validate_signed K tx = Ok () \<and> fee_ok m tx \<and>
    (\<exists>n' b'. check_pending ps (acc_nonce a) b = Ok (n', b') \<and> nonce_of tx = unat n' \<and> cost tx \<le> unat b')"
    unfolding validate_against_ledger_excluding_def Let_def
    by (auto simp: res_bind_Ok_iff map_err_Ok_iff Some validate_fee_policy_Ok_iff ps_def b_def
        tip_or_zero_def final simp del: split_paired_Ex)
  also have "(\<exists>n' b'. check_pending ps (acc_nonce a) b = Ok (n', b') \<and> nonce_of tx = unat n' \<and> cost tx \<le> unat b')
    \<longleftrightarrow> admissible K m L tx r"
  proof -
    have "sum_list (map cost ps) \<le> unat b" if "payable (unat (acc_nonce a)) (unat b) ps"
      using that by (simp add: payable_def)
    then show ?thesis
      using ok by (fastforce simp: admissible_def Some ps_def [symmetric] funds_of_def b_def [symmetric] payable_snoc)
  qed
  finally show ?thesis .
qed

lemma validate_against_ledger_Ok_iff:
  assumes "nonce_room K m L tx"
  shows "validate_against_ledger K m L tx = Ok () \<longleftrightarrow>
    validate_signed K tx = Ok () \<and> fee_ok m tx \<and> admissible K m L tx None"
  using validate_excluding_Ok_iff [OF assms, of None]
  by (auto simp: validate_against_ledger_def res_bind_Ok_iff map_err_Ok_iff validate_fee_policy_Ok_iff)

section \<open>Successful admissions\<close>

lemma insert_validated_at_Ok:
  assumes "insert_validated_at K m L tx now = (m', Ok h)"
  obtains r where
    "replacement_candidate (fst (prune_expired K m now)) tx = Ok r"
    "validate_against_ledger_excluding K (fst (prune_expired K m now)) L tx r = Ok ()"
    "insert_unchecked K (fst (prune_expired K m now)) tx now r = (m', Ok h)"
    "validate_timestamp_policy K tx now = Ok ()" "validate_signed_at K tx now = Ok ()"
  using assms that
  by (auto simp: insert_validated_at_def Let_def res_bind_Ok_iff map_err_Ok_iff split: sum.splits)

lemma pending_excluding:
  "pending_from_sender m s r = pending_from_sender (drop_replaced K m r) s None"
proof -
  have "filter (\<lambda>(h, _). Some h \<noteq> r) (pool_transactions m) = pool_transactions (drop_replaced K m r)"
    by (auto simp: drop_replaced_transactions bt_remove_def split_def split: option.split)
  then show ?thesis by (simp add: pending_from_sender_def)
qed

lemma map_nonce_sorted_eq:
  assumes "mset ps = mset qs" "sorted (map nonce_of ps)" "sorted (map nonce_of qs)"
  shows "map nonce_of ps = map nonce_of qs"
  using assms by (metis mset_map properties_for_sort sorted_sort_id)

lemma sorted_pending: "sorted (map nonce_of (pending_from_sender m s r))"
proof -
  have "sorted (map (\<lambda>p. tx_nonce (payload p)) (pending_from_sender m s r))"
    by (simp add: pending_from_sender_def)
  then show ?thesis
    unfolding sorted_map by (simp add: nonce_of_def word_le_nat_alt)
qed

lemma payable_permute:
  assumes "payable n f ps" "mset qs = mset ps" "sorted (map nonce_of qs)"
  shows "payable n f qs"
proof -
  have "map nonce_of qs = map nonce_of ps"
    using assms by (intro map_nonce_sorted_eq) (auto simp: payable_def)
  moreover have "sum_list (map cost qs) = sum_list (map cost ps)"
    using assms(2) by (metis mset_map sum_mset_sum_list)
  moreover have "length qs = length ps" using assms(2) by (metis size_mset)
  ultimately show ?thesis using assms(1) by (simp add: payable_def)
qed

lemma pending_after_insert:
  assumes "insert_unchecked K m tx at r = (m', Ok h)" "replacement_ok m r"
  shows "mset (pending_from_sender m' (tx_from (payload tx)) None) =
    mset (pending_from_sender m (tx_from (payload tx)) r @ [tx])"
proof -
  note ins = insert_unchecked_Ok [OF assms]
  have "bt_get (pool_transactions (drop_replaced K m r)) h = None"
    using ins(2) by (simp add: drop_replaced_transactions split: option.split)
  then have "mset (pool_transactions m') =
    add_mset (h, \<lparr>entry_transaction = tx, inserted_at = at\<rparr>) (mset (pool_transactions (drop_replaced K m r)))"
    by (simp add: ins(3) mset_bt_insert_new)
  then show ?thesis
    unfolding pending_excluding [of m _ r K]
    by (simp add: pending_from_sender_def mset_filter case_prod_beta flip: mset_map)
      (simp add: mset_filter)
qed

section \<open>One pending transaction per sender and nonce\<close>

definition slots_unique :: "mempool \<Rightarrow> bool" where
  "slots_unique m \<longleftrightarrow>
     (\<forall>x \<in> set (pool_transactions m). \<forall>y \<in> set (pool_transactions m).
        same_slot (entry_transaction (snd x)) (entry_transaction (snd y)) \<longrightarrow> fst x = fst y)"

lemma slots_unique_subset:
  "slots_unique m \<Longrightarrow> set (pool_transactions m') \<subseteq> set (pool_transactions m) \<Longrightarrow> slots_unique m'"
  unfolding slots_unique_def by blast

lemma set_bt_remove_subset: "set (bt_remove h m) \<subseteq> set m"
  by (auto simp: bt_remove_def)

lemma prune_expired_subset:
  "set (pool_transactions (fst (prune_expired K m now))) \<subseteq> set (pool_transactions m)"
  by (auto simp: prune_expired_transactions bt_retain_def)

lemma remove_confirmed_subset:
  "set (pool_transactions (remove_confirmed K m b)) \<subseteq> set (pool_transactions m)"
  by (auto simp: remove_confirmed_transactions)

lemma replacement_candidate_mem:
  assumes "replacement_candidate m tx = Ok (Some l)"
  obtains e where "(l, e) \<in> set (pool_transactions m)" "same_slot (entry_transaction e) tx"
    "tx_fee (payload (entry_transaction e)) < tx_fee (payload tx)"
  using assms that
  by (auto simp: replacement_candidate_def not_le dest!: find_SomeD split: option.splits if_splits)

text \<open>
  With unique slots, the candidate is the one entry in the new transaction's slot: no other entry
  of the pool without it shares the slot.
\<close>

lemma replacement_candidate_slot:
  assumes "replacement_candidate m tx = Ok r" "slots_unique m"
    and "x \<in> set (pool_transactions m)" "same_slot (entry_transaction (snd x)) tx"
    and uniq: "distinct (map fst (pool_transactions m))"
  shows "r = Some (fst x) \<and> tx_fee (payload (entry_transaction (snd x))) < tx_fee (payload tx)"
proof -
  obtain h e where he: "find (\<lambda>(_, e). same_slot (entry_transaction e) tx) (pool_transactions m) = Some (h, e)"
    using assms(3,4) find_None_iff [of "\<lambda>(_, e). same_slot (entry_transaction e) tx" "pool_transactions m"]
    by (metis (no_types, lifting) case_prod_beta' not_Some_eq surj_pair)
  then have mem: "(h, e) \<in> set (pool_transactions m)" and slot: "same_slot (entry_transaction e) tx"
    by (auto dest: find_SomeD)
  have "same_slot (entry_transaction (snd x)) (entry_transaction (snd (h, e)))"
    using slot assms(4) by (simp add: same_slot_def)
  with assms(2,3) mem have fst: "fst x = h" unfolding slots_unique_def by fastforce
  with uniq mem assms(3) have "snd x = e"
    by (metis eq_key_imp_eq_value prod.collapse)
  then show ?thesis
    using assms(1) he fst by (auto simp: replacement_candidate_def not_le split: if_splits)
qed

lemma insert_unchecked_slots:
  assumes wf: "pool_wf K m" and u: "slots_unique m" and r: "replacement_candidate m tx = Ok r"
  shows "slots_unique (fst (insert_unchecked K m tx at r))"
proof (cases "insert_unchecked K m tx at r")
  case (Pair m' res)
  show ?thesis
  proof (cases res)
    case (Inl e)
    with Pair show ?thesis using u insert_unchecked_Err [of K m tx at r m' e] by simp
  next
    case (Inr h)
    note ins = insert_unchecked_Ok [OF Pair [unfolded Inr] replacement_candidate_ok [OF wf r]]
    have bw: "bt_wf (pool_transactions m)" using wf by (simp add: pool_wf_def)
    have free: "\<not> same_slot (entry_transaction (snd x)) tx"
      if "x \<in> set (pool_transactions (drop_replaced K m r))" for x
    proof
      assume "same_slot (entry_transaction (snd x)) tx"
      moreover have "x \<in> set (pool_transactions m)" "r \<noteq> Some (fst x)"
        using that by (auto simp: drop_replaced_transactions bt_remove_def split: option.splits)
      ultimately show False
        using replacement_candidate_slot [OF r u _ _ bt_wf_distinct [OF bw]] by blast
    qed
    have sub: "set (pool_transactions (drop_replaced K m r)) \<subseteq> set (pool_transactions m)"
      by (auto simp: drop_replaced_transactions bt_remove_def split: option.splits)
    have dw: "bt_wf (pool_transactions (drop_replaced K m r))"
      using bw by (simp add: drop_replaced_transactions split: option.split)
    have old: "slots_unique (drop_replaced K m r)" using u sub by (rule slots_unique_subset)
    have free': "\<not> same_slot tx (entry_transaction (snd x))"
      if "x \<in> set (pool_transactions (drop_replaced K m r))" for x
      using free [OF that] by (auto simp: same_slot_def)
    show ?thesis
      unfolding slots_unique_def
    proof (intro ballI impI)
      fix x y
      assume "x \<in> set (pool_transactions (fst (insert_unchecked K m tx at r)))"
        and "y \<in> set (pool_transactions (fst (insert_unchecked K m tx at r)))"
        and xy: "same_slot (entry_transaction (snd x)) (entry_transaction (snd y))"
      then have mem: "x = (h, \<lparr>entry_transaction = tx, inserted_at = at\<rparr>) \<or> x \<in> set (pool_transactions (drop_replaced K m r))"
        "y = (h, \<lparr>entry_transaction = tx, inserted_at = at\<rparr>) \<or> y \<in> set (pool_transactions (drop_replaced K m r))"
        by (auto simp: Pair ins(3) set_bt_insert [OF dw])
      consider "x \<in> set (pool_transactions (drop_replaced K m r))" "y \<in> set (pool_transactions (drop_replaced K m r))"
        | "x = y" | "entry_transaction (snd x) = tx" "y \<in> set (pool_transactions (drop_replaced K m r))"
        | "entry_transaction (snd y) = tx" "x \<in> set (pool_transactions (drop_replaced K m r))"
        using mem by fastforce
      then show "fst x = fst y"
        by cases (use old xy free free' in \<open>fastforce simp: slots_unique_def\<close>)+
    qed
  qed
qed

lemma insert_validated_at_slots:
  assumes "pool_ok K m" "slots_unique m"
  shows "slots_unique (fst (insert_validated_at K m L tx now))"
proof -
  have "pool_wf K (fst (prune_expired K m now))"
    using assms(1) by (intro pool_okD(1) prune_expired_ok)
  moreover have u: "slots_unique (fst (prune_expired K m now))"
    using assms(2) prune_expired_subset by (rule slots_unique_subset)
  ultimately show ?thesis
    by (auto simp: insert_validated_at_def Let_def res_bind_Ok_iff
        intro!: insert_unchecked_slots split: sum.split)
qed

section \<open>The pool as a transition system\<close>

text \<open>
  Every public operation that changes the pool. \<open>validated_step\<close> has the operations the node itself
  uses (admission goes through the ledger); \<open>mempool_step\<close> adds \<open>insert_at\<close>, which the crate exports
  and which skips the ledger checks.
\<close>

inductive validated_step :: "core \<Rightarrow> mempool \<Rightarrow> mempool \<Rightarrow> bool" for K where
  submit: "validated_step K m (fst (insert_validated_at K m L tx now))"
| remove: "validated_step K m (fst (mempool_remove K m h))"
| clear: "validated_step K m (mempool_clear m)"
| prune: "validated_step K m (fst (prune_expired K m now))"
| confirm: "validated_step K m (remove_confirmed K m b)"

inductive mempool_step :: "core \<Rightarrow> mempool \<Rightarrow> mempool \<Rightarrow> bool" for K where
  insert: "mempool_step K m (fst (insert_at K m tx now))"
| validated: "validated_step K m m' \<Longrightarrow> mempool_step K m m'"

definition pool_init :: "mempool \<Rightarrow> bool" where
  "pool_init m \<longleftrightarrow> (\<exists>c. config_ok c \<and> m = with_config c)"

lemma validated_step_ok: "validated_step K m m' \<Longrightarrow> pool_ok K m \<Longrightarrow> pool_ok K m'"
  by (induction rule: validated_step.induct)
    (simp_all add: insert_validated_at_ok mempool_remove_ok mempool_clear_ok prune_expired_ok remove_confirmed_ok)

lemma validated_step_slots:
  "validated_step K m m' \<Longrightarrow> pool_ok K m \<Longrightarrow> slots_unique m \<Longrightarrow> slots_unique m'"
proof (induction rule: validated_step.induct)
  case (remove m h)
  then show ?case
    by (auto simp: mempool_remove_def bt_remove_def intro: slots_unique_subset split: option.split)
next
  case (clear m)
  then show ?case by (simp add: mempool_clear_def slots_unique_def)
qed (blast intro: insert_validated_at_slots slots_unique_subset [OF _ prune_expired_subset]
    slots_unique_subset [OF _ remove_confirmed_subset])+

lemma pool_init_ok: "pool_init m \<Longrightarrow> pool_ok K m \<and> slots_unique m"
  by (auto simp: pool_init_def pool_ok_def pool_wf_def with_config_def pool_bytes_def bt_weight_def
      slots_unique_def)

interpretation any_pool: invariant_system pool_init "mempool_step K" "pool_ok K" for K
  by unfold_locales (auto simp: pool_init_ok insert_at_ok validated_step_ok elim: mempool_step.cases)

interpretation node_pool: invariant_system pool_init "validated_step K" "\<lambda>m. pool_ok K m \<and> slots_unique m" for K
  by unfold_locales (auto simp: pool_init_ok dest: validated_step_ok validated_step_slots)

end
