(* ===== verification/Mempool_Properties.thy ===== *)
theory Mempool_Properties
  imports Mempool_Admission
begin

text \<open>
  The properties of the pool's admission, expiry and removal, each with an application to a
  concrete pool over \<open>sample_core\<close>.
\<close>

section \<open>Concrete data\<close>

definition sample_account :: account where
  "sample_account = \<lparr>acc_address = [1], acc_balance = 100, acc_nonce = 0, acc_credits = []\<rparr>"

definition sample_ledger :: ledger where
  "sample_ledger = \<lparr>ledger_accounts = [([1], sample_account)], ledger_chain = \<lparr>chain_blocks = []\<rparr>\<rparr>"

definition sample_tx :: "u8 \<Rightarrow> u64 \<Rightarrow> u32 \<Rightarrow> signed_transaction" where
  "sample_tx sig n fee =
     \<lparr>payload = \<lparr>tx_from = [1], tx_to = [2], tx_amount = 10, tx_fee = fee, tx_nonce = n, tx_timestamp = 1000\<rparr>,
      public_key = [], signature = [sig]\<rparr>"

definition sample_entry :: "u8 \<Rightarrow> u64 \<Rightarrow> u32 \<Rightarrow> mempool_entry" where
  "sample_entry sig n fee = \<lparr>entry_transaction = sample_tx sig n fee, inserted_at = 1000\<rparr>"

text \<open>Two pending transactions of one sender, nonces 0 and 1.\<close>

definition sample_pool :: mempool where
  "sample_pool = \<lparr>pool_transactions = [([5], sample_entry 5 0 2), ([6], sample_entry 6 1 2)],
     pool_config = default_mempool_config, total_bytes = 200\<rparr>"

lemmas sample_defs =
  sample_account_def sample_ledger_def sample_tx_def sample_entry_def sample_pool_def sample_core_def
  default_mempool_config_def param_defs

lemmas insert_defs =
  insert_validated_at_def insert_unchecked_def prune_expired_def bt_retain_def entry_retained_def
  entry_size_def validate_timestamp_policy_def validate_fee_policy_def replacement_candidate_def
  same_slot_def validate_against_ledger_excluding_def pending_from_sender_def with_config_def
  saturating_add_def saturating_sub_def checked_add_def bt_contains_def Let_def
  MAX_RELAY_TRANSACTION_FUTURE_SECS_def mempool_remove_def bt_remove_def

lemma sample_insert1:
  "insert_validated_at sample_core (with_config default_mempool_config) sample_ledger (sample_tx 5 0 2) 1000 =
     (sample_pool\<lparr>pool_transactions := [([5], sample_entry 5 0 2)], total_bytes := 100\<rparr>, Ok [5])"
  by (simp add: sample_defs insert_defs)

lemma sample_insert2:
  "insert_validated_at sample_core (sample_pool\<lparr>pool_transactions := [([5], sample_entry 5 0 2)], total_bytes := 100\<rparr>)
     sample_ledger (sample_tx 6 1 2) 1000 = (sample_pool, Ok [6])"
  by (simp add: sample_defs insert_defs)

lemma sample_pool_reachable: "reach pool_init (validated_step sample_core) sample_pool"
proof -
  have "reach pool_init (validated_step sample_core) (with_config default_mempool_config)"
    by (rule reach.start) (use default_config_ok in \<open>unfold pool_init_def, blast\<close>)
  from reach.step [OF this validated_step.submit [of _ _ sample_ledger "sample_tx 5 0 2" 1000]]
  have "reach pool_init (validated_step sample_core)
    (sample_pool\<lparr>pool_transactions := [([5], sample_entry 5 0 2)], total_bytes := 100\<rparr>)"
    by (simp add: sample_insert1)
  from reach.step [OF this validated_step.submit [of _ _ sample_ledger "sample_tx 6 1 2" 1000]]
  show ?thesis by (simp add: sample_insert2)
qed

lemma reach_mempool_step:
  "reach pool_init (validated_step K) m \<Longrightarrow> reach pool_init (mempool_step K) m"
  by (induction rule: reach.induct) (auto intro: reach.intros mempool_step.validated)

lemma sample_pool_ok: "pool_ok sample_core sample_pool"
  using node_pool.reach_inv [OF sample_pool_reachable] by simp

lemma sample_nonce_room: "nonce_room sample_core sample_pool sample_ledger tx"
  by (simp add: nonce_room_def sample_defs)

section \<open>Reachable pools\<close>

text \<open>
  C17. Capacity. Whatever sequence of public operations built the pool, the bytes really held are at
  most the recorded total, the total is at most the configured capacity, the number of entries is
  at most its limit, and each entry is stored under its transaction's hash, in strict key order.
\<close>

theorem reachable_pool_bounded:
  assumes "reach pool_init (mempool_step K) m"
  shows "pool_bytes K m \<le> unat (total_bytes m) \<and> total_bytes m \<le> max_bytes (pool_config m) \<and>
    mempool_len m \<le> unat (max_transactions (pool_config m)) \<and> bt_wf (pool_transactions m) \<and>
    (\<forall>h t. mempool_get m h = Some t \<longrightarrow> h = tx_hash K t)"
proof -
  note d = pool_okD [OF any_pool.reach_inv [OF assms]]
  have "h = tx_hash K t" if "mempool_get m h = Some t" for h t
    using that d(1,2) by (auto simp: mempool_get_def pool_wf_def bt_get_iff_mem)
  then show ?thesis
    using d by (auto simp: mempool_len_def word_le_nat_alt)
qed

theorem reachable_pool_bounded_witness:
  "pool_bytes sample_core sample_pool \<le> 200 \<and> mempool_len sample_pool \<le> 1000"
  using reachable_pool_bounded [OF reach_mempool_step [OF sample_pool_reachable]]
  by (simp add: sample_pool_def default_mempool_config_def param_defs)

text \<open>
  C12. One pending transaction per sender and nonce. In a pool built by the operations the node uses,
  two entries with the same sender and the same nonce are the same entry.
\<close>

theorem reachable_slots_unique:
  assumes "reach pool_init (validated_step K) m"
    and "mempool_get m h = Some t" "mempool_get m k = Some u"
    and "tx_from (payload t) = tx_from (payload u)" "tx_nonce (payload t) = tx_nonce (payload u)"
  shows "h = k \<and> t = u"
proof -
  have ok: "bt_wf (pool_transactions m)" "slots_unique m"
    using node_pool.reach_inv [OF assms(1)] pool_okD(2) [of K m] by auto
  obtain e f where mem: "(h, e) \<in> set (pool_transactions m)" "(k, f) \<in> set (pool_transactions m)"
    and t: "t = entry_transaction e" "u = entry_transaction f"
    using assms(2,3) ok(1) by (auto simp: mempool_get_def bt_get_iff_mem)
  have "same_slot (entry_transaction (snd (h, e))) (entry_transaction (snd (k, f)))"
    using t assms(4,5) by (simp add: same_slot_def)
  with ok(2) mem have "fst (h, e) = fst (k, f)" unfolding slots_unique_def by blast
  then have "h = k" by simp
  with assms(2,3) show ?thesis by simp
qed

theorem reachable_slots_unique_witness:
  "mempool_get sample_pool [6] = Some (sample_tx 6 1 2) \<and>
   (\<forall>k u. \<not> (mempool_get sample_pool k = Some u \<and> tx_from (payload u) = [1] \<and> tx_nonce (payload u) = 1 \<and> k \<noteq> [6]))"
proof -
  have "mempool_get sample_pool [6] = Some (sample_tx 6 1 2)"
    by (simp add: sample_pool_def mempool_get_def sample_entry_def)
  moreover have "k = [6]" if "mempool_get sample_pool k = Some u" "tx_from (payload u) = [1]" "tx_nonce (payload u) = 1" for k u
    using reachable_slots_unique [OF sample_pool_reachable \<open>mempool_get sample_pool [6] = _\<close> that(1)] that(2,3)
    by (simp add: sample_tx_def)
  ultimately show ?thesis by blast
qed

section \<open>Admission\<close>

text \<open>
  C18. The ledger check decides its specification: a transaction passes exactly when its signature is
  valid, its fee reaches the relay floor, its sender has an account, and the sender's pending
  transactions followed by the new one have consecutive nonces starting at the account's nonce and
  a total cost covered by the available balance (as natural numbers, so no overflow is hidden).
\<close>

theorem validate_against_ledger_iff:
  assumes "nonce_room K m L tx"
  shows "validate_against_ledger K m L tx = Ok () \<longleftrightarrow>
    validate_signed K tx = Ok () \<and> fee_ok m tx \<and> admissible K m L tx None"
  using assms by (rule validate_against_ledger_Ok_iff)

theorem validate_against_ledger_iff_witness:
  "validate_against_ledger sample_core sample_pool sample_ledger (sample_tx 7 2 2) = Ok () \<and>
   validate_against_ledger sample_core sample_pool sample_ledger (sample_tx 7 3 2) \<noteq> Ok ()"
  unfolding validate_against_ledger_iff [OF sample_nonce_room]
  by (simp add: fee_ok_def admissible_def payable_def pending_from_sender_def cost_def nonce_of_def
      funds_of_def upt_rec sample_defs)

text \<open>
  C19. After a successful admission the sender's whole queue, replacement included, is executable:
  consecutive nonces from the account's nonce on, total cost within the available balance.
\<close>

theorem admitted_queue_payable:
  assumes "pool_ok K m" "nonce_room K m L tx" "insert_validated_at K m L tx now = (m', Ok h)"
  shows "\<exists>a. account_of K L (tx_from (payload tx)) = Some a \<and>
    payable (unat (acc_nonce a)) (funds_of K L a) (pending_from_sender m' (tx_from (payload tx)) None)"
proof -
  let ?p = "fst (prune_expired K m now)"
  obtain r where r: "replacement_candidate ?p tx = Ok r"
    "validate_against_ledger_excluding K ?p L tx r = Ok ()"
    "insert_unchecked K ?p tx now r = (m', Ok h)"
    by (rule insert_validated_at_Ok [OF assms(3)])
  have "replacement_ok ?p r"
    by (rule replacement_candidate_ok [OF pool_okD(1) [OF prune_expired_ok [OF assms(1)]] r(1)])
  note perm = pending_after_insert [OF r(3) this]
  have "length (pool_transactions ?p) \<le> length (pool_transactions m)"
    by (simp add: prune_expired_transactions length_bt_retain)
  with assms(2) have "nonce_room K ?p L tx" by (fastforce simp: nonce_room_def)
  from validate_excluding_Ok_iff [OF this] r(2) obtain a where
    "account_of K L (tx_from (payload tx)) = Some a"
    "payable (unat (acc_nonce a)) (funds_of K L a) (pending_from_sender ?p (tx_from (payload tx)) r @ [tx])"
    by (auto simp: admissible_def)
  then show ?thesis using payable_permute [OF _ perm sorted_pending] by blast
qed

theorem admitted_queue_payable_witness:
  "payable 0 100 (pending_from_sender (fst (insert_validated_at sample_core sample_pool sample_ledger (sample_tx 7 1 3) 1001)) [1] None)"
proof -
  have ins: "insert_validated_at sample_core sample_pool sample_ledger (sample_tx 7 1 3) 1001 =
    (sample_pool\<lparr>pool_transactions := [([5], sample_entry 5 0 2), ([7], \<lparr>entry_transaction = sample_tx 7 1 3, inserted_at = 1001\<rparr>)]\<rparr>, Ok [7])"
    by (simp add: sample_defs insert_defs)
  show ?thesis
    using admitted_queue_payable [OF sample_pool_ok sample_nonce_room ins]
    unfolding ins by (simp add: sample_tx_def sample_core_def sample_ledger_def funds_of_def sample_account_def)
qed

text \<open>The entries of the pool after an admission, under the invariant.\<close>

lemma insert_validated_at_entries:
  assumes ok: "pool_ok K m" "slots_unique m" and ins: "insert_validated_at K m L tx now = (m', Ok h)"
  shows "h = tx_hash K tx"
    "bt_get (pool_transactions m') k =
      (if k = h then Some \<lparr>entry_transaction = tx, inserted_at = now\<rparr>
       else case bt_get (pool_transactions m) k of
         None \<Rightarrow> None
       | Some e \<Rightarrow> if entry_retained (pool_config m) now e \<and> \<not> same_slot (entry_transaction e) tx then Some e else None)"
    "bt_get (pool_transactions m) k = Some e \<Longrightarrow> entry_retained (pool_config m) now e \<Longrightarrow>
     same_slot (entry_transaction e) tx \<Longrightarrow> tx_fee (payload (entry_transaction e)) < tx_fee (payload tx)"
proof -
  let ?p = "fst (prune_expired K m now)"
  have pok: "pool_ok K ?p" and pu: "slots_unique ?p"
    using ok prune_expired_ok slots_unique_subset [OF ok(2) prune_expired_subset] by auto
  note pd = pool_okD [OF pok]
  obtain r where r: "replacement_candidate ?p tx = Ok r" "insert_unchecked K ?p tx now r = (m', Ok h)"
    by (rule insert_validated_at_Ok [OF ins])
  note i = insert_unchecked_Ok [OF r(2) replacement_candidate_ok [OF pd(1) r(1)]]
  have slot: "r = Some l \<and> tx_fee (payload (entry_transaction e)) < tx_fee (payload tx)"
    if "bt_get (pool_transactions ?p) l = Some e" "same_slot (entry_transaction e) tx" for l e
    using replacement_candidate_slot [OF r(1) pu, of "(l, e)"] that pd(2)
    by (auto simp: bt_get_iff_mem bt_wf_distinct)
  have repl: "\<exists>e. bt_get (pool_transactions ?p) l = Some e \<and> same_slot (entry_transaction e) tx" if "r = Some l" for l
    using replacement_candidate_mem [of ?p tx l] r(1) that pd(2) by (metis bt_get_iff_mem)
  have p: "bt_get (pool_transactions ?p) l = (case bt_get (pool_transactions m) l of None \<Rightarrow> None
      | Some e \<Rightarrow> if entry_retained (pool_config m) now e then Some e else None)" for l
    using pool_okD(2) [OF ok(1)] by (simp add: prune_expired_transactions bt_get_retain)
  show "h = tx_hash K tx" by (rule i(1))
  have "bt_get (pool_transactions m') k = (if k = h then Some \<lparr>entry_transaction = tx, inserted_at = now\<rparr>
      else if r = Some k then None else bt_get (pool_transactions ?p) k)"
    by (auto simp: i(3) drop_replaced_transactions split: option.splits)
  then show "bt_get (pool_transactions m') k =
      (if k = h then Some \<lparr>entry_transaction = tx, inserted_at = now\<rparr>
       else case bt_get (pool_transactions m) k of
         None \<Rightarrow> None
       | Some e \<Rightarrow> if entry_retained (pool_config m) now e \<and> \<not> same_slot (entry_transaction e) tx then Some e else None)"
    using slot [of k] repl [of k] p [of k] by (auto split: option.splits if_splits)
  show "tx_fee (payload (entry_transaction e)) < tx_fee (payload tx)"
    if "bt_get (pool_transactions m) k = Some e" "entry_retained (pool_config m) now e" "same_slot (entry_transaction e) tx"
    using slot [of k e] p [of k] that by simp
qed

lemma insert_validated_at_Err: "insert_validated_at K m L tx now = (m', Err e) \<Longrightarrow> m' = fst (prune_expired K m now)"
  by (auto simp: insert_validated_at_def Let_def dest: insert_unchecked_Err split: sum.splits)

text \<open>
  The pool after a successful admission, entry by entry: the new transaction under its hash; an
  entry with the same sender and nonce is gone, and it paid a strictly lower fee; every other entry
  is there exactly when it has not expired.
\<close>

lemma insert_validated_at_lookup:
  assumes "reach pool_init (validated_step K) m" "insert_validated_at K m L tx now = (m', Ok h)"
  shows "h = tx_hash K tx \<and>
    mempool_get m' k =
      (if k = h then Some tx
       else case bt_get (pool_transactions m) k of
         None \<Rightarrow> None
       | Some e \<Rightarrow> if entry_retained (pool_config m) now e \<and> \<not> same_slot (entry_transaction e) tx
                   then Some (entry_transaction e) else None) \<and>
    (\<forall>e. bt_get (pool_transactions m) k = Some e \<and> entry_retained (pool_config m) now e \<and>
       same_slot (entry_transaction e) tx \<longrightarrow> tx_fee (payload (entry_transaction e)) < tx_fee (payload tx))"
proof -
  have ok: "pool_ok K m" "slots_unique m" using node_pool.reach_inv [OF assms(1)] by auto
  note e = insert_validated_at_entries [OF ok assms(2)]
  show ?thesis using e(1) e(2) [of k] e(3) [of k] by (auto simp: mempool_get_def split: option.splits)
qed

text \<open>
  Replacement works for the sender's last pending transaction only. If a pending transaction of
  the same sender that has not expired has a larger nonce, the submission is rejected, whatever
  fee it offers: the replaced entry is left out of the nonce check and leaves a gap there.
\<close>

lemma replacement_below_last_rejected:
  assumes "nonce_room K m L tx"
    and "(h, e) \<in> set (pool_transactions m)" "entry_retained (pool_config m) now e"
    and "tx_from (payload (entry_transaction e)) = tx_from (payload tx)"
    and "tx_nonce (payload tx) < tx_nonce (payload (entry_transaction e))"
    and "bt_wf (pool_transactions m)"
  shows "\<exists>err. insert_validated_at K m L tx now = (fst (prune_expired K m now), Err err)"
proof -
  let ?p = "fst (prune_expired K m now)"
  obtain m' res where ins: "insert_validated_at K m L tx now = (m', res)" by fastforce
  have False if ok: "insert_validated_at K m L tx now = (m', Ok k)" for k
  proof -
    obtain r where r: "replacement_candidate ?p tx = Ok r"
      "validate_against_ledger_excluding K ?p L tx r = Ok ()"
      by (rule insert_validated_at_Ok [OF ok])
    have "length (pool_transactions ?p) \<le> length (pool_transactions m)"
      by (simp add: prune_expired_transactions length_bt_retain)
    with assms(1) have room: "nonce_room K ?p L tx" by (fastforce simp: nonce_room_def)
    have mem: "(h, e) \<in> set (pool_transactions ?p)"
      using assms(2,3) by (simp add: prune_expired_transactions bt_retain_def)
    have "r \<noteq> Some h"
    proof
      assume "r = Some h"
      then obtain f where f: "(h, f) \<in> set (pool_transactions ?p)" "same_slot (entry_transaction f) tx"
        using r(1) by (auto elim: replacement_candidate_mem)
      have "f = e"
        using f(1) assms(2,6) by (auto simp: prune_expired_transactions bt_retain_def bt_get_iff_mem [symmetric])
      with f(2) assms(5) show False by (simp add: same_slot_def)
    qed
    with mem assms(4) have pend: "entry_transaction e \<in> set (pending_from_sender ?p (tx_from (payload tx)) r)"
      by (force simp: pending_from_sender_def)
    obtain n f where "payable n f (pending_from_sender ?p (tx_from (payload tx)) r @ [tx])"
      using validate_excluding_Ok_iff [OF room, of r] r(2) by (auto simp: admissible_def)
    from payable_last_max [OF this pend] assms(5) show False
      by (simp add: nonce_of_def word_less_nat_alt)
  qed
  with ins obtain err where "insert_validated_at K m L tx now = (m', Err err)"
    by (cases res) auto
  then show ?thesis
    by (auto simp: insert_validated_at_def Let_def dest: insert_unchecked_Err split: sum.splits)
qed

section \<open>Expiry and confirmation\<close>

text \<open>
  Pruning removes exactly the expired entries (low-fee transactions have the shorter lifetime),
  returns their number, and leaves a byte total equal to the bytes held.
\<close>

lemma prune_expired_correct:
  assumes "reach pool_init (mempool_step K) m" "prune_expired K m now = (m', n)"
  shows "bt_get (pool_transactions m') k =
      (case bt_get (pool_transactions m) k of
         None \<Rightarrow> None | Some e \<Rightarrow> if entry_retained (pool_config m) now e then Some e else None) \<and>
    n = length (filter (\<lambda>e. \<not> entry_retained (pool_config m) now e) (bt_values (pool_transactions m))) \<and>
    unat (total_bytes m') = pool_bytes K m' \<and> pool_config m' = pool_config m"
proof -
  note ok = any_pool.reach_inv [OF assms(1)]
  have m': "m' = fst (prune_expired K m now)" and n: "n = snd (prune_expired K m now)"
    using assms(2) by simp_all
  have "n = length (pool_transactions m) -
      length (filter (\<lambda>e. entry_retained (pool_config m) now (snd e)) (pool_transactions m))"
    by (simp add: n prune_expired_def Let_def bt_retain_def)
  then have "n = length (filter (\<lambda>e. \<not> entry_retained (pool_config m) now e) (bt_values (pool_transactions m)))"
    using sum_length_filter_compl [of "\<lambda>e. entry_retained (pool_config m) now (snd e)" "pool_transactions m"]
    by (simp add: filter_map comp_def)
  then show ?thesis
    using pool_okD(2) [OF ok] prune_expired_exact [OF ok]
    by (simp add: m' prune_expired_transactions bt_get_retain)
qed

text \<open>
  Confirmation drops the block's transactions, and only them, but leaves the byte total as it was:
  it exceeds the bytes held by exactly the size of the confirmed entries until the next pruning.
\<close>

lemma remove_confirmed_correct:
  assumes "pool_ok K m" "unat (total_bytes m) = pool_bytes K m"
  shows "mempool_get (remove_confirmed K m b) k =
      (if k \<in> tx_hash K ` set (block_transactions b) then None else mempool_get m k) \<and>
    unat (total_bytes (remove_confirmed K m b)) = pool_bytes K (remove_confirmed K m b) +
      bt_weight (\<lambda>e. unat (entry_size K e))
        (filter (\<lambda>x. fst x \<in> tx_hash K ` set (block_transactions b)) (pool_transactions m))"
proof -
  let ?H = "tx_hash K ` set (block_transactions b)"
  have "bt_get (filter (\<lambda>x. fst x \<notin> ?H) (pool_transactions m)) k = (if k \<in> ?H then None else bt_get (pool_transactions m) k)"
    using bt_get_retain [OF pool_okD(2) [OF assms(1)], of "\<lambda>h _. h \<notin> ?H" k]
    by (simp add: bt_retain_def split: option.splits)
  moreover have "bt_weight w (filter (\<lambda>x. fst x \<notin> ?H) xs) + bt_weight w (filter (\<lambda>x. fst x \<in> ?H) xs) = bt_weight w xs"
    for w :: "mempool_entry \<Rightarrow> nat" and xs
    by (induction xs) (simp_all add: bt_weight_def)
  ultimately show ?thesis
    using assms(2) by (auto simp: mempool_get_def pool_bytes_def remove_confirmed_transactions remove_confirmed_frame)
qed

end
