(* ===== verification/Mempool_Selection.thy ===== *)
theory Mempool_Selection
  imports Mempool_Properties
begin

text \<open>
  Selection of transactions for a block. The loop of \<open>select_for_block\<close> is characterised by three
  facts about the sender queues it consumes: it takes as many transactions as it can, a prefix of
  each sender's queue, and at every step a best queue head. The branches of the model that stand for
  a panic are unreachable (\<open>best_sender_queue\<close>).
\<close>

section \<open>Sender queues\<close>

definition queues_ok :: "(address, signed_transaction list) btreemap \<Rightarrow> bool" where
  "queues_ok m \<longleftrightarrow> bt_wf m \<and> (\<forall>(s, q) \<in> set m. q \<noteq> [] \<and> (\<forall>t \<in> set q. tx_from (payload t) = s))"

definition from_is :: "address \<Rightarrow> signed_transaction \<Rightarrow> bool" where
  "from_is s t \<longleftrightarrow> tx_from (payload t) = s"

lemma queues_okD:
  assumes "queues_ok m" "bt_get m s = Some q"
  shows "q \<noteq> []" "\<And>t. t \<in> set q \<Longrightarrow> tx_from (payload t) = s"
  using assms by (auto simp: queues_ok_def bt_get_iff_mem)

lemma bt_insert_remove: "bt_wf m \<Longrightarrow> bt_insert k v m = bt_insert k v (bt_remove k m)"
  by (rule bt_ext) auto

lemma bt_weight_update:
  assumes "bt_wf m" "bt_get m k = Some u"
  shows "bt_weight w (bt_insert k v m) + w u = bt_weight w m + w v"
  using bt_weight_remove [OF assms, of w] bt_weight_insert_new [of "bt_remove k m" k w v]
  by (simp add: bt_insert_remove [OF assms(1), of k v])

definition advance ::
  "address \<Rightarrow> signed_transaction list \<Rightarrow> (address, signed_transaction list) btreemap \<Rightarrow>
   (address, signed_transaction list) btreemap" where
  "advance s ts m = (if ts = [] then bt_remove s m else bt_insert s ts m)"

lemma bt_queue_advance: "bt_queue (advance s ts m) x = (if x = s then ts else bt_queue m x)"
  by (simp add: advance_def bt_queue_def)

lemma queues_ok_advance:
  assumes "queues_ok m" "bt_get m s = Some (t # ts)"
  shows "queues_ok (advance s ts m)"
  using assms queues_okD [OF assms] set_bt_insert [of m s ts]
  by (auto simp: queues_ok_def advance_def bt_remove_def bt_wf_filter)

lemma weight_advance:
  assumes "queues_ok m" "bt_get m s = Some (t # ts)"
  shows "Suc (bt_weight length (advance s ts m)) = bt_weight length m"
  using assms bt_weight_update [OF _ assms(2), of length ts] bt_weight_remove [OF _ assms(2), of length]
  by (auto simp: queues_ok_def advance_def)

section \<open>The best head\<close>

lemma candidate_le_refl: "candidate_le K t t"
  by (simp add: candidate_le_def)

lemma candidate_le_trans: "candidate_le K a b \<Longrightarrow> candidate_le K b c \<Longrightarrow> candidate_le K a c"
  unfolding candidate_le_def by fastforce

lemma candidate_le_total: "candidate_le K a b \<or> candidate_le K b a"
  unfolding candidate_le_def by fastforce

lemma best_candidate_mem: "best_candidate K x ys \<in> insert x (set ys)"
  by (induction ys arbitrary: x) (auto split: if_splits)

lemma best_candidate_max:
  "y \<in> insert x (set ys) \<Longrightarrow> candidate_le K (snd y) (snd (best_candidate K x ys))"
proof (induction ys arbitrary: x y)
  case Nil
  then show ?case by (simp add: candidate_le_refl)
next
  case (Cons z zs)
  let ?w = "if candidate_le K (snd x) (snd z) then z else x"
  have w: "candidate_le K (snd ?w) (snd (best_candidate K ?w zs))" by (rule Cons.IH) simp
  have "candidate_le K (snd x) (snd ?w)" "candidate_le K (snd z) (snd ?w)"
    using candidate_le_total candidate_le_refl by auto
  with w have "candidate_le K (snd x) (snd (best_candidate K ?w zs))"
    "candidate_le K (snd z) (snd (best_candidate K ?w zs))"
    using candidate_le_trans by blast+
  moreover have "candidate_le K (snd y) (snd (best_candidate K ?w zs))" if "y \<in> set zs"
    using that by (intro Cons.IH) simp
  ultimately show ?case using Cons.prems by auto
qed

lemma queue_heads_ok: "\<forall>(s, q) \<in> set m. q \<noteq> [] \<Longrightarrow> queue_heads m = map (\<lambda>(s, q). (s, hd q)) m"
  by (induction m) (auto simp: queue_heads_def map_filter_simps split: list.splits)

lemma best_sender_None: "queues_ok m \<Longrightarrow> best_sender K m = None \<longleftrightarrow> m = []"
  using queue_heads_ok [of m]
  by (auto simp: best_sender_def queues_ok_def case_prod_beta split: list.splits)

lemma best_sender_queue:
  assumes "queues_ok m" "best_sender K m = Some s"
  obtains t ts where "bt_get m s = Some (t # ts)"
    "\<And>x u us. bt_queue m x = u # us \<Longrightarrow> candidate_le K u t"
proof -
  have ne: "\<forall>(s, q) \<in> set m. q \<noteq> []" and wf: "bt_wf m" using assms(1) by (auto simp: queues_ok_def)
  let ?hs = "map (\<lambda>(s, q). (s, hd q)) m"
  obtain c cs where hs: "?hs = c # cs" and s: "s = fst (best_candidate K c cs)"
    using assms(2) by (auto simp: best_sender_def queue_heads_ok [OF ne] split: list.splits)
  define b where "b = best_candidate K c cs"
  have "b \<in> set ?hs" using best_candidate_mem [of K c cs] by (simp only: hs b_def list.set)
  then obtain q where q: "(s, q) \<in> set m" "snd b = hd q" using s b_def by auto
  moreover have "candidate_le K (hd q') (snd b)" if "(x, q') \<in> set m" for x q'
  proof -
    have "(x, hd q') \<in> set ?hs" using that by force
    then show ?thesis using best_candidate_max [of "(x, hd q')" c cs K] hs by (simp add: b_def)
  qed
  moreover have "\<exists>q'. (x, q') \<in> set m \<and> hd q' = u" if "bt_queue m x = u # us" for x u us
    using that wf by (force simp: bt_queue_def bt_get_iff_mem split: option.splits)
  ultimately have "candidate_le K u (hd q)" if "bt_queue m x = u # us" for x u us
    using that by metis
  moreover have "bt_get m s = Some (hd q # tl q)"
    using q(1) ne wf by (auto simp: bt_get_iff_mem)
  ultimately show ?thesis using that by blast
qed

lemma select_loop_Suc:
  assumes "queues_ok m"
  obtains "m = []" "select_loop K (Suc n) m = []"
  | s t ts where "bt_get m s = Some (t # ts)" "select_loop K (Suc n) m = t # select_loop K n (advance s ts m)"
      "\<And>x u us. bt_queue m x = u # us \<Longrightarrow> candidate_le K u t"
      "queues_ok (advance s ts m)" "tx_from (payload t) = s"
proof (cases "best_sender K m")
  case None
  then show ?thesis using that(1) best_sender_None [OF assms, of K] by simp
next
  case (Some s)
  from best_sender_queue [OF assms this] obtain t ts where
    "bt_get m s = Some (t # ts)" "\<And>x u us. bt_queue m x = u # us \<Longrightarrow> candidate_le K u t" by metis
  then show ?thesis
    using Some that(2) [of s t ts] queues_ok_advance [OF assms] queues_okD(2) [OF assms]
    by (auto simp: advance_def)
qed

section \<open>The loop\<close>

lemma select_loop_length: "queues_ok m \<Longrightarrow> length (select_loop K n m) = min n (bt_weight length m)"
proof (induction n arbitrary: m)
  case (Suc n)
  show ?case
  proof (cases rule: select_loop_Suc [OF Suc.prems, of K n])
    case 1
    then show ?thesis by (simp add: bt_weight_def)
  next
    case (2 s t ts)
    then show ?thesis using Suc.IH [OF 2(4)] weight_advance [OF Suc.prems 2(1)] by simp
  qed
qed simp

lemma select_loop_prefix:
  "queues_ok m \<Longrightarrow> \<exists>k. filter (from_is s) (select_loop K n m) = take k (bt_queue m s)"
proof (induction n arbitrary: m)
  case (Suc n)
  show ?case
  proof (cases rule: select_loop_Suc [OF Suc.prems, of K n])
    case 1
    then show ?thesis by (intro exI [of _ 0]) simp
  next
    case (2 x t ts)
    from Suc.IH [OF 2(4)] obtain k where
      k: "filter (from_is s) (select_loop K n (advance x ts m)) = take k (bt_queue (advance x ts m) s)" by blast
    have t: "from_is s t \<longleftrightarrow> x = s" using 2(5) by (simp add: from_is_def)
    show ?thesis
    proof (cases "x = s")
      case True
      then have "filter (from_is s) (select_loop K (Suc n) m) = take (Suc k) (bt_queue m s)"
        using k 2(1,2) bt_queue_advance [of x ts m s] by (simp add: t bt_queue_def)
      then show ?thesis by blast
    next
      case False
      then show ?thesis using k 2(2) by (auto simp: bt_queue_advance t)
    qed
  qed
qed (auto intro: exI [of _ 0])

lemma select_loop_greedy:
  "queues_ok m \<Longrightarrow> select_loop K n m = xs @ t # ys \<Longrightarrow>
   drop (length (filter (from_is s) xs)) (bt_queue m s) = u # us \<Longrightarrow> candidate_le K u t"
proof (induction n arbitrary: m xs)
  case (Suc n)
  show ?case
  proof (cases rule: select_loop_Suc [OF Suc.prems(1), of K n])
    case 1
    then show ?thesis using Suc.prems(2) by simp
  next
    case (2 x t' ts)
    show ?thesis
    proof (cases xs)
      case Nil
      then show ?thesis using Suc.prems 2(2,3) by simp
    next
      case (Cons z zs)
      then have z: "z = t'" "select_loop K n (advance x ts m) = zs @ t # ys"
        using Suc.prems(2) 2(2) by simp_all
      have "drop (length (filter (from_is s) zs)) (bt_queue (advance x ts m) s) = u # us"
      proof (cases "x = s")
        case True
        then have "from_is s t'" "bt_queue m s = t' # ts"
          using 2(1,5) by (simp_all add: from_is_def bt_queue_def)
        then show ?thesis using Suc.prems(3) Cons z(1) True by (simp add: bt_queue_advance)
      next
        case False
        then have "\<not> from_is s t'" using 2(5) by (simp add: from_is_def)
        then show ?thesis using Suc.prems(3) Cons z(1) False by (simp add: bt_queue_advance)
      qed
      from Suc.IH [OF 2(4) z(2) this] show ?thesis .
    qed
  qed
qed simp

section \<open>The queues built from the pool\<close>

definition sender_queue :: "core \<Rightarrow> mempool \<Rightarrow> address \<Rightarrow> signed_transaction list" where
  "sender_queue K m s = sort_key (\<lambda>t. (tx_nonce (payload t), tx_hash K t)) (filter (from_is s) (transactions m))"

lemma group_by_sender_snoc: "group_by_sender (txs @ [t]) = bt_push (tx_from (payload t)) t (group_by_sender txs)"
  by (simp add: group_by_sender_def)

lemma group_by_sender_Nil: "group_by_sender [] = []"
  by (simp add: group_by_sender_def)

lemma bt_queue_group: "bt_queue (group_by_sender txs) s = filter (from_is s) txs"
  by (induction txs rule: rev_induct)
    (auto simp: group_by_sender_Nil group_by_sender_snoc bt_queue_push from_is_def, simp add: bt_queue_def)

lemma queues_ok_push: "queues_ok m \<Longrightarrow> queues_ok (bt_push (tx_from (payload t)) t m)"
  using queues_okD(2) [of m "tx_from (payload t)"]
  by (cases "bt_get m (tx_from (payload t))") (auto simp: queues_ok_def bt_push_def set_bt_insert)

lemma queues_ok_group: "queues_ok (group_by_sender txs)"
  by (induction txs rule: rev_induct)
    (simp_all add: group_by_sender_Nil group_by_sender_snoc queues_ok_push, simp add: queues_ok_def)

lemma weight_group: "bt_weight length (group_by_sender txs) = length txs"
proof (induction txs rule: rev_induct)
  case (snoc t txs)
  let ?m = "group_by_sender txs"
  have wf: "bt_wf ?m" using queues_ok_group [of txs] by (simp add: queues_ok_def)
  show ?case
  proof (cases "bt_get ?m (tx_from (payload t))")
    case None
    then show ?thesis using snoc by (simp add: group_by_sender_snoc bt_push_def bt_weight_insert_new)
  next
    case (Some q)
    then show ?thesis
      using snoc bt_weight_update [OF wf Some, of length "q @ [t]"]
      by (simp add: group_by_sender_snoc bt_push_def)
  qed
qed (simp add: group_by_sender_Nil bt_weight_def)

lemma bt_get_sort_queues:
  "bt_get (sort_queues K m) s = map_option (sort_key (\<lambda>t. (tx_nonce (payload t), tx_hash K t))) (bt_get m s)"
  by (induction m) (auto simp: sort_queues_def)

lemma queues_ok_sort: "queues_ok m \<Longrightarrow> queues_ok (sort_queues K m)"
proof -
  assume ok: "queues_ok m"
  have "bt_wf (sort_queues K m)"
    using ok unfolding sort_queues_def by (simp only: bt_wf_map_snd queues_ok_def)
  moreover have "sort_key f q \<noteq> []" if "q \<noteq> []" for f :: "signed_transaction \<Rightarrow> u64 \<times> hash" and q
    using that by (metis length_0_conv length_sort)
  ultimately show ?thesis using ok by (auto simp: queues_ok_def sort_queues_def)
qed

lemma weight_sort: "bt_weight length (sort_queues K m) = bt_weight length m"
  by (simp add: bt_weight_def sort_queues_def comp_def case_prod_beta)

lemma bt_queue_pool: "bt_queue (sort_queues K (group_by_sender (transactions m))) s = sender_queue K m s"
  using bt_queue_group [of "transactions m" s]
  by (auto simp: bt_queue_def bt_get_sort_queues sender_queue_def split: option.splits)

lemmas pool_queues_ok = queues_ok_sort [OF queues_ok_group]

section \<open>Properties\<close>

text \<open>
  C32. The selection is as large as it can be: the limit, or the whole pool when it holds fewer
  transactions. The loop ends and neither panic of its body is reachable.
\<close>

theorem select_for_block_length: "length (select_for_block K m limit) = min limit (mempool_len m)"
  by (simp add: select_for_block_def select_loop_length pool_queues_ok weight_sort weight_group
      transactions_def mempool_len_def)

text \<open>
  Of each sender the selection holds a prefix of the sender's transactions in nonce order (ties
  by hash), in that order: no transaction is selected before one it depends on, none twice.
\<close>

lemma select_for_block_prefix:
  "filter (from_is s) (select_for_block K m limit) =
     take (length (filter (from_is s) (select_for_block K m limit))) (sender_queue K m s)"
proof -
  obtain k where "filter (from_is s) (select_for_block K m limit) = take k (sender_queue K m s)"
    using select_loop_prefix [OF pool_queues_ok, of s K limit K "transactions m"]
    unfolding select_for_block_def bt_queue_pool by blast
  then show ?thesis by (simp add: take_all_iff min_def)
qed

text \<open>
  C30. The selection is greedy: every selected transaction is, at its turn, the next one of its sender's queue, and it is a
  best candidate (highest fee, then lowest nonce, then lowest hash) among the next transactions of all senders.
\<close>

theorem select_for_block_greedy:
  assumes "select_for_block K m limit = xs @ t # ys"
  shows "(\<exists>us. drop (length (filter (from_is (tx_from (payload t))) xs)) (sender_queue K m (tx_from (payload t))) = t # us) \<and>
    (\<forall>s u us. drop (length (filter (from_is s) xs)) (sender_queue K m s) = u # us \<longrightarrow> candidate_le K u t)"
proof
  let ?s = "tx_from (payload t)"
  let ?k = "length (filter (from_is ?s) (select_for_block K m limit))" and ?i = "length (filter (from_is ?s) xs)"
  have "filter (from_is ?s) (select_for_block K m limit) = filter (from_is ?s) xs @ t # filter (from_is ?s) ys"
    by (simp add: assms from_is_def)
  then have "take ?k (sender_queue K m ?s) = filter (from_is ?s) xs @ t # filter (from_is ?s) ys"
    using select_for_block_prefix [of ?s K m limit] by metis
  then have "drop ?i (sender_queue K m ?s) = t # filter (from_is ?s) ys @ drop ?k (sender_queue K m ?s)"
    by (metis append_Cons append_assoc append_eq_conv_conj append_take_drop_id)
  then show "\<exists>us. drop ?i (sender_queue K m ?s) = t # us" by blast
  show "\<forall>s u us. drop (length (filter (from_is s) xs)) (sender_queue K m s) = u # us \<longrightarrow> candidate_le K u t"
    using assms by (auto simp: select_for_block_def bt_queue_pool intro: select_loop_greedy [OF pool_queues_ok])
qed

text \<open>
  Two senders: the one with the higher fee goes first, then the other one's transactions in nonce order, although the second of
  them offers more than the first.
\<close>

definition other_tx :: signed_transaction where
  "other_tx = (sample_tx 7 0 3)\<lparr>payload := (payload (sample_tx 7 0 3))\<lparr>tx_from := [2]\<rparr>\<rparr>"

definition market_pool :: mempool where
  "market_pool = sample_pool\<lparr>pool_transactions := [([5], sample_entry 5 0 2), ([6], sample_entry 6 1 4),
     ([7], \<lparr>entry_transaction = other_tx, inserted_at = 1000\<rparr>)]\<rparr>"

theorem select_for_block_greedy_witness:
  "select_for_block sample_core market_pool 2 = [other_tx] @ sample_tx 5 0 2 # [] \<and>
   drop 0 (sender_queue sample_core market_pool [1]) = sample_tx 5 0 2 # [sample_tx 6 1 4] \<and>
   candidate_le sample_core (sample_tx 5 0 2) other_tx"
proof -
  have sel: "select_for_block sample_core market_pool 2 = [other_tx] @ sample_tx 5 0 2 # []"
    by (subst numeral_2_eq_2) (simp add: select_for_block_def sample_defs market_pool_def other_tx_def transactions_def
        group_by_sender_def bt_push_def sort_queues_def best_sender_def queue_heads_def map_filter_simps candidate_le_def bt_remove_def)
  have queue: "sender_queue sample_core market_pool [1] = [sample_tx 5 0 2, sample_tx 6 1 4]"
    by (simp add: sender_queue_def from_is_def sample_defs market_pool_def other_tx_def transactions_def)
  have "select_for_block sample_core market_pool 2 = [] @ other_tx # [sample_tx 5 0 2]" using sel by simp
  from select_for_block_greedy [OF this, THEN conjunct2, rule_format, of "[1]" "sample_tx 5 0 2"] queue
  have "candidate_le sample_core (sample_tx 5 0 2) other_tx" by simp
  with sel queue show ?thesis by simp
qed

text \<open>
  C31. What the pool guarantees of a sender's queue carries over to the block: if the sender's pending
  transactions are executable in order (consecutive nonces from the account's, cost covered), so is
  what the selection takes of them, for every limit.
\<close>

theorem select_for_block_payable:
  assumes "payable n funds (pending_from_sender m s None)"
  shows "payable n funds (filter (from_is s) (select_for_block K m limit))"
proof -
  have "mset (sender_queue K m s) = mset (pending_from_sender m s None)"
    by (simp add: sender_queue_def pending_from_sender_def transactions_def from_is_def mset_filter
        comp_def case_prod_beta' flip: mset_map)
  moreover have "sorted (map (\<lambda>t. (tx_nonce (payload t), tx_hash K t)) (sender_queue K m s))"
    by (simp add: sender_queue_def)
  then have "sorted (map nonce_of (sender_queue K m s))"
    unfolding sorted_map by (rule sorted_wrt_mono_rel [rotated]) (auto simp: nonce_of_def word_le_nat_alt word_less_nat_alt less_eq_prod_def)
  ultimately have "payable n funds (sender_queue K m s)" by (rule payable_permute [OF assms])
  then have "payable n funds (take k (sender_queue K m s))" for k by (rule payable_take)
  moreover obtain k where "filter (from_is s) (select_for_block K m limit) = take k (sender_queue K m s)"
    using select_loop_prefix [OF pool_queues_ok, of s K limit K "transactions m"]
    unfolding select_for_block_def bt_queue_pool by blast
  ultimately show ?thesis by simp
qed

theorem select_for_block_payable_witness:
  "payable 0 100 (filter (from_is [1]) (select_for_block sample_core sample_pool 1))"
  by (rule select_for_block_payable)
    (simp add: sample_defs pending_from_sender_def payable_def nonce_of_def cost_def upt_rec)

text \<open>
  The candidate block extends the ledger's tip (height one above it, its hash as parent, genesis
  coordinates on an empty ledger), carries the selection, pays its fees to the miner in the
  coinbase unless it is the genesis block, and its state root is the ledger's own prediction.
\<close>

lemma create_candidate_block_fields:
  assumes "block_laws K" "create_candidate_block K m L miner ts n limit = Ok b"
  shows "block_height b = (case ledger_tip_height K L of None \<Rightarrow> 0 | Some h \<Rightarrow> saturating_add h 1) \<and>
    previous_hash b = (case ledger_tip_hash K L of None \<Rightarrow> zero_hash K | Some h \<Rightarrow> h) \<and>
    miner_address b = miner \<and> block_timestamp b = ts \<and> block_difficulty b = DIFFICULTY_START K \<and>
    block_transactions b = select_for_block K m limit \<and>
    (if block_height b = 0 \<and> previous_hash b = zero_hash K then block_coinbase b = None
     else \<exists>sub. mintable_subsidy K L (block_height b) = Ok sub \<and>
       block_coinbase b = Some \<lparr>cb_to = miner, cb_subsidy = sub,
         cb_fees = sum_list (map (\<lambda>t. tx_fee (payload t)) (block_transactions b))\<rparr>) \<and>
    (\<exists>b0. state_root_after_block K L b0 = Ok (block_state_root b) \<and>
       b = b0\<lparr>header := (header b0)\<lparr>bh_state_root := block_state_root b\<rparr>\<rparr>)"
  using assms
  by (auto simp: create_candidate_block_def Let_def block_laws_def res_bind_Ok_iff split: if_splits)

end
