(* ===== verification/Mempool_Refinement.thy ===== *)
theory Mempool_Refinement
  imports Mempool_Properties
begin

text \<open>
  An abstract pool, and that the transaction pool implements it: a map from slots (a sender and a
  nonce) to entries. Hashes, the order of entries and the accounting of bytes are not part of it. Each
  public operation of the pool is one operation on the map.
\<close>

type_synonym slots = "address \<times> u64 \<rightharpoonup> mempool_entry"

definition slot_of :: "signed_transaction \<Rightarrow> address \<times> u64" where
  "slot_of t = (tx_from (payload t), tx_nonce (payload t))"

definition spec_keep :: "(mempool_entry \<Rightarrow> bool) \<Rightarrow> slots \<Rightarrow> slots" where
  "spec_keep P M = (\<lambda>s. case M s of None \<Rightarrow> None | Some e \<Rightarrow> if P e then Some e else None)"

definition spec_expire :: "mempool_config \<Rightarrow> u64 \<Rightarrow> slots \<Rightarrow> slots" where
  "spec_expire c now = spec_keep (entry_retained c now)"

definition spec_confirm :: "core \<Rightarrow> hash set \<Rightarrow> slots \<Rightarrow> slots" where
  "spec_confirm K H = spec_keep (\<lambda>e. tx_hash K (entry_transaction e) \<notin> H)"

definition spec_admit :: "signed_transaction \<Rightarrow> u64 \<Rightarrow> slots \<Rightarrow> slots" where
  "spec_admit t now M = M(slot_of t \<mapsto> \<lparr>entry_transaction = t, inserted_at = now\<rparr>)"

text \<open>The abstraction.\<close>

definition slot_map :: "mempool \<Rightarrow> slots" where
  "slot_map m = map_of (map (\<lambda>e. (slot_of (entry_transaction e), e)) (bt_values (pool_transactions m)))"

definition spec_init :: "slots \<Rightarrow> bool" where
  "spec_init M \<longleftrightarrow> M = Map.empty"

lemma same_slot_slot_of: "same_slot a b \<longleftrightarrow> slot_of a = slot_of b"
  by (auto simp: same_slot_def slot_of_def)

lemma slot_map_iff:
  assumes "bt_wf (pool_transactions m)" "slots_unique m"
  shows "slot_map m s = Some e \<longleftrightarrow> (\<exists>k. bt_get (pool_transactions m) k = Some e) \<and> slot_of (entry_transaction e) = s"
proof -
  let ?es = "bt_values (pool_transactions m)"
  have in_values: "e \<in> set ?es \<longleftrightarrow> (\<exists>k. bt_get (pool_transactions m) k = Some e)" for e
    using assms(1) by (force simp: bt_get_iff_mem)
  have inj: "e = e'" if "e \<in> set ?es" "e' \<in> set ?es" "slot_of (entry_transaction e) = slot_of (entry_transaction e')" for e e'
  proof -
    note t = that
    obtain k k' where k: "(k, e) \<in> set (pool_transactions m)" "(k', e') \<in> set (pool_transactions m)" using t(1,2) by auto
    then have "k = k'" using assms(2) t(3) by (fastforce simp: slots_unique_def same_slot_slot_of)
    then show ?thesis using k bt_wf_distinct [OF assms(1)] by (metis eq_key_imp_eq_value)
  qed
  have "(s, e) \<in> set (map (\<lambda>e. (slot_of (entry_transaction e), e)) ?es)" if "slot_map m s = Some e"
    using map_of_SomeD [OF that [unfolded slot_map_def]] .
  moreover have "slot_map m (slot_of (entry_transaction e)) = Some e" if "e \<in> set ?es"
  proof -
    note t = that
    obtain e' where e': "slot_map m (slot_of (entry_transaction e)) = Some e'"
      using t by (force simp: slot_map_def map_of_eq_None_iff image_iff)
    with map_of_SomeD [OF e' [unfolded slot_map_def]] inj [OF t] show ?thesis by auto
  qed
  ultimately show ?thesis using in_values by auto
qed

lemma slot_map_eqI:
  assumes "\<And>s e. slot_map m s = Some e \<longleftrightarrow> M s = Some e"
  shows "slot_map m = M"
  by (rule ext) (metis assms not_Some_eq)

lemma spec_keep_Some: "spec_keep P M s = Some e \<longleftrightarrow> M s = Some e \<and> P e"
  by (auto simp: spec_keep_def split: option.split)

text \<open>Operations that remove entries.\<close>

lemma slot_map_keep:
  assumes "bt_wf (pool_transactions m)" "slots_unique m" "bt_wf (pool_transactions m')"
    and "set (pool_transactions m') = {x \<in> set (pool_transactions m). P (snd x)}"
  shows "slot_map m' = spec_keep P (slot_map m)"
proof (rule slot_map_eqI)
  fix s e
  have u: "slots_unique m'" using assms(2) by (rule slots_unique_subset) (auto simp: assms(4))
  have "(\<exists>k. bt_get (pool_transactions m') k = Some e) \<longleftrightarrow> (\<exists>k. bt_get (pool_transactions m) k = Some e) \<and> P e"
    using assms(1,3,4) by (auto simp: bt_get_iff_mem)
  then show "slot_map m' s = Some e \<longleftrightarrow> spec_keep P (slot_map m) s = Some e"
    by (auto simp: slot_map_iff [OF assms(3) u] slot_map_iff [OF assms(1,2)] spec_keep_Some)
qed

lemma prune_slots:
  assumes "pool_ok K m" "slots_unique m"
  shows "slot_map (fst (prune_expired K m now)) = spec_expire (pool_config m) now (slot_map m)"
  unfolding spec_expire_def
  using assms pool_okD(2) [OF assms(1)] by (intro slot_map_keep) (auto simp: prune_expired_transactions bt_retain_def bt_wf_filter)

lemma admit_slots:
  assumes "pool_ok K m" "slots_unique m" "insert_validated_at K m L tx now = (m', Ok h)"
  shows "slot_map m' = spec_admit tx now (spec_expire (pool_config m) now (slot_map m))"
proof (rule slot_map_eqI)
  fix s e
  have wf: "bt_wf (pool_transactions m)" "bt_wf (pool_transactions m')" and u: "slots_unique m'"
    using pool_okD(2) [OF assms(1)] pool_okD(2) [OF insert_validated_at_ok [OF assms(1), of L tx now]]
      insert_validated_at_slots [of K m L tx now] assms by (auto dest: pool_okD)
  note ent = insert_validated_at_entries [OF assms]
  have fresh: "\<not> (entry_retained (pool_config m) now e \<and> \<not> same_slot (entry_transaction e) tx)"
    if "bt_get (pool_transactions m) h = Some e" for e
  proof
    assume "entry_retained (pool_config m) now e \<and> \<not> same_slot (entry_transaction e) tx"
    moreover obtain r where "insert_unchecked K (fst (prune_expired K m now)) tx now r = (m', Ok h)"
      by (rule insert_validated_at_Ok [OF assms(3)])
    ultimately show False
      using that wf(1) by (auto simp: insert_unchecked_def Let_def bt_contains_def prune_expired_transactions bt_get_retain split: if_splits)
  qed
  have "(\<exists>k. bt_get (pool_transactions m') k = Some e) \<longleftrightarrow>
      e = \<lparr>entry_transaction = tx, inserted_at = now\<rparr> \<or>
      (\<exists>k. bt_get (pool_transactions m) k = Some e) \<and> entry_retained (pool_config m) now e \<and> \<not> same_slot (entry_transaction e) tx"
    (is "?L \<longleftrightarrow> ?R")
  proof (intro iffI; elim exE disjE conjE)
    fix k assume "bt_get (pool_transactions m') k = Some e"
    then show "?R" by (auto simp: ent(2) split: option.splits if_splits)
  next
    assume "e = \<lparr>entry_transaction = tx, inserted_at = now\<rparr>"
    then show "\<exists>k. bt_get (pool_transactions m') k = Some e" by (intro exI [of _ h]) (simp add: ent(2))
  next
    fix k assume "bt_get (pool_transactions m) k = Some e" "entry_retained (pool_config m) now e" "\<not> same_slot (entry_transaction e) tx"
    then show "\<exists>k. bt_get (pool_transactions m') k = Some e" using fresh by (intro exI [of _ k]) (auto simp: ent(2))
  qed
  then show "slot_map m' s = Some e \<longleftrightarrow> spec_admit tx now (spec_expire (pool_config m) now (slot_map m)) s = Some e"
    by (auto simp: slot_map_iff [OF wf(2) u] slot_map_iff [OF wf(1) assms(2)] spec_admit_def spec_expire_def
        spec_keep_Some same_slot_slot_of)
qed

text \<open>
  C13. The pool implements a map from sender and nonce to the pending transaction: a submission that is
  accepted expires old entries and puts the transaction into its slot, in place of the one there; one
  that is rejected only expires old entries; confirming a block, removing, pruning and clearing remove
  exactly the entries they should.
\<close>

theorem pool_implements_slots:
  assumes "reach pool_init (validated_step K) m"
  shows "slot_map (fst (insert_validated_at K m L tx now)) =
      (case snd (insert_validated_at K m L tx now) of
         Inl _ \<Rightarrow> spec_expire (pool_config m) now (slot_map m)
       | Inr _ \<Rightarrow> spec_admit tx now (spec_expire (pool_config m) now (slot_map m))) \<and>
    slot_map (remove_confirmed K m b) = spec_confirm K (tx_hash K ` set (block_transactions b)) (slot_map m) \<and>
    slot_map (fst (mempool_remove K m h)) = spec_confirm K {h} (slot_map m) \<and>
    slot_map (fst (prune_expired K m now)) = spec_expire (pool_config m) now (slot_map m) \<and>
    slot_map (mempool_clear m) = Map.empty"
proof -
  have ok: "pool_ok K m" "slots_unique m" using node_pool.reach_inv [OF assms] by auto
  have bt: "bt_wf (pool_transactions m)" by (rule pool_okD(2) [OF ok(1)])
  have key: "fst x = tx_hash K (entry_transaction (snd x))" if "x \<in> set (pool_transactions m)" for x
    using pool_okD(1) [OF ok(1)] that by (auto simp: pool_wf_def)
  have "slot_map (fst (insert_validated_at K m L tx now)) =
      (case snd (insert_validated_at K m L tx now) of
         Inl _ \<Rightarrow> spec_expire (pool_config m) now (slot_map m)
       | Inr _ \<Rightarrow> spec_admit tx now (spec_expire (pool_config m) now (slot_map m)))"
    using admit_slots [OF ok] prune_slots [OF ok] insert_validated_at_Err [of K m L tx now]
    by (cases "insert_validated_at K m L tx now"; cases "snd (insert_validated_at K m L tx now)") auto
  moreover have "slot_map (remove_confirmed K m b) = spec_confirm K (tx_hash K ` set (block_transactions b)) (slot_map m)"
    unfolding spec_confirm_def using key
    by (intro slot_map_keep [OF bt ok(2)]) (auto simp: remove_confirmed_transactions bt_wf_filter bt)
  moreover have "slot_map (fst (mempool_remove K m h)) = spec_confirm K {h} (slot_map m)"
    unfolding spec_confirm_def using key
    by (intro slot_map_keep [OF bt ok(2)]) (auto simp: bt_remove_def bt_wf_filter bt)
  moreover have "slot_map (mempool_clear m) = Map.empty"
    by (simp add: slot_map_def mempool_clear_def)
  ultimately show ?thesis using prune_slots [OF ok] by blast
qed

theorem pool_implements_slots_witness:
  "slot_map (fst (insert_validated_at sample_core sample_pool sample_ledger (sample_tx 7 1 3) 1001)) ([1], 1) =
     Some \<lparr>entry_transaction = sample_tx 7 1 3, inserted_at = 1001\<rparr>"
proof -
  have "\<exists>m. insert_validated_at sample_core sample_pool sample_ledger (sample_tx 7 1 3) 1001 = (m, Ok [7])"
    by (simp add: sample_defs insert_defs)
  then have "snd (insert_validated_at sample_core sample_pool sample_ledger (sample_tx 7 1 3) 1001) = Ok [7]" by auto
  with pool_implements_slots [OF sample_pool_reachable, THEN conjunct1, of sample_ledger "sample_tx 7 1 3" 1001]
  show ?thesis by (simp add: spec_admit_def slot_of_def sample_tx_def)
qed

end
