(* ===== verification/Miner.thy ===== *)
theory Miner
  imports Mempool
begin

text \<open>
  Block production (\<open>src/runtime/miner/miner.rs\<close>): a candidate block from the pool, then the search
  for a nonce whose proof-of-work hash meets the difficulty. The consensus rules belong to the
  protocol crate; they are the fields of the record \<open>consensus\<close>, which also holds the configured
  difficulty (\<open>Consensus::config\<close>).
\<close>

record consensus =
  cons_difficulty :: u32
  proof_of_work_hash :: "block \<Rightarrow> consensus_error + hash"
  validate_proof_of_work_hash_with_difficulty :: "hash \<Rightarrow> u32 \<Rightarrow> consensus_error + unit"
  validate_genesis_block_at :: "block \<Rightarrow> u64 \<Rightarrow> consensus_error + unit"
  validate_next_block_with_tip_at :: "block \<Rightarrow> block \<Rightarrow> u64 \<Rightarrow> consensus_error + unit"
  retarget_difficulty :: "u32 \<Rightarrow> u64 \<Rightarrow> u64 \<Rightarrow> u64 \<Rightarrow> consensus_error + u32"

record mining_config =
  mc_difficulty :: u32
  mc_max_attempts :: u64
  mc_transaction_limit :: nat

record mining_result =
  mined_block :: block
  mined_attempts :: u64

definition with_nonce :: "u64 \<Rightarrow> block \<Rightarrow> block" where
  "with_nonce n b = b\<lparr>header := (header b)\<lparr>bh_nonce := n\<rparr>\<rparr>"

definition with_difficulty :: "u32 \<Rightarrow> block \<Rightarrow> block" where
  "with_difficulty d b = b\<lparr>header := (header b)\<lparr>bh_difficulty := d\<rparr>\<rparr>"

definition prepare_candidate_block ::
  "core \<Rightarrow> mempool \<Rightarrow> ledger \<Rightarrow> address \<Rightarrow> u64 \<Rightarrow> nat \<Rightarrow> u32 \<Rightarrow> consensus_error + block" where
  "prepare_candidate_block K m L miner ts limit difficulty =
     res_bind (map_err (\<lambda>_. InvalidBlock BlockInvalidStateRoot)
       (create_candidate_block K m L miner ts 0 limit))
       (\<lambda>b. Ok (with_difficulty difficulty b))"

text \<open>The loop over \<open>0..max_attempts\<close>: the next attempt and the number of attempts left.\<close>

fun mine_loop :: "consensus \<Rightarrow> u32 \<Rightarrow> block \<Rightarrow> nat \<Rightarrow> nat \<Rightarrow> consensus_error + mining_result option" where
  "mine_loop P difficulty b attempt 0 = Ok None"
| "mine_loop P difficulty b attempt (Suc left) =
     (let b' = with_nonce (of_nat attempt) b;
          found = \<lparr>mined_block = b', mined_attempts = saturating_add (of_nat attempt) 1\<rparr>
      in if difficulty = 0 then Ok (Some found)
         else res_bind (proof_of_work_hash P b') (\<lambda>h.
           case validate_proof_of_work_hash_with_difficulty P h difficulty of
             Inr _ \<Rightarrow> Ok (Some found)
           | Inl _ \<Rightarrow> mine_loop P difficulty b (Suc attempt) left))"

definition mine_prepared_block ::
  "consensus \<Rightarrow> block \<Rightarrow> mining_config \<Rightarrow> consensus_error + mining_result option" where
  "mine_prepared_block P b c = mine_loop P (mc_difficulty c) b 0 (unat (mc_max_attempts c))"

definition mine_candidate_block ::
  "core \<Rightarrow> consensus \<Rightarrow> mempool \<Rightarrow> ledger \<Rightarrow> address \<Rightarrow> u64 \<Rightarrow> mining_config \<Rightarrow>
   consensus_error + mining_result option" where
  "mine_candidate_block K P m L miner ts c =
     res_bind (prepare_candidate_block K m L miner ts (mc_transaction_limit c) (mc_difficulty c))
       (\<lambda>b. mine_prepared_block P b c)"

section \<open>The search\<close>

text \<open>An attempt meets the difficulty, or fails it with a hash that was computed.\<close>

definition meets :: "consensus \<Rightarrow> u32 \<Rightarrow> block \<Rightarrow> nat \<Rightarrow> bool" where
  "meets P d b i \<longleftrightarrow> d = 0 \<or>
     (\<exists>h. proof_of_work_hash P (with_nonce (of_nat i) b) = Ok h \<and>
        validate_proof_of_work_hash_with_difficulty P h d = Ok ())"

definition misses :: "consensus \<Rightarrow> u32 \<Rightarrow> block \<Rightarrow> nat \<Rightarrow> bool" where
  "misses P d b i \<longleftrightarrow> d \<noteq> 0 \<and>
     (\<exists>h e. proof_of_work_hash P (with_nonce (of_nat i) b) = Ok h \<and>
        validate_proof_of_work_hash_with_difficulty P h d = Err e)"

lemma mine_loop_misses: "misses P d b a \<Longrightarrow> mine_loop P d b a (Suc n) = mine_loop P d b (Suc a) n"
  by (auto simp: misses_def Let_def)

lemma mine_loop_meets:
  "meets P d b a \<Longrightarrow> mine_loop P d b a (Suc n) =
     Ok (Some \<lparr>mined_block = with_nonce (of_nat a) b, mined_attempts = saturating_add (of_nat a) 1\<rparr>)"
  by (auto simp: meets_def Let_def)

lemma mine_loop_fails:
  assumes "\<not> meets P d b a" "\<not> misses P d b a"
  shows "\<exists>e. mine_loop P d b a (Suc n) = Err e"
proof (cases "proof_of_work_hash P (with_nonce (of_nat a) b)")
  case (Inl e)
  then show ?thesis using assms by (simp add: Let_def meets_def)
next
  case (Inr h)
  then show ?thesis
    using assms by (cases "validate_proof_of_work_hash_with_difficulty P h d") (auto simp: meets_def misses_def)
qed

lemmas mine_loop_step = mine_loop_misses mine_loop_meets mine_loop_fails

lemma mine_loop_Some_iff:
  "mine_loop P d b a n = Ok (Some r) \<longleftrightarrow>
     (\<exists>i < n. (\<forall>j < i. misses P d b (a + j)) \<and> meets P d b (a + i) \<and>
        r = \<lparr>mined_block = with_nonce (of_nat (a + i)) b, mined_attempts = saturating_add (of_nat (a + i)) 1\<rparr>)"
proof (induction n arbitrary: a)
  case (Suc n)
  have dis: "\<not> (misses P d b i \<and> meets P d b i)" for i
    by (auto simp: meets_def misses_def)
  show ?case
  proof (cases "misses P d b a")
    case True
    then have "(\<exists>i < Suc n. (\<forall>j < i. misses P d b (a + j)) \<and> meets P d b (a + i) \<and> Q (a + i)) \<longleftrightarrow>
      (\<exists>i < n. (\<forall>j < i. misses P d b (Suc a + j)) \<and> meets P d b (Suc a + i) \<and> Q (Suc a + i))" for Q
      using dis [of a] by (simp add: Ex_less_Suc2 All_less_Suc2)
    from this [of "\<lambda>i. r = \<lparr>mined_block = with_nonce (of_nat i) b, mined_attempts = saturating_add (of_nat i) 1\<rparr>"]
    show ?thesis unfolding mine_loop_misses [OF True] Suc.IH by (rule sym)
  next
    case False
    then have "(\<exists>i < Suc n. (\<forall>j < i. misses P d b (a + j)) \<and> meets P d b (a + i) \<and> Q (a + i)) \<longleftrightarrow> meets P d b a \<and> Q a" for Q
      by (auto simp: Ex_less_Suc2 All_less_Suc2)
    note this [of "\<lambda>i. r = \<lparr>mined_block = with_nonce (of_nat i) b, mined_attempts = saturating_add (of_nat i) 1\<rparr>"]
    moreover have "mine_loop P d b a (Suc n) = Ok (Some r) \<longleftrightarrow> meets P d b a \<and>
        r = \<lparr>mined_block = with_nonce (of_nat a) b, mined_attempts = saturating_add (of_nat a) 1\<rparr>"
      using False mine_loop_step(2,3) [of P d b a n] by (cases "meets P d b a") auto
    ultimately show ?thesis by blast
  qed
qed simp

lemma mine_loop_None_iff: "mine_loop P d b a n = Ok None \<longleftrightarrow> (\<forall>i < n. misses P d b (a + i))"
proof (induction n arbitrary: a)
  case (Suc n)
  show ?case
  proof (cases "misses P d b a")
    case True
    then show ?thesis using Suc.IH [of "Suc a"] by (simp add: mine_loop_step(1) All_less_Suc2 del: mine_loop.simps)
  next
    case False
    then show ?thesis
      using mine_loop_step(2,3) [of P d b a n] by (cases "meets P d b a") (auto simp: All_less_Suc2 simp del: mine_loop.simps)
  qed
qed simp

text \<open>Consensus rules for examples: a proof of work is valid when its hash, the nonce, is two.\<close>

definition sample_consensus :: consensus where
  "sample_consensus = \<lparr>cons_difficulty = 1,
     proof_of_work_hash = (\<lambda>b. Ok [ucast (bh_nonce (header b))]),
     validate_proof_of_work_hash_with_difficulty = (\<lambda>h d. if h = [2] then Ok () else Err UnexpectedDifficulty),
     validate_genesis_block_at = (\<lambda>_ _. Ok ()),
     validate_next_block_with_tip_at = (\<lambda>_ _ _. Ok ()),
     retarget_difficulty = (\<lambda>d _ _ _. Ok d)\<rparr>"

section \<open>Properties\<close>

text \<open>
  C33. The search returns the least nonce below the attempt limit that meets the difficulty, with
  the number of attempts made; the block differs from the prepared one in its nonce only. It gives
  up exactly when every allowed nonce fails the difficulty.
\<close>

theorem mine_prepared_block_least:
  "(mine_prepared_block P b c = Ok (Some r) \<longleftrightarrow>
     (\<exists>i < unat (mc_max_attempts c).
        (\<forall>j < i. misses P (mc_difficulty c) b j) \<and> meets P (mc_difficulty c) b i \<and>
        mined_block r = with_nonce (of_nat i) b \<and> unat (mined_attempts r) = Suc i)) \<and>
   (mine_prepared_block P b c = Ok None \<longleftrightarrow>
     (\<forall>i < unat (mc_max_attempts c). misses P (mc_difficulty c) b i))"
proof -
  have att: "r = \<lparr>mined_block = with_nonce (of_nat i) b, mined_attempts = saturating_add (of_nat i) 1\<rparr> \<longleftrightarrow>
      mined_block r = with_nonce (of_nat i) b \<and> unat (mined_attempts r) = Suc i"
    if "i < unat (mc_max_attempts c)" for i
  proof -
    have "Suc i < 2 ^ 64" using that unat_bound [of "mc_max_attempts c"] by simp
    then have "unat (saturating_add (of_nat i) (1 :: u64)) = Suc i"
      by (simp add: unat_saturating_add unat_of_nat)
    then have "mined_attempts r = saturating_add (of_nat i) 1 \<longleftrightarrow> unat (mined_attempts r) = Suc i"
      by (metis word_unat_eq_iff)
    then show ?thesis by (cases r) simp
  qed
  show ?thesis
    unfolding mine_prepared_block_def mine_loop_Some_iff mine_loop_None_iff
    using att by (auto simp: add_0)
qed

theorem mine_prepared_block_least_witness:
  "mine_prepared_block sample_consensus (with_coinbase sample_core 0 [0] [9] 8 7 0 None [])
     \<lparr>mc_difficulty = 1, mc_max_attempts = 5, mc_transaction_limit = 3\<rparr> =
     Ok (Some \<lparr>mined_block = with_nonce 2 (with_coinbase sample_core 0 [0] [9] 8 7 0 None []), mined_attempts = 3\<rparr>)"
proof -
  let ?b = "with_coinbase sample_core 0 [0] [9] 8 7 0 None []"
  have "misses sample_consensus 1 ?b 0" "misses sample_consensus 1 ?b 1" "meets sample_consensus 1 ?b 2"
    by (simp_all add: misses_def meets_def sample_consensus_def with_nonce_def sample_core_def)
  then have "\<exists>i < 5. (\<forall>j < i. misses sample_consensus 1 ?b j) \<and> meets sample_consensus 1 ?b i \<and>
      with_nonce 2 ?b = with_nonce (of_nat i) ?b \<and> 3 = Suc i"
    by (intro exI [of _ 2]) (auto simp: less_Suc_eq numeral_2_eq_2)
  then show ?thesis by (subst mine_prepared_block_least [THEN conjunct1]) simp
qed

text \<open>
  A mined candidate carries the requested difficulty, and everything else but its nonce is
  the pool's candidate block: its transactions, parent, height, coinbase and state root.
\<close>

lemma mine_candidate_block_from_pool:
  assumes "mine_candidate_block K P m L miner ts c = Ok (Some r)"
  shows "\<exists>b n. create_candidate_block K m L miner ts 0 (mc_transaction_limit c) = Ok b \<and>
    mined_block r = with_nonce n (with_difficulty (mc_difficulty c) b) \<and>
    block_difficulty (mined_block r) = mc_difficulty c \<and>
    block_transactions (mined_block r) = block_transactions b \<and> block_state_root (mined_block r) = block_state_root b"
proof -
  obtain b where b: "create_candidate_block K m L miner ts 0 (mc_transaction_limit c) = Ok b"
    "mine_prepared_block P (with_difficulty (mc_difficulty c) b) c = Ok (Some r)"
    using assms
    by (auto simp: mine_candidate_block_def prepare_candidate_block_def res_bind_Ok_iff map_err_Ok_iff)
  then obtain n where "mined_block r = with_nonce n (with_difficulty (mc_difficulty c) b)"
    unfolding mine_prepared_block_def mine_loop_Some_iff by auto
  with b(1) show ?thesis by (auto simp: with_nonce_def with_difficulty_def)
qed

end
