(* ===== verification/Cache.thy ===== *)
theory Cache
  imports Core
begin

text \<open>
  The in-memory index of accounts and blocks (\<open>src/runtime/cache.rs\<close>). Its contract: a cache built
  from a ledger answers every account and height query as the ledger does, finds every block of
  the chain by its hash and has the ledger's tip.
\<close>

record core_cache =
  cache_accounts :: "(address, account) btreemap"
  cache_blocks_by_height :: "(u64, block) btreemap"
  cache_blocks_by_hash :: "(hash, block) btreemap"
  cache_tip_height :: "u64 option"
  cache_tip_hash :: "hash option"

definition cache_new :: core_cache where
  "cache_new = \<lparr>cache_accounts = [], cache_blocks_by_height = [], cache_blocks_by_hash = [],
     cache_tip_height = None, cache_tip_hash = None\<rparr>"

definition cache_insert_account :: "account \<Rightarrow> core_cache \<Rightarrow> core_cache" where
  "cache_insert_account a c = c\<lparr>cache_accounts := bt_insert (acc_address a) a (cache_accounts c)\<rparr>"

definition cache_insert_block :: "core \<Rightarrow> block \<Rightarrow> core_cache \<Rightarrow> core_cache" where
  "cache_insert_block K b c =
     (let height = block_height b; hash = block_hash K b in
      c\<lparr>cache_blocks_by_height := bt_insert height b (cache_blocks_by_height c),
        cache_blocks_by_hash := bt_insert hash b (cache_blocks_by_hash c),
        cache_tip_height := Some height,
        cache_tip_hash := Some hash\<rparr>)"

definition from_ledger :: "core \<Rightarrow> ledger \<Rightarrow> core_cache" where
  "from_ledger K L =
     (let c = fold cache_insert_account (bt_values (ledger_accounts L)) cache_new;
          c' = fold (cache_insert_block K) (bt_values (chain_blocks (ledger_chain L))) c
      in c'\<lparr>cache_tip_height := ledger_tip_height K L, cache_tip_hash := ledger_tip_hash K L\<rparr>)"

definition cache_account :: "core_cache \<Rightarrow> address \<Rightarrow> account option" where
  "cache_account c a = bt_get (cache_accounts c) a"

definition block_by_height :: "core_cache \<Rightarrow> u64 \<Rightarrow> block option" where
  "block_by_height c h = bt_get (cache_blocks_by_height c) h"

definition block_by_hash :: "core_cache \<Rightarrow> hash \<Rightarrow> block option" where
  "block_by_hash c h = bt_get (cache_blocks_by_hash c) h"

definition cache_clear :: "core_cache \<Rightarrow> core_cache" where
  "cache_clear c = c\<lparr>cache_accounts := [], cache_blocks_by_height := [], cache_blocks_by_hash := [],
     cache_tip_height := None, cache_tip_hash := None\<rparr>"

section \<open>Building from a ledger\<close>

lemma fold_insert_account:
  "cache_accounts (fold cache_insert_account as c) = fold (\<lambda>a. bt_insert (acc_address a) a) as (cache_accounts c)"
  "cache_blocks_by_height (fold cache_insert_account as c) = cache_blocks_by_height c"
  "cache_blocks_by_hash (fold cache_insert_account as c) = cache_blocks_by_hash c"
  by (induction as arbitrary: c) (simp_all add: cache_insert_account_def)

lemma fold_insert_block:
  "cache_accounts (fold (cache_insert_block K) bl c) = cache_accounts c"
  "cache_blocks_by_height (fold (cache_insert_block K) bl c) =
     fold (\<lambda>b. bt_insert (block_height b) b) bl (cache_blocks_by_height c)"
  "cache_blocks_by_hash (fold (cache_insert_block K) bl c) =
     fold (\<lambda>b. bt_insert (block_hash K b) b) bl (cache_blocks_by_hash c)"
  by (induction bl arbitrary: c) (simp_all add: cache_insert_block_def Let_def)

text \<open>Inserting values under a key computed from them: each lookup gives the last such value.\<close>

lemma fold_insert_by_get:
  "bt_get (fold (\<lambda>x. bt_insert (key x) x) xs m) k =
     (case find (\<lambda>x. key x = k) (rev xs) of None \<Rightarrow> bt_get m k | Some x \<Rightarrow> Some x)"
proof (induction xs rule: rev_induct)
  case (snoc x xs)
  then show ?case by (auto split: option.splits)
qed simp

lemma fold_insert_by_key:
  assumes "bt_wf m" "\<forall>(k, v) \<in> set m. key v = k"
  shows "bt_get (fold (\<lambda>x. bt_insert (key x) x) (bt_values m) []) k = bt_get m k"
proof (cases "find (\<lambda>x. key x = k) (rev (bt_values m))")
  case None
  then have "k \<notin> set (bt_keys m)" using assms(2) by (fastforce simp: find_None_iff)
  then have "bt_get m k = None" by (simp add: map_of_eq_None_iff)
  then show ?thesis using None by (simp add: fold_insert_by_get)
next
  case (Some v)
  then have "v \<in> set (bt_values m)" "key v = k" by (auto dest: find_SomeD)
  then have "(k, v) \<in> set m" using assms(2) by force
  then have "bt_get m k = Some v" using assms(1) by (simp add: bt_get_iff_mem)
  then show ?thesis using Some by (simp add: fold_insert_by_get)
qed

section \<open>Properties\<close>

text \<open>
  A cache built from a ledger agrees with it: the same accounts, the same block at every height and
  the same tip; and every block of the chain is found under its hash when no two share one.
\<close>

lemma from_ledger_agrees:
  assumes "bt_wf (ledger_accounts L)" "\<forall>(a, acc) \<in> set (ledger_accounts L). acc_address acc = a"
    and "bt_wf (chain_blocks (ledger_chain L))" "\<forall>(h, b) \<in> set (chain_blocks (ledger_chain L)). block_height b = h"
  shows "cache_account (from_ledger K L) a = bt_get (ledger_accounts L) a"
    "block_by_height (from_ledger K L) h = bt_get (chain_blocks (ledger_chain L)) h"
    "cache_tip_height (from_ledger K L) = ledger_tip_height K L" "cache_tip_hash (from_ledger K L) = ledger_tip_hash K L"
proof -
  note maps = fold_insert_account fold_insert_block
  show "cache_account (from_ledger K L) a = bt_get (ledger_accounts L) a"
    using fold_insert_by_key [OF assms(1,2)]
    by (simp add: from_ledger_def Let_def cache_account_def maps cache_new_def)
  show "block_by_height (from_ledger K L) h = bt_get (chain_blocks (ledger_chain L)) h"
    using fold_insert_by_key [OF assms(3,4)]
    by (simp add: from_ledger_def Let_def block_by_height_def maps cache_new_def)
qed (simp_all add: from_ledger_def Let_def)

lemma from_ledger_by_hash:
  assumes "inj_on (block_hash K) (set (bt_values (chain_blocks (ledger_chain L))))"
    and b: "b \<in> set (bt_values (chain_blocks (ledger_chain L)))"
  shows "block_by_hash (from_ledger K L) (block_hash K b) = Some b"
proof -
  let ?f = "find (\<lambda>x. block_hash K x = block_hash K b) (rev (bt_values (chain_blocks (ledger_chain L))))"
  have "?f = Some b"
  proof (cases ?f)
    case None
    then show ?thesis using b by (auto simp: find_None_iff)
  next
    case (Some x)
    then have "x \<in> set (bt_values (chain_blocks (ledger_chain L)))" "block_hash K x = block_hash K b"
      by (auto dest: find_SomeD)
    then show ?thesis using Some inj_onD [OF assms(1)] b by metis
  qed
  then show ?thesis
    by (simp add: from_ledger_def Let_def block_by_hash_def fold_insert_account fold_insert_block cache_new_def fold_insert_by_get)
qed

end
