(* ===== verification/Storage.thy ===== *)
theory Storage
  imports Core
begin

text \<open>
  The block and state store (\<open>src/runtime/storage/storage.rs\<close>, \<open>error.rs\<close>).

  The database engine and the serializer are not part of the repository. LMDB is the record
  \<open>engine\<close> of the calls the code makes, over the names \<open>'d\<close> of databases and abstract types of environments \<open>'e\<close> and
  transactions \<open>'t\<close>, and \<open>lmdb\<close> its instance for this store; Borsh is a \<open>codec\<close> (an encoder and a decoder) per stored type. Every definition takes them as
  its arguments \<open>D\<close> and \<open>C\<close>. A method that writes returns the environment beside its result, because
  it may fail after its commit (\<open>save_ledger\<close> and \<open>load_ledger\<close> do more work then).
\<close>

section \<open>Data\<close>

datatype lmdb_error = NotFound | BadValSize | OtherLmdbError nat
datatype io_error = InvalidData string | OtherIoError nat

datatype storage_error =
    Database lmdb_error
  | Io io_error
  | Serialization io_error
  | Integrity string
  | MissingStorageVersion
  | UnsupportedStorageVersion (expected: u8) (found: u8)

text \<open>The named databases of the environment, as the constants at the top of the file name them.\<close>

datatype db =
    BLOCKS_BY_HEIGHT
  | BLOCKS_BY_HASH
  | ACCOUNTS
  | GENESIS_ACCOUNTS
  | STATE_SNAPSHOTS
  | TX_INDEX
  | ADDRESS_TX_INDEX
  | META

record state_snapshot =
  snap_height :: u64
  snap_block_hash :: hash
  snap_state_root :: hash
  snap_accounts :: "(address, account) btreemap"

record transaction_location =
  loc_block_height :: u64
  loc_block_hash :: hash
  loc_tx_index :: u32

record address_transaction_location =
  aloc_tx_hash :: hash
  aloc_block_height :: u64
  aloc_block_hash :: hash
  aloc_tx_index :: u32
  aloc_sent :: bool

text \<open>Byte strings: the bytes of an ASCII literal.\<close>

definition ascii :: "string \<Rightarrow> bytes" where
  "ascii s = map (\<lambda>c. of_nat (of_char c)) s"

definition TIP_HEIGHT_KEY :: bytes where "TIP_HEIGHT_KEY = ascii ''tip_height''"
definition TIP_HASH_KEY :: bytes where "TIP_HASH_KEY = ascii ''tip_hash''"
definition STORAGE_VERSION_KEY :: bytes where "STORAGE_VERSION_KEY = ascii ''storage_version''"
definition GENESIS_ACCOUNTS_KEY :: bytes where "GENESIS_ACCOUNTS_KEY = ascii ''accounts''"

section \<open>The database engine and the serializer\<close>

record ('d, 'e, 't) engine =
  create_dir_all :: "string \<Rightarrow> io_error + unit"
  open_env :: "string \<Rightarrow> lmdb_error + 'e"
  create_db :: "'e \<Rightarrow> 'd \<Rightarrow> 'e \<times> (lmdb_error + unit)"
  begin_ro_txn :: "'e \<Rightarrow> lmdb_error + 't"
  begin_rw_txn :: "'e \<Rightarrow> lmdb_error + 't"
  txn_get :: "'t \<Rightarrow> 'd \<Rightarrow> bytes \<Rightarrow> lmdb_error + bytes"
  txn_put :: "'t \<Rightarrow> 'd \<Rightarrow> bytes \<Rightarrow> bytes \<Rightarrow> lmdb_error + 't"
  txn_clear_db :: "'t \<Rightarrow> 'd \<Rightarrow> lmdb_error + 't"
  txn_iter :: "'t \<Rightarrow> 'd \<Rightarrow> lmdb_error + (bytes \<times> bytes) list"
  txn_commit :: "'e \<Rightarrow> 't \<Rightarrow> 'e \<times> (lmdb_error + unit)"
  env_sync :: "'e \<Rightarrow> lmdb_error + unit"

text \<open>The engine with the databases above.\<close>

type_synonym ('e, 't) lmdb = "(db, 'e, 't) engine"

record 'a codec =
  enc :: "'a \<Rightarrow> io_error + bytes"
  dec :: "bytes \<Rightarrow> io_error + 'a"

record codecs =
  block_codec :: "block codec"
  account_codec :: "account codec"
  accounts_codec :: "(address, account) btreemap codec"
  snapshot_codec :: "state_snapshot codec"
  location_codec :: "transaction_location codec"
  address_location_codec :: "address_transaction_location codec"
  height_codec :: "u64 codec"
  version_codec :: "u8 codec"

section \<open>Helpers\<close>

definition encode :: "'a codec \<Rightarrow> 'a \<Rightarrow> storage_error + bytes" where
  "encode c v = map_err Serialization (enc c v)"

definition decode :: "'a codec \<Rightarrow> bytes \<Rightarrow> storage_error + 'a" where
  "decode c bs = map_err Serialization (dec c bs)"

definition invalid_data :: "string \<Rightarrow> storage_error" where
  "invalid_data message = Serialization (InvalidData message)"

text \<open>\<open>Option::map\<close> with a fallible function followed by \<open>transpose\<close>.\<close>

definition try_map_option :: "('a \<Rightarrow> 'e + 'b) \<Rightarrow> 'a option \<Rightarrow> 'e + 'b option" where
  "try_map_option f x = (case x of None \<Rightarrow> Ok None | Some v \<Rightarrow> res_bind (f v) (\<lambda>y. Ok (Some y)))"

definition height_key :: "u64 \<Rightarrow> bytes" where
  "height_key h = u64_to_be_bytes h"

definition address_tx_key :: "address \<Rightarrow> u64 \<Rightarrow> u32 \<Rightarrow> bool \<Rightarrow> bytes" where
  "address_tx_key a h i sent =
     a @ u64_to_be_bytes h @ u32_to_be_bytes i @ [if sent then 1 else 0]"

definition read_bytes :: "('e, 't) lmdb \<Rightarrow> 't \<Rightarrow> db \<Rightarrow> bytes \<Rightarrow> storage_error + bytes option" where
  "read_bytes D t d k =
     (case txn_get D t d k of
        Inr bs \<Rightarrow> Ok (Some bs)
      | Inl e \<Rightarrow> if e = NotFound then Ok None else Err (Database e))"

definition read_value :: "('e, 't) lmdb \<Rightarrow> 'a codec \<Rightarrow> 't \<Rightarrow> db \<Rightarrow> bytes \<Rightarrow> storage_error + 'a option" where
  "read_value D c t d k = res_bind (read_bytes D t d k) (try_map_option (decode c))"

definition put_bytes :: "('e, 't) lmdb \<Rightarrow> db \<Rightarrow> bytes \<Rightarrow> bytes \<Rightarrow> 't \<Rightarrow> storage_error + 't" where
  "put_bytes D d k bs t = map_err Database (txn_put D t d k bs)"

definition put_value :: "('e, 't) lmdb \<Rightarrow> 'a codec \<Rightarrow> db \<Rightarrow> bytes \<Rightarrow> 'a \<Rightarrow> 't \<Rightarrow> storage_error + 't" where
  "put_value D c d k v t = res_bind (encode c v) (\<lambda>bs. put_bytes D d k bs t)"

definition clear_db :: "('e, 't) lmdb \<Rightarrow> db \<Rightarrow> 't \<Rightarrow> storage_error + 't" where
  "clear_db D d t = map_err Database (txn_clear_db D t d)"

definition is_db_empty :: "('e, 't) lmdb \<Rightarrow> 't \<Rightarrow> db \<Rightarrow> storage_error + bool" where
  "is_db_empty D t d = res_bind (map_err Database (txn_iter D t d)) (\<lambda>es. Ok (es = []))"

text \<open>
  The two ways a method uses a transaction. A read-only one is dropped at the end; a writing one is
  committed last, and dropped (aborted) when an earlier call fails.
\<close>

definition with_ro :: "('e, 't) lmdb \<Rightarrow> 'e \<Rightarrow> ('t \<Rightarrow> storage_error + 'a) \<Rightarrow> storage_error + 'a" where
  "with_ro D e f = res_bind (map_err Database (begin_ro_txn D e)) f"

definition with_rw :: "('e, 't) lmdb \<Rightarrow> 'e \<Rightarrow> ('t \<Rightarrow> storage_error + 't) \<Rightarrow> 'e \<times> (storage_error + unit)" where
  "with_rw D e f =
     (case res_bind (map_err Database (begin_rw_txn D e)) f of
        Inl x \<Rightarrow> (e, Err x)
      | Inr t \<Rightarrow> (case txn_commit D e t of (e', r) \<Rightarrow> (e', map_err Database r)))"

text \<open>A method call whose error is propagated, in a method that changes the environment.\<close>

definition then_env :: "'e \<times> (storage_error + 'a) \<Rightarrow> ('e \<Rightarrow> 'a \<Rightarrow> 'e \<times> (storage_error + 'b)) \<Rightarrow> 'e \<times> (storage_error + 'b)" where
  "then_env p f = (case p of (e, Inl x) \<Rightarrow> (e, Err x) | (e, Inr v) \<Rightarrow> f e v)"

definition flush :: "('e, 't) lmdb \<Rightarrow> 'e \<Rightarrow> storage_error + unit" where
  "flush D e = map_err Database (env_sync D e)"

section \<open>Opening the store\<close>

definition load_storage_version :: "('e, 't) lmdb \<Rightarrow> codecs \<Rightarrow> 'e \<Rightarrow> storage_error + u8 option" where
  "load_storage_version D C e = with_ro D e (\<lambda>t. read_value D (version_codec C) t META STORAGE_VERSION_KEY)"

definition save_storage_version :: "('e, 't) lmdb \<Rightarrow> codecs \<Rightarrow> 'e \<Rightarrow> u8 \<Rightarrow> 'e \<times> (storage_error + unit)" where
  "save_storage_version D C e version =
     with_rw D e (put_value D (version_codec C) META STORAGE_VERSION_KEY version)"

fun all_empty :: "('e, 't) lmdb \<Rightarrow> 't \<Rightarrow> db list \<Rightarrow> storage_error + bool" where
  "all_empty D t [] = Ok True"
| "all_empty D t (d # ds) = res_bind (is_db_empty D t d) (\<lambda>b. if b then all_empty D t ds else Ok False)"

definition is_empty_database :: "('e, 't) lmdb \<Rightarrow> 'e \<Rightarrow> storage_error + bool" where
  "is_empty_database D e = with_ro D e (\<lambda>t. all_empty D t
     [BLOCKS_BY_HEIGHT, BLOCKS_BY_HASH, ACCOUNTS, GENESIS_ACCOUNTS, STATE_SNAPSHOTS, TX_INDEX, ADDRESS_TX_INDEX])"

definition ensure_storage_version :: "('e, 't) lmdb \<Rightarrow> codecs \<Rightarrow> 'e \<Rightarrow> 'e \<times> (storage_error + unit)" where
  "ensure_storage_version D C e =
     (case load_storage_version D C e of
        Inl x \<Rightarrow> (e, Err x)
      | Inr (Some v) \<Rightarrow>
          (e, if v = STORAGE_VERSION then Ok () else Err (UnsupportedStorageVersion STORAGE_VERSION v))
      | Inr None \<Rightarrow>
          (case is_empty_database D e of
             Inl x \<Rightarrow> (e, Err x)
           | Inr True \<Rightarrow>
               then_env (save_storage_version D C e STORAGE_VERSION) (\<lambda>e' _. (e', flush D e'))
           | Inr False \<Rightarrow> (e, Err MissingStorageVersion)))"

text \<open>\<open>create_db\<close> for each name, in the order of the struct literal.\<close>

fun create_dbs :: "('e, 't) lmdb \<Rightarrow> 'e \<Rightarrow> db list \<Rightarrow> 'e \<times> (storage_error + unit)" where
  "create_dbs D e [] = (e, Ok ())"
| "create_dbs D e (d # ds) =
     (case create_db D e d of
        (e', Inl x) \<Rightarrow> (e', Err (Database x))
      | (e', Inr _) \<Rightarrow> create_dbs D e' ds)"

definition from_env :: "('e, 't) lmdb \<Rightarrow> 'e \<Rightarrow> 'e \<times> (storage_error + unit)" where
  "from_env D e = create_dbs D e
     [BLOCKS_BY_HEIGHT, BLOCKS_BY_HASH, ACCOUNTS, GENESIS_ACCOUNTS, STATE_SNAPSHOTS, TX_INDEX,
      ADDRESS_TX_INDEX, META]"

text \<open>\<open>open\<close>: the environment it leaves when there is one, and the result.\<close>

definition storage_open :: "('e, 't) lmdb \<Rightarrow> codecs \<Rightarrow> string \<Rightarrow> 'e option \<times> (storage_error + unit)" where
  "storage_open D C path =
     (case res_bind (map_err Io (create_dir_all D path)) (\<lambda>_. map_err Database (open_env D path)) of
        Inl x \<Rightarrow> (None, Err x)
      | Inr e \<Rightarrow> (case then_env (from_env D e) (\<lambda>e' _. ensure_storage_version D C e') of
          (e'', r) \<Rightarrow> (Some e'', r)))"

section \<open>Blocks and the transaction index\<close>

definition index_transaction ::
  "core \<Rightarrow> ('e, 't) lmdb \<Rightarrow> codecs \<Rightarrow> block \<Rightarrow> nat \<times> signed_transaction \<Rightarrow> 't \<Rightarrow> storage_error + 't" where
  "index_transaction K D C b = (\<lambda>(index, tx) t.
     if 2 ^ 32 \<le> index then Err (Integrity ''transaction index exceeds u32'')
     else
       let i = of_nat index :: u32;
           from = tx_from (payload tx);
           to = tx_to (payload tx);
           location = \<lparr>loc_block_height = block_height b, loc_block_hash = block_hash K b, loc_tx_index = i\<rparr>;
           sent = \<lparr>aloc_tx_hash = tx_hash K tx, aloc_block_height = block_height b,
                   aloc_block_hash = block_hash K b, aloc_tx_index = i, aloc_sent = True\<rparr>
       in res_bind (put_value D (location_codec C) TX_INDEX (tx_hash K tx) location t) (\<lambda>t.
          res_bind (put_value D (address_location_codec C) ADDRESS_TX_INDEX
            (address_tx_key from (block_height b) i True) sent t) (\<lambda>t.
          if to \<noteq> from
          then put_value D (address_location_codec C) ADDRESS_TX_INDEX
            (address_tx_key to (block_height b) i False) (sent\<lparr>aloc_sent := False\<rparr>) t
          else Ok t)))"

definition index_block_transactions ::
  "core \<Rightarrow> ('e, 't) lmdb \<Rightarrow> codecs \<Rightarrow> block \<Rightarrow> 't \<Rightarrow> storage_error + 't" where
  "index_block_transactions K D C b t =
     try_fold (index_transaction K D C b) (enumerate 0 (block_transactions b)) t"

text \<open>The part of \<open>save_block\<close> and of the loop of \<open>save_ledger\<close> that stores one block.\<close>

definition put_block :: "core \<Rightarrow> ('e, 't) lmdb \<Rightarrow> codecs \<Rightarrow> block \<Rightarrow> bytes \<Rightarrow> 't \<Rightarrow> storage_error + 't" where
  "put_block K D C b bs t =
     res_bind (put_bytes D BLOCKS_BY_HEIGHT (height_key (block_height b)) bs t) (\<lambda>t.
     res_bind (put_bytes D BLOCKS_BY_HASH (block_hash K b) bs t) (\<lambda>t.
     index_block_transactions K D C b t))"

definition save_block :: "core \<Rightarrow> ('e, 't) lmdb \<Rightarrow> codecs \<Rightarrow> 'e \<Rightarrow> block \<Rightarrow> 'e \<times> (storage_error + unit)" where
  "save_block K D C e b =
     (case encode (block_codec C) b of
        Inl x \<Rightarrow> (e, Err x)
      | Inr bs \<Rightarrow> with_rw D e (put_block K D C b bs))"

definition save_side_block :: "core \<Rightarrow> ('e, 't) lmdb \<Rightarrow> codecs \<Rightarrow> 'e \<Rightarrow> block \<Rightarrow> 'e \<times> (storage_error + unit)" where
  "save_side_block K D C e b =
     (case encode (block_codec C) b of
        Inl x \<Rightarrow> (e, Err x)
      | Inr bs \<Rightarrow> with_rw D e (put_bytes D BLOCKS_BY_HASH (block_hash K b) bs))"

definition load_block_by_height :: "('e, 't) lmdb \<Rightarrow> codecs \<Rightarrow> 'e \<Rightarrow> u64 \<Rightarrow> storage_error + block option" where
  "load_block_by_height D C e h =
     with_ro D e (\<lambda>t. res_bind (read_bytes D t BLOCKS_BY_HEIGHT (height_key h))
       (try_map_option (\<lambda>bs. res_bind (decode (block_codec C) bs) (\<lambda>b.
          if block_height b \<noteq> h then Err (Integrity ''stored block height does not match height key'')
          else Ok b))))"

definition load_block_by_hash :: "core \<Rightarrow> ('e, 't) lmdb \<Rightarrow> codecs \<Rightarrow> 'e \<Rightarrow> hash \<Rightarrow> storage_error + block option" where
  "load_block_by_hash K D C e h =
     with_ro D e (\<lambda>t. res_bind (read_bytes D t BLOCKS_BY_HASH h)
       (try_map_option (\<lambda>bs. res_bind (decode (block_codec C) bs) (\<lambda>b.
          if block_hash K b \<noteq> h then Err (Integrity ''stored block hash does not match hash key'')
          else Ok b))))"

definition load_blocks_by_hash :: "('e, 't) lmdb \<Rightarrow> codecs \<Rightarrow> 'e \<Rightarrow> storage_error + block list" where
  "load_blocks_by_hash D C e =
     with_ro D e (\<lambda>t. res_bind (map_err Database (txn_iter D t BLOCKS_BY_HASH)) (\<lambda>es.
       try_fold (\<lambda>(_, bs) blocks. res_bind (decode (block_codec C) bs) (\<lambda>b. Ok (blocks @ [b]))) es []))"

definition load_transaction_location ::
  "('e, 't) lmdb \<Rightarrow> codecs \<Rightarrow> 'e \<Rightarrow> hash \<Rightarrow> storage_error + transaction_location option" where
  "load_transaction_location D C e h = with_ro D e (\<lambda>t. read_value D (location_codec C) t TX_INDEX h)"

definition load_transaction ::
  "core \<Rightarrow> ('e, 't) lmdb \<Rightarrow> codecs \<Rightarrow> 'e \<Rightarrow> hash \<Rightarrow>
   storage_error + (transaction_location \<times> signed_transaction) option" where
  "load_transaction K D C e h =
     res_bind (load_transaction_location D C e h) (\<lambda>loc. case loc of
       None \<Rightarrow> Ok None
     | Some location \<Rightarrow>
         res_bind (load_block_by_height D C e (loc_block_height location)) (\<lambda>ob. case ob of
           None \<Rightarrow> Err (Integrity ''indexed transaction block is missing'')
         | Some b \<Rightarrow>
             if block_hash K b \<noteq> loc_block_hash location
             then Err (Integrity ''indexed transaction block hash mismatch'')
             else if length (block_transactions b) \<le> unat (loc_tx_index location)
             then Err (Integrity ''indexed transaction position is missing'')
             else
               let tx = block_transactions b ! unat (loc_tx_index location) in
               if tx_hash K tx \<noteq> h
               then Err (Integrity ''indexed transaction hash does not match transaction'')
               else Ok (Some (location, tx))))"

definition load_address_transaction_locations ::
  "('e, 't) lmdb \<Rightarrow> codecs \<Rightarrow> 'e \<Rightarrow> address \<Rightarrow> storage_error + address_transaction_location list" where
  "load_address_transaction_locations D C e a =
     with_ro D e (\<lambda>t. res_bind (map_err Database (txn_iter D t ADDRESS_TX_INDEX)) (\<lambda>es.
       res_bind (try_fold (\<lambda>(k, bs) locations.
           if take (length a) k = a
           then res_bind (decode (address_location_codec C) bs) (\<lambda>l. Ok (locations @ [l]))
           else Ok locations) es [])
         (\<lambda>ls. Ok (sort_key (\<lambda>l. (aloc_block_height l, aloc_tx_index l, aloc_sent l)) ls))))"

section \<open>Accounts, snapshots and the tip\<close>

definition verify_state_root :: "core \<Rightarrow> state_snapshot \<Rightarrow> bool" where
  "verify_state_root K s \<longleftrightarrow> calculate_state_root K (snap_accounts s) = snap_state_root s"

definition verify_against_block :: "core \<Rightarrow> state_snapshot \<Rightarrow> block \<Rightarrow> bool" where
  "verify_against_block K s b \<longleftrightarrow>
     block_height b = snap_height s \<and> block_hash K b = snap_block_hash s \<and>
     block_state_root b = snap_state_root s \<and> verify_state_root K s"

definition save_account :: "('e, 't) lmdb \<Rightarrow> codecs \<Rightarrow> 'e \<Rightarrow> account \<Rightarrow> 'e \<times> (storage_error + unit)" where
  "save_account D C e a = with_rw D e (put_value D (account_codec C) ACCOUNTS (acc_address a) a)"

definition load_account :: "('e, 't) lmdb \<Rightarrow> codecs \<Rightarrow> 'e \<Rightarrow> address \<Rightarrow> storage_error + account option" where
  "load_account D C e a = with_ro D e (\<lambda>t. read_value D (account_codec C) t ACCOUNTS a)"

definition save_genesis_accounts ::
  "('e, 't) lmdb \<Rightarrow> codecs \<Rightarrow> 'e \<Rightarrow> (address, account) btreemap \<Rightarrow> 'e \<times> (storage_error + unit)" where
  "save_genesis_accounts D C e as =
     with_rw D e (put_value D (accounts_codec C) GENESIS_ACCOUNTS GENESIS_ACCOUNTS_KEY as)"

definition load_genesis_accounts ::
  "('e, 't) lmdb \<Rightarrow> codecs \<Rightarrow> 'e \<Rightarrow> storage_error + (address, account) btreemap option" where
  "load_genesis_accounts D C e =
     with_ro D e (\<lambda>t. read_value D (accounts_codec C) t GENESIS_ACCOUNTS GENESIS_ACCOUNTS_KEY)"

definition snapshot_of :: "core \<Rightarrow> ledger \<Rightarrow> u64 \<Rightarrow> hash \<Rightarrow> state_snapshot" where
  "snapshot_of K L h bh = \<lparr>snap_height = h, snap_block_hash = bh,
     snap_state_root = ledger_state_root K L, snap_accounts = ledger_accounts L\<rparr>"

definition save_state_snapshot ::
  "core \<Rightarrow> ('e, 't) lmdb \<Rightarrow> codecs \<Rightarrow> 'e \<Rightarrow> ledger \<Rightarrow> 'e \<times> (storage_error + unit)" where
  "save_state_snapshot K D C e L =
     (case (ledger_tip_height K L, ledger_tip_hash K L) of
        (Some h, Some bh) \<Rightarrow>
          if h \<noteq> 0 \<and> \<not> is_snapshot_height K h
          then (e, Err (Integrity ''state snapshot height is not a protocol snapshot height''))
          else with_rw D e (put_value D (snapshot_codec C) STATE_SNAPSHOTS (height_key h) (snapshot_of K L h bh))
      | _ \<Rightarrow> (e, Ok ()))"

definition load_state_snapshot ::
  "core \<Rightarrow> ('e, 't) lmdb \<Rightarrow> codecs \<Rightarrow> 'e \<Rightarrow> u64 \<Rightarrow> storage_error + state_snapshot option" where
  "load_state_snapshot K D C e h =
     with_ro D e (\<lambda>t. res_bind (read_bytes D t STATE_SNAPSHOTS (height_key h))
       (try_map_option (\<lambda>bs. res_bind (decode (snapshot_codec C) bs) (\<lambda>s.
          if snap_height s \<noteq> h
          then Err (Integrity ''stored state snapshot height does not match height key'')
          else if \<not> verify_state_root K s
          then Err (Integrity ''stored state snapshot root does not match accounts'')
          else Ok s))))"

definition put_tip :: "('e, 't) lmdb \<Rightarrow> codecs \<Rightarrow> u64 \<Rightarrow> hash \<Rightarrow> 't \<Rightarrow> storage_error + 't" where
  "put_tip D C h bh t =
     res_bind (put_value D (height_codec C) META TIP_HEIGHT_KEY h t) (\<lambda>t.
     put_bytes D META TIP_HASH_KEY bh t)"

definition save_tip :: "('e, 't) lmdb \<Rightarrow> codecs \<Rightarrow> 'e \<Rightarrow> u64 \<Rightarrow> hash \<Rightarrow> 'e \<times> (storage_error + unit)" where
  "save_tip D C e h bh = with_rw D e (put_tip D C h bh)"

definition load_tip :: "core \<Rightarrow> ('e, 't) lmdb \<Rightarrow> codecs \<Rightarrow> 'e \<Rightarrow> storage_error + (u64 \<times> hash) option" where
  "load_tip K D C e =
     with_ro D e (\<lambda>t.
       res_bind (read_bytes D t META TIP_HEIGHT_KEY) (\<lambda>oh. case oh of
         None \<Rightarrow> Ok None
       | Some height_bytes \<Rightarrow>
           res_bind (read_bytes D t META TIP_HASH_KEY) (\<lambda>ob. case ob of
             None \<Rightarrow> Ok None
           | Some hash_bytes \<Rightarrow>
               res_bind (decode (height_codec C) height_bytes) (\<lambda>h.
               if length hash_bytes = HASH_SIZE K then Ok (Some (h, hash_bytes))
               else Err (invalid_data ''stored tip hash has invalid length'')))))"

section \<open>Whole ledgers\<close>

definition put_tip_state :: "core \<Rightarrow> ('e, 't) lmdb \<Rightarrow> codecs \<Rightarrow> ledger \<Rightarrow> 't \<Rightarrow> storage_error + 't" where
  "put_tip_state K D C L t =
     (case (ledger_tip_height K L, ledger_tip_hash K L) of
        (Some h, Some bh) \<Rightarrow>
          res_bind (put_tip D C h bh t) (\<lambda>t.
          res_bind
            (if h = 0 \<or> is_snapshot_height K h
             then put_value D (snapshot_codec C) STATE_SNAPSHOTS (height_key h) (snapshot_of K L h bh) t
             else Ok t) (\<lambda>t.
          if h = 0
          then put_value D (accounts_codec C) GENESIS_ACCOUNTS GENESIS_ACCOUNTS_KEY (ledger_accounts L) t
          else Ok t))
      | _ \<Rightarrow> Ok t)"

definition put_ledger :: "core \<Rightarrow> ('e, 't) lmdb \<Rightarrow> codecs \<Rightarrow> ledger \<Rightarrow> 't \<Rightarrow> storage_error + 't" where
  "put_ledger K D C L t =
     res_bind (try_fold (clear_db D) [BLOCKS_BY_HEIGHT, ACCOUNTS, STATE_SNAPSHOTS, TX_INDEX, ADDRESS_TX_INDEX] t) (\<lambda>t.
     res_bind (try_fold (\<lambda>a. put_value D (account_codec C) ACCOUNTS (acc_address a) a)
       (bt_values (ledger_accounts L)) t) (\<lambda>t.
     res_bind (try_fold (\<lambda>b t. res_bind (encode (block_codec C) b) (\<lambda>bs. put_block K D C b bs t))
       (bt_values (chain_blocks (ledger_chain L))) t) (\<lambda>t.
     put_tip_state K D C L t)))"

definition save_ledger :: "core \<Rightarrow> ('e, 't) lmdb \<Rightarrow> codecs \<Rightarrow> 'e \<Rightarrow> ledger \<Rightarrow> 'e \<times> (storage_error + unit)" where
  "save_ledger K D C e L = then_env (with_rw D e (put_ledger K D C L)) (\<lambda>e' _. (e', flush D e'))"

text \<open>One round of the loop of \<open>validate_chain_integrity\<close>; the accumulator is the expected hash.\<close>

definition check_link :: "core \<Rightarrow> ('e, 't) lmdb \<Rightarrow> codecs \<Rightarrow> 'e \<Rightarrow> nat \<Rightarrow> hash \<Rightarrow> storage_error + hash" where
  "check_link K D C e height expected_hash =
     res_bind (res_bind (load_block_by_height D C e (of_nat height)) (\<lambda>ob.
       ok_or ob (Integrity ''stored chain block is missing''))) (\<lambda>b.
     if block_hash K b \<noteq> expected_hash
     then Err (Integrity ''stored chain block hash does not match expected hash'')
     else if height = 0
     then (if previous_hash b \<noteq> zero_hash K
           then Err (Integrity ''stored genesis block previous hash is not zero'')
           else Ok expected_hash)
     else
       res_bind (res_bind (load_block_by_height D C e (of_nat (height - 1))) (\<lambda>ob.
         ok_or ob (Integrity ''stored previous chain block is missing''))) (\<lambda>previous.
       if previous_hash b \<noteq> block_hash K previous
       then Err (Integrity ''stored chain block previous hash is broken'')
       else Ok (block_hash K previous)))"

definition validate_chain_integrity :: "core \<Rightarrow> ('e, 't) lmdb \<Rightarrow> codecs \<Rightarrow> 'e \<Rightarrow> storage_error + unit" where
  "validate_chain_integrity K D C e =
     res_bind (load_tip K D C e) (\<lambda>tip. case tip of
       None \<Rightarrow> Ok ()
     | Some (tip_height, tip_hash) \<Rightarrow>
         res_bind (res_bind (load_block_by_height D C e tip_height) (\<lambda>ob.
           ok_or ob (Integrity ''stored tip height block is missing''))) (\<lambda>tip_block.
         if block_hash K tip_block \<noteq> tip_hash
         then Err (Integrity ''stored tip hash does not match tip height block'')
         else res_bind (try_fold (check_link K D C e) (rev [0..<Suc (unat tip_height)]) tip_hash) (\<lambda>_. Ok ())))"

definition load_accounts :: "('e, 't) lmdb \<Rightarrow> codecs \<Rightarrow> 'e \<Rightarrow> (address, account) btreemap \<Rightarrow>
    storage_error + (address, account) btreemap" where
  "load_accounts D C e accounts =
     with_ro D e (\<lambda>t. res_bind (map_err Database (txn_iter D t ACCOUNTS)) (\<lambda>es.
       try_fold (\<lambda>(k, bs) m. res_bind (decode (account_codec C) bs) (\<lambda>a.
         if acc_address a \<noteq> k
         then Err (Integrity ''stored account address does not match account key'')
         else Ok (bt_insert (acc_address a) a m))) es accounts))"

definition load_chain :: "core \<Rightarrow> ('e, 't) lmdb \<Rightarrow> codecs \<Rightarrow> 'e \<Rightarrow> u64 \<Rightarrow> chain \<Rightarrow> storage_error + chain" where
  "load_chain K D C e tip_height c =
     try_fold (\<lambda>height c.
       res_bind (res_bind (load_block_by_height D C e (of_nat height)) (\<lambda>ob.
         ok_or ob (Integrity ''stored chain block is missing''))) (\<lambda>b.
       map_err (\<lambda>_. Integrity ''stored chain block is invalid'') (chain_insert_block K c b)))
     [0..<Suc (unat tip_height)] c"

definition load_ledger :: "core \<Rightarrow> ('e, 't) lmdb \<Rightarrow> codecs \<Rightarrow> 'e \<Rightarrow> 'e \<times> (storage_error + ledger)" where
  "load_ledger K D C e =
     then_env (ensure_storage_version D C e) (\<lambda>e _. (e,
       res_bind (validate_chain_integrity K D C e) (\<lambda>_.
       res_bind (load_accounts D C e (ledger_accounts (ledger_new K))) (\<lambda>accounts.
       let L = (ledger_new K)\<lparr>ledger_accounts := accounts\<rparr> in
       res_bind (load_tip K D C e) (\<lambda>tip. case tip of
         None \<Rightarrow> Ok L
       | Some (tip_height, _) \<Rightarrow>
           res_bind (load_chain K D C e tip_height (ledger_chain L)) (\<lambda>c. Ok (L\<lparr>ledger_chain := c\<rparr>)))))))"

definition difficulty_window ::
  "('e, 't) lmdb \<Rightarrow> codecs \<Rightarrow> 'e \<Rightarrow> u64 \<Rightarrow> u64 \<Rightarrow> storage_error + (u64 \<times> u64 \<times> u64 \<times> u32) option" where
  "difficulty_window D C e tip_height window =
     (if window = 0 \<or> tip_height < window then Ok None
      else res_bind (load_block_by_height D C e tip_height) (\<lambda>tip. case tip of
        None \<Rightarrow> Ok None
      | Some tip \<Rightarrow>
          let first_height = tip_height - window in
          res_bind (load_block_by_height D C e first_height) (\<lambda>first. case first of
            None \<Rightarrow> Ok None
          | Some first \<Rightarrow>
              Ok (Some (block_timestamp first, block_timestamp tip,
                saturating_sub tip_height first_height, block_difficulty tip)))))"

end
