(* ===== verification/Node.thy ===== *)
theory Node
  imports Miner Cache Storage
begin

text \<open>
  The node (\<open>src/runtime/node/node.rs\<close>, \<open>error.rs\<close>): submission of transactions, application of
  blocks with fork choice, reorganisation and orphan handling, mining and balance queries.

  The record \<open>node_env\<close> gathers what the node calls and does not define: the protocol crate, the
  storage engine, the consensus rules and the crate's fork-choice index, an abstract type \<open>'f\<close> with
  its operations. A method on \<open>&mut self\<close> returns the node beside its result. The clock is an
  argument \<open>now\<close>: one call of a public method uses one reading of it, where the code reads the system
  clock again in each helper.
\<close>

section \<open>Data\<close>

record fork_node =
  fn_hash :: hash
  fn_height :: u64
  fn_block :: block

record 'f fork_choice_ops =
  fc_new :: 'f
  fc_insert :: "'f \<Rightarrow> block \<Rightarrow> 'f \<times> (fork_choice_error + hash)"
  fc_best_tip :: "'f \<Rightarrow> fork_node option"
  fc_get :: "'f \<Rightarrow> hash \<Rightarrow> fork_node option"
  fc_contains :: "'f \<Rightarrow> hash \<Rightarrow> bool"
  fc_ancestor_hashes :: "'f \<Rightarrow> hash \<Rightarrow> hash list"
  fc_branch_from_ancestor :: "'f \<Rightarrow> hash \<Rightarrow> hash \<Rightarrow> block list option"

record ('e, 't, 'f) node_env =
  env_core :: core
  env_lmdb :: "('e, 't) lmdb"
  env_codecs :: codecs
  env_consensus :: consensus
  env_fork :: "'f fork_choice_ops"
  env_is_genesis :: "block \<Rightarrow> bool"
  env_validate_checkpoint :: "u64 \<Rightarrow> hash \<Rightarrow> bool"
  env_genesis_block :: block
  env_GENESIS_HASH :: hash

datatype node_error =
    ConsensusError consensus_error
  | GenesisError nat
  | ForkChoiceError fork_choice_error
  | LedgerError ledger_error
  | MempoolError mempool_error
  | StorageError storage_error
  | MiningExhausted
  | MissingGenesisState
  | CheckpointMismatch
  | ReorgRequired

definition MAX_ORPHAN_BLOCKS :: nat where "MAX_ORPHAN_BLOCKS = 1024"
definition MAX_ORPHAN_HEIGHT_DISTANCE :: u64 where "MAX_ORPHAN_HEIGHT_DISTANCE = 512"
definition ORPHAN_BLOCK_TTL_SECS :: u64 where "ORPHAN_BLOCK_TTL_SECS = 10 * 60"
definition MISSING_PARENT_RETRY_SECS :: u64 where "MISSING_PARENT_RETRY_SECS = 5"

record orphan_block =
  orphan_block_of :: block
  received_at :: u64

record pending_balance =
  incoming :: u32
  outgoing :: u32

record balance_summary =
  bs_confirmed :: u32
  bs_available :: u32
  bs_pending :: pending_balance

record account_view =
  view_balance :: u32
  view_unspendable :: u32
  view_nonce :: u64

record ('e, 'f) node =
  node_ledger :: ledger
  node_mempool :: mempool
  node_storage :: 'e
  node_cache :: core_cache
  fork_choice :: 'f
  genesis_accounts :: "(address, account) btreemap"
  orphan_blocks :: "(hash, orphan_block) btreemap"
  orphan_children_by_parent :: "(hash, hash list) btreemap"
  missing_parent_requests :: "hash list"
  missing_parent_request_set :: "hash set"
  missing_parent_retry_at :: "(hash, u64) btreemap"

section \<open>Construction\<close>

text \<open>\<open>None\<close> is the panic of \<open>expect\<close>: the ledger's chain does not index.\<close>

fun index_chain :: "'f fork_choice_ops \<Rightarrow> block list \<Rightarrow> 'f \<Rightarrow> 'f option" where
  "index_chain F [] fc = Some fc"
| "index_chain F (b # bs) fc = (case fc_insert F fc b of (fc', Inr _) \<Rightarrow> index_chain F bs fc' | (_, Inl _) \<Rightarrow> None)"

definition with_genesis_accounts ::
  "('e, 't, 'f) node_env \<Rightarrow> ledger \<Rightarrow> 'e \<Rightarrow> (address, account) btreemap \<Rightarrow> ('e, 'f) node option" where
  "with_genesis_accounts E L st accs =
     map_option (\<lambda>fc. \<lparr>node_ledger = L, node_mempool = mempool_new, node_storage = st,
         node_cache = from_ledger (env_core E) L, fork_choice = fc, genesis_accounts = accs,
         orphan_blocks = [], orphan_children_by_parent = [], missing_parent_requests = [],
         missing_parent_request_set = {}, missing_parent_retry_at = []\<rparr>)
       (index_chain (env_fork E) (bt_values (chain_blocks (ledger_chain L))) (fc_new (env_fork E)))"

definition node_new :: "('e, 't, 'f) node_env \<Rightarrow> ledger \<Rightarrow> 'e \<Rightarrow> ('e, 'f) node option" where
  "node_new E L st = with_genesis_accounts E L st
     (if ledger_tip_height (env_core E) L = Some 0 then ledger_accounts L else [])"

section \<open>Orphans and missing parents\<close>

definition orphan_is_too_far_ahead :: "('e, 't, 'f) node_env \<Rightarrow> ('e, 'f) node \<Rightarrow> block \<Rightarrow> bool" where
  "orphan_is_too_far_ahead E n b \<longleftrightarrow>
     (let tip_height = (case ledger_tip_height (env_core E) (node_ledger n) of None \<Rightarrow> 0 | Some h \<Rightarrow> h)
      in saturating_add tip_height MAX_ORPHAN_HEIGHT_DISTANCE < block_height b)"

definition remove_orphan_index :: "hash \<Rightarrow> (hash, hash list) btreemap \<Rightarrow> (hash, hash list) btreemap" where
  "remove_orphan_index h m =
     (let m' = map (\<lambda>(p, cs). (p, filter (\<lambda>c. c \<noteq> h) cs)) m;
          empty_parents = map fst (filter (\<lambda>(_, cs). cs = []) m')
      in fold bt_remove empty_parents m')"

definition remove_orphan :: "hash \<Rightarrow> ('e, 'f) node \<Rightarrow> ('e, 'f) node" where
  "remove_orphan h n = n\<lparr>
     orphan_children_by_parent := remove_orphan_index h (orphan_children_by_parent n),
     orphan_blocks := bt_remove h (orphan_blocks n)\<rparr>"

definition orphan_expired :: "('e, 't, 'f) node_env \<Rightarrow> ('e, 'f) node \<Rightarrow> u64 \<Rightarrow> orphan_block \<Rightarrow> bool" where
  "orphan_expired E n now orphan \<longleftrightarrow>
     ORPHAN_BLOCK_TTL_SECS < saturating_sub now (received_at orphan) \<or>
     orphan_is_too_far_ahead E n (orphan_block_of orphan)"

definition prune_expired_orphans :: "('e, 't, 'f) node_env \<Rightarrow> ('e, 'f) node \<Rightarrow> u64 \<Rightarrow> ('e, 'f) node" where
  "prune_expired_orphans E n now =
     fold remove_orphan (map fst (filter (\<lambda>(_, orphan). orphan_expired E n now orphan) (orphan_blocks n))) n"

definition queue_missing_parent_request_at ::
  "('e, 't, 'f) node_env \<Rightarrow> ('e, 'f) node \<Rightarrow> hash \<Rightarrow> u64 \<Rightarrow> ('e, 'f) node" where
  "queue_missing_parent_request_at E n h retry_at =
     (if fc_contains (env_fork E) (fork_choice n) h then n
      else
        let n' = n\<lparr>missing_parent_retry_at := bt_insert h
               (case bt_get (missing_parent_retry_at n) h of None \<Rightarrow> retry_at | Some x \<Rightarrow> min x retry_at)
               (missing_parent_retry_at n)\<rparr>
        in if h \<notin> missing_parent_request_set n'
           then n'\<lparr>missing_parent_request_set := insert h (missing_parent_request_set n'),
                   missing_parent_requests := missing_parent_requests n' @ [h]\<rparr>
           else n')"

definition queue_missing_parent_request ::
  "('e, 't, 'f) node_env \<Rightarrow> ('e, 'f) node \<Rightarrow> hash \<Rightarrow> u64 \<Rightarrow> ('e, 'f) node" where
  "queue_missing_parent_request E n h now =
     (if fc_contains (env_fork E) (fork_choice n) h then n else queue_missing_parent_request_at E n h now)"

definition retry_missing_parent_request ::
  "('e, 't, 'f) node_env \<Rightarrow> ('e, 'f) node \<Rightarrow> hash \<Rightarrow> u64 \<Rightarrow> ('e, 'f) node" where
  "retry_missing_parent_request E n h now =
     queue_missing_parent_request_at E n h (saturating_add now MISSING_PARENT_RETRY_SECS)"

text \<open>The loop of \<open>drain_missing_parent_requests_at\<close>: ready, still pending, request set, retry times.\<close>

fun drain_loop ::
  "u64 \<Rightarrow> hash list \<Rightarrow> hash set \<Rightarrow> (hash, u64) btreemap \<Rightarrow>
   hash list \<times> hash list \<times> hash set \<times> (hash, u64) btreemap" where
  "drain_loop now [] s r = ([], [], s, r)"
| "drain_loop now (h # hs) s r =
     (let retry_at = (case bt_get r h of None \<Rightarrow> 0 | Some x \<Rightarrow> x)
      in if retry_at \<le> now
         then case drain_loop now hs (s - {h}) (bt_remove h r) of
           (ready, pending, s', r') \<Rightarrow> (h # ready, pending, s', r')
         else case drain_loop now hs s r of
           (ready, pending, s', r') \<Rightarrow> (ready, h # pending, s', r'))"

definition drain_missing_parent_requests_at :: "('e, 'f) node \<Rightarrow> u64 \<Rightarrow> ('e, 'f) node \<times> hash list" where
  "drain_missing_parent_requests_at n now =
     (case drain_loop now (missing_parent_requests n) (missing_parent_request_set n) (missing_parent_retry_at n) of
        (ready, pending, s, r) \<Rightarrow>
          (n\<lparr>missing_parent_requests := pending, missing_parent_request_set := s,
             missing_parent_retry_at := r\<rparr>, ready))"

definition has_pending_sync_work :: "('e, 'f) node \<Rightarrow> bool" where
  "has_pending_sync_work n \<longleftrightarrow>
     orphan_blocks n \<noteq> [] \<or> missing_parent_requests n \<noteq> [] \<or> missing_parent_retry_at n \<noteq> []"

text \<open>The eviction of the orphan with the least hash when the pool is full, and the final insertion.\<close>

definition evict_orphan :: "('e, 'f) node \<Rightarrow> ('e, 'f) node" where
  "evict_orphan n =
     (if MAX_ORPHAN_BLOCKS \<le> length (orphan_blocks n)
      then (case orphan_blocks n of [] \<Rightarrow> n | e # _ \<Rightarrow> remove_orphan (fst e) n)
      else n)"

definition store_orphan :: "('e, 't, 'f) node_env \<Rightarrow> ('e, 'f) node \<Rightarrow> block \<Rightarrow> u64 \<Rightarrow> ('e, 'f) node" where
  "store_orphan E n b now =
     (let h = block_hash (env_core E) b;
          parent = previous_hash b;
          n = queue_missing_parent_request E n parent now
      in n\<lparr>orphan_children_by_parent := bt_push parent h (orphan_children_by_parent n),
           orphan_blocks := bt_insert h \<lparr>orphan_block_of = b, received_at = now\<rparr> (orphan_blocks n)\<rparr>)"

definition cache_orphan_block :: "('e, 't, 'f) node_env \<Rightarrow> ('e, 'f) node \<Rightarrow> block \<Rightarrow> u64 \<Rightarrow> ('e, 'f) node" where
  "cache_orphan_block E n b now =
     (let n = prune_expired_orphans E n now in
      if block_height b = 0 then n
      else if orphan_is_too_far_ahead E n b then n
      else if fc_contains (env_fork E) (fork_choice n) (block_hash (env_core E) b) \<or>
              bt_contains (orphan_blocks n) (block_hash (env_core E) b) then n
      else store_orphan E (evict_orphan n) b now)"

section \<open>Validation against the parent\<close>

definition extends_active_tip :: "('e, 't, 'f) node_env \<Rightarrow> ('e, 'f) node \<Rightarrow> block \<Rightarrow> bool" where
  "extends_active_tip E n b =
     (case ledger_tip_hash (env_core E) (node_ledger n) of
        Some tip_hash \<Rightarrow> previous_hash b = tip_hash
      | None \<Rightarrow> block_height b = 0)"

definition ledger_for_branch_tip :: "('e, 't, 'f) node_env \<Rightarrow> ('e, 'f) node \<Rightarrow> hash \<Rightarrow> node_error + ledger" where
  "ledger_for_branch_tip E n tip =
     (let F = env_fork E; K = env_core E;
          hashes = fc_ancestor_hashes F (fork_choice n) tip;
          genesis_hash = (if hashes = [] then tip else last hashes)
      in res_bind (ok_or (fc_get F (fork_choice n) genesis_hash) ReorgRequired) (\<lambda>g.
         res_bind (map_err LedgerError (chain_insert_block K (chain_new K) (fn_block g))) (\<lambda>c.
         res_bind (ok_or (fc_branch_from_ancestor F (fork_choice n) genesis_hash tip) ReorgRequired) (\<lambda>branch.
         map_err LedgerError (try_fold (\<lambda>b L. ledger_apply_block K L b) branch
           \<lparr>ledger_accounts = genesis_accounts n, ledger_chain = c\<rparr>)))))"

definition validate_canonical_state_root :: "('e, 't, 'f) node_env \<Rightarrow> ledger \<Rightarrow> block \<Rightarrow> node_error + unit" where
  "validate_canonical_state_root E L b =
     res_bind (map_err LedgerError (state_root_after_block (env_core E) L b)) (\<lambda>expected.
     if block_state_root b \<noteq> expected then Err (LedgerError InvalidStateRoot)
     else if \<not> env_is_genesis E b \<and> block_state_root b = zero_hash (env_core E)
     then Err (LedgerError InvalidStateRoot)
     else Ok ())"

definition validate_block_state_for_known_parent ::
  "('e, 't, 'f) node_env \<Rightarrow> ('e, 'f) node \<Rightarrow> block \<Rightarrow> node_error + unit" where
  "validate_block_state_for_known_parent E n b =
     (if extends_active_tip E n b
      then res_bind (validate_canonical_state_root E (node_ledger n) b) (\<lambda>_.
           res_bind (map_err LedgerError (ledger_apply_block (env_core E) (node_ledger n) b)) (\<lambda>_. Ok ()))
      else if genesis_accounts n = [] then Err MissingGenesisState
      else res_bind (ledger_for_branch_tip E n (previous_hash b)) (\<lambda>L.
           res_bind (validate_canonical_state_root E L b) (\<lambda>_.
           res_bind (map_err LedgerError (ledger_apply_block (env_core E) L b)) (\<lambda>_. Ok ()))))"

definition next_difficulty_after_branch_tip ::
  "('e, 't, 'f) node_env \<Rightarrow> ('e, 'f) node \<Rightarrow> hash \<Rightarrow> node_error + u32" where
  "next_difficulty_after_branch_tip E n tip_hash =
     (let F = env_fork E; fc = fork_choice n; interval = DIFFICULTY_ADJUSTMENT_INTERVAL (env_core E) in
      res_bind (ok_or (fc_get F fc tip_hash) (ForkChoiceError MissingParent)) (\<lambda>tip.
      if fn_height tip < interval then Ok (cons_difficulty (env_consensus E))
      else
        let first_height = fn_height tip - interval in
        res_bind (ok_or (find (\<lambda>h. case fc_get F fc h of None \<Rightarrow> False | Some nd \<Rightarrow> fn_height nd = first_height)
          (fc_ancestor_hashes F fc tip_hash)) ReorgRequired) (\<lambda>first_hash.
        res_bind (ok_or (fc_get F fc first_hash) ReorgRequired) (\<lambda>first.
        map_err ConsensusError (retarget_difficulty (env_consensus E)
          (block_difficulty (fn_block tip)) (block_timestamp (fn_block first)) (block_timestamp (fn_block tip))
          (saturating_sub (fn_height tip) (fn_height first)))))))"

definition validate_block_for_known_parent ::
  "('e, 't, 'f) node_env \<Rightarrow> ('e, 'f) node \<Rightarrow> block \<Rightarrow> u64 \<Rightarrow> node_error + unit" where
  "validate_block_for_known_parent E n b now =
     (if block_height b = 0
      then map_err ConsensusError (validate_genesis_block_at (env_consensus E) b now)
      else res_bind (ok_or (fc_get (env_fork E) (fork_choice n) (previous_hash b)) (ForkChoiceError MissingParent)) (\<lambda>parent.
        res_bind
          (if cons_difficulty (env_consensus E) \<noteq> 0
           then res_bind (next_difficulty_after_branch_tip E n (fn_hash parent)) (\<lambda>expected.
             if block_difficulty b \<noteq> expected then Err (ConsensusError UnexpectedDifficulty) else Ok ())
           else Ok ()) (\<lambda>_.
        res_bind (map_err ConsensusError
          (validate_next_block_with_tip_at (env_consensus E) b (fn_block parent) now)) (\<lambda>_.
        if \<not> env_validate_checkpoint E (block_height b) (block_hash (env_core E) b)
        then Err CheckpointMismatch
        else Ok ()))))"

section \<open>Reorganisation\<close>

definition common_ancestor :: "('e, 't, 'f) node_env \<Rightarrow> ('e, 'f) node \<Rightarrow> hash option \<Rightarrow> hash \<Rightarrow> hash option" where
  "common_ancestor E n old_tip new_tip =
     (case old_tip of
        None \<Rightarrow> None
      | Some old \<Rightarrow>
          find (\<lambda>h. h \<in> set (fc_ancestor_hashes (env_fork E) (fork_choice n) old))
            (fc_ancestor_hashes (env_fork E) (fork_choice n) new_tip))"

definition reinsert_transactions ::
  "('e, 't, 'f) node_env \<Rightarrow> ledger \<Rightarrow> u64 \<Rightarrow> hash set \<Rightarrow> block list \<Rightarrow> mempool \<Rightarrow> mempool" where
  "reinsert_transactions E L now winning_hashes old_blocks m =
     fold (\<lambda>b m. if block_hash (env_core E) b \<in> winning_hashes then m
                 else fold (\<lambda>t m. fst (insert_validated_at (env_core E) m L t now)) (block_transactions b) m)
       old_blocks m"

definition reorg_to_best_tip ::
  "('e, 't, 'f) node_env \<Rightarrow> ('e, 'f) node \<Rightarrow> u64 \<Rightarrow> ('e, 'f) node \<times> (node_error + unit)" where
  "reorg_to_best_tip E n now =
     (if genesis_accounts n = [] then (n, Err MissingGenesisState)
      else
        let K = env_core E; F = env_fork E;
            old_blocks = bt_values (chain_blocks (ledger_chain (node_ledger n)));
            old_tip_hash = ledger_tip_hash K (node_ledger n)
        in case res_bind (ok_or (map_option fn_hash (fc_best_tip F (fork_choice n))) ReorgRequired) (\<lambda>best_tip.
                res_bind (ok_or (common_ancestor E n old_tip_hash best_tip) ReorgRequired) (\<lambda>ancestor.
                res_bind (ok_or (fc_branch_from_ancestor F (fork_choice n) ancestor best_tip) ReorgRequired) (\<lambda>_.
                res_bind (ledger_for_branch_tip E n best_tip) (\<lambda>L. Ok (best_tip, L))))) of
             Inl e \<Rightarrow> (n, Err e)
           | Inr (best_tip, L) \<Rightarrow>
               let n = n\<lparr>node_ledger := L, node_cache := from_ledger K L\<rparr> in
               (case save_ledger K (env_lmdb E) (env_codecs E) (node_storage n) L of
                  (st, Inl e) \<Rightarrow> (n\<lparr>node_storage := st\<rparr>, Err (StorageError e))
                | (st, Inr _) \<Rightarrow>
                    (n\<lparr>node_storage := st, node_mempool := reinsert_transactions E L now
                         (set (fc_ancestor_hashes F (fork_choice n) best_tip)) old_blocks (node_mempool n)\<rparr>, Ok ())))"

section \<open>Applying a block\<close>

definition refresh_cached_account :: "('e, 't, 'f) node_env \<Rightarrow> ledger \<Rightarrow> address \<Rightarrow> core_cache \<Rightarrow> core_cache" where
  "refresh_cached_account E L a c =
     (case account_of (env_core E) L a of None \<Rightarrow> c | Some acc \<Rightarrow> cache_insert_account acc c)"

definition refresh_cache :: "('e, 't, 'f) node_env \<Rightarrow> ledger \<Rightarrow> block \<Rightarrow> core_cache \<Rightarrow> core_cache" where
  "refresh_cache E L b c =
     refresh_cached_account E L (miner_address b)
       (fold (\<lambda>t c. refresh_cached_account E L (tx_to (payload t))
               (refresh_cached_account E L (tx_from (payload t)) c))
         (block_transactions b) (cache_insert_block (env_core E) b c))"

definition apply_known_parent_block ::
  "('e, 't, 'f) node_env \<Rightarrow> ('e, 'f) node \<Rightarrow> block \<Rightarrow> u64 \<Rightarrow> ('e, 'f) node \<times> (node_error + unit)" where
  "apply_known_parent_block E n b now =
     (let K = env_core E; F = env_fork E in
      case res_bind (validate_block_for_known_parent E n b now) (\<lambda>_.
           validate_block_state_for_known_parent E n b) of
        Inl e \<Rightarrow> (n, Err e)
      | Inr _ \<Rightarrow>
          (case fc_insert F (fork_choice n) b of
             (fc, Inl e) \<Rightarrow> (n\<lparr>fork_choice := fc\<rparr>, Err (ForkChoiceError e))
           | (fc, Inr bh) \<Rightarrow>
               let n = n\<lparr>fork_choice := fc\<rparr> in
               if map_option fn_hash (fc_best_tip F fc) \<noteq> Some bh
               then (case save_side_block K (env_lmdb E) (env_codecs E) (node_storage n) b of
                  (st, r) \<Rightarrow> (n\<lparr>node_storage := st\<rparr>, map_err StorageError r))
               else if \<not> extends_active_tip E n b then reorg_to_best_tip E n now
               else
                 (case ledger_apply_block K (node_ledger n) b of
                    Inl e \<Rightarrow> (n, Err (LedgerError e))
                  | Inr L \<Rightarrow>
                      let n = n\<lparr>node_ledger := L, node_mempool := remove_confirmed K (node_mempool n) b,
                                node_cache := refresh_cache E L b (node_cache n)\<rparr>
                      in (case save_ledger K (env_lmdb E) (env_codecs E) (node_storage n) L of
                            (st, r) \<Rightarrow> (n\<lparr>node_storage := st\<rparr>, map_err StorageError r)))))"

section \<open>Processing orphans\<close>

text \<open>
  The \<open>for\<close> loop over the children of a parent that has arrived, then the \<open>while\<close> loop over the stack
  of parents (its head is the end of the vector).
\<close>

fun process_children ::
  "('e, 't, 'f) node_env \<Rightarrow> u64 \<Rightarrow> hash list \<Rightarrow> ('e, 'f) node \<Rightarrow> hash list \<Rightarrow> ('e, 'f) node \<times> hash list" where
  "process_children E now [] n parents = (n, parents)"
| "process_children E now (c # cs) n parents =
     (case bt_get (orphan_blocks n) c of
        None \<Rightarrow> process_children E now cs n parents
      | Some orphan \<Rightarrow>
          let n1 = n\<lparr>orphan_blocks := bt_remove c (orphan_blocks n)\<rparr> in
          (case apply_known_parent_block E n1 (orphan_block_of orphan) now of
             (n2, Inr _) \<Rightarrow> process_children E now cs n2 (c # parents)
           | (n2, Inl e) \<Rightarrow>
               if e = ForkChoiceError MissingParent
               then process_children E now cs (cache_orphan_block E n2 (orphan_block_of orphan) now) parents
               else process_children E now cs n2 parents))"

function process_stack ::
  "('e, 't, 'f) node_env \<Rightarrow> u64 \<Rightarrow> hash list \<Rightarrow> ('e, 'f) node \<Rightarrow> ('e, 'f) node" where
  "process_stack E now [] n = n"
| "process_stack E now (p # ps) n =
     (case bt_get (orphan_children_by_parent n) p of
        None \<Rightarrow> process_stack E now ps n
      | Some children \<Rightarrow>
          (case process_children E now children
             (n\<lparr>orphan_children_by_parent := bt_remove p (orphan_children_by_parent n)\<rparr>) ps of
             (n', ps') \<Rightarrow> process_stack E now ps' n'))"
  by pat_completeness auto

text \<open>
  The stack loop ends: applying a block does not touch the orphans, and each round takes a parent
  off the stack while every parent it pushes was an orphan before.
\<close>

lemma reorg_frame:
  "orphan_blocks (fst (reorg_to_best_tip E n now)) = orphan_blocks n"
  "orphan_children_by_parent (fst (reorg_to_best_tip E n now)) = orphan_children_by_parent n"
  "missing_parent_requests (fst (reorg_to_best_tip E n now)) = missing_parent_requests n"
  "missing_parent_request_set (fst (reorg_to_best_tip E n now)) = missing_parent_request_set n"
  "missing_parent_retry_at (fst (reorg_to_best_tip E n now)) = missing_parent_retry_at n"
  by (auto simp: reorg_to_best_tip_def Let_def split: sum.splits prod.splits)

lemma apply_known_parent_frame [simp]:
  "orphan_blocks (fst (apply_known_parent_block E n b now)) = orphan_blocks n"
  "orphan_children_by_parent (fst (apply_known_parent_block E n b now)) = orphan_children_by_parent n"
  "missing_parent_requests (fst (apply_known_parent_block E n b now)) = missing_parent_requests n"
  "missing_parent_request_set (fst (apply_known_parent_block E n b now)) = missing_parent_request_set n"
  "missing_parent_retry_at (fst (apply_known_parent_block E n b now)) = missing_parent_retry_at n"
  by (auto simp: apply_known_parent_block_def Let_def reorg_frame split: sum.splits prod.splits)

lemma length_bt_remove_less: "bt_get m k = Some v \<Longrightarrow> length (bt_remove k m) < length m"
  by (auto simp: bt_remove_def dest!: map_of_SomeD intro!: length_filter_less)

lemma length_remove_orphan: "length (orphan_blocks (remove_orphan h n)) \<le> length (orphan_blocks n)"
  by (simp add: remove_orphan_def length_bt_remove_le)

lemma length_fold_remove_orphan: "length (orphan_blocks (fold remove_orphan hs n)) \<le> length (orphan_blocks n)"
proof (induction hs arbitrary: n)
  case (Cons h hs)
  show ?case using Cons [of "remove_orphan h n"] length_remove_orphan [of h n] by simp
qed simp

lemma length_prune_orphans: "length (orphan_blocks (prune_expired_orphans E n now)) \<le> length (orphan_blocks n)"
  by (simp add: prune_expired_orphans_def length_fold_remove_orphan)

lemma queue_request_frame [simp]:
  "orphan_blocks (queue_missing_parent_request E n h now) = orphan_blocks n"
  "orphan_children_by_parent (queue_missing_parent_request E n h now) = orphan_children_by_parent n"
  by (simp_all add: queue_missing_parent_request_def queue_missing_parent_request_at_def Let_def)

lemma length_evict_orphan: "length (orphan_blocks (evict_orphan n)) \<le> length (orphan_blocks n)"
  by (auto simp: evict_orphan_def split: list.split) (metis length_Cons length_remove_orphan)

lemma length_store_orphan: "length (orphan_blocks (store_orphan E n b now)) \<le> Suc (length (orphan_blocks n))"
  by (simp add: store_orphan_def Let_def length_bt_insert_le)

lemma length_cache_orphan: "length (orphan_blocks (cache_orphan_block E n b now)) \<le> Suc (length (orphan_blocks n))"
proof -
  let ?p = "prune_expired_orphans E n now"
  have "length (orphan_blocks (store_orphan E (evict_orphan ?p) b now)) \<le> Suc (length (orphan_blocks n))"
    using length_store_orphan [of E "evict_orphan ?p" b now] length_evict_orphan [of ?p]
      length_prune_orphans [of E n now] by linarith
  then show ?thesis
    using length_prune_orphans [of E n now] by (simp add: cache_orphan_block_def Let_def)
qed

lemma process_children_size:
  "process_children E now cs n ps = (n', ps') \<Longrightarrow>
   length ps' + length (orphan_blocks n') \<le> length ps + length (orphan_blocks n)"
proof (induction cs arbitrary: n ps)
  case (Cons c cs)
  show ?case
  proof (cases "bt_get (orphan_blocks n) c")
    case None
    then show ?thesis using Cons by simp
  next
    case (Some orphan)
    let ?n1 = "n\<lparr>orphan_blocks := bt_remove c (orphan_blocks n)\<rparr>"
    obtain n2 r where ap: "apply_known_parent_block E ?n1 (orphan_block_of orphan) now = (n2, r)" by fastforce
    have n2: "orphan_blocks n2 = bt_remove c (orphan_blocks n)"
      using apply_known_parent_frame(1) [of E ?n1 "orphan_block_of orphan" now] by (simp add: ap)
    have less: "length (bt_remove c (orphan_blocks n)) < length (orphan_blocks n)"
      using length_bt_remove_less [OF Some] .
    show ?thesis
    proof (cases r)
      case (Inr u)
      then show ?thesis using Cons.IH [of n2 "c # ps"] Cons.prems Some ap n2 less by simp
    next
      case (Inl e)
      then show ?thesis
        using Cons.IH [of "cache_orphan_block E n2 (orphan_block_of orphan) now" ps] Cons.IH [of n2 ps]
          Cons.prems Some ap n2 less length_cache_orphan [of E n2 "orphan_block_of orphan" now]
        by (simp split: if_splits)
    qed
  qed
qed simp

termination process_stack
  by (relation "measure (\<lambda>(E, now, ps, n). length ps + length (orphan_blocks n))")
    (auto dest!: process_children_size [OF sym])

definition process_orphans_for_parent ::
  "('e, 't, 'f) node_env \<Rightarrow> ('e, 'f) node \<Rightarrow> hash \<Rightarrow> u64 \<Rightarrow> ('e, 'f) node" where
  "process_orphans_for_parent E n parent_hash now =
     process_stack E now [parent_hash] (prune_expired_orphans E n now)"

definition apply_block ::
  "('e, 't, 'f) node_env \<Rightarrow> ('e, 'f) node \<Rightarrow> block \<Rightarrow> u64 \<Rightarrow> ('e, 'f) node \<times> (node_error + unit)" where
  "apply_block E n b now =
     (case apply_known_parent_block E (prune_expired_orphans E n now) b now of
        (n', Inr _) \<Rightarrow> (process_orphans_for_parent E n' (block_hash (env_core E) b) now, Ok ())
      | (n', Inl e) \<Rightarrow>
          if e = ForkChoiceError MissingParent then (cache_orphan_block E n' b now, Ok ())
          else if e = ForkChoiceError ForkDuplicateBlock then (n', Ok ())
          else if e = LedgerError LedgerDuplicateBlock then (n', Ok ())
          else (n', Err e))"

section \<open>Stored blocks, transactions and mining\<close>

definition submit_transaction ::
  "('e, 't, 'f) node_env \<Rightarrow> ('e, 'f) node \<Rightarrow> signed_transaction \<Rightarrow> u64 \<Rightarrow> ('e, 'f) node \<times> (node_error + hash)" where
  "submit_transaction E n tx now =
     (case insert_validated_at (env_core E) (node_mempool n) (node_ledger n) tx now of
        (m, r) \<Rightarrow> (n\<lparr>node_mempool := m\<rparr>, map_err MempoolError r))"

text \<open>One pass over the blocks not indexed yet: the index, then an error or the rest and whether any was indexed.\<close>

fun index_pass ::
  "('e, 't, 'f) node_env \<Rightarrow> block list \<Rightarrow> 'f \<Rightarrow> 'f \<times> (node_error + block list \<times> bool)" where
  "index_pass E [] fc = (fc, Ok ([], False))"
| "index_pass E (b # bs) fc =
     (if fc_contains (env_fork E) fc (block_hash (env_core E) b)
      then case index_pass E bs fc of (fc', r) \<Rightarrow> (fc', res_bind r (\<lambda>(rest, _). Ok (rest, True)))
      else case fc_insert (env_fork E) fc b of
        (fc', Inr _) \<Rightarrow>
          (case index_pass E bs fc' of (fc'', r) \<Rightarrow> (fc'', res_bind r (\<lambda>(rest, _). Ok (rest, True))))
      | (fc', Inl e) \<Rightarrow>
          if e = MissingParent
          then case index_pass E bs fc' of (fc'', r) \<Rightarrow> (fc'', res_bind r (\<lambda>(rest, p). Ok (b # rest, p)))
          else (fc', Err (ForkChoiceError e)))"

lemma index_pass_length:
  "index_pass E bs fc = (fc', Ok (rest, p)) \<Longrightarrow> length rest \<le> length bs \<and> (p \<longrightarrow> length rest < length bs)"
proof (induction bs arbitrary: fc fc' rest p)
  case (Cons b bs)
  then show ?case
    by (fastforce simp: res_bind_Ok_iff split: if_splits prod.splits sum.splits)
qed simp

function index_loop :: "('e, 't, 'f) node_env \<Rightarrow> block list \<Rightarrow> 'f \<Rightarrow> 'f \<times> (node_error + unit)" where
  "index_loop E blocks fc =
     (case index_pass E blocks fc of
        (fc', Inl e) \<Rightarrow> (fc', Err e)
      | (fc', Inr (rest, progressed)) \<Rightarrow> if progressed then index_loop E rest fc' else (fc', Ok ()))"
  by pat_completeness auto

termination index_loop
  by (relation "measure (\<lambda>(E, blocks, fc). length blocks)") (auto dest!: index_pass_length [OF sym])

declare index_loop.simps [simp del]

definition index_stored_blocks :: "('e, 't, 'f) node_env \<Rightarrow> ('e, 'f) node \<Rightarrow> ('e, 'f) node \<times> (node_error + unit)" where
  "index_stored_blocks E n =
     (case load_blocks_by_hash (env_lmdb E) (env_codecs E) (node_storage n) of
        Inl e \<Rightarrow> (n, Err (StorageError e))
      | Inr blocks \<Rightarrow>
          (case index_loop E (sort_key block_height blocks) (fork_choice n) of
             (fc, r) \<Rightarrow> (n\<lparr>fork_choice := fc\<rparr>, r)))"

text \<open>
  \<open>init_or_load\<close> on an opened store. The inner option is \<open>None\<close> where the code panics: the hard-coded
  genesis hash does not match, or the ledger's chain does not index.
\<close>

definition load_or_create_ledger ::
  "('e, 't, 'f) node_env \<Rightarrow> 'e \<Rightarrow> 'e \<times> (node_error + ledger) option" where
  "load_or_create_ledger E st =
     (let K = env_core E; D = env_lmdb E; C = env_codecs E in
      case load_tip K D C st of
        Inl e \<Rightarrow> (st, Some (Err (StorageError e)))
      | Inr (Some _) \<Rightarrow> (case load_ledger K D C st of (st', r) \<Rightarrow> (st', Some (map_err StorageError r)))
      | Inr None \<Rightarrow>
          if block_hash K (env_genesis_block E) \<noteq> env_GENESIS_HASH E then (st, None)
          else
            (case ledger_apply_block K (ledger_new K) (env_genesis_block E) of
               Inl e \<Rightarrow> (st, Some (Err (LedgerError e)))
             | Inr L \<Rightarrow>
                 (case then_env (save_ledger K D C st L) (\<lambda>st' _. save_genesis_accounts D C st' (ledger_accounts L)) of
                    (st', r) \<Rightarrow> (st', Some (map_err StorageError (res_bind r (\<lambda>_. Ok L)))))))"

definition init_or_load ::
  "('e, 't, 'f) node_env \<Rightarrow> 'e \<Rightarrow> 'e \<times> (node_error + ('e, 'f) node) option" where
  "init_or_load E st =
     (case load_or_create_ledger E st of
        (st', None) \<Rightarrow> (st', None)
      | (st', Some (Inl e)) \<Rightarrow> (st', Some (Err e))
      | (st', Some (Inr L)) \<Rightarrow>
          (case load_genesis_accounts (env_lmdb E) (env_codecs E) st' of
             Inl e \<Rightarrow> (st', Some (Err (StorageError e)))
           | Inr accs \<Rightarrow>
               (case with_genesis_accounts E L st'
                  (case accs of Some a \<Rightarrow> a
                   | None \<Rightarrow> if ledger_tip_height (env_core E) L = Some 0 then ledger_accounts L else []) of
                  None \<Rightarrow> (st', None)
                | Some n \<Rightarrow> (case index_stored_blocks E n of
                    (n', r) \<Rightarrow> (st', Some (res_bind r (\<lambda>_. Ok n')))))))"

definition next_difficulty_after_tip ::
  "('e, 't, 'f) node_env \<Rightarrow> ('e, 'f) node \<Rightarrow> u64 \<Rightarrow> node_error + u32" where
  "next_difficulty_after_tip E n tip_height =
     res_bind (map_err StorageError (difficulty_window (env_lmdb E) (env_codecs E) (node_storage n) tip_height
       (DIFFICULTY_ADJUSTMENT_INTERVAL (env_core E)))) (\<lambda>w. case w of
       None \<Rightarrow> Ok (cons_difficulty (env_consensus E))
     | Some (first_timestamp, last_timestamp, block_count, current_difficulty) \<Rightarrow>
         map_err ConsensusError (retarget_difficulty (env_consensus E) current_difficulty first_timestamp
           last_timestamp block_count))"

definition next_difficulty :: "('e, 't, 'f) node_env \<Rightarrow> ('e, 'f) node \<Rightarrow> node_error + u32" where
  "next_difficulty E n =
     (case ledger_tip_height (env_core E) (node_ledger n) of
        None \<Rightarrow> Ok (cons_difficulty (env_consensus E))
      | Some h \<Rightarrow> next_difficulty_after_tip E n h)"

definition mine_block ::
  "('e, 't, 'f) node_env \<Rightarrow> ('e, 'f) node \<Rightarrow> address \<Rightarrow> u64 \<Rightarrow> u64 \<Rightarrow> nat \<Rightarrow> u64 \<Rightarrow>
   ('e, 'f) node \<times> (node_error + mining_result)" where
  "mine_block E n miner timestamp max_attempts limit now =
     (let n = n\<lparr>node_mempool := fst (prune_expired (env_core E) (node_mempool n) timestamp)\<rparr> in
      case res_bind (next_difficulty E n) (\<lambda>difficulty.
           res_bind (map_err ConsensusError (mine_candidate_block (env_core E) (env_consensus E) (node_mempool n)
             (node_ledger n) miner timestamp
             \<lparr>mc_difficulty = difficulty, mc_max_attempts = max_attempts, mc_transaction_limit = limit\<rparr>)) (\<lambda>r.
           ok_or r MiningExhausted)) of
        Inl e \<Rightarrow> (n, Err e)
      | Inr result \<Rightarrow>
          (case apply_block E n (mined_block result) now of
             (n', r) \<Rightarrow> (n', res_bind r (\<lambda>_. Ok result))))"

definition flush_to_storage :: "('e, 't, 'f) node_env \<Rightarrow> ('e, 'f) node \<Rightarrow> ('e, 'f) node \<times> (node_error + unit)" where
  "flush_to_storage E n =
     (case save_ledger (env_core E) (env_lmdb E) (env_codecs E) (node_storage n) (node_ledger n) of
        (st, r) \<Rightarrow> (n\<lparr>node_storage := st\<rparr>, map_err StorageError r))"

section \<open>Balances\<close>

definition available_balance :: "('e, 't, 'f) node_env \<Rightarrow> ('e, 'f) node \<Rightarrow> address \<Rightarrow> u32 option" where
  "available_balance E n a =
     (case ledger_tip_height (env_core E) (node_ledger n) of
        None \<Rightarrow> None
      | Some h \<Rightarrow> map_option (\<lambda>acc. available_balance_at (env_core E) acc h) (account_of (env_core E) (node_ledger n) a))"

definition add_pending :: "address \<Rightarrow> signed_transaction \<Rightarrow> pending_balance \<Rightarrow> pending_balance" where
  "add_pending a t p =
     (let p = (if tx_to (payload t) = a
               then p\<lparr>incoming := saturating_add (incoming p) (tx_amount (payload t))\<rparr> else p)
      in if tx_from (payload t) = a
         then p\<lparr>outgoing := saturating_add (outgoing p)
           (saturating_add (tx_amount (payload t)) (tx_fee (payload t)))\<rparr>
         else p)"

definition pending_balance_of :: "('e, 'f) node \<Rightarrow> address \<Rightarrow> pending_balance" where
  "pending_balance_of n a = fold (add_pending a) (transactions (node_mempool n)) \<lparr>incoming = 0, outgoing = 0\<rparr>"

definition balance_summary_of :: "('e, 't, 'f) node_env \<Rightarrow> ('e, 'f) node \<Rightarrow> address \<Rightarrow> balance_summary option" where
  "balance_summary_of E n a =
     (case ledger_confirmed_balance (env_core E) (node_ledger n) a of
        None \<Rightarrow> None
      | Some c \<Rightarrow> (case available_balance E n a of
          None \<Rightarrow> None
        | Some av \<Rightarrow> Some \<lparr>bs_confirmed = c, bs_available = av, bs_pending = pending_balance_of n a\<rparr>))"

definition account_view_of :: "('e, 't, 'f) node_env \<Rightarrow> ('e, 'f) node \<Rightarrow> address \<Rightarrow> account_view option" where
  "account_view_of E n a =
     (case account_of (env_core E) (node_ledger n) a of
        None \<Rightarrow> None
      | Some acc \<Rightarrow> (case ledger_tip_height (env_core E) (node_ledger n) of
          None \<Rightarrow> None
        | Some h \<Rightarrow> Some \<lparr>view_balance = available_balance_at (env_core E) acc h,
            view_unspendable = unspendable_balance_at (env_core E) acc h, view_nonce = acc_nonce acc\<rparr>))"

end
