(* ===== verification/Node_Orphans.thy ===== *)
theory Node_Orphans
  imports Node
begin

text \<open>
  The node's pool of orphan blocks and its queue of missing parents. The invariant \<open>orphans_inv\<close> says
  that the pool is bounded, that each orphan is stored under its hash and indexed once under its
  parent, and that the index holds nothing else; while the children of an arrived parent are being
  processed they are exempt from the index (the set \<open>X\<close>). \<open>requests_ok\<close> ties the queue, the set and the
  retry times of the missing parents together.
\<close>

section \<open>The invariants\<close>

definition orphans_inv :: "core \<Rightarrow> ('e, 'f) node \<Rightarrow> hash set \<Rightarrow> bool" where
  "orphans_inv K n X \<longleftrightarrow>
     bt_wf (orphan_blocks n) \<and> bt_wf (orphan_children_by_parent n) \<and>
     length (orphan_blocks n) \<le> MAX_ORPHAN_BLOCKS \<and>
     (\<forall>h x. bt_get (orphan_blocks n) h = Some x \<longrightarrow>
        h = block_hash K (orphan_block_of x) \<and>
        (h \<notin> X \<longrightarrow> h \<in> set (bt_queue (orphan_children_by_parent n) (previous_hash (orphan_block_of x))))) \<and>
     (\<forall>p h. h \<in> set (bt_queue (orphan_children_by_parent n) p) \<longrightarrow>
        h \<notin> X \<and> (\<exists>x. bt_get (orphan_blocks n) h = Some x \<and> previous_hash (orphan_block_of x) = p)) \<and>
     (\<forall>p q. bt_get (orphan_children_by_parent n) p = Some q \<longrightarrow> q \<noteq> [] \<and> distinct q)"

definition requests_ok :: "('e, 'f) node \<Rightarrow> bool" where
  "requests_ok n \<longleftrightarrow>
     distinct (missing_parent_requests n) \<and>
     set (missing_parent_requests n) = missing_parent_request_set n \<and>
     bt_wf (missing_parent_retry_at n) \<and>
     set (bt_keys (missing_parent_retry_at n)) = missing_parent_request_set n"

lemma orphans_invI:
  assumes "bt_wf (orphan_blocks n)" "bt_wf (orphan_children_by_parent n)"
    and "length (orphan_blocks n) \<le> MAX_ORPHAN_BLOCKS"
    and "\<And>h x. bt_get (orphan_blocks n) h = Some x \<Longrightarrow> h = block_hash K (orphan_block_of x)"
    and "\<And>h x. bt_get (orphan_blocks n) h = Some x \<Longrightarrow> h \<notin> X \<Longrightarrow>
      h \<in> set (bt_queue (orphan_children_by_parent n) (previous_hash (orphan_block_of x)))"
    and "\<And>p h. h \<in> set (bt_queue (orphan_children_by_parent n) p) \<Longrightarrow>
      h \<notin> X \<and> (\<exists>x. bt_get (orphan_blocks n) h = Some x \<and> previous_hash (orphan_block_of x) = p)"
    and "\<And>p q. bt_get (orphan_children_by_parent n) p = Some q \<Longrightarrow> q \<noteq> [] \<and> distinct q"
  shows "orphans_inv K n X"
  using assms unfolding orphans_inv_def by blast

lemma orphans_invD:
  assumes "orphans_inv K n X"
  shows "bt_wf (orphan_blocks n)" "bt_wf (orphan_children_by_parent n)"
    and "length (orphan_blocks n) \<le> MAX_ORPHAN_BLOCKS"
    and "\<And>h x. bt_get (orphan_blocks n) h = Some x \<Longrightarrow> h = block_hash K (orphan_block_of x)"
    and "\<And>h x. bt_get (orphan_blocks n) h = Some x \<Longrightarrow> h \<notin> X \<Longrightarrow>
      h \<in> set (bt_queue (orphan_children_by_parent n) (previous_hash (orphan_block_of x)))"
    and "\<And>p h. h \<in> set (bt_queue (orphan_children_by_parent n) p) \<Longrightarrow>
      h \<notin> X \<and> (\<exists>x. bt_get (orphan_blocks n) h = Some x \<and> previous_hash (orphan_block_of x) = p)"
    and "\<And>p q. bt_get (orphan_children_by_parent n) p = Some q \<Longrightarrow> q \<noteq> [] \<and> distinct q"
  using assms unfolding orphans_inv_def by blast+

lemma orphans_inv_cong:
  "orphan_blocks n' = orphan_blocks n \<Longrightarrow> orphan_children_by_parent n' = orphan_children_by_parent n \<Longrightarrow>
   orphans_inv K n' X \<longleftrightarrow> orphans_inv K n X"
  by (simp add: orphans_inv_def)

lemma requests_ok_cong:
  "missing_parent_requests n' = missing_parent_requests n \<Longrightarrow>
   missing_parent_request_set n' = missing_parent_request_set n \<Longrightarrow>
   missing_parent_retry_at n' = missing_parent_retry_at n \<Longrightarrow> requests_ok n' \<longleftrightarrow> requests_ok n"
  by (simp add: requests_ok_def)

section \<open>Removal\<close>

lemma fold_bt_remove: "fold bt_remove ks m = filter (\<lambda>e. fst e \<notin> set ks) m"
  by (induction ks arbitrary: m) (auto simp: bt_remove_def intro!: filter_cong)

lemma remove_orphan_index_filter:
  assumes "bt_wf m"
  shows "remove_orphan_index h m = filter (\<lambda>e. snd e \<noteq> []) (map (\<lambda>(p, cs). (p, filter (\<lambda>c. c \<noteq> h) cs)) m)"
proof -
  let ?m = "map (\<lambda>(p, cs). (p, filter (\<lambda>c. c \<noteq> h) cs)) m"
  have wf: "bt_wf ?m" using assms by (simp only: bt_wf_map_snd)
  have "fst e \<notin> fst ` set (filter (\<lambda>(_, cs). cs = []) ?m) \<longleftrightarrow> snd e \<noteq> []" if "e \<in> set ?m" for e
  proof -
    have "snd e = snd e'" if "e' \<in> set ?m" "fst e' = fst e" for e'
      using that \<open>e \<in> set ?m\<close> bt_wf_distinct [OF wf] by (metis eq_key_imp_eq_value prod.collapse)
    then show ?thesis using that by force
  qed
  then show ?thesis
    unfolding remove_orphan_index_def Let_def fold_bt_remove by (intro filter_cong) simp_all
qed

lemma bt_get_remove_orphan_index:
  assumes "bt_wf m"
  shows "bt_wf (remove_orphan_index h m)"
    and "bt_queue (remove_orphan_index h m) p = filter (\<lambda>c. c \<noteq> h) (bt_queue m p)"
    and "bt_get (remove_orphan_index h m) p = Some q \<Longrightarrow> q \<noteq> [] \<and> (\<exists>q'. bt_get m p = Some q' \<and> q = filter (\<lambda>c. c \<noteq> h) q')"
proof -
  let ?m = "map (\<lambda>(p, cs). (p, filter (\<lambda>c. c \<noteq> h) cs)) m"
  have wf: "bt_wf ?m" using assms by (simp only: bt_wf_map_snd)
  then show "bt_wf (remove_orphan_index h m)"
    by (simp add: remove_orphan_index_filter [OF assms] bt_wf_filter)
  have get: "bt_get ?m p = map_option (filter (\<lambda>c. c \<noteq> h)) (bt_get m p)"
    by (induction m) auto
  have "bt_get (remove_orphan_index h m) p =
      (case bt_get ?m p of None \<Rightarrow> None | Some cs \<Rightarrow> if cs \<noteq> [] then Some cs else None)"
    using bt_get_retain [OF wf, of "\<lambda>_ cs. cs \<noteq> []" p]
    by (simp add: remove_orphan_index_filter [OF assms] bt_retain_def)
  then show "bt_queue (remove_orphan_index h m) p = filter (\<lambda>c. c \<noteq> h) (bt_queue m p)"
    and "bt_get (remove_orphan_index h m) p = Some q \<Longrightarrow> q \<noteq> [] \<and> (\<exists>q'. bt_get m p = Some q' \<and> q = filter (\<lambda>c. c \<noteq> h) q')"
    using get by (auto simp: bt_queue_def split: option.splits if_splits)
qed

lemma remove_orphan_inv:
  assumes "orphans_inv K n X"
  shows "orphans_inv K (remove_orphan h n) X"
proof (rule orphans_invI)
  note inv = orphans_invD [OF assms]
  note idx = bt_get_remove_orphan_index [OF inv(2), of h]
  let ?n = "remove_orphan h n"
  show "bt_wf (orphan_blocks ?n)" "bt_wf (orphan_children_by_parent ?n)"
    using inv(1) idx(1) by (simp_all add: remove_orphan_def)
  show "length (orphan_blocks ?n) \<le> MAX_ORPHAN_BLOCKS"
    using inv(3) length_remove_orphan [of h n] by simp
  show "k = block_hash K (orphan_block_of x)" if "bt_get (orphan_blocks ?n) k = Some x" for k x
    using that by (intro inv(4)) (simp add: remove_orphan_def split: if_splits)
  show "k \<in> set (bt_queue (orphan_children_by_parent ?n) (previous_hash (orphan_block_of x)))"
    if "bt_get (orphan_blocks ?n) k = Some x" "k \<notin> X" for k x
    using that inv(5) by (simp add: remove_orphan_def idx(2) split: if_splits)
  show "k \<notin> X \<and> (\<exists>x. bt_get (orphan_blocks ?n) k = Some x \<and> previous_hash (orphan_block_of x) = p)"
    if "k \<in> set (bt_queue (orphan_children_by_parent ?n) p)" for p k
    using that inv(6) [of k p] by (simp add: remove_orphan_def idx(2))
  show "q \<noteq> [] \<and> distinct q" if g: "bt_get (orphan_children_by_parent ?n) p = Some q" for p q
  proof -
    obtain q' where q': "q \<noteq> []" "bt_get (orphan_children_by_parent n) p = Some q'" "q = filter (\<lambda>c. c \<noteq> h) q'"
      using g idx(3) [of p q] by (auto simp: remove_orphan_def)
    then show ?thesis using inv(7) [OF q'(2)] by simp
  qed
qed

lemma fold_remove_orphan_inv: "orphans_inv K n X \<Longrightarrow> orphans_inv K (fold remove_orphan hs n) X"
  by (induction hs arbitrary: n) (simp_all add: remove_orphan_inv)

lemma prune_orphans_inv: "orphans_inv K n X \<Longrightarrow> orphans_inv K (prune_expired_orphans E n now) X"
  by (simp add: prune_expired_orphans_def fold_remove_orphan_inv)

lemma fold_remove_orphan_frame:
  "node_ledger (fold remove_orphan hs n) = node_ledger n \<and>
   node_mempool (fold remove_orphan hs n) = node_mempool n \<and>
   node_storage (fold remove_orphan hs n) = node_storage n \<and>
   node_cache (fold remove_orphan hs n) = node_cache n \<and>
   fork_choice (fold remove_orphan hs n) = fork_choice n \<and>
   genesis_accounts (fold remove_orphan hs n) = genesis_accounts n \<and>
   missing_parent_requests (fold remove_orphan hs n) = missing_parent_requests n \<and>
   missing_parent_request_set (fold remove_orphan hs n) = missing_parent_request_set n \<and>
   missing_parent_retry_at (fold remove_orphan hs n) = missing_parent_retry_at n"
  by (induction hs arbitrary: n) (simp_all add: remove_orphan_def)

lemma prune_orphans_frame [simp]:
  "node_ledger (prune_expired_orphans E n now) = node_ledger n"
  "node_mempool (prune_expired_orphans E n now) = node_mempool n"
  "node_storage (prune_expired_orphans E n now) = node_storage n"
  "node_cache (prune_expired_orphans E n now) = node_cache n"
  "fork_choice (prune_expired_orphans E n now) = fork_choice n"
  "genesis_accounts (prune_expired_orphans E n now) = genesis_accounts n"
  "missing_parent_requests (prune_expired_orphans E n now) = missing_parent_requests n"
  "missing_parent_request_set (prune_expired_orphans E n now) = missing_parent_request_set n"
  "missing_parent_retry_at (prune_expired_orphans E n now) = missing_parent_retry_at n"
  by (simp_all add: prune_expired_orphans_def fold_remove_orphan_frame)

section \<open>Insertion\<close>

lemma evict_orphan_inv:
  assumes "orphans_inv K n X"
  shows "orphans_inv K (evict_orphan n) X" and "length (orphan_blocks (evict_orphan n)) < MAX_ORPHAN_BLOCKS"
proof -
  show "orphans_inv K (evict_orphan n) X"
    using assms remove_orphan_inv [OF assms] by (simp add: evict_orphan_def split: list.split)
  show "length (orphan_blocks (evict_orphan n)) < MAX_ORPHAN_BLOCKS"
  proof (cases "MAX_ORPHAN_BLOCKS \<le> length (orphan_blocks n)")
    case True
    then obtain e es where e: "orphan_blocks n = e # es"
      by (cases "orphan_blocks n") (auto simp: MAX_ORPHAN_BLOCKS_def)
    then have "length (bt_remove (fst e) (orphan_blocks n)) < length (orphan_blocks n)"
      by (intro length_bt_remove_less [of _ _ "snd e"]) simp
    then show ?thesis
      using assms True by (simp add: evict_orphan_def e remove_orphan_def orphans_inv_def)
  next
    case False
    then show ?thesis by (simp add: evict_orphan_def)
  qed
qed

lemma evict_orphan_absent: "bt_get (orphan_blocks n) h = None \<Longrightarrow> bt_get (orphan_blocks (evict_orphan n)) h = None"
  by (auto simp: evict_orphan_def remove_orphan_def bt_remove_def map_of_eq_None_iff split: list.split)

lemma store_orphan_inv:
  assumes ok: "orphans_inv K n X" and room: "length (orphan_blocks n) < MAX_ORPHAN_BLOCKS"
    and new: "bt_get (orphan_blocks n) (block_hash K b) = None" "block_hash K b \<notin> X" and K: "env_core E = K"
  shows "orphans_inv K (store_orphan E n b now) X"
proof (rule orphans_invI)
  note inv = orphans_invD [OF ok]
  let ?h = "block_hash K b" and ?c = "orphan_children_by_parent n" and ?n = "store_orphan E n b now"
  have st: "orphan_blocks ?n = bt_insert ?h \<lparr>orphan_block_of = b, received_at = now\<rparr> (orphan_blocks n)"
    "orphan_children_by_parent ?n = bt_push (previous_hash b) ?h ?c"
    by (simp_all add: store_orphan_def Let_def K)
  have notin: "?h \<notin> set (bt_queue ?c p)" for p using inv(6) new(1) by fastforce
  show "bt_wf (orphan_blocks ?n)" "bt_wf (orphan_children_by_parent ?n)" using inv(1,2) by (simp_all add: st)
  show "length (orphan_blocks ?n) \<le> MAX_ORPHAN_BLOCKS"
    using length_bt_insert_new [OF new(1)] room by (simp add: st)
  show "k = block_hash K (orphan_block_of x)" if "bt_get (orphan_blocks ?n) k = Some x" for k x
    using that inv(4) [of k x] by (cases "k = ?h") (auto simp: st)
  show "k \<in> set (bt_queue (orphan_children_by_parent ?n) (previous_hash (orphan_block_of x)))"
    if "bt_get (orphan_blocks ?n) k = Some x" "k \<notin> X" for k x
    using that inv(5) [of k x] by (auto simp: st bt_queue_push split: if_splits)
  show "k \<notin> X \<and> (\<exists>x. bt_get (orphan_blocks ?n) k = Some x \<and> previous_hash (orphan_block_of x) = p)"
    if "k \<in> set (bt_queue (orphan_children_by_parent ?n) p)" for p k
    using that inv(6) [of k p] notin [of p] new(2) by (cases "k = ?h") (auto simp: st bt_queue_push split: if_splits)
  show "q \<noteq> [] \<and> distinct q" if q: "bt_get (orphan_children_by_parent ?n) p = Some q" for p q
  proof (cases "p = previous_hash b")
    case True
    then have "q = bt_queue ?c p @ [?h]" using q by (simp add: st bt_push_def bt_queue_def)
    moreover have "distinct (bt_queue ?c p)" 
    proof (cases "bt_get ?c p")
      case (Some q')
      show ?thesis using inv(7) [OF Some] Some by (simp add: bt_queue_def)
    qed (simp add: bt_queue_def)
    ultimately show ?thesis using notin [of p] by simp
  next
    case False
    then have "bt_get ?c p = Some q" using q by (simp add: st bt_push_def)
    then show ?thesis by (rule inv(7))
  qed
qed

lemma cache_orphan_inv:
  assumes "orphans_inv (env_core E) n X" "block_hash (env_core E) b \<notin> X"
  shows "orphans_inv (env_core E) (cache_orphan_block E n b now) X"
proof -
  let ?p = "prune_expired_orphans E n now"
  have p: "orphans_inv (env_core E) ?p X" using assms(1) by (rule prune_orphans_inv)
  note ev = evict_orphan_inv [OF p]
  have "orphans_inv (env_core E) (store_orphan E (evict_orphan ?p) b now) X"
    if "bt_get (orphan_blocks ?p) (block_hash (env_core E) b) = None"
    using store_orphan_inv [OF ev evict_orphan_absent [OF that] assms(2) refl] .
  then show ?thesis
    using p by (auto simp: cache_orphan_block_def Let_def bt_contains_def)
qed

section \<open>Processing\<close>

lemma process_children_inv:
  "process_children E now cs n ps = (n', ps') \<Longrightarrow> orphans_inv (env_core E) n (set cs) \<Longrightarrow> distinct cs \<Longrightarrow>
   orphans_inv (env_core E) n' {}"
proof (induction cs arbitrary: n ps)
  case (Cons c cs)
  have dis: "distinct cs" "c \<notin> set cs" using Cons.prems(3) by simp_all
  let ?n1 = "n\<lparr>orphan_blocks := bt_remove c (orphan_blocks n)\<rparr>"
  have inv1: "orphans_inv (env_core E) ?n1 (set cs)"
  proof (rule orphans_invI)
    note inv = orphans_invD [OF Cons.prems(2)]
    show "length (orphan_blocks ?n1) \<le> MAX_ORPHAN_BLOCKS"
      using inv(3) length_bt_remove_le [of c "orphan_blocks n"] by simp
    show "h \<notin> set cs \<and> (\<exists>x. bt_get (orphan_blocks ?n1) h = Some x \<and> previous_hash (orphan_block_of x) = p)"
      if "h \<in> set (bt_queue (orphan_children_by_parent ?n1) p)" for p h
      using inv(6) [of h p] that by auto
    show "q \<noteq> [] \<and> distinct q" if "bt_get (orphan_children_by_parent ?n1) p = Some q" for p q
      by (rule inv(7)) (use that in simp)
    show "h \<in> set (bt_queue (orphan_children_by_parent ?n1) (previous_hash (orphan_block_of x)))"
      if "bt_get (orphan_blocks ?n1) h = Some x" "h \<notin> set cs" for h x
      using inv(5) [of h x] that by (auto split: if_splits)
    show "h = block_hash (env_core E) (orphan_block_of x)" if "bt_get (orphan_blocks ?n1) h = Some x" for h x
      using that by (intro inv(4)) (simp split: if_splits)
  qed (use orphans_invD(1,2) [OF Cons.prems(2)] in simp_all)
  show ?case
  proof (cases "bt_get (orphan_blocks n) c")
    case None
    then have "orphans_inv (env_core E) n (set cs)" using inv1 bt_remove_absent [OF None] by simp
    then show ?thesis using Cons.IH [OF _ _ dis(1)] Cons.prems(1) None by simp
  next
    case (Some x)
    obtain n2 r where ap: "apply_known_parent_block E ?n1 (orphan_block_of x) now = (n2, r)" by fastforce
    have inv2: "orphans_inv (env_core E) n2 (set cs)"
      using inv1 apply_known_parent_frame(1,2) [of E ?n1 "orphan_block_of x" now]
      by (simp add: ap orphans_inv_cong [of n2 ?n1])
    have "block_hash (env_core E) (orphan_block_of x) = c"
      using orphans_invD(4) [OF Cons.prems(2) Some] by (rule sym)
    then have "orphans_inv (env_core E) (cache_orphan_block E n2 (orphan_block_of x) now) (set cs)"
      using cache_orphan_inv [OF inv2] dis(2) by simp
    then show ?thesis
      using Cons.IH [of _ _, OF _ _ dis(1)] Cons.prems(1) Some ap inv2 by (cases r) (simp_all split: if_splits)
  qed
qed simp

lemma process_stack_inv:
  "orphans_inv (env_core E) n {} \<Longrightarrow> orphans_inv (env_core E) (process_stack E now ps n) {}"
proof (induction E now ps n rule: process_stack.induct)
  case (2 E now p ps n)
  show ?case
  proof (cases "bt_get (orphan_children_by_parent n) p")
    case None
    then show ?thesis using 2 by simp
  next
    case (Some cs)
    let ?n1 = "n\<lparr>orphan_children_by_parent := bt_remove p (orphan_children_by_parent n)\<rparr>"
    obtain n' ps' where pc: "process_children E now cs ?n1 ps = (n', ps')" by fastforce
    have q: "bt_queue (bt_remove p (orphan_children_by_parent n)) p' =
        (if p' = p then [] else bt_queue (orphan_children_by_parent n) p')" for p'
      by (simp add: bt_queue_def)
    have cs: "bt_queue (orphan_children_by_parent n) p = cs" using Some by (simp add: bt_queue_def)
    note inv = orphans_invD [OF 2(3)]
    have "orphans_inv (env_core E) ?n1 (set cs)"
    proof (rule orphans_invI)
      show "h \<in> set (bt_queue (orphan_children_by_parent ?n1) (previous_hash (orphan_block_of x)))"
        if "bt_get (orphan_blocks ?n1) h = Some x" "h \<notin> set cs" for h x
        using inv(5) [of h x] that cs by (auto simp: q)
      show "h \<notin> set cs \<and> (\<exists>x. bt_get (orphan_blocks ?n1) h = Some x \<and> previous_hash (orphan_block_of x) = p')"
        if "h \<in> set (bt_queue (orphan_children_by_parent ?n1) p')" for p' h
        using inv(6) [of h p'] inv(6) [of h p] that cs by (auto simp: q split: if_splits)
      show "h = block_hash (env_core E) (orphan_block_of x)" if "bt_get (orphan_blocks ?n1) h = Some x" for h x
        using that by (intro inv(4)) simp
      show "q \<noteq> [] \<and> distinct q" if "bt_get (orphan_children_by_parent ?n1) p' = Some q" for p' q
        using that inv(7) [of p' q] by (simp split: if_splits)
    qed (use inv(1-3) in simp_all)
    moreover have "distinct cs" using inv(7) [OF Some] by simp
    ultimately have "orphans_inv (env_core E) n' {}" using process_children_inv [OF pc] by blast
    then show ?thesis using 2(2) [OF Some pc [symmetric]] Some pc by simp
  qed
qed simp

lemma apply_block_orphans_inv:
  assumes "orphans_inv (env_core E) n {}"
  shows "orphans_inv (env_core E) (fst (apply_block E n b now)) {}"
proof -
  obtain n' r where ap: "apply_known_parent_block E (prune_expired_orphans E n now) b now = (n', r)" by fastforce
  have "orphans_inv (env_core E) n' {}"
    using prune_orphans_inv [OF assms, of E now]
      apply_known_parent_frame(1,2) [of E "prune_expired_orphans E n now" b now]
    by (simp add: ap orphans_inv_cong [of n' "prune_expired_orphans E n now"])
  then show ?thesis
    by (cases r) (auto simp: apply_block_def ap process_orphans_for_parent_def simp del: process_stack.simps
        intro!: process_stack_inv prune_orphans_inv cache_orphan_inv)
qed

end
