(* ===== verification/Storage_Laws.thy ===== *)
theory Storage_Laws
  imports Storage
begin

text \<open>
  What the store relies on, and what its transactions do to the stored maps.

  The content of an environment is a map of byte strings per database (\<open>dbs\<close>); \<open>V\<close> reads it off an
  environment and \<open>W\<close> off a transaction. \<open>lmdb_laws\<close> is LMDB's documented behaviour: a transaction
  starts from the environment's content, reads and writes it, keys are 1 to 511 bytes long, cursors
  iterate in key order, a commit publishes the transaction and a failed one changes nothing.
  \<open>codecs_ok\<close> is the round trip of Borsh. Each writing method is then refined to its effect on maps.
\<close>

named_theorems txn_effects "effects of the writing helpers on a transaction's content"

type_synonym dbs = "db \<Rightarrow> bytes \<Rightarrow> bytes option"

definition key_ok :: "bytes \<Rightarrow> bool" where
  "key_ok k \<longleftrightarrow> 0 < length k \<and> length k \<le> 511"

definition lmdb_laws :: "('d, 'e, 't) engine \<Rightarrow> ('e \<Rightarrow> 'd \<Rightarrow> bytes \<Rightarrow> bytes option) \<Rightarrow> ('t \<Rightarrow> 'd \<Rightarrow> bytes \<Rightarrow> bytes option) \<Rightarrow> bool" where
  "lmdb_laws D V W \<longleftrightarrow>
     (\<forall>e t. begin_ro_txn D e = Ok t \<longrightarrow> W t = V e) \<and>
     (\<forall>e t. begin_rw_txn D e = Ok t \<longrightarrow> W t = V e) \<and>
     (\<forall>t d k. txn_get D t d k =
        (if key_ok k then (case W t d k of None \<Rightarrow> Err NotFound | Some v \<Rightarrow> Ok v) else Err BadValSize)) \<and>
     (\<forall>t t' d k v. txn_put D t d k v = Ok t' \<longrightarrow> key_ok k \<and> W t' = (W t)(d := (W t d)(k \<mapsto> v))) \<and>
     (\<forall>t t' d. txn_clear_db D t d = Ok t' \<longrightarrow> W t' = (W t)(d := Map.empty)) \<and>
     (\<forall>t d. \<exists>es. txn_iter D t d = Ok es \<and> bt_wf es \<and> map_of es = W t d) \<and>
     (\<forall>e t e'. txn_commit D e t = (e', Ok ()) \<longrightarrow> V e' = W t) \<and>
     (\<forall>e t e' x. txn_commit D e t = (e', Err x) \<longrightarrow> V e' = V e)"

definition codec_ok :: "'a codec \<Rightarrow> bool" where
  "codec_ok c \<longleftrightarrow> (\<forall>x bs. enc c x = Ok bs \<longrightarrow> dec c bs = Ok x)"

definition codecs_ok :: "codecs \<Rightarrow> bool" where
  "codecs_ok C \<longleftrightarrow>
     codec_ok (block_codec C) \<and> codec_ok (account_codec C) \<and> codec_ok (accounts_codec C) \<and>
     codec_ok (snapshot_codec C) \<and> codec_ok (location_codec C) \<and>
     codec_ok (address_location_codec C) \<and> codec_ok (height_codec C) \<and> codec_ok (version_codec C)"

text \<open>An environment a read-only transaction can be opened on (the reader table is not full).\<close>

definition readable :: "('d, 'e, 't) engine \<Rightarrow> 'e \<Rightarrow> bool" where
  "readable D e \<longleftrightarrow> (\<exists>t. begin_ro_txn D e = Ok t)"

section \<open>Laws as rules\<close>

lemma lmdb_put: "lmdb_laws D V W \<Longrightarrow> txn_put D t d k v = Ok t' \<Longrightarrow> key_ok k \<and> W t' = (W t)(d := (W t d)(k \<mapsto> v))"
  unfolding lmdb_laws_def by (elim conjE) metis

lemma lmdb_clear: "lmdb_laws D V W \<Longrightarrow> txn_clear_db D t d = Ok t' \<Longrightarrow> W t' = (W t)(d := Map.empty)"
  unfolding lmdb_laws_def by (elim conjE) metis

lemma lmdb_iter: "lmdb_laws D V W \<Longrightarrow> \<exists>es. txn_iter D t d = Ok es \<and> bt_wf es \<and> map_of es = W t d"
  unfolding lmdb_laws_def by (elim conjE) metis

lemma lmdb_commit: "lmdb_laws D V W \<Longrightarrow> txn_commit D e t = (e', Ok ()) \<Longrightarrow> V e' = W t"
  unfolding lmdb_laws_def by (elim conjE) metis

lemma lmdb_commit_Err: "lmdb_laws D V W \<Longrightarrow> txn_commit D e t = (e', Err x) \<Longrightarrow> V e' = V e"
  unfolding lmdb_laws_def by (elim conjE) metis

lemma lmdb_begin_rw: "lmdb_laws D V W \<Longrightarrow> begin_rw_txn D e = Ok t \<Longrightarrow> W t = V e"
  unfolding lmdb_laws_def by (elim conjE) metis

lemma lmdb_begin_ro: "lmdb_laws D V W \<Longrightarrow> begin_ro_txn D e = Ok t \<Longrightarrow> W t = V e"
  unfolding lmdb_laws_def by (elim conjE) metis

lemma read_bytes_view:
  assumes "lmdb_laws D V W"
  shows "read_bytes D t d k = (if key_ok k then Ok (W t d k) else Err (Database BadValSize))"
proof -
  have "txn_get D t d k =
      (if key_ok k then (case W t d k of None \<Rightarrow> Err NotFound | Some v \<Rightarrow> Ok v) else Err BadValSize)"
    using assms unfolding lmdb_laws_def by (elim conjE) metis
  then show ?thesis by (simp add: read_bytes_def split: option.split)
qed

lemma with_ro_view:
  assumes "lmdb_laws D V W" "readable D e"
  obtains t where "begin_ro_txn D e = Ok t" "W t = V e"
proof -
  obtain t where "begin_ro_txn D e = Ok t" using assms(2) by (auto simp: readable_def)
  moreover from this have "W t = V e" by (rule lmdb_begin_ro [OF assms(1)])
  ultimately show ?thesis using that by simp
qed

lemma with_rw_Ok:
  assumes "lmdb_laws D V W" "with_rw D e f = (e', Ok u)"
  obtains t t' where "W t = V e" "f t = Ok t'" "V e' = W t'"
proof -
  obtain t t' where "begin_rw_txn D e = Ok t" "f t = Ok t'" "txn_commit D e t' = (e', Ok ())"
    using assms(2)
    by (auto simp: with_rw_def res_bind_Ok_iff map_err_Ok_iff split: sum.splits prod.splits)
  then show ?thesis
    using that lmdb_begin_rw [OF assms(1)] lmdb_commit [OF assms(1)] by blast
qed

lemma with_rw_Err:
  assumes "lmdb_laws D V W" "with_rw D e f = (e', Err x)"
  shows "V e' = V e"
  using assms(2) lmdb_commit_Err [OF assms(1)]
  by (auto simp: with_rw_def map_err_Err_iff split: sum.splits prod.splits)

lemma encode_decode: "codec_ok c \<Longrightarrow> encode c x = Ok bs \<Longrightarrow> decode c bs = Ok x"
  by (auto simp: encode_def decode_def map_err_Ok_iff codec_ok_def)

lemma put_bytes_view [txn_effects]:
  "lmdb_laws D V W \<Longrightarrow> put_bytes D d k bs t = Ok t' \<Longrightarrow> key_ok k \<and> W t' = (W t)(d := (W t d)(k \<mapsto> bs))"
  by (auto simp: put_bytes_def map_err_Ok_iff dest: lmdb_put)

lemma put_value_view [txn_effects]:
  assumes "lmdb_laws D V W" "put_value D c d k v t = Ok t'"
  obtains bs where "encode c v = Ok bs" "key_ok k" "W t' = (W t)(d := (W t d)(k \<mapsto> bs))"
  using assms put_bytes_view [OF assms(1)] by (auto simp: put_value_def res_bind_Ok_iff)

lemma clear_db_view:
  "lmdb_laws D V W \<Longrightarrow> clear_db D d t = Ok t' \<Longrightarrow> W t' = (W t)(d := Map.empty)"
  by (auto simp: clear_db_def map_err_Ok_iff dest: lmdb_clear)

section \<open>Keys\<close>

lemma key_ok_height [simp]: "key_ok (height_key h)"
  by (simp add: key_ok_def height_key_def)

lemma height_key_inject [simp]: "height_key a = height_key b \<longleftrightarrow> a = b"
  by (simp add: height_key_def inj_u64_to_be_bytes)

lemma meta_keys [simp]:
  "key_ok TIP_HEIGHT_KEY" "key_ok TIP_HASH_KEY" "key_ok STORAGE_VERSION_KEY" "key_ok GENESIS_ACCOUNTS_KEY"
  "TIP_HEIGHT_KEY \<noteq> TIP_HASH_KEY" "TIP_HASH_KEY \<noteq> TIP_HEIGHT_KEY"
  "STORAGE_VERSION_KEY \<noteq> TIP_HEIGHT_KEY" "STORAGE_VERSION_KEY \<noteq> TIP_HASH_KEY"
  by (simp_all add: key_ok_def TIP_HEIGHT_KEY_def TIP_HASH_KEY_def STORAGE_VERSION_KEY_def
      GENESIS_ACCOUNTS_KEY_def ascii_def)

section \<open>Loads as functions of the content\<close>

lemma load_block_by_height_view:
  assumes "lmdb_laws D V W" "readable D e"
  shows "load_block_by_height D C e h =
    try_map_option (\<lambda>bs. res_bind (decode (block_codec C) bs) (\<lambda>b.
      if block_height b \<noteq> h then Err (Integrity ''stored block height does not match height key'')
      else Ok b)) (V e BLOCKS_BY_HEIGHT (height_key h))"
  by (rule with_ro_view [OF assms])
    (simp add: with_ro_def load_block_by_height_def read_bytes_view [OF assms(1)])

lemma load_block_by_hash_view:
  assumes "lmdb_laws D V W" "readable D e"
  shows "load_block_by_hash K D C e h =
    (if key_ok h then try_map_option (\<lambda>bs. res_bind (decode (block_codec C) bs) (\<lambda>b.
      if block_hash K b \<noteq> h then Err (Integrity ''stored block hash does not match hash key'')
      else Ok b)) (V e BLOCKS_BY_HASH h) else Err (Database BadValSize))"
  by (rule with_ro_view [OF assms])
    (simp add: with_ro_def load_block_by_hash_def read_bytes_view [OF assms(1)])

lemma load_transaction_location_view:
  assumes "lmdb_laws D V W" "readable D e"
  shows "load_transaction_location D C e h =
    (if key_ok h then try_map_option (decode (location_codec C)) (V e TX_INDEX h) else Err (Database BadValSize))"
  by (rule with_ro_view [OF assms])
    (simp add: with_ro_def load_transaction_location_def read_value_def read_bytes_view [OF assms(1)])

lemma load_storage_version_view:
  assumes "lmdb_laws D V W" "readable D e"
  shows "load_storage_version D C e = try_map_option (decode (version_codec C)) (V e META STORAGE_VERSION_KEY)"
  by (rule with_ro_view [OF assms])
    (simp add: with_ro_def load_storage_version_def read_value_def read_bytes_view [OF assms(1)])

lemma load_tip_view:
  assumes "lmdb_laws D V W" "readable D e"
  shows "load_tip K D C e =
    (case (V e META TIP_HEIGHT_KEY, V e META TIP_HASH_KEY) of
       (Some hb, Some hs) \<Rightarrow> res_bind (decode (height_codec C) hb) (\<lambda>h.
          if length hs = HASH_SIZE K then Ok (Some (h, hs))
          else Err (invalid_data ''stored tip hash has invalid length''))
     | _ \<Rightarrow> Ok None)"
  by (rule with_ro_view [OF assms])
    (simp add: with_ro_def load_tip_def read_bytes_view [OF assms(1)] split: option.split)

lemma try_map_option_simps [simp]:
  "try_map_option f None = Ok None"
  "try_map_option f (Some x) = res_bind (f x) (\<lambda>y. Ok (Some y))"
  by (simp_all add: try_map_option_def)

section \<open>The transaction index\<close>

definition location_at :: "core \<Rightarrow> block \<Rightarrow> nat \<Rightarrow> transaction_location" where
  "location_at K b i = \<lparr>loc_block_height = block_height b, loc_block_hash = block_hash K b, loc_tx_index = of_nat i\<rparr>"

lemma index_transaction_view:
  assumes laws: "lmdb_laws D V W" and ok: "index_transaction K D C b (i, tx) t = Ok t'"
  obtains bs where "i < 2 ^ 32" "encode (location_codec C) (location_at K b i) = Ok bs" "key_ok (tx_hash K tx)"
    "W t' TX_INDEX = (W t TX_INDEX)(tx_hash K tx \<mapsto> bs)"
    "\<And>d. d \<noteq> TX_INDEX \<Longrightarrow> d \<noteq> ADDRESS_TX_INDEX \<Longrightarrow> W t' d = W t d"
proof -
  obtain t1 t2 s where i: "i < 2 ^ 32"
    and p1: "put_value D (location_codec C) TX_INDEX (tx_hash K tx) (location_at K b i) t = Ok t1"
    and p2: "put_value D (address_location_codec C) ADDRESS_TX_INDEX
      (address_tx_key (tx_from (payload tx)) (block_height b) (of_nat i) True) s t1 = Ok t2"
    and p3: "t' = t2 \<or> put_value D (address_location_codec C) ADDRESS_TX_INDEX
      (address_tx_key (tx_to (payload tx)) (block_height b) (of_nat i) False) (s\<lparr>aloc_sent := False\<rparr>) t2 = Ok t'"
    using ok
    by (auto simp: index_transaction_def Let_def res_bind_Ok_iff location_at_def not_le split: if_splits)
  obtain b1 where b1: "encode (location_codec C) (location_at K b i) = Ok b1" "key_ok (tx_hash K tx)"
    "W t1 = (W t)(TX_INDEX := (W t TX_INDEX)(tx_hash K tx \<mapsto> b1))"
    by (rule put_value_view [OF laws p1])
  obtain b2 k2 where b2: "W t2 = (W t1)(ADDRESS_TX_INDEX := (W t1 ADDRESS_TX_INDEX)(k2 \<mapsto> b2))"
    by (rule put_value_view [OF laws p2]) blast
  have b3: "W t' d = W t2 d" if "d \<noteq> ADDRESS_TX_INDEX" for d
    using p3 that by (auto elim!: put_value_view [OF laws])
  show ?thesis by (rule that [OF i b1(1,2)]) (simp_all add: b3 b2 b1)
qed

text \<open>
  Indexing the transactions of a block from position \<open>n\<close> on. Under each hash it leaves the location of the last transaction
  with that hash.
\<close>

lemma index_loop_view:
  assumes laws: "lmdb_laws D V W"
    and "try_fold (index_transaction K D C b) (enumerate n txs) t = Ok t'"
  shows "(\<forall>d. d \<noteq> TX_INDEX \<and> d \<noteq> ADDRESS_TX_INDEX \<longrightarrow> W t' d = W t d) \<and>
    (\<forall>k. k \<notin> tx_hash K ` set txs \<longrightarrow> W t' TX_INDEX k = W t TX_INDEX k) \<and>
    (txs \<noteq> [] \<longrightarrow> n + length txs \<le> 2 ^ 32) \<and> (\<forall>tx \<in> set txs. key_ok (tx_hash K tx)) \<and>
    (\<forall>k \<in> tx_hash K ` set txs. \<exists>j < length txs. tx_hash K (txs ! j) = k \<and> (\<forall>l < length txs. j < l \<longrightarrow> tx_hash K (txs ! l) \<noteq> k) \<and>
       (\<exists>bs. encode (location_codec C) (location_at K b (n + j)) = Ok bs \<and> W t' TX_INDEX k = Some bs))"
  using assms(2)
proof (induction txs arbitrary: n t)
  case (Cons tx txs)
  let ?last = "\<lambda>txs n k j. tx_hash K (txs ! j) = k \<and> (\<forall>l < length txs. j < l \<longrightarrow> tx_hash K (txs ! l) \<noteq> k) \<and>
     (\<exists>bs. encode (location_codec C) (location_at K b (n + j)) = Ok bs \<and> W t' TX_INDEX k = Some bs)"
  obtain t1 where t1: "index_transaction K D C b (n, tx) t = Ok t1"
    "try_fold (index_transaction K D C b) (enumerate (Suc n) txs) t1 = Ok t'"
    using Cons.prems by (auto simp: res_bind_Ok_iff)
  obtain bs where bs: "n < 2 ^ 32" "encode (location_codec C) (location_at K b n) = Ok bs" "key_ok (tx_hash K tx)"
    "W t1 TX_INDEX = (W t TX_INDEX)(tx_hash K tx \<mapsto> bs)"
    "\<And>d. d \<noteq> TX_INDEX \<Longrightarrow> d \<noteq> ADDRESS_TX_INDEX \<Longrightarrow> W t1 d = W t d"
    by (rule index_transaction_view [OF laws t1(1)]) blast
  note IH = Cons.IH [OF t1(2)]
  have "\<exists>j < length (tx # txs). ?last (tx # txs) n k j" if "k \<in> tx_hash K ` set (tx # txs)" for k
  proof (cases "k \<in> tx_hash K ` set txs")
    case True
    then obtain j where "j < length txs" "?last txs (Suc n) k j" using IH by blast
    then have "?last (tx # txs) n k (Suc j)" by (auto simp: nth_Cons split: nat.splits)
    then show ?thesis using \<open>j < length txs\<close> by (intro exI [of _ "Suc j"]) simp
  next
    case False
    then have "\<forall>l < length txs. tx_hash K (txs ! l) \<noteq> k" by (metis image_eqI nth_mem)
    moreover have "k = tx_hash K tx" using that False by simp
    ultimately have "?last (tx # txs) n k 0" using IH False bs(2,4) by (auto simp: nth_Cons split: nat.splits)
    then show ?thesis by blast
  qed
  then show ?case using IH bs by auto
qed simp

lemma put_block_view:
  assumes laws: "lmdb_laws D V W" and ok: "put_block K D C b bs t = Ok t'"
  shows "W t' BLOCKS_BY_HEIGHT = (W t BLOCKS_BY_HEIGHT)(height_key (block_height b) \<mapsto> bs)"
    and "W t' BLOCKS_BY_HASH = (W t BLOCKS_BY_HASH)(block_hash K b \<mapsto> bs)" and "key_ok (block_hash K b)"
    and "\<And>d. d \<notin> {BLOCKS_BY_HEIGHT, BLOCKS_BY_HASH, TX_INDEX, ADDRESS_TX_INDEX} \<Longrightarrow> W t' d = W t d"
    and "\<And>k. k \<notin> tx_hash K ` set (block_transactions b) \<Longrightarrow> W t' TX_INDEX k = W t TX_INDEX k"
    and "\<And>k. k \<in> tx_hash K ` set (block_transactions b) \<Longrightarrow> \<exists>j < length (block_transactions b). tx_hash K (block_transactions b ! j) = k \<and>
      (\<forall>l < length (block_transactions b). j < l \<longrightarrow> tx_hash K (block_transactions b ! l) \<noteq> k) \<and>
      (\<exists>ls. encode (location_codec C) (location_at K b j) = Ok ls \<and> key_ok k \<and> j < 2 ^ 32 \<and> W t' TX_INDEX k = Some ls)"
proof -
  obtain t1 t2 where p: "put_bytes D BLOCKS_BY_HEIGHT (height_key (block_height b)) bs t = Ok t1"
    "put_bytes D BLOCKS_BY_HASH (block_hash K b) bs t1 = Ok t2"
    "try_fold (index_transaction K D C b) (enumerate 0 (block_transactions b)) t2 = Ok t'"
    using ok by (auto simp: put_block_def index_block_transactions_def res_bind_Ok_iff)
  note v1 = put_bytes_view [OF laws p(1)] and v2 = put_bytes_view [OF laws p(2)]
    and v3 = index_loop_view [OF laws p(3)]
  show "W t' BLOCKS_BY_HEIGHT = (W t BLOCKS_BY_HEIGHT)(height_key (block_height b) \<mapsto> bs)"
    "W t' BLOCKS_BY_HASH = (W t BLOCKS_BY_HASH)(block_hash K b \<mapsto> bs)" "key_ok (block_hash K b)"
    "\<And>d. d \<notin> {BLOCKS_BY_HEIGHT, BLOCKS_BY_HASH, TX_INDEX, ADDRESS_TX_INDEX} \<Longrightarrow> W t' d = W t d"
    "\<And>k. k \<notin> tx_hash K ` set (block_transactions b) \<Longrightarrow> W t' TX_INDEX k = W t TX_INDEX k"
    using v1 v2 v3 by auto
  show "\<exists>j < length (block_transactions b). tx_hash K (block_transactions b ! j) = k \<and>
      (\<forall>l < length (block_transactions b). j < l \<longrightarrow> tx_hash K (block_transactions b ! l) \<noteq> k) \<and>
      (\<exists>ls. encode (location_codec C) (location_at K b j) = Ok ls \<and> key_ok k \<and> j < 2 ^ 32 \<and> W t' TX_INDEX k = Some ls)"
    if k: "k \<in> tx_hash K ` set (block_transactions b)" for k
  proof -
    obtain j where "j < length (block_transactions b)" "tx_hash K (block_transactions b ! j) = k"
      "\<forall>l < length (block_transactions b). j < l \<longrightarrow> tx_hash K (block_transactions b ! l) \<noteq> k"
      "\<exists>bs. encode (location_codec C) (location_at K b j) = Ok bs \<and> W t' TX_INDEX k = Some bs" using v3 k by auto
    moreover have "j < 2 ^ 32" "key_ok k" using v3 k calculation(1) by auto
    ultimately show ?thesis by blast
  qed
qed

end
