(* ===== verification/Storage_Ledger.thy ===== *)
theory Storage_Ledger
  imports Storage_Laws
begin

text \<open>
  Whole ledgers in the store: what \<open>save_ledger\<close> leaves in every database, what
  \<open>validate_chain_integrity\<close> decides, and what \<open>load_ledger\<close> rebuilds.
\<close>

section \<open>Writing a ledger\<close>

lemma clear_dbs_view:
  assumes "lmdb_laws D V W" "try_fold (clear_db D) ds t = Ok t'"
  shows "W t' d = (if d \<in> set ds then Map.empty else W t d)"
  using assms(2)
proof (induction ds arbitrary: t)
  case (Cons x ds)
  then show ?case using clear_db_view [OF assms(1)] by (auto simp: res_bind_Ok_iff)
qed simp

lemma put_accounts_view:
  assumes "lmdb_laws D V W"
    and "try_fold (\<lambda>a. put_value D c ACCOUNTS (acc_address a) a) as t = Ok t'"
  shows "(\<forall>d. d \<noteq> ACCOUNTS \<longrightarrow> W t' d = W t d) \<and>
    (\<forall>k. k \<notin> acc_address ` set as \<longrightarrow> W t' ACCOUNTS k = W t ACCOUNTS k) \<and>
    (distinct (map acc_address as) \<longrightarrow>
       (\<forall>a \<in> set as. \<exists>bs. encode c a = Ok bs \<and> W t' ACCOUNTS (acc_address a) = Some bs))"
  using assms(2)
proof (induction as arbitrary: t)
  case (Cons a as)
  then obtain t1 where t1: "put_value D c ACCOUNTS (acc_address a) a t = Ok t1"
    "try_fold (\<lambda>a. put_value D c ACCOUNTS (acc_address a) a) as t1 = Ok t'"
    by (auto simp: res_bind_Ok_iff)
  obtain bs where "encode c a = Ok bs" "W t1 = (W t)(ACCOUNTS := (W t ACCOUNTS)(acc_address a \<mapsto> bs))"
    by (rule put_value_view [OF assms(1) t1(1)])
  then show ?case using Cons.IH [OF t1(2)] by auto
qed simp

lemma put_blocks_view:
  assumes "lmdb_laws D V W"
    and "try_fold (\<lambda>b t. res_bind (encode (block_codec C) b) (\<lambda>bs. put_block K D C b bs t)) bl t = Ok t'"
  shows "(\<forall>d. d \<notin> {BLOCKS_BY_HEIGHT, BLOCKS_BY_HASH, TX_INDEX, ADDRESS_TX_INDEX} \<longrightarrow> W t' d = W t d) \<and>
    (\<forall>k. k \<notin> (\<lambda>b. height_key (block_height b)) ` set bl \<longrightarrow> W t' BLOCKS_BY_HEIGHT k = W t BLOCKS_BY_HEIGHT k) \<and>
    (distinct (map block_height bl) \<longrightarrow>
       (\<forall>b \<in> set bl. \<exists>bs. encode (block_codec C) b = Ok bs \<and>
          W t' BLOCKS_BY_HEIGHT (height_key (block_height b)) = Some bs))"
  using assms(2)
proof (induction bl arbitrary: t)
  case (Cons b bl)
  then obtain bs t1 where t1: "encode (block_codec C) b = Ok bs" "put_block K D C b bs t = Ok t1"
    "try_fold (\<lambda>b t. res_bind (encode (block_codec C) b) (\<lambda>bs. put_block K D C b bs t)) bl t1 = Ok t'"
    by (auto simp: res_bind_Ok_iff)
  note v = put_block_view(1,4) [OF assms(1) t1(2)]
  note IH = Cons.IH [OF t1(3)]
  have "W t' BLOCKS_BY_HEIGHT (height_key (block_height b)) = Some bs"
    if "block_height b \<notin> block_height ` set bl"
  proof -
    have "height_key (block_height b) \<notin> (\<lambda>b. height_key (block_height b)) ` set bl" using that by auto
    then show ?thesis using IH v(1) by simp
  qed
  then show ?case using IH v t1(1) by auto
qed simp

lemma put_tip_view:
  assumes "lmdb_laws D V W" "put_tip D C h bh t = Ok t'"
  obtains hb where "encode (height_codec C) h = Ok hb"
    "W t' META = (W t META)(TIP_HEIGHT_KEY \<mapsto> hb, TIP_HASH_KEY \<mapsto> bh)" "\<And>d. d \<noteq> META \<Longrightarrow> W t' d = W t d"
proof -
  obtain t1 where p: "put_value D (height_codec C) META TIP_HEIGHT_KEY h t = Ok t1"
    "put_bytes D META TIP_HASH_KEY bh t1 = Ok t'"
    using assms(2) by (auto simp: put_tip_def res_bind_Ok_iff)
  obtain hb where "encode (height_codec C) h = Ok hb"
    "W t1 = (W t)(META := (W t META)(TIP_HEIGHT_KEY \<mapsto> hb))"
    by (rule put_value_view [OF assms(1) p(1)])
  then show ?thesis using that put_bytes_view [OF assms(1) p(2)] by auto
qed

lemma put_tip_state_view:
  assumes "lmdb_laws D V W" "put_tip_state K D C L t = Ok t'"
    and "ledger_tip_height K L = Some h" "ledger_tip_hash K L = Some bh"
  obtains hb where "encode (height_codec C) h = Ok hb"
    "W t' META = (W t META)(TIP_HEIGHT_KEY \<mapsto> hb, TIP_HASH_KEY \<mapsto> bh)"
    "\<And>d. d \<notin> {META, STATE_SNAPSHOTS, GENESIS_ACCOUNTS} \<Longrightarrow> W t' d = W t d"
proof -
  obtain t1 t2 where p: "put_tip D C h bh t = Ok t1"
    "t2 = t1 \<or> put_value D (snapshot_codec C) STATE_SNAPSHOTS (height_key h) (snapshot_of K L h bh) t1 = Ok t2"
    "t' = t2 \<or> put_value D (accounts_codec C) GENESIS_ACCOUNTS GENESIS_ACCOUNTS_KEY (ledger_accounts L) t2 = Ok t'"
    using assms(2) by (auto simp: put_tip_state_def assms(3,4) res_bind_Ok_iff split: if_splits)
  obtain hb where hb: "encode (height_codec C) h = Ok hb"
    "W t1 META = (W t META)(TIP_HEIGHT_KEY \<mapsto> hb, TIP_HASH_KEY \<mapsto> bh)" "\<And>d. d \<noteq> META \<Longrightarrow> W t1 d = W t d"
    using put_tip_view [OF assms(1) p(1)] by metis
  have "W t2 d = W t1 d" if "d \<noteq> STATE_SNAPSHOTS" for d
    using p(2) that by (auto elim!: put_value_view [OF assms(1)])
  moreover have "W t' d = W t2 d" if "d \<noteq> GENESIS_ACCOUNTS" for d
    using p(3) that by (auto elim!: put_value_view [OF assms(1)])
  ultimately show ?thesis using that [of hb] hb by simp
qed

section \<open>Emptiness\<close>

lemma all_empty_view:
  assumes "lmdb_laws D V W"
  shows "all_empty D t ds = Ok (\<forall>d \<in> set ds. W t d = Map.empty)"
proof (induction ds)
  case (Cons d ds)
  obtain es where "txn_iter D t d = Ok es" "map_of es = W t d"
    using lmdb_iter [OF assms] by blast
  moreover from this have "es = [] \<longleftrightarrow> W t d = Map.empty" by (metis map_of_eq_empty_iff)
  ultimately show ?case using Cons by (simp add: is_db_empty_def)
qed simp

lemma is_empty_database_view:
  assumes "lmdb_laws D V W" "readable D e"
  shows "is_empty_database D e = Ok (\<forall>d. d \<noteq> META \<longrightarrow> V e d = Map.empty)"
proof -
  have "(\<forall>d \<in> set [BLOCKS_BY_HEIGHT, BLOCKS_BY_HASH, ACCOUNTS, GENESIS_ACCOUNTS, STATE_SNAPSHOTS, TX_INDEX,
      ADDRESS_TX_INDEX]. P d) \<longleftrightarrow> (\<forall>d. d \<noteq> META \<longrightarrow> P d)" for P
    by (auto, metis db.exhaust)
  then show ?thesis
    by (rule_tac with_ro_view [OF assms])
      (simp only: is_empty_database_def with_ro_def map_err_simps res_bind_simps all_empty_view [OF assms(1)])
qed

section \<open>Ledgers that can be stored\<close>

text \<open>
  The shape of an active chain: the blocks of heights 0 to the tip, each under its height, linked
  by their parent hashes down to a genesis block without parent.
\<close>

definition chain_linked :: "core \<Rightarrow> (nat \<Rightarrow> block) \<Rightarrow> nat \<Rightarrow> bool" where
  "chain_linked K f n \<longleftrightarrow> previous_hash (f 0) = zero_hash K \<and> (\<forall>i < n. previous_hash (f (Suc i)) = block_hash K (f i))"

definition ledger_wf :: "core \<Rightarrow> ledger \<Rightarrow> bool" where
  "ledger_wf K L \<longleftrightarrow>
     bt_wf (ledger_accounts L) \<and> (\<forall>(a, acc) \<in> set (ledger_accounts L). acc_address acc = a) \<and>
     (\<exists>f n. n < 2 ^ 64 \<and> chain_blocks (ledger_chain L) = map (\<lambda>i. (of_nat i, f i)) [0..<Suc n] \<and>
        (\<forall>i \<le> n. block_height (f i) = of_nat i) \<and> chain_linked K f n \<and>
        length (block_hash K (f n)) = HASH_SIZE K)"

text \<open>The chain was built by inserting its blocks in order, starting from a new ledger's chain.\<close>

definition rebuilds :: "core \<Rightarrow> ledger \<Rightarrow> bool" where
  "rebuilds K L \<longleftrightarrow>
     try_fold (\<lambda>b c. chain_insert_block K c b) (bt_values (chain_blocks (ledger_chain L)))
       (ledger_chain (ledger_new K)) = Ok (ledger_chain L)"

lemma of_nat_u64_inj: "i \<le> n \<Longrightarrow> j \<le> n \<Longrightarrow> n < 2 ^ 64 \<Longrightarrow> (of_nat i :: u64) = of_nat j \<longleftrightarrow> i = j"
  by (simp add: word_unat_eq_iff unat_of_nat)

section \<open>Validation of the stored chain\<close>

definition stored :: "('e, 't) lmdb \<Rightarrow> codecs \<Rightarrow> 'e \<Rightarrow> (nat \<Rightarrow> block) \<Rightarrow> nat \<Rightarrow> bool" where
  "stored D C e f n \<longleftrightarrow> (\<forall>i \<le> n. load_block_by_height D C e (of_nat i) = Ok (Some (f i)))"

lemma check_link_0: "(\<exists>y. check_link K D C e 0 x = Ok y) \<longleftrightarrow>
    (\<exists>b. load_block_by_height D C e 0 = Ok (Some b) \<and> block_hash K b = x \<and> previous_hash b = zero_hash K)"
  by (auto simp: check_link_def res_bind_Ok_iff ok_or_Ok_iff)

lemma check_link_Suc: "check_link K D C e (Suc n) x = Ok y \<longleftrightarrow>
    (\<exists>b p. load_block_by_height D C e (of_nat (Suc n)) = Ok (Some b) \<and>
      load_block_by_height D C e (of_nat n) = Ok (Some p) \<and>
      block_hash K b = x \<and> previous_hash b = block_hash K p \<and> y = block_hash K p)"
  by (auto simp: check_link_def res_bind_Ok_iff ok_or_Ok_iff)

lemma check_links:
  "(\<exists>y. try_fold (check_link K D C e) (rev [0..<Suc n]) x = Ok y) \<longleftrightarrow>
   (\<exists>f. stored D C e f n \<and> block_hash K (f n) = x \<and> chain_linked K f n)"
proof (induction n arbitrary: x)
  case 0
  have "(\<exists>y. try_fold (check_link K D C e) (rev [0..<Suc 0]) x = Ok y) \<longleftrightarrow> (\<exists>y. check_link K D C e 0 x = Ok y)"
    by (auto simp: res_bind_Ok_iff)
  also have "\<dots> \<longleftrightarrow> (\<exists>f. stored D C e f 0 \<and> block_hash K (f 0) = x \<and> chain_linked K f 0)"
    unfolding check_link_0 by (auto simp: stored_def chain_linked_def intro: exI [of _ "\<lambda>_. b" for b])
  finally show ?case .
next
  case (Suc n)
  have step: "(\<exists>y. try_fold (check_link K D C e) (rev [0..<Suc (Suc n)]) x = Ok y) \<longleftrightarrow>
      (\<exists>z. check_link K D C e (Suc n) x = Ok z \<and> (\<exists>y. try_fold (check_link K D C e) (rev [0..<Suc n]) z = Ok y))"
    by (auto simp: res_bind_Ok_iff simp del: upt_Suc) (auto simp: res_bind_Ok_iff)
  show ?case (is "_ \<longleftrightarrow> ?R")
    unfolding step Suc.IH check_link_Suc
  proof
    assume "\<exists>z. (\<exists>b p. load_block_by_height D C e (of_nat (Suc n)) = Ok (Some b) \<and>
        load_block_by_height D C e (of_nat n) = Ok (Some p) \<and>
        block_hash K b = x \<and> previous_hash b = block_hash K p \<and> z = block_hash K p) \<and>
      (\<exists>f. stored D C e f n \<and> block_hash K (f n) = z \<and> chain_linked K f n)"
    then obtain b p f where *: "load_block_by_height D C e (of_nat (Suc n)) = Ok (Some b)"
      "block_hash K b = x" "previous_hash b = block_hash K (f n)" "stored D C e f n" "chain_linked K f n" by metis
    define g where "g = f(Suc n := b)"
    have "stored D C e g (Suc n)" "chain_linked K g (Suc n)" "block_hash K (g (Suc n)) = x"
      using * by (auto simp: g_def stored_def chain_linked_def le_Suc_eq less_Suc_eq)
    then show ?R by blast
  next
    assume ?R
    then obtain f where f: "stored D C e f (Suc n)" "block_hash K (f (Suc n)) = x" "chain_linked K f (Suc n)" by blast
    have "load_block_by_height D C e (of_nat (Suc n)) = Ok (Some (f (Suc n)))"
      "load_block_by_height D C e (of_nat n) = Ok (Some (f n))"
      using f(1) [unfolded stored_def, rule_format, of "Suc n"] f(1) [unfolded stored_def, rule_format, of n] by simp_all
    moreover have "stored D C e f n" "chain_linked K f n" "previous_hash (f (Suc n)) = block_hash K (f n)"
      using f(1,3) by (simp_all add: stored_def chain_linked_def)
    ultimately show "\<exists>z. (\<exists>b p. load_block_by_height D C e (of_nat (Suc n)) = Ok (Some b) \<and>
        load_block_by_height D C e (of_nat n) = Ok (Some p) \<and>
        block_hash K b = x \<and> previous_hash b = block_hash K p \<and> z = block_hash K p) \<and>
      (\<exists>f. stored D C e f n \<and> block_hash K (f n) = z \<and> chain_linked K f n)"
      using f(2) by blast
  qed
qed

lemma validate_Ok_iff:
  "validate_chain_integrity K D C e = Ok () \<longleftrightarrow>
     load_tip K D C e = Ok None \<or>
     (\<exists>h bh f. load_tip K D C e = Ok (Some (h, bh)) \<and> stored D C e f (unat h) \<and>
        block_hash K (f (unat h)) = bh \<and> chain_linked K f (unat h))" (is "?L \<longleftrightarrow> ?R")
proof -
  have tip: "load_block_by_height D C e h = Ok (Some (f (unat h)))" if "stored D C e f (unat h)" for h f
    using that [unfolded stored_def, rule_format, of "unat h"] by simp
  show ?thesis
  proof (cases "load_tip K D C e")
    case (Inl x)
    then show ?thesis by (simp add: validate_chain_integrity_def)
  next
    case (Inr tip)
    show ?thesis
    proof (cases tip)
      case None
      then show ?thesis using Inr by (simp add: validate_chain_integrity_def)
    next
      case (Some p)
      obtain h bh where p: "load_tip K D C e = Ok (Some (h, bh))" using Inr Some by (cases p) simp
      have "?L \<longleftrightarrow> (\<exists>b. load_block_by_height D C e h = Ok (Some b) \<and> block_hash K b = bh \<and>
          (\<exists>y. try_fold (check_link K D C e) (rev [0..<Suc (unat h)]) bh = Ok y))"
        by (auto simp: validate_chain_integrity_def p res_bind_Ok_iff ok_or_Ok_iff simp del: upt_Suc)
      also have "\<dots> \<longleftrightarrow> (\<exists>f. stored D C e f (unat h) \<and> block_hash K (f (unat h)) = bh \<and> chain_linked K f (unat h))"
        unfolding check_links using tip by blast
      finally show ?thesis using p by simp
    qed
  qed
qed

section \<open>Loading what was saved\<close>

lemma load_accounts_loop:
  assumes "\<And>k bs. (k, bs) \<in> set es \<Longrightarrow> decode c bs = Ok (g k) \<and> acc_address (g k) = k"
  shows "try_fold (\<lambda>(k, bs) m. res_bind (decode c bs) (\<lambda>a.
      if acc_address a \<noteq> k then Err x else Ok (bt_insert (acc_address a) a m))) es m =
    Ok (fold (\<lambda>k. bt_insert k (g k)) (map fst es) m)"
  using assms
proof (induction es arbitrary: m)
  case (Cons e es)
  have "decode c (snd e) = Ok (g (fst e))" "acc_address (g (fst e)) = fst e"
    using Cons.prems [of "fst e" "snd e"] by simp_all
  moreover have "try_fold (\<lambda>(k, bs) m. res_bind (decode c bs) (\<lambda>a.
      if acc_address a \<noteq> k then Err x else Ok (bt_insert (acc_address a) a m))) es m =
    Ok (fold (\<lambda>k. bt_insert k (g k)) (map fst es) m)" for m
    by (rule Cons.IH, rule Cons.prems) simp
  ultimately show ?case by (cases e) simp
qed simp

lemma fold_bt_insert:
  "bt_wf m \<Longrightarrow> bt_wf (fold (\<lambda>k. bt_insert k (g k)) ks m) \<and>
   bt_get (fold (\<lambda>k. bt_insert k (g k)) ks m) x = (if x \<in> set ks then Some (g x) else bt_get m x)"
  by (induction ks arbitrary: m) auto

lemma load_accounts_view:
  assumes laws: "lmdb_laws D V W" "readable D e" and c: "codec_ok (account_codec C)"
    and wf: "bt_wf accs" "\<And>k a. bt_get accs k = Some a \<Longrightarrow> acc_address a = k"
    and none: "\<And>k. bt_get accs k = None \<Longrightarrow> V e ACCOUNTS k = None"
    and some: "\<And>k a. bt_get accs k = Some a \<Longrightarrow>
      \<exists>bs. encode (account_codec C) a = Ok bs \<and> V e ACCOUNTS k = Some bs"
  shows "load_accounts D C e [] = Ok accs"
proof -
  obtain t where t: "begin_ro_txn D e = Ok t" "W t = V e" by (rule with_ro_view [OF laws])
  obtain es where es: "txn_iter D t ACCOUNTS = Ok es" "bt_wf es" "map_of es = V e ACCOUNTS"
    using lmdb_iter [OF laws(1), of t ACCOUNTS] t(2) by auto
  define g where "g k = the (bt_get accs k)" for k
  have dec: "decode (account_codec C) bs = Ok (g k) \<and> acc_address (g k) = k" if "(k, bs) \<in> set es" for k bs
  proof -
    have v: "V e ACCOUNTS k = Some bs" using that es(2,3) by (metis bt_get_iff_mem)
    then obtain a where a: "bt_get accs k = Some a" using none by fastforce
    then show ?thesis using some [OF a] v encode_decode [OF c] wf(2) [OF a] by (auto simp: g_def)
  qed
  have keys: "k \<in> set (map fst es) \<longleftrightarrow> bt_get accs k \<noteq> None" for k
  proof -
    have "k \<in> set (map fst es) \<longleftrightarrow> V e ACCOUNTS k \<noteq> None"
      using es(3) map_of_eq_None_iff [of es k] by auto
    also have "\<dots> \<longleftrightarrow> bt_get accs k \<noteq> None" using none some by fastforce
    finally show ?thesis .
  qed
  have "load_accounts D C e [] = Ok (fold (\<lambda>k. bt_insert k (g k)) (map fst es) [])"
    using load_accounts_loop [OF dec] by (simp add: load_accounts_def with_ro_def t(1) es(1))
  also have "fold (\<lambda>k. bt_insert k (g k)) (map fst es) [] = accs"
  proof (rule bt_ext)
    show "bt_get (fold (\<lambda>k. bt_insert k (g k)) (map fst es) []) = bt_get accs"
    proof
      fix k
      show "bt_get (fold (\<lambda>k. bt_insert k (g k)) (map fst es) []) k = bt_get accs k"
        using fold_bt_insert [of "[]" g "map fst es" k] keys [of k] by (auto simp: g_def)
    qed
  qed (use wf(1) fold_bt_insert [of "[]" g "map fst es"] in simp_all)
  finally show ?thesis .
qed

lemma load_chain_stored:
  assumes "stored D C e f n" "n < 2 ^ 64"
    and "try_fold (\<lambda>b c. chain_insert_block K c b) (map f [0..<Suc n]) c = Ok c'"
  shows "load_chain K D C e (of_nat n) c = Ok c'"
proof -
  let ?step = "\<lambda>height c. res_bind (res_bind (load_block_by_height D C e (of_nat height)) (\<lambda>ob.
      ok_or ob (Integrity ''stored chain block is missing''))) (\<lambda>b.
      map_err (\<lambda>_. Integrity ''stored chain block is invalid'') (chain_insert_block K c b))"
  have "try_fold ?step hs c = Ok c'"
    if "\<forall>h \<in> set hs. load_block_by_height D C e (of_nat h) = Ok (Some (f h))"
      "try_fold (\<lambda>b c. chain_insert_block K c b) (map f hs) c = Ok c'" for hs c
    using that
  proof (induction hs arbitrary: c)
    case (Cons h hs)
    then obtain c1 where "chain_insert_block K c (f h) = Ok c1"
      "try_fold (\<lambda>b c. chain_insert_block K c b) (map f hs) c1 = Ok c'"
      by (auto simp: res_bind_Ok_iff)
    then show ?case using Cons by simp
  qed simp
  from this [of "[0..<Suc n]"] show ?thesis
    using assms by (auto simp: load_chain_def stored_def unat_of_nat simp del: upt_Suc)
qed

text \<open>The content of the environment after a ledger was saved.\<close>

lemma put_ledger_view:
  assumes laws: "lmdb_laws D V W" and ok: "put_ledger K D C L t = Ok t'"
    and tip: "ledger_tip_height K L = Some h" "ledger_tip_hash K L = Some bh"
    and accs: "bt_wf (ledger_accounts L)" "\<forall>(a, acc) \<in> set (ledger_accounts L). acc_address acc = a"
    and blocks: "distinct (map block_height (bt_values (chain_blocks (ledger_chain L))))"
  obtains hb where "encode (height_codec C) h = Ok hb"
    "W t' META = (W t META)(TIP_HEIGHT_KEY \<mapsto> hb, TIP_HASH_KEY \<mapsto> bh)"
    "\<And>k. bt_get (ledger_accounts L) k = None \<Longrightarrow> W t' ACCOUNTS k = None"
    "\<And>k a. bt_get (ledger_accounts L) k = Some a \<Longrightarrow> \<exists>bs. encode (account_codec C) a = Ok bs \<and> W t' ACCOUNTS k = Some bs"
    "\<And>b. b \<in> set (bt_values (chain_blocks (ledger_chain L))) \<Longrightarrow> \<exists>bs. encode (block_codec C) b = Ok bs \<and>
       W t' BLOCKS_BY_HEIGHT (height_key (block_height b)) = Some bs"
proof -
  obtain t1 t2 t3 where p:
    "try_fold (clear_db D) [BLOCKS_BY_HEIGHT, ACCOUNTS, STATE_SNAPSHOTS, TX_INDEX, ADDRESS_TX_INDEX] t = Ok t1"
    "try_fold (\<lambda>a. put_value D (account_codec C) ACCOUNTS (acc_address a) a) (bt_values (ledger_accounts L)) t1 = Ok t2"
    "try_fold (\<lambda>b t. res_bind (encode (block_codec C) b) (\<lambda>bs. put_block K D C b bs t))
       (bt_values (chain_blocks (ledger_chain L))) t2 = Ok t3"
    "put_tip_state K D C L t3 = Ok t'"
    using ok unfolding put_ledger_def by (auto simp only: res_bind_Ok_iff)
  have v1: "W t1 d = (if d \<in> {BLOCKS_BY_HEIGHT, ACCOUNTS, STATE_SNAPSHOTS, TX_INDEX, ADDRESS_TX_INDEX} then Map.empty else W t d)" for d
    using clear_dbs_view [OF laws p(1), of d] by simp
  note v2 = put_accounts_view [OF laws p(2)] and v3 = put_blocks_view [OF laws p(3)]
  obtain hb where hb: "encode (height_codec C) h = Ok hb"
    "W t' META = (W t3 META)(TIP_HEIGHT_KEY \<mapsto> hb, TIP_HASH_KEY \<mapsto> bh)"
    "\<And>d. d \<notin> {META, STATE_SNAPSHOTS, GENESIS_ACCOUNTS} \<Longrightarrow> W t' d = W t3 d"
    using put_tip_state_view [OF laws p(4) tip] by metis
  have meta: "W t3 META = W t META" using v1 [of META] v2 v3 by simp
  have acct: "W t' ACCOUNTS = W t2 ACCOUNTS" using hb(3) [of ACCOUNTS] v3 by simp
  have addr: "acc_address a = k \<and> a \<in> set (bt_values (ledger_accounts L))" if "bt_get (ledger_accounts L) k = Some a" for k a
    using that accs(2) by (force dest: map_of_SomeD)
  have dist: "distinct (map acc_address (bt_values (ledger_accounts L)))"
  proof -
    have "map acc_address (bt_values (ledger_accounts L)) = bt_keys (ledger_accounts L)"
      using accs(2) by (intro nth_equalityI) (auto simp: case_prod_beta)
    then show ?thesis using bt_wf_distinct [OF accs(1)] by (simp only:)
  qed
  show ?thesis
  proof (rule that [OF hb(1)])
    show "W t' META = (W t META)(TIP_HEIGHT_KEY \<mapsto> hb, TIP_HASH_KEY \<mapsto> bh)" using hb(2) meta by simp
    show "W t' ACCOUNTS k = None" if "bt_get (ledger_accounts L) k = None" for k
    proof -
      have "k \<notin> acc_address ` set (bt_values (ledger_accounts L))"
      proof
        assume "k \<in> acc_address ` set (bt_values (ledger_accounts L))"
        then obtain x a where "(x, a) \<in> set (ledger_accounts L)" "acc_address a = k" by auto
        moreover from this have "x = k" using accs(2) by auto
        ultimately have "bt_get (ledger_accounts L) k = Some a" using accs(1) by (simp add: bt_get_iff_mem)
        with that show False by simp
      qed
      then show ?thesis using v2 v1 [of ACCOUNTS] acct by simp
    qed
    show "\<exists>bs. encode (account_codec C) a = Ok bs \<and> W t' ACCOUNTS k = Some bs"
      if "bt_get (ledger_accounts L) k = Some a" for k a
      using addr [OF that] v2 dist acct by metis
    show "\<exists>bs. encode (block_codec C) b = Ok bs \<and> W t' BLOCKS_BY_HEIGHT (height_key (block_height b)) = Some bs"
      if "b \<in> set (bt_values (chain_blocks (ledger_chain L)))" for b
      using that v3 blocks hb(3) [of BLOCKS_BY_HEIGHT] by auto
  qed
qed

lemma ledger_tip:
  assumes "ledger_laws K" "chain_blocks (ledger_chain L) = map (\<lambda>i. (of_nat i, f i)) [0..<Suc n]"
  shows "ledger_tip_height K L = Some (of_nat n) \<and> ledger_tip_hash K L = Some (block_hash K (f n))"
  using assms by (simp add: ledger_laws_def)

text \<open>
  The content of a store that holds a ledger: the recorded tip, the accounts and the blocks by height. The other
  databases do not matter for reading the ledger back.
\<close>

definition holds_ledger :: "core \<Rightarrow> codecs \<Rightarrow> dbs \<Rightarrow> ledger \<Rightarrow> bool" where
  "holds_ledger K C v L \<longleftrightarrow>
     (\<exists>h bh hb. ledger_tip_height K L = Some h \<and> ledger_tip_hash K L = Some bh \<and> encode (height_codec C) h = Ok hb \<and>
        v META TIP_HEIGHT_KEY = Some hb \<and> v META TIP_HASH_KEY = Some bh) \<and>
     (\<forall>k. bt_get (ledger_accounts L) k = None \<longrightarrow> v ACCOUNTS k = None) \<and>
     (\<forall>k a. bt_get (ledger_accounts L) k = Some a \<longrightarrow> (\<exists>bs. encode (account_codec C) a = Ok bs \<and> v ACCOUNTS k = Some bs)) \<and>
     (\<forall>b \<in> set (bt_values (chain_blocks (ledger_chain L))). \<exists>bs. encode (block_codec C) b = Ok bs \<and>
        v BLOCKS_BY_HEIGHT (height_key (block_height b)) = Some bs)"

lemma holds_ledgerD:
  assumes "holds_ledger K C v L"
  shows "bt_get (ledger_accounts L) k = None \<Longrightarrow> v ACCOUNTS k = None"
    "bt_get (ledger_accounts L) k = Some a \<Longrightarrow> \<exists>bs. encode (account_codec C) a = Ok bs \<and> v ACCOUNTS k = Some bs"
    "b \<in> set (bt_values (chain_blocks (ledger_chain L))) \<Longrightarrow>
     \<exists>bs. encode (block_codec C) b = Ok bs \<and> v BLOCKS_BY_HEIGHT (height_key (block_height b)) = Some bs"
  using assms unfolding holds_ledger_def by blast+

lemma holds_ledger_cong:
  "holds_ledger K C v L \<Longrightarrow> v' META = v META \<Longrightarrow> v' ACCOUNTS = v ACCOUNTS \<Longrightarrow> v' BLOCKS_BY_HEIGHT = v BLOCKS_BY_HEIGHT \<Longrightarrow>
   holds_ledger K C v' L"
  by (simp add: holds_ledger_def)

lemma ledger_wf_heights:
  assumes "ledger_wf K L"
  shows "distinct (map block_height (bt_values (chain_blocks (ledger_chain L))))"
proof -
  obtain f n where n: "n < 2 ^ 64" and blocks: "chain_blocks (ledger_chain L) = map (\<lambda>i. (of_nat i, f i)) [0..<Suc n]"
    and hts: "\<forall>i \<le> n. block_height (f i) = of_nat i" using assms unfolding ledger_wf_def by blast
  have "map block_height (map f [0..<Suc n]) = map of_nat [0..<Suc n]"
    using hts by (auto simp del: upt_Suc)
  moreover have "inj_on (of_nat :: nat \<Rightarrow> u64) (set [0..<Suc n])"
    using n by (auto simp: inj_on_def of_nat_u64_inj less_Suc_eq_le simp del: upt_Suc)
  moreover have "bt_values (chain_blocks (ledger_chain L)) = map f [0..<Suc n]" using blocks by (simp add: comp_def)
  ultimately show ?thesis by (simp only: distinct_map distinct_upt)
qed

lemma put_ledger_holds:
  assumes laws: "lmdb_laws D V W" and ll: "ledger_laws K" and wf: "ledger_wf K L" and put: "put_ledger K D C L t = Ok t'"
  shows "holds_ledger K C (W t') L" "W t' META STORAGE_VERSION_KEY = W t META STORAGE_VERSION_KEY"
proof -
  obtain f n where blocks: "chain_blocks (ledger_chain L) = map (\<lambda>i. (of_nat i, f i)) [0..<Suc n]"
    and accs: "bt_wf (ledger_accounts L)" "\<forall>(a, acc) \<in> set (ledger_accounts L). acc_address acc = a"
    using wf unfolding ledger_wf_def by blast
  have tip: "ledger_tip_height K L = Some (of_nat n)" "ledger_tip_hash K L = Some (block_hash K (f n))"
    using ledger_tip [OF ll blocks] by blast+
  obtain hb where v: "encode (height_codec C) (of_nat n) = Ok hb"
    "W t' META = (W t META)(TIP_HEIGHT_KEY \<mapsto> hb, TIP_HASH_KEY \<mapsto> block_hash K (f n))"
    "\<And>k. bt_get (ledger_accounts L) k = None \<Longrightarrow> W t' ACCOUNTS k = None"
    "\<And>k a. bt_get (ledger_accounts L) k = Some a \<Longrightarrow> \<exists>bs. encode (account_codec C) a = Ok bs \<and> W t' ACCOUNTS k = Some bs"
    "\<And>b. b \<in> set (bt_values (chain_blocks (ledger_chain L))) \<Longrightarrow> \<exists>bs. encode (block_codec C) b = Ok bs \<and>
       W t' BLOCKS_BY_HEIGHT (height_key (block_height b)) = Some bs"
    using put_ledger_view [OF laws put tip accs ledger_wf_heights [OF wf]] by metis
  then show "holds_ledger K C (W t') L" unfolding holds_ledger_def using tip by auto
  show "W t' META STORAGE_VERSION_KEY = W t META STORAGE_VERSION_KEY" using v(2) by simp
qed

text \<open>Such a store gives the ledger's blocks, tip and accounts.\<close>

lemma holds_ledger_content:
  assumes laws: "lmdb_laws D V W" and codecs: "codecs_ok C" and ll: "ledger_laws K" and wf: "ledger_wf K L" and rd: "readable D e"
    and holds: "holds_ledger K C (V e) L"
  obtains f n where "n < 2 ^ 64" "bt_values (chain_blocks (ledger_chain L)) = map f [0..<Suc n]"
    "stored D C e f n" "chain_linked K f n" "load_tip K D C e = Ok (Some (of_nat n, block_hash K (f n)))"
    "load_accounts D C e [] = Ok (ledger_accounts L)"
proof -
  obtain f n where n: "n < 2 ^ 64" and blocks: "chain_blocks (ledger_chain L) = map (\<lambda>i. (of_nat i, f i)) [0..<Suc n]"
    and hts: "\<forall>i \<le> n. block_height (f i) = of_nat i" and linked: "chain_linked K f n"
    and len: "length (block_hash K (f n)) = HASH_SIZE K"
    and accs: "bt_wf (ledger_accounts L)" "\<forall>(a, acc) \<in> set (ledger_accounts L). acc_address acc = a"
    using wf unfolding ledger_wf_def by blast
  have vals: "bt_values (chain_blocks (ledger_chain L)) = map f [0..<Suc n]"
    using blocks by (simp add: comp_def)
  obtain hb where hb: "encode (height_codec C) (of_nat n) = Ok hb" "V e META TIP_HEIGHT_KEY = Some hb"
    "V e META TIP_HASH_KEY = Some (block_hash K (f n))"
    using holds ledger_tip [OF ll blocks] by (auto simp: holds_ledger_def)
  have c: "codec_ok (block_codec C)" "codec_ok (height_codec C)" "codec_ok (account_codec C)"
    using codecs by (simp_all add: codecs_ok_def)
  have "load_block_by_height D C e (of_nat i) = Ok (Some (f i))" if i: "i \<le> n" for i
  proof -
    obtain bs where "encode (block_codec C) (f i) = Ok bs" "V e BLOCKS_BY_HEIGHT (height_key (of_nat i)) = Some bs"
      using holds_ledgerD(3) [OF holds, of "f i"] hts i by (auto simp: vals simp del: upt_Suc)
    then show ?thesis
      unfolding load_block_by_height_view [OF laws rd] using encode_decode [OF c(1)] hts i by simp
  qed
  then show ?thesis
  proof (intro that [OF n vals _ linked])
    show "load_tip K D C e = Ok (Some (of_nat n, block_hash K (f n)))"
      unfolding load_tip_view [OF laws rd] using hb encode_decode [OF c(2)] len by simp
    show "load_accounts D C e [] = Ok (ledger_accounts L)"
      by (rule load_accounts_view [OF laws rd c(3) accs(1) _ holds_ledgerD(1,2) [OF holds]])
        (use accs(2) in \<open>fastforce dest: map_of_SomeD\<close>)
  qed (simp_all add: stored_def)
qed

lemma save_ledgerE:
  assumes "lmdb_laws D V W" "save_ledger K D C e L = (e', Ok ())"
  obtains t t' where "W t = V e" "put_ledger K D C L t = Ok t'" "V e' = W t'"
proof -
  have "with_rw D e (put_ledger K D C L) = (e', Ok ())"
    using assms(2) by (auto simp: save_ledger_def then_env_def split: prod.splits sum.splits)
  from with_rw_Ok [OF assms(1) this] that show ?thesis by blast
qed

lemma saved_ledger_holds:
  assumes laws: "lmdb_laws D V W" and ll: "ledger_laws K" and wf: "ledger_wf K L" and saved: "save_ledger K D C e L = (e', Ok ())"
  shows "holds_ledger K C (V e') L" "V e' META STORAGE_VERSION_KEY = V e META STORAGE_VERSION_KEY"
proof -
  obtain t t' where "W t = V e" "put_ledger K D C L t = Ok t'" "V e' = W t'" by (rule save_ledgerE [OF laws saved])
  with put_ledger_holds [OF laws ll wf, of C t t']
  show "holds_ledger K C (V e') L" "V e' META STORAGE_VERSION_KEY = V e META STORAGE_VERSION_KEY" by simp_all
qed

lemma saved_ledger_content:
  assumes laws: "lmdb_laws D V W" and codecs: "codecs_ok C" and "ledger_laws K" "ledger_wf K L" "readable D e'"
    and saved: "save_ledger K D C e L = (e', Ok ())"
  obtains f n where "n < 2 ^ 64" "bt_values (chain_blocks (ledger_chain L)) = map f [0..<Suc n]"
    "stored D C e' f n" "chain_linked K f n" "load_tip K D C e' = Ok (Some (of_nat n, block_hash K (f n)))"
    "load_accounts D C e' [] = Ok (ledger_accounts L)"
    "V e' META STORAGE_VERSION_KEY = V e META STORAGE_VERSION_KEY"
proof -
  note saved = saved_ledger_holds [OF laws assms(3,4) saved]
  show ?thesis by (rule holds_ledger_content [OF laws codecs assms(3-5) saved(1)]) (use that saved(2) in blast)
qed

end
