(* ===== verification/Storage_Properties.thy ===== *)
theory Storage_Properties
  imports Storage_Ledger
begin

text \<open>
  The properties of the store: round trips of blocks, transactions, tips and whole ledgers, what
  chain validation decides, atomicity of the writing methods and the version gate. The witnesses
  use an in-memory engine (a transaction is a copy of the environment) and codecs given by a table
  of values.
\<close>

section \<open>A concrete engine\<close>

type_synonym 'd mem_envs = "'d \<Rightarrow> (bytes, bytes) btreemap"
type_synonym mem_env = "db mem_envs"

definition sorted_db :: "'d mem_envs \<Rightarrow> 'd \<Rightarrow> (bytes, bytes) btreemap" where
  "sorted_db e d = (if bt_wf (e d) then e d else [])"

definition mem_lmdb :: "('d, 'd mem_envs, 'd mem_envs) engine" where
  "mem_lmdb = \<lparr>
     create_dir_all = (\<lambda>_. Ok ()),
     open_env = (\<lambda>_. Ok (\<lambda>_. [])),
     create_db = (\<lambda>e _. (e, Ok ())),
     begin_ro_txn = (\<lambda>e. Ok e),
     begin_rw_txn = (\<lambda>e. Ok e),
     txn_get = (\<lambda>t d k. if key_ok k then (case map_of (sorted_db t d) k of
        None \<Rightarrow> Err NotFound | Some v \<Rightarrow> Ok v) else Err BadValSize),
     txn_put = (\<lambda>t d k v. if key_ok k then Ok (t(d := bt_insert k v (sorted_db t d))) else Err BadValSize),
     txn_clear_db = (\<lambda>t d. Ok (t(d := []))),
     txn_iter = (\<lambda>t d. Ok (sorted_db t d)),
     txn_commit = (\<lambda>e t. (t, Ok ())),
     env_sync = (\<lambda>_. Ok ())\<rparr>"

definition mem_view :: "'d mem_envs \<Rightarrow> 'd \<Rightarrow> bytes \<Rightarrow> bytes option" where
  "mem_view e d = map_of (sorted_db e d)"

lemma bt_wf_sorted_db: "bt_wf (sorted_db e d)"
  by (simp add: sorted_db_def)

lemma mem_view_update: "bt_wf m \<Longrightarrow> mem_view (e(d := m)) = (mem_view e)(d := map_of m)"
  by (auto simp: mem_view_def sorted_db_def fun_eq_iff)

lemma mem_lmdb_laws: "lmdb_laws mem_lmdb mem_view mem_view"
  unfolding lmdb_laws_def
  by (auto simp: mem_lmdb_def mem_view_update bt_wf_sorted_db mem_view_def)

lemma mem_readable [simp]: "readable mem_lmdb e"
  by (simp add: readable_def mem_lmdb_def)

text \<open>Values are encoded by their position in a table.\<close>

fun position :: "'a list \<Rightarrow> 'a \<Rightarrow> nat option" where
  "position [] x = None"
| "position (y # ys) x = (if x = y then Some 0 else map_option Suc (position ys x))"

definition table_codec :: "'a list \<Rightarrow> 'a codec" where
  "table_codec xs = \<lparr>
     enc = (\<lambda>x. case position (take 256 xs) x of None \<Rightarrow> Err (OtherIoError 0) | Some i \<Rightarrow> Ok [of_nat i]),
     dec = (\<lambda>bs. case bs of
        [b] \<Rightarrow> if unat b < length xs then Ok (xs ! unat b) else Err (InvalidData [])
      | _ \<Rightarrow> Err (InvalidData []))\<rparr>"

lemma position_Some: "position xs x = Some i \<Longrightarrow> i < length xs \<and> xs ! i = x"
  by (induction xs arbitrary: i) (auto split: if_splits)

lemma table_codec_ok: "codec_ok (table_codec xs)"
  by (auto simp: codec_ok_def table_codec_def unat_of_nat split: option.splits dest!: position_Some)

definition sample_block :: "u64 \<Rightarrow> hash \<Rightarrow> hash \<Rightarrow> signed_transaction list \<Rightarrow> block" where
  "sample_block h parent root txs =
     \<lparr>header = \<lparr>bh_height = h, bh_previous_hash = parent, bh_merkle_root = root, bh_state_root = [1],
        bh_miner_address = [9], bh_difficulty = 8, bh_timestamp = 5, bh_nonce = 0\<rparr>,
      block_transactions = txs, block_coinbase = None, genesis_allocations = []\<rparr>"

definition stored_tx :: signed_transaction where
  "stored_tx = \<lparr>payload = \<lparr>tx_from = [1], tx_to = [2], tx_amount = 10, tx_fee = 2, tx_nonce = 0,
     tx_timestamp = 1000\<rparr>, public_key = [], signature = [5]\<rparr>"

definition genesis :: block where "genesis = sample_block 0 [0] [3] []"
definition block1 :: block where "block1 = sample_block 1 [3] [4] [stored_tx]"

definition stored_account :: account where
  "stored_account = \<lparr>acc_address = [1], acc_balance = 100, acc_nonce = 0, acc_credits = []\<rparr>"

definition stored_ledger :: ledger where
  "stored_ledger = \<lparr>ledger_accounts = [([1], stored_account)],
     ledger_chain = \<lparr>chain_blocks = [(0, genesis), (1, block1)]\<rparr>\<rparr>"

definition sample_codecs :: codecs where
  "sample_codecs = \<lparr>
     block_codec = table_codec [genesis, block1],
     account_codec = table_codec [stored_account],
     accounts_codec = table_codec [],
     snapshot_codec = table_codec [],
     location_codec = table_codec [location_at sample_core block1 0],
     address_location_codec = table_codec
       [\<lparr>aloc_tx_hash = [5], aloc_block_height = 1, aloc_block_hash = [4], aloc_tx_index = 0, aloc_sent = True\<rparr>,
        \<lparr>aloc_tx_hash = [5], aloc_block_height = 1, aloc_block_hash = [4], aloc_tx_index = 0, aloc_sent = False\<rparr>],
     height_codec = table_codec [0, 1],
     version_codec = table_codec [0, 1]\<rparr>"

lemma sample_codecs_ok: "codecs_ok sample_codecs"
  by (simp add: codecs_ok_def sample_codecs_def table_codec_ok)

lemmas storage_sample_defs =
  sample_codecs_def table_codec_def genesis_def block1_def sample_block_def stored_tx_def
  stored_account_def stored_ledger_def location_at_def

lemma mem_put_bytes:
  "key_ok k \<Longrightarrow> put_bytes mem_lmdb d k bs t = Ok (t(d := bt_insert k bs (sorted_db t d)))"
  by (simp add: put_bytes_def mem_lmdb_def)

lemma mem_put_value:
  "encode c v = Ok bs \<Longrightarrow> key_ok k \<Longrightarrow> put_value mem_lmdb c d k v t = Ok (t(d := bt_insert k bs (sorted_db t d)))"
  by (simp add: put_value_def mem_put_bytes)

lemma mem_with_rw: "f e = Ok t \<Longrightarrow> with_rw mem_lmdb e f = (t, Ok ())"
  by (simp add: with_rw_def mem_lmdb_def)

lemma mem_clear_db: "clear_db mem_lmdb d t = Ok (t(d := []))"
  by (simp add: clear_db_def mem_lmdb_def)

lemma mem_index:
  assumes "i < 2 ^ 32" "key_ok (tx_hash K tx)" "length (tx_from (payload tx)) \<le> 100" "length (tx_to (payload tx)) \<le> 100"
    and "encode (location_codec C) (location_at K b i) = Ok ls"
    and "\<And>s. \<exists>bs. encode (address_location_codec C) \<lparr>aloc_tx_hash = tx_hash K tx, aloc_block_height = block_height b,
      aloc_block_hash = block_hash K b, aloc_tx_index = of_nat i, aloc_sent = s\<rparr> = Ok bs"
  shows "\<exists>t'. index_transaction K mem_lmdb C b (i, tx) t = Ok t'"
proof -
  obtain b1 b2 where "encode (address_location_codec C) \<lparr>aloc_tx_hash = tx_hash K tx, aloc_block_height = block_height b,
      aloc_block_hash = block_hash K b, aloc_tx_index = of_nat i, aloc_sent = True\<rparr> = Ok b1"
    "encode (address_location_codec C) \<lparr>aloc_tx_hash = tx_hash K tx, aloc_block_height = block_height b,
      aloc_block_hash = block_hash K b, aloc_tx_index = of_nat i, aloc_sent = False\<rparr> = Ok b2"
    using assms(6) by metis
  moreover have "key_ok (address_tx_key a h i s)" if "length a \<le> 100" for a h i s
    using that by (simp add: key_ok_def address_tx_key_def)
  ultimately show ?thesis
    using assms(1-5) by (simp add: index_transaction_def Let_def location_at_def mem_put_value)
qed

lemma sample_encodes:
  "encode (block_codec sample_codecs) genesis = Ok [0]"
  "encode (block_codec sample_codecs) block1 = Ok [1]"
  "encode (location_codec sample_codecs) (location_at sample_core block1 0) = Ok [0]"
  "encode (account_codec sample_codecs) stored_account = Ok [0]"
  "encode (height_codec sample_codecs) 1 = Ok [1]"
  "encode (version_codec sample_codecs) 1 = Ok [1]"
  "\<exists>bs. encode (address_location_codec sample_codecs) \<lparr>aloc_tx_hash = [5], aloc_block_height = 1,
      aloc_block_hash = [4], aloc_tx_index = 0, aloc_sent = s\<rparr> = Ok bs"
  by (cases s; simp add: encode_def sample_codecs_def table_codec_def genesis_def block1_def sample_block_def)+

lemma sample_put_block:
  "\<exists>t'. put_block sample_core mem_lmdb sample_codecs genesis bs t = Ok t'"
  "\<exists>t'. put_block sample_core mem_lmdb sample_codecs block1 bs t = Ok t'"
proof -
  have "key_ok [3]" "key_ok [4]" "key_ok [5]" by (simp_all add: key_ok_def)
  moreover have "block_hash sample_core genesis = [3]" "block_hash sample_core block1 = [4]"
    "tx_hash sample_core stored_tx = [5]"
    by (simp_all add: sample_core_def genesis_def block1_def sample_block_def stored_tx_def)
  moreover have "block_transactions genesis = []" "block_transactions block1 = [stored_tx]" "block_height block1 = 1"
    by (simp_all add: genesis_def block1_def sample_block_def)
  moreover have "length (tx_from (payload stored_tx)) \<le> 100" "length (tx_to (payload stored_tx)) \<le> 100"
    by (simp_all add: stored_tx_def)
  ultimately show "\<exists>t'. put_block sample_core mem_lmdb sample_codecs genesis bs t = Ok t'"
    "\<exists>t'. put_block sample_core mem_lmdb sample_codecs block1 bs t = Ok t'"
    using mem_index [of 0 sample_core stored_tx sample_codecs block1 "[0]"] sample_encodes(3,7)
    by (simp_all add: put_block_def mem_put_bytes index_block_transactions_def res_bind_Ok_iff)
qed

text \<open>The environment after saving \<open>block1\<close> into an empty store.\<close>

definition env1 :: mem_env where
  "env1 = fst (save_block sample_core mem_lmdb sample_codecs (\<lambda>_. []) block1)"

lemma save_block1:
  "save_block sample_core mem_lmdb sample_codecs (\<lambda>_. []) block1 = (env1, Ok ())"
proof -
  obtain t' where "put_block sample_core mem_lmdb sample_codecs block1 [1] (\<lambda>_. []) = Ok t'"
    using sample_put_block(2) by blast
  then show ?thesis by (simp add: env1_def save_block_def sample_encodes(2) mem_with_rw)
qed

section \<open>Blocks and transactions\<close>

text \<open>
  A saved block is found again under its height and under its hash, and every other height and
  hash loads what it loaded before.
\<close>

lemma save_block_load:
  assumes "lmdb_laws D V W" "codecs_ok C" "readable D e" "readable D e'"
    and "save_block K D C e b = (e', Ok ())"
  shows "load_block_by_height D C e' h =
      (if h = block_height b then Ok (Some b) else load_block_by_height D C e h) \<and>
    load_block_by_hash K D C e' bh =
      (if bh = block_hash K b then Ok (Some b) else load_block_by_hash K D C e bh)"
proof -
  obtain bs where bs: "encode (block_codec C) b = Ok bs" "with_rw D e (put_block K D C b bs) = (e', Ok ())"
    using assms(5) by (auto simp: save_block_def split: sum.splits)
  obtain t t' where t: "W t = V e" "put_block K D C b bs t = Ok t'" "V e' = W t'"
    by (rule with_rw_Ok [OF assms(1) bs(2)])
  note v = put_block_view [OF assms(1) t(2)]
  have dec: "decode (block_codec C) bs = Ok b"
    using encode_decode bs(1) assms(2) by (auto simp: codecs_ok_def)
  show ?thesis
    unfolding load_block_by_height_view [OF assms(1,3)] load_block_by_height_view [OF assms(1,4)]
      load_block_by_hash_view [OF assms(1,3)] load_block_by_hash_view [OF assms(1,4)]
    using v(1-3) by (simp add: t dec)
qed

text \<open>
  C34. Every transaction of a saved block is found by its hash: the location has the block's height and hash, and the position is the
  last one at which the block has a transaction with that hash (its own position, when the hashes of the block differ), with the
  transaction that is there.
\<close>

theorem save_block_load_transaction:
  assumes "lmdb_laws D V W" "codecs_ok C" "readable D e'"
    and "save_block K D C e b = (e', Ok ())" "i < length (block_transactions b)"
  shows "\<exists>j < length (block_transactions b). i \<le> j \<and> tx_hash K (block_transactions b ! j) = tx_hash K (block_transactions b ! i) \<and>
    (\<forall>l < length (block_transactions b). j < l \<longrightarrow> tx_hash K (block_transactions b ! l) \<noteq> tx_hash K (block_transactions b ! i)) \<and>
    (distinct (map (tx_hash K) (block_transactions b)) \<longrightarrow> j = i) \<and>
    load_transaction K D C e' (tx_hash K (block_transactions b ! i)) = Ok (Some (location_at K b j, block_transactions b ! j))"
proof -
  let ?txs = "block_transactions b" and ?k = "tx_hash K (block_transactions b ! i)"
  obtain bs where bs: "encode (block_codec C) b = Ok bs" "with_rw D e (put_block K D C b bs) = (e', Ok ())"
    using assms(4) by (auto simp: save_block_def split: sum.splits)
  obtain t t' where t: "W t = V e" "put_block K D C b bs t = Ok t'" "V e' = W t'"
    by (rule with_rw_Ok [OF assms(1) bs(2)])
  note v = put_block_view [OF assms(1) t(2)]
  have "?k \<in> tx_hash K ` set ?txs" using assms(5) by simp
  then obtain j ls where j: "j < length ?txs" "tx_hash K (?txs ! j) = ?k" "\<forall>l < length ?txs. j < l \<longrightarrow> tx_hash K (?txs ! l) \<noteq> ?k"
    and ls: "encode (location_codec C) (location_at K b j) = Ok ls" "key_ok ?k" "j < 2 ^ 32" "W t' TX_INDEX ?k = Some ls"
    using v(6) by blast
  have "decode (block_codec C) bs = Ok b" "decode (location_codec C) ls = Ok (location_at K b j)"
    using encode_decode bs(1) ls(1) assms(2) by (auto simp: codecs_ok_def)
  then have "load_transaction K D C e' ?k = Ok (Some (location_at K b j, ?txs ! j))"
    unfolding load_transaction_def load_transaction_location_view [OF assms(1,3)]
      load_block_by_height_view [OF assms(1,3)]
    using v(1) ls(2-4) j(1,2) by (simp add: t location_at_def unat_of_nat)
  moreover have "i \<le> j" using j(3) assms(5) by (metis not_le)
  moreover have "distinct (map (tx_hash K) ?txs) \<Longrightarrow> j = i" using j(1,2) assms(5) nth_eq_iff_index_eq [of "map (tx_hash K) ?txs" j i] by simp
  ultimately show ?thesis using j by blast
qed

theorem save_block_load_transaction_witness:
  "load_transaction sample_core mem_lmdb sample_codecs env1 [5] =
     Ok (Some (location_at sample_core block1 0, stored_tx))"
  using save_block_load_transaction [OF mem_lmdb_laws sample_codecs_ok mem_readable save_block1, of 0]
  by (simp add: block1_def sample_block_def) (simp add: sample_core_def stored_tx_def)

text \<open>
  The keys of the address index: two keys of addresses of the same length are equal only for the
  same address, height, position and direction, and the prefix test used to find an address's
  entries accepts exactly the keys of that address.
\<close>

lemma address_tx_key_correct:
  assumes "length a = length a'"
  shows "(address_tx_key a h i s = address_tx_key a' h' i' s' \<longleftrightarrow> a = a' \<and> h = h' \<and> i = i' \<and> s = s') \<and>
    (take (length a) (address_tx_key a' h' i' s') = a \<longleftrightarrow> a' = a)"
proof -
  have "address_tx_key a h i s = address_tx_key a' h' i' s' \<longleftrightarrow>
    a = a' \<and> u64_to_be_bytes h @ u32_to_be_bytes i @ [if s then 1 else 0] =
      u64_to_be_bytes h' @ u32_to_be_bytes i' @ [if s' then 1 else 0]"
    using assms by (simp add: address_tx_key_def)
  also have "\<dots> \<longleftrightarrow> a = a' \<and> h = h' \<and> i = i' \<and> s = s'"
    by (subst append_eq_append_conv, simp)+ (auto simp: inj_u64_to_be_bytes inj_u32_to_be_bytes)
  finally show ?thesis using assms by (auto simp: address_tx_key_def)
qed

section \<open>Chain validation\<close>

text \<open>
  C28. Chain validation decides its specification: it succeeds exactly when no tip is recorded, or
  when every height from 0 to the recorded tip holds a block of that height, the recorded hash is
  the tip block's, each block names its predecessor's hash and the genesis block has no parent.
\<close>

theorem validate_chain_integrity_iff:
  "validate_chain_integrity K D C e = Ok () \<longleftrightarrow>
     load_tip K D C e = Ok None \<or>
     (\<exists>h bh f. load_tip K D C e = Ok (Some (h, bh)) \<and>
        (\<forall>i. i \<le> unat h \<longrightarrow> load_block_by_height D C e (of_nat i) = Ok (Some (f i))) \<and>
        block_hash K (f (unat h)) = bh \<and> previous_hash (f 0) = zero_hash K \<and>
        (\<forall>i. i < unat h \<longrightarrow> previous_hash (f (Suc i)) = block_hash K (f i)))"
  unfolding validate_Ok_iff stored_def chain_linked_def by simp

theorem validate_chain_integrity_iff_witness:
  "validate_chain_integrity sample_core mem_lmdb sample_codecs env1 = Ok ()"
proof -
  have "load_tip sample_core mem_lmdb sample_codecs env1 = Ok None"
  proof -
    have "with_rw mem_lmdb (\<lambda>_. []) (put_block sample_core mem_lmdb sample_codecs block1 [1]) = (env1, Ok ())"
      using save_block1 by (simp add: save_block_def sample_encodes(2))
    from with_rw_Ok [OF mem_lmdb_laws this] obtain t t' where t: "mem_view t = mem_view (\<lambda>_. [])"
      "put_block sample_core mem_lmdb sample_codecs block1 [1] t = Ok t'" "mem_view env1 = mem_view t'" .
    have "mem_view env1 META = mem_view (\<lambda>_. []) META"
      using put_block_view(4) [OF mem_lmdb_laws t(2), of META] t by simp
    then show ?thesis
      unfolding load_tip_view [OF mem_lmdb_laws mem_readable] by (simp add: mem_view_def sorted_db_def)
  qed
  then show ?thesis unfolding validate_chain_integrity_iff by simp
qed

section \<open>Whole ledgers\<close>

lemma held_ledger_loads:
  assumes laws: "lmdb_laws D V W" and codecs: "codecs_ok C" and ll: "ledger_laws K" and wf: "ledger_wf K L" "rebuilds K L"
    and rd: "readable D e" and holds: "holds_ledger K C (V e) L" and version: "load_storage_version D C e = Ok (Some STORAGE_VERSION)"
  shows "load_ledger K D C e = (e, Ok L) \<and> (\<exists>t. load_tip K D C e = Ok (Some t))"
proof -
  obtain f n where n: "n < 2 ^ 64" and vals: "bt_values (chain_blocks (ledger_chain L)) = map f [0..<Suc n]"
    and st: "stored D C e f n" and linked: "chain_linked K f n"
    and tip: "load_tip K D C e = Ok (Some (of_nat n, block_hash K (f n)))"
    and accounts: "load_accounts D C e [] = Ok (ledger_accounts L)"
    by (rule holds_ledger_content [OF laws codecs ll wf(1) rd holds])
  have "validate_chain_integrity K D C e = Ok ()"
    unfolding validate_Ok_iff using tip st linked n by (auto simp: unat_of_nat)
  moreover have "ensure_storage_version D C e = (e, Ok ())" using version by (simp add: ensure_storage_version_def)
  moreover have "ledger_accounts (ledger_new K) = []" using ll by (simp add: ledger_laws_def)
  moreover have "load_chain K D C e (of_nat n) (ledger_chain (ledger_new K)) = Ok (ledger_chain L)"
    using load_chain_stored [OF st n] wf(2) unfolding rebuilds_def vals by blast
  ultimately show ?thesis
    by (simp add: load_ledger_def then_env_def accounts tip)
qed

text \<open>The store of the witness: a fresh one at the supported version, then the ledger saved.\<close>

definition env0 :: mem_env where
  "env0 = fst (save_storage_version mem_lmdb sample_codecs (\<lambda>_. []) 1)"

definition env2 :: mem_env where
  "env2 = fst (save_ledger sample_core mem_lmdb sample_codecs env0 stored_ledger)"

lemma env0_content: "env0 = (\<lambda>_. [])(META := [(STORAGE_VERSION_KEY, [1])])"
  by (simp add: env0_def save_storage_version_def sorted_db_def fun_eq_iff
      mem_with_rw [OF mem_put_value [OF sample_encodes(6) meta_keys(3)]])

lemma load_env0_version: "load_storage_version mem_lmdb sample_codecs env0 = Ok (Some STORAGE_VERSION)"
proof -
  have "mem_view env0 META STORAGE_VERSION_KEY = Some [1]"
    unfolding env0_content by (simp add: mem_view_def sorted_db_def bt_wf_def)
  then show ?thesis
    unfolding load_storage_version_view [OF mem_lmdb_laws mem_readable]
    by (simp add: decode_def sample_codecs_def table_codec_def STORAGE_VERSION_def)
qed

lemma save_stored_ledger: "save_ledger sample_core mem_lmdb sample_codecs env0 stored_ledger = (env2, Ok ())"
proof -
  have L: "bt_values (ledger_accounts stored_ledger) = [stored_account]"
    "bt_values (chain_blocks (ledger_chain stored_ledger)) = [genesis, block1]"
    "ledger_tip_height sample_core stored_ledger = Some 1" "ledger_tip_hash sample_core stored_ledger = Some [4]"
    "\<not> is_snapshot_height sample_core 1" "key_ok (acc_address stored_account)"
    by (simp_all add: stored_ledger_def sample_core_def block1_def sample_block_def stored_account_def key_ok_def)
  have tip: "put_tip_state sample_core mem_lmdb sample_codecs stored_ledger t =
      Ok ((t(META := bt_insert TIP_HEIGHT_KEY [1] (sorted_db t META)))
        (META := bt_insert TIP_HASH_KEY [4] (sorted_db (t(META := bt_insert TIP_HEIGHT_KEY [1] (sorted_db t META))) META)))" for t
    by (simp add: put_tip_state_def L put_tip_def mem_put_value [OF sample_encodes(5)] mem_put_bytes del: fun_upd_upd)
  obtain t where "put_ledger sample_core mem_lmdb sample_codecs stored_ledger env0 = Ok t"
    using sample_put_block
    by (auto simp: put_ledger_def mem_clear_db L mem_put_value [OF sample_encodes(4)] sample_encodes(1,2) tip
        res_bind_Ok_iff simp del: fun_upd_apply) metis
  then show ?thesis
    by (simp add: env2_def save_ledger_def then_env_def mem_with_rw flush_def) (simp add: mem_lmdb_def)
qed

lemma stored_ledger_wf: "ledger_wf sample_core stored_ledger"
proof -
  define f where "f = (\<lambda>i :: nat. if i = 0 then genesis else block1)"
  have "chain_linked sample_core f 1" "\<forall>i \<le> 1. block_height (f i) = of_nat i"
    "chain_blocks (ledger_chain stored_ledger) = map (\<lambda>i. (of_nat i, f i)) [0..<Suc 1]"
    by (auto simp: f_def chain_linked_def stored_ledger_def genesis_def block1_def sample_block_def
        sample_core_def zero_hash_def le_Suc_eq)
  moreover have "length (block_hash sample_core (f 1)) = HASH_SIZE sample_core"
    by (simp add: f_def sample_core_def block1_def sample_block_def)
  moreover have "bt_wf (ledger_accounts stored_ledger)"
    "\<forall>(a, acc) \<in> set (ledger_accounts stored_ledger). acc_address acc = a"
    by (simp_all add: stored_ledger_def stored_account_def bt_wf_def)
  ultimately show ?thesis
    unfolding ledger_wf_def by (intro conjI exI [of _ f] exI [of _ 1]) simp_all
qed

lemma stored_ledger_rebuilds: "rebuilds sample_core stored_ledger"
  by (simp add: rebuilds_def stored_ledger_def sample_core_def genesis_def block1_def sample_block_def)

text \<open>
  C35. Writes are atomic: when \<open>save_block\<close>, \<open>save_side_block\<close>, \<open>save_tip\<close>, \<open>save_state_snapshot\<close>, \<open>save_genesis_accounts\<close> or
  \<open>save_storage_version\<close> returns an error, the stored content is what it was. When \<open>save_ledger\<close> does, the content is what it was, or
  the whole ledger was written and committed and only the synchronisation after it failed; it never holds a part of the ledger.
\<close>

theorem writes_atomic:
  assumes "lmdb_laws D V W"
  shows "(\<forall>b e' x. save_block K D C e b = (e', Err x) \<longrightarrow> V e' = V e) \<and>
    (\<forall>b e' x. save_side_block K D C e b = (e', Err x) \<longrightarrow> V e' = V e) \<and>
    (\<forall>h bh e' x. save_tip D C e h bh = (e', Err x) \<longrightarrow> V e' = V e) \<and>
    (\<forall>L e' x. save_state_snapshot K D C e L = (e', Err x) \<longrightarrow> V e' = V e) \<and>
    (\<forall>accs e' x. save_genesis_accounts D C e accs = (e', Err x) \<longrightarrow> V e' = V e) \<and>
    (\<forall>v e' x. save_storage_version D C e v = (e', Err x) \<longrightarrow> V e' = V e) \<and>
    (\<forall>L e' x. save_ledger K D C e L = (e', Err x) \<longrightarrow>
       V e' = V e \<or> (\<exists>t t'. W t = V e \<and> put_ledger K D C L t = Ok t' \<and> V e' = W t' \<and> flush D e' = Err x))"
proof (intro conjI allI impI)
  show "V e' = V e" if "save_block K D C e b = (e', Err x)" for b e' x
    using that with_rw_Err [OF assms] by (auto simp: save_block_def split: sum.splits)
  show "V e' = V e" if "save_side_block K D C e b = (e', Err x)" for b e' x
    using that with_rw_Err [OF assms] by (auto simp: save_side_block_def split: sum.splits)
  show "V e' = V e" if "save_tip D C e h bh = (e', Err x)" for h bh e' x
    using that with_rw_Err [OF assms] by (auto simp: save_tip_def)
  show "V e' = V e" if "save_state_snapshot K D C e L = (e', Err x)" for L e' x
    using that with_rw_Err [OF assms] by (auto simp: save_state_snapshot_def split: option.splits if_splits)
  show "V e' = V e" if "save_genesis_accounts D C e accs = (e', Err x)" for accs e' x
    using that with_rw_Err [OF assms] by (auto simp: save_genesis_accounts_def)
  show "V e' = V e" if "save_storage_version D C e v = (e', Err x)" for v e' x
    using that with_rw_Err [OF assms] by (auto simp: save_storage_version_def)
  show "V e' = V e \<or> (\<exists>t t'. W t = V e \<and> put_ledger K D C L t = Ok t' \<and> V e' = W t' \<and> flush D e' = Err x)"
    if err: "save_ledger K D C e L = (e', Err x)" for L e' x
  proof -
    consider "with_rw D e (put_ledger K D C L) = (e', Err x)"
      | u where "with_rw D e (put_ledger K D C L) = (e', Ok u)" "flush D e' = Err x"
      using err by (auto simp: save_ledger_def then_env_def split: prod.splits sum.splits)
    then show ?thesis
    proof cases
      case 1
      then show ?thesis using with_rw_Err [OF assms] by blast
    next
      case (2 u)
      then show ?thesis using with_rw_Ok [OF assms 2(1)] by metis
    qed
  qed
qed

theorem writes_atomic_witness:
  "snd (save_state_snapshot sample_core mem_lmdb sample_codecs env0 stored_ledger) =
     Err (Integrity ''state snapshot height is not a protocol snapshot height'') \<and>
   mem_view (fst (save_state_snapshot sample_core mem_lmdb sample_codecs env0 stored_ledger)) = mem_view env0"
proof -
  have "snd (save_state_snapshot sample_core mem_lmdb sample_codecs env0 stored_ledger) =
      Err (Integrity ''state snapshot height is not a protocol snapshot height'')"
    by (simp add: save_state_snapshot_def stored_ledger_def sample_core_def)
  then show ?thesis
    using writes_atomic [OF mem_lmdb_laws, of sample_core sample_codecs env0] by (metis prod.collapse)
qed

text \<open>
  The version gate. When it lets the store be used, the supported version is recorded there, and
  a version was written only into a store whose seven data databases were all empty; a store that
  holds data but no version is refused and left alone.
\<close>

lemma ensure_storage_version_gate:
  assumes "lmdb_laws D V W" "codecs_ok C" "readable D e" "readable D e'"
  shows "(ensure_storage_version D C e = (e', Ok ()) \<longrightarrow>
      load_storage_version D C e' = Ok (Some STORAGE_VERSION) \<and>
      (e' = e \<or> load_storage_version D C e = Ok None \<and> (\<forall>d. d \<noteq> META \<longrightarrow> V e d = Map.empty))) \<and>
    (load_storage_version D C e = Ok None \<and> d \<noteq> META \<and> V e d \<noteq> Map.empty \<longrightarrow>
      ensure_storage_version D C e = (e, Err MissingStorageVersion))"
proof (rule conjI; rule impI)
  note empty = is_empty_database_view [OF assms(1,3)]
  assume ok: "ensure_storage_version D C e = (e', Ok ())"
  consider "load_storage_version D C e = Ok (Some STORAGE_VERSION)" "e' = e"
    | "load_storage_version D C e = Ok None" "\<forall>d. d \<noteq> META \<longrightarrow> V e d = Map.empty"
      "save_storage_version D C e STORAGE_VERSION = (e', Ok ())"
    using ok unfolding ensure_storage_version_def empty
    by (auto simp: then_env_def split: sum.splits option.splits if_splits prod.splits bool.splits)
  then show "load_storage_version D C e' = Ok (Some STORAGE_VERSION) \<and>
      (e' = e \<or> load_storage_version D C e = Ok None \<and> (\<forall>d. d \<noteq> META \<longrightarrow> V e d = Map.empty))"
  proof cases
    case 2
    obtain t t' where t: "put_value D (version_codec C) META STORAGE_VERSION_KEY STORAGE_VERSION t = Ok t'" "V e' = W t'"
      using with_rw_Ok [OF assms(1) 2(3) [unfolded save_storage_version_def]] by metis
    obtain bs where "encode (version_codec C) STORAGE_VERSION = Ok bs"
      "W t' = (W t)(META := (W t META)(STORAGE_VERSION_KEY \<mapsto> bs))"
      by (rule put_value_view [OF assms(1) t(1)])
    then show ?thesis
      using 2 assms(2) encode_decode [of "version_codec C"]
      by (simp add: load_storage_version_view [OF assms(1,4)] t(2) codecs_ok_def)
  qed simp
next
  assume "load_storage_version D C e = Ok None \<and> d \<noteq> META \<and> V e d \<noteq> Map.empty"
  then show "ensure_storage_version D C e = (e, Err MissingStorageVersion)"
    using is_empty_database_view [OF assms(1,3)] by (auto simp: ensure_storage_version_def split: bool.split)
qed

end
