(* ===== verification/Ledger_Chain.thy ===== *)
theory Ledger_Chain
  imports Node Storage_Ledger
begin

text \<open>
  Ledgers that grow by blocks: what the protocol crate promises of \<open>Chain::insert_block\<close> and
  \<open>Ledger::apply_block\<close>, the shape this gives to every chain built by insertion, and the replay of a
  branch from genesis accounts. The ledgers that the node loads, extends and rebuilds are of this kind.
\<close>

section \<open>What the crate promises of chains\<close>

definition accounts_ok :: "(address, account) btreemap \<Rightarrow> bool" where
  "accounts_ok m \<longleftrightarrow> bt_wf m \<and> (\<forall>(a, acc) \<in> set m. acc_address acc = a)"

text \<open>
  \<open>Chain::insert_block\<close> appends a block whose height follows the tip's and whose parent is the tip, or
  a first block of height 0 without parent; \<open>Ledger::apply_block\<close> inserts the block into the ledger's
  chain and keeps each account under its address; block hashes have the crate's hash size.
\<close>

definition chain_laws :: "core \<Rightarrow> bool" where
  "chain_laws K \<longleftrightarrow>
     (\<forall>c b c'. chain_insert_block K c b = Ok c' \<longrightarrow>
        chain_blocks c' = chain_blocks c @ [(block_height b, b)] \<and>
        (if chain_blocks c = [] then block_height b = 0 \<and> previous_hash b = zero_hash K
         else unat (block_height b) = Suc (unat (fst (last (chain_blocks c)))) \<and>
           previous_hash b = block_hash K (snd (last (chain_blocks c))))) \<and>
     (\<forall>L b L'. ledger_apply_block K L b = Ok L' \<longrightarrow>
        chain_insert_block K (ledger_chain L) b = Ok (ledger_chain L') \<and>
        (accounts_ok (ledger_accounts L) \<longrightarrow> accounts_ok (ledger_accounts L'))) \<and>
     (\<forall>b. length (block_hash K b) = HASH_SIZE K)"

lemma chain_insertD:
  assumes "chain_laws K" "chain_insert_block K c b = Ok c'"
  shows "chain_blocks c' = chain_blocks c @ [(block_height b, b)]"
    "chain_blocks c = [] \<Longrightarrow> block_height b = 0 \<and> previous_hash b = zero_hash K"
    "chain_blocks c \<noteq> [] \<Longrightarrow> unat (block_height b) = Suc (unat (fst (last (chain_blocks c)))) \<and>
       previous_hash b = block_hash K (snd (last (chain_blocks c)))"
  using assms unfolding chain_laws_def by metis+

lemma ledger_applyD:
  assumes "chain_laws K" "ledger_apply_block K L b = Ok L'"
  shows "chain_insert_block K (ledger_chain L) b = Ok (ledger_chain L')"
    "accounts_ok (ledger_accounts L) \<Longrightarrow> accounts_ok (ledger_accounts L')"
  using assms unfolding chain_laws_def by metis+

abbreviation ledger_blocks :: "ledger \<Rightarrow> block list" where
  "ledger_blocks L \<equiv> bt_values (chain_blocks (ledger_chain L))"

lemma ledger_apply_blocks:
  assumes "chain_laws K" "ledger_apply_block K L b = Ok L'"
  shows "ledger_blocks L' = ledger_blocks L @ [b]"
  using chain_insertD(1) [OF assms(1) ledger_applyD(1) [OF assms]] by simp

lemma ledger_tip_blocks:
  assumes "ledger_laws K"
  shows "ledger_tip_hash K L = (if ledger_blocks L = [] then None else Some (block_hash K (last (ledger_blocks L))))"
  using assms by (cases "chain_blocks (ledger_chain L)" rule: rev_cases) (simp_all add: ledger_laws_def)

section \<open>Chains built by insertion\<close>

definition build_chain :: "core \<Rightarrow> block list \<Rightarrow> ledger_error + chain" where
  "build_chain K bs = try_fold (\<lambda>b c. chain_insert_block K c b) bs (chain_new K)"

lemma build_chain_snoc: "build_chain K (bs @ [b]) = res_bind (build_chain K bs) (\<lambda>c. chain_insert_block K c b)"
proof -
  have "try_fold (\<lambda>b c. chain_insert_block K c b) [b] = (\<lambda>c. chain_insert_block K c b)"
    by (rule ext) (simp add: res_bind_def split: sum.split)
  then show ?thesis by (simp add: build_chain_def try_fold_append)
qed

text \<open>The shape of such a chain: heights 0 to the tip, each block under its height and linked to the one before.\<close>

lemma build_chain_shape:
  assumes "chain_laws K" "ledger_laws K" "build_chain K bs = Ok c"
  shows "length bs \<le> 2 ^ 64 \<and> chain_blocks c = map (\<lambda>i. (of_nat i, bs ! i)) [0..<length bs] \<and>
    (\<forall>i < length bs. block_height (bs ! i) = of_nat i) \<and> (bs \<noteq> [] \<longrightarrow> previous_hash (bs ! 0) = zero_hash K) \<and>
    (\<forall>i. Suc i < length bs \<longrightarrow> previous_hash (bs ! Suc i) = block_hash K (bs ! i))"
  using assms(3)
proof (induction bs arbitrary: c rule: rev_induct)
  case Nil
  then show ?case using assms(2) by (simp add: build_chain_def ledger_laws_def)
next
  case (snoc b bs)
  then obtain c0 where c0: "build_chain K bs = Ok c0" "chain_insert_block K c0 b = Ok c"
    by (auto simp: build_chain_snoc res_bind_Ok_iff)
  note IH = snoc.IH [OF c0(1)] and ins = chain_insertD [OF assms(1) c0(2)]
  have blocks: "chain_blocks c0 = map (\<lambda>i. (of_nat i, bs ! i)) [0..<length bs]" using IH by blast
  have step: "unat (block_height b) = length bs \<and>
      previous_hash b = (if bs = [] then zero_hash K else block_hash K (last bs))"
  proof (cases "bs = []")
    case True
    then show ?thesis using ins(2) blocks by simp
  next
    case False
    then have "last (chain_blocks c0) = (of_nat (length bs - 1), last bs)" "chain_blocks c0 \<noteq> []"
      unfolding blocks by (simp_all add: last_map last_conv_nth)
    moreover have "unat (of_nat (length bs - 1) :: u64) = length bs - 1"
      using IH False by (cases bs) (simp_all add: unat_of_nat)
    ultimately show ?thesis using ins(3) False by simp
  qed
  have h: "block_height b = of_nat (length bs)" using step unat_bound [of "block_height b"] by (simp add: word_unat_eq_iff unat_of_nat)
  have len: "length (bs @ [b]) \<le> 2 ^ 64" using step unat_bound [of "block_height b"] by simp
  have "chain_blocks c = map (\<lambda>i. (of_nat i, (bs @ [b]) ! i)) [0..<length (bs @ [b])]"
    using ins(1) h by (simp add: blocks nth_append)
  moreover have "previous_hash ((bs @ [b]) ! Suc i) = block_hash K ((bs @ [b]) ! i)" if "Suc i < length (bs @ [b])" for i
  proof (cases "Suc i = length bs")
    case True
    then have "i = length bs - Suc 0" "bs \<noteq> []" by auto
    with True step show ?thesis by (simp add: nth_append last_conv_nth)
  next
    case False
    then show ?thesis using that IH by (simp add: nth_append)
  qed
  ultimately show ?case using IH step h len by (auto simp: nth_append less_Suc_eq)
qed

lemma build_chain_values:
  assumes "chain_laws K" "ledger_laws K" "build_chain K bs = Ok c"
  shows "bt_values (chain_blocks c) = bs"
  using build_chain_shape [OF assms] by (simp add: comp_def map_nth)

lemma rebuilds_iff: "ledger_laws K \<Longrightarrow> rebuilds K L \<longleftrightarrow> build_chain K (ledger_blocks L) = Ok (ledger_chain L)"
  by (simp add: rebuilds_def build_chain_def ledger_laws_def)

lemma rebuilds_wf:
  assumes "chain_laws K" "ledger_laws K" "rebuilds K L" "ledger_blocks L \<noteq> []" "accounts_ok (ledger_accounts L)"
  shows "ledger_wf K L"
proof -
  let ?bs = "ledger_blocks L"
  note shape = build_chain_shape [OF assms(1,2) assms(3) [unfolded rebuilds_iff [OF assms(2)]]]
  obtain n where n: "length ?bs = Suc n" using assms(4) by (cases ?bs) auto
  have "length (block_hash K (?bs ! n)) = HASH_SIZE K" using assms(1) by (simp add: chain_laws_def)
  then show ?thesis
    using assms(5) shape n unfolding ledger_wf_def accounts_ok_def chain_linked_def
    by (intro conjI exI [of _ "\<lambda>i. ?bs ! i"] exI [of _ n]) auto
qed

lemma rebuilds_apply:
  assumes "chain_laws K" "ledger_laws K" "rebuilds K L" "ledger_apply_block K L b = Ok L'"
  shows "rebuilds K L'"
  using assms(3) ledger_applyD(1) [OF assms(1,4)]
  by (simp add: rebuilds_iff [OF assms(2)] ledger_apply_blocks [OF assms(1,4)] build_chain_snoc)

text \<open>A ledger that the crate's operations have built: a linked chain from genesis, accounts under their addresses.\<close>

definition ledger_typed :: "core \<Rightarrow> ledger \<Rightarrow> bool" where
  "ledger_typed K L \<longleftrightarrow> rebuilds K L \<and> accounts_ok (ledger_accounts L)"

text \<open>A ledger that is of this kind as long as the crate keeps its promises.\<close>

definition genuine_ledger :: "core \<Rightarrow> ledger \<Rightarrow> bool" where
  "genuine_ledger K L \<longleftrightarrow> (chain_laws K \<longrightarrow> ledger_laws K \<longrightarrow> ledger_typed K L)"

lemma ledger_typed_wf:
  "chain_laws K \<Longrightarrow> ledger_laws K \<Longrightarrow> ledger_typed K L \<Longrightarrow> ledger_blocks L \<noteq> [] \<Longrightarrow> ledger_wf K L"
  by (simp add: ledger_typed_def rebuilds_wf)

lemma ledger_typed_apply:
  "chain_laws K \<Longrightarrow> ledger_laws K \<Longrightarrow> ledger_typed K L \<Longrightarrow> ledger_apply_block K L b = Ok L' \<Longrightarrow> ledger_typed K L'"
  using rebuilds_apply [of K L b L'] ledger_applyD(2) [of K L b L'] ledger_apply_blocks [of K L b L']
  by (simp add: ledger_typed_def)

lemma first_block_typed:
  assumes "chain_laws K" "ledger_laws K" "chain_insert_block K (chain_new K) g = Ok c" "accounts_ok accs"
  shows "ledger_typed K \<lparr>ledger_accounts = accs, ledger_chain = c\<rparr>"
proof -
  have "chain_blocks c = [(block_height g, g)]"
    using chain_insertD(1) [OF assms(1,3)] assms(2) by (simp add: ledger_laws_def)
  then show ?thesis using assms by (simp add: ledger_typed_def rebuilds_iff [OF assms(2)] build_chain_def)
qed

section \<open>Replaying a branch\<close>

definition replay_branch :: "core \<Rightarrow> (address, account) btreemap \<Rightarrow> block list \<Rightarrow> ledger_error + ledger" where
  "replay_branch K accs bs =
     res_bind (chain_insert_block K (chain_new K) (hd bs)) (\<lambda>c.
       try_fold (\<lambda>b L. ledger_apply_block K L b) (tl bs) \<lparr>ledger_accounts = accs, ledger_chain = c\<rparr>)"

lemma replay_snoc:
  assumes "bs \<noteq> []"
  shows "replay_branch K accs (bs @ [b]) = res_bind (replay_branch K accs bs) (\<lambda>L. ledger_apply_block K L b)"
proof -
  have "try_fold (\<lambda>b L. ledger_apply_block K L b) [b] = (\<lambda>L. ledger_apply_block K L b)"
    by (rule ext) (simp add: res_bind_def split: sum.split)
  then show ?thesis
    using assms by (simp add: replay_branch_def try_fold_append res_bind_def split: sum.split)
qed

lemma replay_good:
  assumes "chain_laws K" "ledger_laws K" "accounts_ok accs" "bs \<noteq> []" "replay_branch K accs bs = Ok L"
  shows "ledger_typed K L \<and> ledger_blocks L = bs"
  using assms(4,5)
proof (induction bs arbitrary: L rule: rev_induct)
  case (snoc b bs)
  show ?case
  proof (cases "bs = []")
    case True
    then obtain c where c: "chain_insert_block K (chain_new K) b = Ok c" "L = \<lparr>ledger_accounts = accs, ledger_chain = c\<rparr>"
      using snoc.prems by (auto simp: replay_branch_def res_bind_Ok_iff)
    then show ?thesis
      using first_block_typed [OF assms(1,2) c(1) assms(3)] chain_insertD(1) [OF assms(1) c(1)] assms(2) True
      by (simp add: ledger_laws_def)
  next
    case False
    then obtain L0 where L0: "replay_branch K accs bs = Ok L0" "ledger_apply_block K L0 b = Ok L"
      using snoc.prems by (auto simp: replay_snoc res_bind_Ok_iff)
    from snoc.IH [OF False L0(1)] show ?thesis
      using ledger_typed_apply [OF assms(1,2) _ L0(2)] ledger_apply_blocks [OF assms(1) L0(2)] by simp
  qed
qed simp

section \<open>The ledgers of a node\<close>

text \<open>The ledger \<open>ledger_for_branch_tip\<close> computes is of this kind, whatever the index answers.\<close>

lemma branch_ledger_typed:
  assumes "chain_laws (env_core E)" "ledger_laws (env_core E)" "accounts_ok (genesis_accounts n)"
    and "ledger_for_branch_tip E n tip = Ok L"
  shows "ledger_typed (env_core E) L"
proof -
  let ?K = "env_core E"
  obtain g c bs where c: "chain_insert_block ?K (chain_new ?K) g = Ok c"
    and fold: "try_fold (\<lambda>b L. ledger_apply_block ?K L b) bs \<lparr>ledger_accounts = genesis_accounts n, ledger_chain = c\<rparr> = Ok L"
    using assms(4) by (auto simp: ledger_for_branch_tip_def Let_def res_simps)
  show ?thesis
    using fold by (rule try_fold_inv) (use first_block_typed [OF assms(1,2) c assms(3)] ledger_typed_apply [OF assms(1,2)] in auto)
qed

text \<open>So is the ledger that a start finds, whatever the store holds: \<open>load_ledger\<close> inserts the stored blocks
  one by one and checks the accounts' keys.\<close>

lemma load_accounts_ok:
  assumes "load_accounts D C e m = Ok m'" "accounts_ok m"
  shows "accounts_ok m'"
proof -
  obtain es where "try_fold (\<lambda>(k, bs) m. res_bind (decode (account_codec C) bs) (\<lambda>a.
       if acc_address a \<noteq> k then Err (Integrity ''stored account address does not match account key'')
       else Ok (bt_insert (acc_address a) a m))) es m = Ok m'"
    using assms(1) by (auto simp: load_accounts_def with_ro_def res_simps)
  then show ?thesis
    by (rule try_fold_inv)
      (use assms(2) in \<open>auto simp: accounts_ok_def res_simps set_bt_insert split: if_splits\<close>)
qed

lemma load_chain_build:
  assumes "ledger_laws K" "load_chain K D C e h (chain_new K) = Ok c"
  shows "\<exists>bs. bs \<noteq> [] \<and> build_chain K bs = Ok c"
proof -
  have "\<exists>bs. length bs = length hs \<and> build_chain K bs = Ok c"
    if "try_fold (\<lambda>height c. res_bind (res_bind (load_block_by_height D C e (of_nat height)) (\<lambda>ob.
         ok_or ob (Integrity ''stored chain block is missing''))) (\<lambda>b.
       map_err (\<lambda>_. Integrity ''stored chain block is invalid'') (chain_insert_block K c b))) hs (chain_new K) = Ok c"
    for hs c
    using that
  proof (induction hs arbitrary: c rule: rev_induct)
    case (snoc x hs)
    then obtain c0 bs y where "build_chain K bs = Ok c0" "length bs = length hs" "chain_insert_block K c0 y = Ok c"
      by (fastforce simp: try_fold_append res_simps)
    then show ?case by (intro exI [of _ "bs @ [y]"]) (simp add: build_chain_snoc)
  qed (simp add: build_chain_def)
  from this [OF assms(2) [unfolded load_chain_def]] obtain bs
    where "length bs = length [0..<Suc (unat h)]" "build_chain K bs = Ok c" by blast
  then show ?thesis by (intro exI [of _ bs]) auto
qed

lemma loaded_ledger_typed:
  assumes "chain_laws K" "ledger_laws K" "load_ledger K D C e = (e', Ok L)"
  shows "ledger_typed K L"
proof -
  have new: "ledger_accounts (ledger_new K) = []" "ledger_chain (ledger_new K) = chain_new K"
    using assms(2) by (simp_all add: ledger_laws_def)
  have accs: "load_accounts D C e' [] = Ok (ledger_accounts L)"
    and c: "ledger_chain L = chain_new K \<or> (\<exists>h. load_chain K D C e' h (chain_new K) = Ok (ledger_chain L))"
    using assms(3) new
    by (auto simp: load_ledger_def then_env_def Let_def res_simps split: prod.splits sum.splits option.splits)
  have "build_chain K (ledger_blocks L) = Ok (ledger_chain L)"
    using c
  proof
    assume "ledger_chain L = chain_new K"
    then show ?thesis using assms(2) by (simp add: build_chain_def ledger_laws_def)
  next
    assume "\<exists>h. load_chain K D C e' h (chain_new K) = Ok (ledger_chain L)"
    then obtain bs where "build_chain K bs = Ok (ledger_chain L)" by (auto dest: load_chain_build [OF assms(2)])
    then show ?thesis using build_chain_values [OF assms(1,2)] by metis
  qed
  moreover have "accounts_ok (ledger_accounts L)" using load_accounts_ok [OF accs] by (simp add: accounts_ok_def)
  ultimately show ?thesis by (simp add: ledger_typed_def rebuilds_iff [OF assms(2)])
qed

lemma started_ledger_genuine:
  assumes "load_or_create_ledger E st = (st', Some (Ok L))"
  shows "genuine_ledger (env_core E) L"
  unfolding genuine_ledger_def
proof (intro impI)
  assume laws: "chain_laws (env_core E)" "ledger_laws (env_core E)"
  let ?K = "env_core E"
  have new: "ledger_typed ?K (ledger_new ?K)"
    using laws(2) by (simp add: ledger_typed_def rebuilds_iff accounts_ok_def build_chain_def ledger_laws_def)
  consider "load_ledger ?K (env_lmdb E) (env_codecs E) st = (st', Ok L)"
    | "ledger_apply_block ?K (ledger_new ?K) (env_genesis_block E) = Ok L"
    using assms
    by (auto simp: load_or_create_ledger_def Let_def res_simps split: sum.splits option.splits if_splits prod.splits)
  then show "ledger_typed ?K L"
    by cases (auto intro: loaded_ledger_typed [OF laws] ledger_typed_apply [OF laws new])
qed

end
