(* ===== verification/Node_Properties.thy ===== *)
theory Node_Properties
  imports Node_Orphans Mempool_Properties Storage_Properties Ledger_Chain
begin

text \<open>
  The node as a transition system: whatever sequence of blocks, submissions, mining rounds and sync
  requests it handles, its orphan pool, its request queue and its transaction pool keep their
  invariants. Then what a call does: blocks that fail validation, blocks that extend the tip, the
  missing-parent queue and the indexing of stored blocks.
\<close>

lemma distinct_count_list: "distinct xs \<Longrightarrow> count_list xs x = (if x \<in> set xs then 1 else 0)"
  by (induction xs) auto

section \<open>The missing-parent queue\<close>

lemma queue_request_at_ok: "requests_ok n \<Longrightarrow> requests_ok (queue_missing_parent_request_at E n h t)"
  by (auto simp: requests_ok_def queue_missing_parent_request_at_def Let_def set_keys_bt_insert simp del: set_map)

lemma queue_request_ok: "requests_ok n \<Longrightarrow> requests_ok (queue_missing_parent_request E n h t)"
  by (simp add: queue_missing_parent_request_def queue_request_at_ok)

definition due :: "(hash, u64) btreemap \<Rightarrow> u64 \<Rightarrow> hash \<Rightarrow> bool" where
  "due r now h \<longleftrightarrow> (case bt_get r h of None \<Rightarrow> True | Some t \<Rightarrow> t \<le> now)"

lemma drain_loop_spec:
  "distinct hs \<Longrightarrow> drain_loop now hs s r =
     (filter (due r now) hs, filter (\<lambda>h. \<not> due r now h) hs, s - set (filter (due r now) hs),
      filter (\<lambda>e. fst e \<notin> set (filter (due r now) hs)) r)"
proof (induction hs arbitrary: s r)
  case (Cons h hs)
  have d: "(case bt_get r h of None \<Rightarrow> 0 | Some x \<Rightarrow> x) \<le> now \<longleftrightarrow> due r now h"
    by (simp add: due_def split: option.split)
  have "due (bt_remove h r) now x = due r now x" if "x \<in> set hs" for x
  proof -
    have "x \<noteq> h" using that Cons.prems by auto
    then show ?thesis by (simp add: due_def)
  qed
  then have "filter (due (bt_remove h r) now) hs = filter (due r now) hs"
    "filter (\<lambda>x. \<not> due (bt_remove h r) now x) hs = filter (\<lambda>x. \<not> due r now x) hs"
    by (auto intro!: filter_cong)
  then show ?case
    using Cons.IH [of "s - {h}" "bt_remove h r"] Cons.IH [of s r] Cons.prems
    by (auto simp: d Let_def bt_remove_def intro!: filter_cong)
qed simp

lemma drain_ok: "requests_ok n \<Longrightarrow> requests_ok (fst (drain_missing_parent_requests_at n now))"
  by (auto simp: requests_ok_def drain_missing_parent_requests_at_def drain_loop_spec bt_wf_filter)

section \<open>The transaction pool inside the node\<close>

abbreviation pool_steps :: "core \<Rightarrow> mempool \<Rightarrow> mempool \<Rightarrow> bool" where
  "pool_steps K \<equiv> (validated_step K)\<^sup>*\<^sup>*"

lemma fold_submit_steps: "pool_steps K m (fold (\<lambda>t m. fst (insert_validated_at K m L t now)) ts m)"
proof (induction ts arbitrary: m)
  case (Cons t ts)
  show ?case
    using converse_rtranclp_into_rtranclp [of "validated_step K", OF validated_step.submit Cons.IH] by simp
qed simp

lemma reinsert_steps: "pool_steps (env_core E) m (reinsert_transactions E L now ws bl m)"
  unfolding reinsert_transactions_def
proof (induction bl arbitrary: m)
  case (Cons b bl)
  show ?case
    using Cons [of m] Cons [of "fold (\<lambda>t m. fst (insert_validated_at (env_core E) m L t now)) (block_transactions b) m"]
      fold_submit_steps [of "env_core E" m L now "block_transactions b"]
    by (auto intro: rtranclp_trans)
qed simp

lemma reorg_steps: "pool_steps (env_core E) (node_mempool n) (node_mempool (fst (reorg_to_best_tip E n now)))"
  using reinsert_steps by (auto simp: reorg_to_best_tip_def Let_def split: sum.splits prod.splits)

lemma apply_known_parent_steps:
  "pool_steps (env_core E) (node_mempool n) (node_mempool (fst (apply_known_parent_block E n b now)))"
  using reorg_steps [of E "n\<lparr>fork_choice := fc\<rparr>" now for fc] validated_step.confirm [of "env_core E" "node_mempool n" b]
  by (auto simp: apply_known_parent_block_def Let_def split: sum.splits prod.splits)

lemma store_orphan_frame [simp]: "node_mempool (store_orphan E n b now) = node_mempool n"
  by (simp add: store_orphan_def Let_def queue_missing_parent_request_def queue_missing_parent_request_at_def)

lemma evict_orphan_frame [simp]:
  "node_mempool (evict_orphan n) = node_mempool n"
  "missing_parent_requests (evict_orphan n) = missing_parent_requests n"
  "missing_parent_request_set (evict_orphan n) = missing_parent_request_set n"
  "missing_parent_retry_at (evict_orphan n) = missing_parent_retry_at n"
  by (simp_all add: evict_orphan_def remove_orphan_def split: list.split)

lemma cache_orphan_mempool [simp]: "node_mempool (cache_orphan_block E n b now) = node_mempool n"
  by (simp add: cache_orphan_block_def Let_def)

lemma cache_orphan_requests: "requests_ok n \<Longrightarrow> requests_ok (cache_orphan_block E n b now)"
proof -
  assume "requests_ok n"
  let ?n = "evict_orphan (prune_expired_orphans E n now)"
  have "requests_ok ?n"
    using \<open>requests_ok n\<close> by (simp add: requests_ok_def)
  then have "requests_ok (store_orphan E ?n b now)"
    using queue_request_ok [of ?n E "previous_hash b" now]
      requests_ok_cong [of "store_orphan E ?n b now" "queue_missing_parent_request E ?n (previous_hash b) now"]
    by (simp add: store_orphan_def Let_def)
  with \<open>requests_ok n\<close> show ?thesis
    by (simp add: cache_orphan_block_def Let_def requests_ok_cong [of "prune_expired_orphans E n now" n])
qed

definition pool_and_requests :: "('e, 't, 'f) node_env \<Rightarrow> ('e, 'f) node \<Rightarrow> ('e, 'f) node \<Rightarrow> bool" where
  "pool_and_requests E n n' \<longleftrightarrow>
     pool_steps (env_core E) (node_mempool n) (node_mempool n') \<and> (requests_ok n \<longrightarrow> requests_ok n')"

lemma pool_and_requests_trans:
  "pool_and_requests E a b \<Longrightarrow> pool_and_requests E b c \<Longrightarrow> pool_and_requests E a c"
  by (auto simp: pool_and_requests_def)

lemma pool_and_requests_same:
  "node_mempool n' = node_mempool n \<Longrightarrow> missing_parent_requests n' = missing_parent_requests n \<Longrightarrow>
   missing_parent_request_set n' = missing_parent_request_set n \<Longrightarrow>
   missing_parent_retry_at n' = missing_parent_retry_at n \<Longrightarrow> pool_and_requests E n n'"
  using requests_ok_cong [of n' n] by (simp add: pool_and_requests_def)

lemma pool_and_requests_apply: "pool_and_requests E n (fst (apply_known_parent_block E n b now))"
  using requests_ok_cong [of "fst (apply_known_parent_block E n b now)" n]
  by (simp add: pool_and_requests_def apply_known_parent_steps)

lemma pool_and_requests_cache: "pool_and_requests E n (cache_orphan_block E n b now)"
  by (simp add: pool_and_requests_def cache_orphan_requests)

lemma process_children_steps:
  "process_children E now cs n ps = (n', ps') \<Longrightarrow> pool_and_requests E n n'"
proof (induction cs arbitrary: n ps)
  case Nil
  then show ?case by (simp add: pool_and_requests_same)
next
  case (Cons c cs)
  show ?case
  proof (cases "bt_get (orphan_blocks n) c")
    case None
    then show ?thesis using Cons by simp
  next
    case (Some x)
    let ?n1 = "n\<lparr>orphan_blocks := bt_remove c (orphan_blocks n)\<rparr>"
    obtain n2 r where ap: "apply_known_parent_block E ?n1 (orphan_block_of x) now = (n2, r)" by fastforce
    have "pool_and_requests E n ?n1" by (rule pool_and_requests_same) simp_all
    then have n2: "pool_and_requests E n n2"
      using pool_and_requests_apply [of E ?n1 "orphan_block_of x" now] by (auto simp: ap intro: pool_and_requests_trans)
    then have n3: "pool_and_requests E n (cache_orphan_block E n2 (orphan_block_of x) now)"
      using pool_and_requests_cache pool_and_requests_trans by blast
    show ?thesis
      using Cons.prems Some ap Cons.IH pool_and_requests_trans [OF n2] pool_and_requests_trans [OF n3]
      by (cases r) (auto split: if_splits)
  qed
qed

lemma process_stack_steps: "pool_and_requests E n (process_stack E now ps n)"
proof (induction E now ps n rule: process_stack.induct)
  case (1 E now n)
  then show ?case by (simp add: pool_and_requests_same)
next
  case (2 E now p ps n)
  show ?case
  proof (cases "bt_get (orphan_children_by_parent n) p")
    case None
    then show ?thesis using 2 by simp
  next
    case (Some cs)
    let ?n1 = "n\<lparr>orphan_children_by_parent := bt_remove p (orphan_children_by_parent n)\<rparr>"
    obtain n' ps' where pc: "process_children E now cs ?n1 ps = (n', ps')" by fastforce
    have "pool_and_requests E n ?n1" by (rule pool_and_requests_same) simp_all
    then show ?thesis
      using 2(2) [OF Some pc [symmetric]] process_children_steps [OF pc] Some pc
      by (auto intro: pool_and_requests_trans)
  qed
qed

lemma pool_and_requests_prune: "pool_and_requests E n (prune_expired_orphans E n now)"
  by (rule pool_and_requests_same) simp_all

lemma apply_block_steps: "pool_and_requests E n (fst (apply_block E n b now))"
proof -
  obtain n' r where ap: "apply_known_parent_block E (prune_expired_orphans E n now) b now = (n', r)" by fastforce
  have n': "pool_and_requests E n n'"
    using pool_and_requests_apply [of E "prune_expired_orphans E n now" b now] pool_and_requests_prune [of E n now]
    by (auto simp: ap intro: pool_and_requests_trans)
  then show ?thesis
    using pool_and_requests_trans [OF n' pool_and_requests_cache]
      pool_and_requests_trans [OF pool_and_requests_trans [OF n' pool_and_requests_prune] process_stack_steps]
    by (cases r) (simp_all add: apply_block_def ap process_orphans_for_parent_def del: process_stack.simps)
qed

section \<open>The node as a transition system\<close>

inductive node_step :: "('e, 't, 'f) node_env \<Rightarrow> ('e, 'f) node \<Rightarrow> ('e, 'f) node \<Rightarrow> bool" for E where
  block: "node_step E n (fst (apply_block E n b now))"
| transaction: "node_step E n (fst (submit_transaction E n tx now))"
| mine: "node_step E n (fst (mine_block E n miner ts attempts limit now))"
| drain: "node_step E n (fst (drain_missing_parent_requests_at n now))"
| retry: "node_step E n (retry_missing_parent_request E n h now)"
| flush: "node_step E n (fst (flush_to_storage E n))"
| prune: "node_step E n (n\<lparr>node_mempool := fst (prune_expired (env_core E) (node_mempool n) now)\<rparr>)"

text \<open>A node built from a genuine ledger, with the stored blocks indexed or not, and the pool the service configures.\<close>

definition node_init :: "('e, 't, 'f) node_env \<Rightarrow> ('e, 'f) node \<Rightarrow> bool" where
  "node_init E n \<longleftrightarrow> (\<exists>L st accs n0 m. with_genesis_accounts E L st accs = Some n0 \<and>
     genuine_ledger (env_core E) L \<and> pool_init m \<and>
     (n = n0\<lparr>node_mempool := m\<rparr> \<or> n = (fst (index_stored_blocks E n0))\<lparr>node_mempool := m\<rparr>))"

lemma mempool_new_init: "pool_init mempool_new"
  unfolding pool_init_def by (intro exI [of _ default_mempool_config]) (simp add: mempool_new_def with_config_def)

definition node_inv :: "('e, 't, 'f) node_env \<Rightarrow> ('e, 'f) node \<Rightarrow> bool" where
  "node_inv E n \<longleftrightarrow> orphans_inv (env_core E) n {} \<and> requests_ok n \<and>
     pool_ok (env_core E) (node_mempool n) \<and> slots_unique (node_mempool n)"

lemma pool_steps_inv:
  "pool_steps K m m' \<Longrightarrow> pool_ok K m \<and> slots_unique m \<Longrightarrow> pool_ok K m' \<and> slots_unique m'"
  by (rule node_pool.steps_inv)

lemma node_inv_pool_and_requests:
  "node_inv E n \<Longrightarrow> pool_and_requests E n n' \<Longrightarrow> orphans_inv (env_core E) n' {} \<Longrightarrow> node_inv E n'"
  using pool_steps_inv by (auto simp: node_inv_def pool_and_requests_def)

lemma apply_block_inv: "node_inv E n \<Longrightarrow> node_inv E (fst (apply_block E n b now))"
  by (rule node_inv_pool_and_requests [OF _ apply_block_steps])
    (simp_all add: node_inv_def apply_block_orphans_inv)

lemma node_inv_change:
  assumes "node_inv E n" "orphan_blocks n' = orphan_blocks n"
    and "orphan_children_by_parent n' = orphan_children_by_parent n"
    and "requests_ok n \<Longrightarrow> requests_ok n'" "pool_steps (env_core E) (node_mempool n) (node_mempool n')"
  shows "node_inv E n'"
proof (rule node_inv_pool_and_requests [OF assms(1)])
  show "pool_and_requests E n n'" using assms(4,5) by (simp add: pool_and_requests_def)
  show "orphans_inv (env_core E) n' {}"
    using assms(1) orphans_inv_cong [OF assms(2,3)] by (simp add: node_inv_def)
qed

lemma node_inv_mempool:
  "node_inv E n \<Longrightarrow> validated_step (env_core E) (node_mempool n) m \<Longrightarrow> node_inv E (n\<lparr>node_mempool := m\<rparr>)"
  by (rule node_inv_change) (auto simp: requests_ok_def)

lemma mine_block_inv:
  assumes "node_inv E n"
  shows "node_inv E (fst (mine_block E n miner ts attempts limit now))"
proof -
  let ?n = "n\<lparr>node_mempool := fst (prune_expired (env_core E) (node_mempool n) ts)\<rparr>"
  have inv: "node_inv E ?n"
    using assms by (rule node_inv_mempool) (rule validated_step.prune)
  have "fst (mine_block E n miner ts attempts limit now) = ?n \<or>
      (\<exists>b. fst (mine_block E n miner ts attempts limit now) = fst (apply_block E ?n b now))"
    by (auto simp: mine_block_def Let_def case_prod_beta split: sum.splits)
  then show ?thesis using inv apply_block_inv [OF inv] by metis
qed

lemma node_step_inv: "node_step E n n' \<Longrightarrow> node_inv E n \<Longrightarrow> node_inv E n'"
proof (induction rule: node_step.induct)
  case (transaction n tx now)
  then show ?case
    using node_inv_mempool [OF _ validated_step.submit [of "env_core E" "node_mempool n" "node_ledger n" tx now]]
    by (simp add: submit_transaction_def case_prod_beta)
next
  case (drain n now)
  show ?case
    by (rule node_inv_change [OF drain.prems _ _ drain_ok])
      (simp_all add: drain_missing_parent_requests_at_def split: prod.splits)
next
  case (retry n h now)
  show ?case
    unfolding retry_missing_parent_request_def
    by (rule node_inv_change [OF retry.prems _ _ queue_request_at_ok])
      (simp_all add: queue_missing_parent_request_at_def Let_def)
next
  case (flush n)
  show ?case
    by (rule node_inv_change [OF flush.prems])
      (simp_all add: flush_to_storage_def requests_ok_def case_prod_beta)
next
  case (prune n now)
  then show ?case by (rule node_inv_mempool) (rule validated_step.prune)
qed (simp_all add: apply_block_inv mine_block_inv)

lemma node_init_inv: "node_init E n \<Longrightarrow> node_inv E n"
proof -
  assume "node_init E n"
  then obtain L st accs n0 m where n0: "with_genesis_accounts E L st accs = Some n0" and m: "pool_init m"
    and n: "n = n0\<lparr>node_mempool := m\<rparr> \<or> n = (fst (index_stored_blocks E n0))\<lparr>node_mempool := m\<rparr>"
    by (auto simp: node_init_def)
  have inv: "node_inv E (n0\<lparr>node_mempool := m\<rparr>)"
    using n0 pool_init_ok [OF m]
    by (auto simp: with_genesis_accounts_def node_inv_def orphans_inv_def requests_ok_def bt_queue_def)
  have "node_inv E ((fst (index_stored_blocks E n0))\<lparr>node_mempool := m\<rparr>)"
    by (rule node_inv_change [OF inv])
      (simp_all add: index_stored_blocks_def requests_ok_def case_prod_beta split: sum.split)
  with inv n show ?thesis by blast
qed

interpretation running_node: invariant_system "node_init E" "node_step E" "node_inv E" for E
  by unfold_locales (auto simp: node_init_inv intro: node_step_inv)

text \<open>
  What the node promises to the components that feed it from the network: a predicate on nodes that
  every call they make keeps. Network handlers and the sync client are verified against this
  contract once; the node provides it for reachability and for the invariant.
\<close>

locale node_provider =
  fixes E :: "('e, 't, 'f) node_env" and good :: "('e, 'f) node \<Rightarrow> bool"
  assumes apply_good: "good n \<Longrightarrow> good (fst (apply_block E n b now))"
    and submit_good: "good n \<Longrightarrow> good (fst (submit_transaction E n tx now))"
    and drain_good: "good n \<Longrightarrow> good (fst (drain_missing_parent_requests_at n now))"
    and retry_good: "good n \<Longrightarrow> good (retry_missing_parent_request E n h now)"
    and flush_good: "good n \<Longrightarrow> good (fst (flush_to_storage E n))"
    and prune_good: "good n \<Longrightarrow> good (n\<lparr>node_mempool := fst (prune_expired (env_core E) (node_mempool n) now)\<rparr>)"

interpretation reached: node_provider E "reach (node_init E) (node_step E)" for E
  by unfold_locales (blast intro: reach.step node_step.intros)+

interpretation intact: node_provider E "node_inv E" for E
  by unfold_locales (blast intro: node_step_inv node_step.intros)+

section \<open>A concrete node\<close>

text \<open>
  The fork-choice index as a list of blocks: a block is accepted when it is a genesis block or its
  parent is known, and the best tip is the first block of greatest height.
\<close>

definition fork_node_of :: "core \<Rightarrow> block \<Rightarrow> fork_node" where
  "fork_node_of K b = \<lparr>fn_hash = block_hash K b, fn_height = block_height b, fn_block = b\<rparr>"

definition known :: "core \<Rightarrow> block list \<Rightarrow> hash \<Rightarrow> bool" where
  "known K bl h \<longleftrightarrow> h \<in> block_hash K ` set bl"

definition list_fork :: "core \<Rightarrow> block list fork_choice_ops" where
  "list_fork K = \<lparr>
     fc_new = [],
     fc_insert = (\<lambda>bl b. if known K bl (block_hash K b) then (bl, Err ForkDuplicateBlock)
        else if block_height b \<noteq> 0 \<and> \<not> known K bl (previous_hash b) then (bl, Err MissingParent)
        else (bl @ [b], Ok (block_hash K b))),
     fc_best_tip = (\<lambda>bl. case bl of [] \<Rightarrow> None
        | x # xs \<Rightarrow> Some (fork_node_of K (fold (\<lambda>y z. if block_height z < block_height y then y else z) xs x))),
     fc_get = (\<lambda>bl h. map_option (fork_node_of K) (find (\<lambda>b. block_hash K b = h) bl)),
     fc_contains = known K,
     fc_ancestor_hashes = (\<lambda>bl h. [h]),
     fc_branch_from_ancestor = (\<lambda>bl a t. Some [])\<rparr>"

definition sample_env :: "(mem_env, mem_env, block list) node_env" where
  "sample_env = \<lparr>env_core = sample_core, env_lmdb = mem_lmdb, env_codecs = sample_codecs,
     env_consensus = sample_consensus\<lparr>cons_difficulty := 0\<rparr>, env_fork = list_fork sample_core,
     env_is_genesis = (\<lambda>b. block_height b = 0), env_validate_checkpoint = (\<lambda>_ _. True),
     env_genesis_block = genesis, env_GENESIS_HASH = [3]\<rparr>"

definition genesis_ledger :: ledger where
  "genesis_ledger = \<lparr>ledger_accounts = [([1], stored_account)], ledger_chain = \<lparr>chain_blocks = [(0, genesis)]\<rparr>\<rparr>"

definition sample_node :: "(mem_env, block list) node" where
  "sample_node = \<lparr>node_ledger = genesis_ledger, node_mempool = mempool_new, node_storage = env0,
     node_cache = from_ledger sample_core genesis_ledger, fork_choice = [genesis],
     genesis_accounts = [], orphan_blocks = [], orphan_children_by_parent = [],
     missing_parent_requests = [], missing_parent_request_set = {}, missing_parent_retry_at = []\<rparr>"

lemma sample_env_simps [simp]:
  "env_core sample_env = sample_core" "env_fork sample_env = list_fork sample_core"
  "env_lmdb sample_env = mem_lmdb" "env_codecs sample_env = sample_codecs"
  by (simp_all add: sample_env_def)

lemma genesis_ledger_genuine: "genuine_ledger sample_core genesis_ledger"
  by (simp add: genuine_ledger_def ledger_typed_def rebuilds_def accounts_ok_def bt_wf_def genesis_ledger_def
      stored_account_def sample_core_def genesis_def sample_block_def)

lemma stored_ledger_genuine: "genuine_ledger sample_core stored_ledger"
  using stored_ledger_rebuilds
  by (simp add: genuine_ledger_def ledger_typed_def accounts_ok_def bt_wf_def stored_ledger_def stored_account_def)

lemma sample_node_init: "node_init sample_env sample_node"
  unfolding node_init_def
  by (intro exI [of _ genesis_ledger] exI [of _ env0] exI [of _ "[]"] exI [of _ sample_node] exI [of _ mempool_new])
    (use genesis_ledger_genuine in \<open>simp add: mempool_new_init with_genesis_accounts_def sample_node_def
      genesis_ledger_def list_fork_def known_def genesis_def sample_block_def\<close>)

lemma sample_node_reach: "reach (node_init sample_env) (node_step sample_env) sample_node"
  using sample_node_init by (rule reach.start)

section \<open>Properties\<close>

text \<open>
  C16. Whatever the node has handled, it holds at most 1024 orphans, each under its own hash and listed
  exactly once, under its parent; its missing-parent queue has no duplicates, and the queue, the
  request set and the retry times name the same hashes; its transaction pool is within its limits
  and has one entry per sender and nonce.
\<close>

theorem reachable_node_ok:
  assumes "reach (node_init E) (node_step E) n"
  shows "length (orphan_blocks n) \<le> 1024 \<and>
    (\<forall>p h. count_list (bt_queue (orphan_children_by_parent n) p) h =
       (case bt_get (orphan_blocks n) h of
          None \<Rightarrow> 0 | Some x \<Rightarrow> if previous_hash (orphan_block_of x) = p then 1 else 0)) \<and>
    (\<forall>h x. bt_get (orphan_blocks n) h = Some x \<longrightarrow> h = block_hash (env_core E) (orphan_block_of x)) \<and>
    distinct (missing_parent_requests n) \<and> set (missing_parent_requests n) = missing_parent_request_set n \<and>
    set (bt_keys (missing_parent_retry_at n)) = missing_parent_request_set n \<and>
    pool_ok (env_core E) (node_mempool n) \<and> slots_unique (node_mempool n)"
proof -
  have inv: "node_inv E n" by (rule running_node.reach_inv [OF assms])
  then have o: "orphans_inv (env_core E) n {}" by (simp add: node_inv_def)
  note oD = orphans_invD [OF o]
  have "count_list (bt_queue (orphan_children_by_parent n) p) h =
       (case bt_get (orphan_blocks n) h of
          None \<Rightarrow> 0 | Some x \<Rightarrow> if previous_hash (orphan_block_of x) = p then 1 else 0)" for p h
  proof -
    have "distinct (bt_queue (orphan_children_by_parent n) p)"
      using oD(7) [of p] by (cases "bt_get (orphan_children_by_parent n) p") (auto simp: bt_queue_def)
    then have "count_list (bt_queue (orphan_children_by_parent n) p) h =
        (if h \<in> set (bt_queue (orphan_children_by_parent n) p) then 1 else 0)"
      by (rule distinct_count_list)
    moreover have "h \<in> set (bt_queue (orphan_children_by_parent n) p) \<longleftrightarrow>
        (\<exists>x. bt_get (orphan_blocks n) h = Some x \<and> previous_hash (orphan_block_of x) = p)"
      using oD(5,6) by blast
    ultimately show ?thesis by (simp split: option.split)
  qed
  then show ?thesis
    using inv oD(3,4) by (simp add: node_inv_def requests_ok_def MAX_ORPHAN_BLOCKS_def)
qed

theorem reachable_node_ok_witness:
  "length (orphan_blocks (fst (apply_block sample_env sample_node (sample_block 2 [8] [9] []) 100))) \<le> 1024 \<and>
   bt_get (orphan_blocks (fst (apply_block sample_env sample_node (sample_block 2 [8] [9] []) 100))) [9] \<noteq> None"
proof -
  let ?n = "fst (apply_block sample_env sample_node (sample_block 2 [8] [9] []) 100)"
  have "reach (node_init sample_env) (node_step sample_env) ?n"
    using sample_node_reach node_step.block by (rule reach.step)
  from reachable_node_ok [OF this] have "length (orphan_blocks ?n) \<le> 1024" by blast
  moreover have "bt_get (orphan_blocks ?n) [9] \<noteq> None"
    by (simp add: apply_block_def apply_known_parent_block_def Let_def validate_block_for_known_parent_def
        prune_expired_orphans_def sample_node_def sample_block_def sample_env_def list_fork_def known_def
        genesis_def sample_core_def cache_orphan_block_def orphan_is_too_far_ahead_def genesis_ledger_def
        MAX_ORPHAN_HEIGHT_DISTANCE_def saturating_add_def bt_contains_def store_orphan_def evict_orphan_def
        MAX_ORPHAN_BLOCKS_def queue_missing_parent_request_def queue_missing_parent_request_at_def)
  ultimately show ?thesis by simp
qed

text \<open>
  Draining the missing-parent queue returns, in queue order, exactly the hashes whose retry time
  has come and forgets them; the others stay queued in order, each with its later retry time.
\<close>

lemma drain_missing_parent_requests_correct:
  assumes "requests_ok n" "drain_missing_parent_requests_at n now = (n', ready)"
  shows "ready = filter (due (missing_parent_retry_at n) now) (missing_parent_requests n) \<and>
    missing_parent_requests n' = filter (\<lambda>h. \<not> due (missing_parent_retry_at n) now h) (missing_parent_requests n) \<and>
    missing_parent_request_set n' = missing_parent_request_set n - set ready \<and>
    (\<forall>h. bt_get (missing_parent_retry_at n') h = (if h \<in> set ready then None else bt_get (missing_parent_retry_at n) h)) \<and>
    (\<forall>h. h \<in> set (missing_parent_requests n') \<longrightarrow> (\<exists>t > now. bt_get (missing_parent_retry_at n') h = Some t))"
proof -
  let ?r = "missing_parent_retry_at n" and ?q = "missing_parent_requests n"
  have dis: "distinct ?q" and wf: "bt_wf ?r" using assms(1) by (simp_all add: requests_ok_def)
  have ready: "ready = filter (due ?r now) ?q"
    and n': "n' = n\<lparr>missing_parent_requests := filter (\<lambda>h. \<not> due ?r now h) ?q,
      missing_parent_request_set := missing_parent_request_set n - set (filter (due ?r now) ?q),
      missing_parent_retry_at := filter (\<lambda>e. fst e \<notin> set (filter (due ?r now) ?q)) ?r\<rparr>"
    using assms(2) by (auto simp: drain_missing_parent_requests_at_def drain_loop_spec [OF dis])
  have get: "bt_get (missing_parent_retry_at n') h = (if h \<in> set ready then None else bt_get ?r h)" for h
    using bt_get_retain [OF wf, of "\<lambda>k _. k \<notin> set ready" h]
    by (simp add: n' ready bt_retain_def split: option.splits)
  have "\<exists>t > now. bt_get (missing_parent_retry_at n') h = Some t" if "h \<in> set (missing_parent_requests n')" for h
  proof -
    have "\<not> due ?r now h" using that by (simp add: n')
    then show ?thesis using get [of h] ready by (auto simp: due_def split: option.splits)
  qed
  then show ?thesis using ready n' get by simp
qed

text \<open>
  A block that fails validation against its known parent, or whose state does not check, is
  refused with that error and changes nothing but the expiry of orphans: ledger, pool, store, cache
  and fork-choice index are as before.
\<close>

lemma invalid_block_rejected:
  assumes "res_bind (validate_block_for_known_parent E (prune_expired_orphans E n now) b now)
      (\<lambda>_. validate_block_state_for_known_parent E (prune_expired_orphans E n now) b) = Err e"
    and "e \<notin> {ForkChoiceError MissingParent, ForkChoiceError ForkDuplicateBlock, LedgerError LedgerDuplicateBlock}"
    and "apply_block E n b now = (n', r)"
  shows "r = Err e \<and> n' = prune_expired_orphans E n now \<and> node_ledger n' = node_ledger n \<and>
    node_mempool n' = node_mempool n \<and> node_storage n' = node_storage n \<and> node_cache n' = node_cache n \<and>
    fork_choice n' = fork_choice n"
  using assms by (auto simp: apply_block_def apply_known_parent_block_def Let_def)

lemma tip_block_effect:
  assumes "apply_known_parent_block E n b now = (n', Ok ())" "extends_active_tip E n b"
    and "fc_insert (env_fork E) (fork_choice n) b = (fc, Ok h)"
    and "map_option fn_hash (fc_best_tip (env_fork E) fc) = Some h"
  shows "ledger_apply_block (env_core E) (node_ledger n) b = Ok (node_ledger n') \<and>
    state_root_after_block (env_core E) (node_ledger n) b = Ok (block_state_root b) \<and>
    (env_is_genesis E b \<or> block_state_root b \<noteq> zero_hash (env_core E)) \<and>
    node_mempool n' = remove_confirmed (env_core E) (node_mempool n) b \<and>
    node_cache n' = refresh_cache E (node_ledger n') b (node_cache n) \<and>
    fork_choice n' = fc \<and>
    save_ledger (env_core E) (env_lmdb E) (env_codecs E) (node_storage n) (node_ledger n') = (node_storage n', Ok ())"
proof -
  have tip: "extends_active_tip E (n\<lparr>fork_choice := fc\<rparr>) b"
    using assms(2) by (simp add: extends_active_tip_def)
  have "validate_block_state_for_known_parent E n b = Ok ()"
    using assms(1) by (auto simp: apply_known_parent_block_def Let_def res_bind_Ok_iff split: sum.splits)
  then have root: "state_root_after_block (env_core E) (node_ledger n) b = Ok (block_state_root b) \<and>
      (env_is_genesis E b \<or> block_state_root b \<noteq> zero_hash (env_core E))"
    using assms(2)
    by (auto simp: validate_block_state_for_known_parent_def validate_canonical_state_root_def res_bind_Ok_iff
        map_err_Ok_iff split: if_splits)
  obtain z where z: "fc_best_tip (env_fork E) fc = Some z" "fn_hash z = h" using assms(4) by auto
  have "res_bind (validate_block_for_known_parent E n b now) (\<lambda>_. validate_block_state_for_known_parent E n b) = Ok ()"
    using assms(1) by (auto simp: apply_known_parent_block_def Let_def split: sum.splits)
  then have "\<exists>L st. ledger_apply_block (env_core E) (node_ledger n) b = Ok L \<and>
      save_ledger (env_core E) (env_lmdb E) (env_codecs E) (node_storage n) L = (st, Ok ()) \<and>
      n' = n\<lparr>fork_choice := fc, node_ledger := L, node_mempool := remove_confirmed (env_core E) (node_mempool n) b,
        node_cache := refresh_cache E L b (node_cache n), node_storage := st\<rparr>"
    using assms(1) tip z
    by (auto simp: apply_known_parent_block_def Let_def assms(3) map_err_Ok_iff case_prod_beta prod_eq_iff split: sum.splits)
  with root show ?thesis by auto
qed

text \<open>
  C15. A block that extends the active tip and becomes the best tip advances every component
  together: the ledger is the old one with the block applied, the block's state root is the ledger's
  prediction and not the zero hash (genesis apart), its transactions leave the pool, and the new
  ledger is what was saved.
\<close>

theorem tip_block_applied:
  assumes "apply_known_parent_block E n b now = (n', Ok ())" "extends_active_tip E n b"
    and "fc_insert (env_fork E) (fork_choice n) b = (fc, Ok h)"
    and "map_option fn_hash (fc_best_tip (env_fork E) fc) = Some h"
  shows "ledger_apply_block (env_core E) (node_ledger n) b = Ok (node_ledger n') \<and>
    state_root_after_block (env_core E) (node_ledger n) b = Ok (block_state_root b) \<and>
    (env_is_genesis E b \<or> block_state_root b \<noteq> zero_hash (env_core E)) \<and>
    node_mempool n' = remove_confirmed (env_core E) (node_mempool n) b \<and>
    node_cache n' = refresh_cache E (node_ledger n') b (node_cache n) \<and>
    fork_choice n' = fc \<and>
    save_ledger (env_core E) (env_lmdb E) (env_codecs E) (node_storage n) (node_ledger n') = (node_storage n', Ok ())"
  using tip_block_effect [OF assms] .

lemma apply_block_alone:
  assumes "orphan_blocks n = []" "orphan_children_by_parent n = []" "apply_known_parent_block E n b now = (n', Ok ())"
  shows "apply_block E n b now = (n', Ok ())"
proof -
  have "prune_expired_orphans E n now = n" using assms(1) by (simp add: prune_expired_orphans_def)
  moreover have "orphan_blocks n' = []" "orphan_children_by_parent n' = []"
    using apply_known_parent_frame(1,2) [of E n b now] assms by simp_all
  ultimately show ?thesis
    using assms(3) by (simp add: apply_block_def process_orphans_for_parent_def prune_expired_orphans_def)
qed

lemma sample_apply_block1:
  "apply_known_parent_block sample_env sample_node block1 100 =
     (sample_node\<lparr>fork_choice := [genesis, block1], node_ledger := stored_ledger,
        node_mempool := remove_confirmed sample_core mempool_new block1,
        node_cache := refresh_cache sample_env stored_ledger block1 (node_cache sample_node), node_storage := env2\<rparr>, Ok ())"
proof -
  have "validate_block_for_known_parent sample_env sample_node block1 100 = Ok ()"
    by (simp add: validate_block_for_known_parent_def sample_node_def sample_env_def block1_def genesis_def
        sample_block_def list_fork_def sample_core_def sample_consensus_def)
  moreover have tip: "extends_active_tip sample_env sample_node block1"
    by (simp add: extends_active_tip_def sample_node_def block1_def genesis_def sample_block_def
        sample_core_def genesis_ledger_def)
  moreover have "validate_block_state_for_known_parent sample_env sample_node block1 = Ok ()"
    using tip by (simp add: validate_block_state_for_known_parent_def validate_canonical_state_root_def)
      (simp add: sample_core_def sample_env_def block1_def sample_block_def zero_hash_def)
  moreover have "fc_insert (list_fork sample_core) [genesis] block1 = ([genesis, block1], Ok [4])"
    "map_option fn_hash (fc_best_tip (list_fork sample_core) [genesis, block1]) = Some [4]"
    by (simp_all add: list_fork_def known_def block1_def genesis_def sample_block_def sample_core_def fork_node_of_def)
  moreover have "ledger_apply_block sample_core genesis_ledger block1 = Ok stored_ledger"
    by (simp add: sample_core_def genesis_ledger_def stored_ledger_def block1_def sample_block_def)
  moreover have "node_ledger sample_node = genesis_ledger" "fork_choice sample_node = [genesis]"
    "node_storage sample_node = env0" "node_mempool sample_node = mempool_new"
    by (simp_all add: sample_node_def)
  ultimately show ?thesis
    by (auto simp: apply_known_parent_block_def Let_def save_stored_ledger extends_active_tip_def)
qed

theorem tip_block_applied_witness:
  "save_ledger sample_core mem_lmdb sample_codecs env0 stored_ledger = (env2, Ok ()) \<and>
   state_root_after_block sample_core genesis_ledger block1 = Ok (block_state_root block1)"
proof -
  have tip: "extends_active_tip sample_env sample_node block1"
    by (simp add: extends_active_tip_def sample_node_def block1_def genesis_def sample_block_def
        sample_core_def genesis_ledger_def)
  have fc: "fc_insert (env_fork sample_env) (fork_choice sample_node) block1 = ([genesis, block1], Ok [4])"
    "map_option fn_hash (fc_best_tip (env_fork sample_env) [genesis, block1]) = Some [4]"
    by (simp_all add: sample_node_def list_fork_def known_def block1_def genesis_def sample_block_def
        sample_core_def fork_node_of_def)
  from tip_block_applied [OF sample_apply_block1 tip fc] show ?thesis by (simp add: sample_node_def)
qed

end
