(* ===== verification/Network.thy ===== *)
theory Network
  imports Node_Properties
begin

text \<open>
  The wire protocol (\<open>src/runtime/network/message.rs\<close>, \<open>transport.rs\<close>, \<open>handler.rs\<close>, \<open>peer.rs\<close>,
  \<open>error.rs\<close>): messages, version negotiation, the envelope with its size and magic checks, the
  length-prefixed framing, and the handler that answers a message and feeds the node. The chain's
  parameters and the Borsh encoding of the envelope are parameters. A stream is any pair of
  \<open>read_exact\<close> and \<open>write_all\<close>; the standard library's reader over a byte slice and writer into a
  byte vector are the instances the framing theorem is about.
\<close>

section \<open>Messages\<close>

record peer_info =
  peer_address :: string

record tip_info =
  ti_height :: u64
  ti_hash :: hash

record version_info =
  vi_protocol_version :: u8
  vi_chain_id :: u16
  vi_chain_name :: string
  vi_protocol_stage :: string
  vi_network_magic :: bytes
  vi_tip :: "tip_info option"

datatype reject_reason = ProtocolVersionMismatch | ChainMismatch | NetworkMismatch | InvalidMessage

datatype network_message =
    Version version_info
  | VerAck version_info
  | Reject reject_reason string
  | Ping u64
  | Pong u64
  | GetTip
  | Tip tip_info
  | GetBlockByHeight u64
  | GetBlockByHash hash
  | Block block
  | Transaction signed_transaction
  | GetPeers
  | Peers "peer_info list"

record network_envelope =
  magic :: bytes
  message :: network_message

datatype network_error =
    MessageTooLarge
  | NodeFailure node_error
  | NetworkIo io_error
  | NetworkSerialization io_error

text \<open>\<open>CURRENT_CHAIN_PARAMS\<close> of the protocol crate.\<close>

record chain_params =
  protocol_version :: u8
  chain_id :: u16
  chain_name :: string
  protocol_stage :: string
  network_magic :: bytes

definition version_local :: "chain_params \<Rightarrow> tip_info option \<Rightarrow> version_info" where
  "version_local Q tip = \<lparr>vi_protocol_version = protocol_version Q, vi_chain_id = chain_id Q,
     vi_chain_name = chain_name Q, vi_protocol_stage = protocol_stage Q,
     vi_network_magic = network_magic Q, vi_tip = tip\<rparr>"

definition validate_compatibility :: "chain_params \<Rightarrow> version_info \<Rightarrow> reject_reason + unit" where
  "validate_compatibility Q v =
     (if vi_network_magic v \<noteq> network_magic Q then Err NetworkMismatch
      else if vi_chain_id v \<noteq> chain_id Q \<or> vi_chain_name v \<noteq> chain_name Q \<or> vi_protocol_stage v \<noteq> protocol_stage Q
      then Err ChainMismatch
      else if vi_protocol_version v \<noteq> protocol_version Q then Err ProtocolVersionMismatch
      else Ok ())"

definition to_envelope :: "chain_params \<Rightarrow> network_message \<Rightarrow> network_envelope" where
  "to_envelope Q m = \<lparr>magic = network_magic Q, message = m\<rparr>"

definition to_bytes :: "network_envelope codec \<Rightarrow> network_envelope \<Rightarrow> network_error + bytes" where
  "to_bytes c v =
     res_bind (map_err NetworkSerialization (enc c v)) (\<lambda>bs.
     if unat MAX_NETWORK_MESSAGE_SIZE < length bs then Err MessageTooLarge else Ok bs)"

definition from_bytes :: "chain_params \<Rightarrow> network_envelope codec \<Rightarrow> bytes \<Rightarrow> network_error + network_envelope" where
  "from_bytes Q c bs =
     (if unat MAX_NETWORK_MESSAGE_SIZE < length bs then Err MessageTooLarge
      else res_bind (map_err NetworkSerialization (dec c bs)) (\<lambda>v.
        if magic v \<noteq> network_magic Q then Err (NetworkSerialization (InvalidData ''network magic mismatch''))
        else Ok v))"

section \<open>Framing\<close>

definition MESSAGE_LENGTH_SIZE :: nat where "MESSAGE_LENGTH_SIZE = 4"

definition write_message ::
  "('w \<Rightarrow> bytes \<Rightarrow> 'w \<times> (io_error + unit)) \<Rightarrow> network_envelope codec \<Rightarrow> 'w \<Rightarrow> network_envelope \<Rightarrow>
   'w \<times> (network_error + unit)" where
  "write_message write_all c w v =
     (case to_bytes c v of
        Inl e \<Rightarrow> (w, Err e)
      | Inr bs \<Rightarrow>
          if 2 ^ 32 \<le> length bs then (w, Err MessageTooLarge)
          else (case write_all w (u32_to_be_bytes (of_nat (length bs))) of
            (w', Inl e) \<Rightarrow> (w', Err (NetworkIo e))
          | (w', Inr _) \<Rightarrow> (case write_all w' bs of (w'', r) \<Rightarrow> (w'', map_err NetworkIo r))))"

definition read_message ::
  "('r \<Rightarrow> nat \<Rightarrow> 'r \<times> (io_error + bytes)) \<Rightarrow> chain_params \<Rightarrow> network_envelope codec \<Rightarrow> 'r \<Rightarrow>
   'r \<times> (network_error + network_envelope)" where
  "read_message read_exact Q c r =
     (case read_exact r MESSAGE_LENGTH_SIZE of
        (r', Inl e) \<Rightarrow> (r', Err (NetworkIo e))
      | (r', Inr length_bytes) \<Rightarrow>
          let len = unat (u32_from_be_bytes length_bytes) in
          if unat MAX_NETWORK_MESSAGE_SIZE < len then (r', Err MessageTooLarge)
          else (case read_exact r' len of
            (r'', Inl e) \<Rightarrow> (r'', Err (NetworkIo e))
          | (r'', Inr bs) \<Rightarrow> (r'', from_bytes Q c bs)))"

text \<open>\<open>Write for Vec<u8>\<close> and \<open>Read for &[u8]\<close>.\<close>

definition vec_write_all :: "bytes \<Rightarrow> bytes \<Rightarrow> bytes \<times> (io_error + unit)" where
  "vec_write_all w bs = (w @ bs, Ok ())"

definition slice_read_exact :: "bytes \<Rightarrow> nat \<Rightarrow> bytes \<times> (io_error + bytes)" where
  "slice_read_exact r k = (if length r < k then ([], Err (OtherIoError 0)) else (drop k r, Ok (take k r)))"

text \<open>\<open>Peer\<close>: a stream with the information on the peer at its other end.\<close>

record 's network_peer =
  np_stream :: 's
  np_info :: peer_info

definition network_peer_new :: "'s \<Rightarrow> peer_info \<Rightarrow> 's network_peer" where
  "network_peer_new stream info = \<lparr>np_stream = stream, np_info = info\<rparr>"

definition peer_send_envelope ::
  "('s \<Rightarrow> bytes \<Rightarrow> 's \<times> (io_error + unit)) \<Rightarrow> network_envelope codec \<Rightarrow> 's network_peer \<Rightarrow> network_envelope \<Rightarrow>
   's network_peer \<times> (network_error + unit)" where
  "peer_send_envelope write_all c p v =
     (case write_message write_all c (np_stream p) v of (s, r) \<Rightarrow> (p\<lparr>np_stream := s\<rparr>, r))"

definition peer_send ::
  "('s \<Rightarrow> bytes \<Rightarrow> 's \<times> (io_error + unit)) \<Rightarrow> chain_params \<Rightarrow> network_envelope codec \<Rightarrow> 's network_peer \<Rightarrow> network_message \<Rightarrow>
   's network_peer \<times> (network_error + unit)" where
  "peer_send write_all Q c p m =
     (case write_message write_all c (np_stream p) (to_envelope Q m) of (s, r) \<Rightarrow> (p\<lparr>np_stream := s\<rparr>, r))"

definition peer_recv ::
  "('s \<Rightarrow> nat \<Rightarrow> 's \<times> (io_error + bytes)) \<Rightarrow> chain_params \<Rightarrow> network_envelope codec \<Rightarrow> 's network_peer \<Rightarrow>
   's network_peer \<times> (network_error + network_envelope)" where
  "peer_recv read_exact Q c p =
     (case read_message read_exact Q c (np_stream p) of (s, r) \<Rightarrow> (p\<lparr>np_stream := s\<rparr>, r))"

section \<open>The handler\<close>

definition node_tip :: "('e, 't, 'f) node_env \<Rightarrow> ('e, 'f) node \<Rightarrow> tip_info option" where
  "node_tip E n =
     (case (ledger_tip_height (env_core E) (node_ledger n), ledger_tip_hash (env_core E) (node_ledger n)) of
        (Some h, Some bh) \<Rightarrow> Some \<lparr>ti_height = h, ti_hash = bh\<rparr>
      | _ \<Rightarrow> None)"

definition local_version :: "chain_params \<Rightarrow> ('e, 't, 'f) node_env \<Rightarrow> ('e, 'f) node \<Rightarrow> version_info" where
  "local_version Q E n = version_local Q (node_tip E n)"

fun handle_message ::
  "chain_params \<Rightarrow> ('e, 't, 'f) node_env \<Rightarrow> u64 \<Rightarrow> ('e, 'f) node \<Rightarrow> network_message \<Rightarrow>
   ('e, 'f) node \<times> (network_error + network_message option)" where
  "handle_message Q E now n (Version v) =
     (n, case validate_compatibility Q v of
           Inr _ \<Rightarrow> Ok (Some (VerAck (local_version Q E n)))
         | Inl reason \<Rightarrow> Ok (Some (Reject reason ''incompatible peer version'')))"
| "handle_message Q E now n (VerAck _) = (n, Ok None)"
| "handle_message Q E now n (Reject _ _) = (n, Ok None)"
| "handle_message Q E now n (Ping nonce) = (n, Ok (Some (Pong nonce)))"
| "handle_message Q E now n (Pong _) = (n, Ok None)"
| "handle_message Q E now n GetTip = (n, Ok (map_option Tip (node_tip E n)))"
| "handle_message Q E now n (Tip _) = (n, Ok None)"
| "handle_message Q E now n (GetBlockByHeight h) =
     (n, Ok (map_option Block (ledger_block (env_core E) (node_ledger n) h)))"
| "handle_message Q E now n (GetBlockByHash h) = (n, Ok (map_option Block (block_by_hash (node_cache n) h)))"
| "handle_message Q E now n (Block b) =
     (case apply_block E n b now of (n', r) \<Rightarrow> (n', res_bind (map_err NodeFailure r) (\<lambda>_. Ok None)))"
| "handle_message Q E now n (Transaction t) =
     (case submit_transaction E n t now of (n', r) \<Rightarrow> (n', res_bind (map_err NodeFailure r) (\<lambda>_. Ok None)))"
| "handle_message Q E now n GetPeers = (n, Ok (Some (Peers [])))"
| "handle_message Q E now n (Peers _) = (n, Ok None)"

section \<open>Properties\<close>

text \<open>
  C36. Framing round trip: a message written to a byte stream is read back unchanged, and exactly its
  bytes are consumed, so that what follows it in the stream is left for the next read.
\<close>

theorem read_write_message:
  assumes "codec_ok c" "magic v = network_magic Q" "write_message vec_write_all c w v = (w', Ok ())"
  shows "\<exists>frame. w' = w @ frame \<and>
    (\<forall>rest. read_message slice_read_exact Q c (frame @ rest) = (rest, Ok v))"
proof -
  obtain bs where bs: "enc c v = Ok bs" "length bs \<le> unat MAX_NETWORK_MESSAGE_SIZE" "length bs < 2 ^ 32"
    "w' = w @ u32_to_be_bytes (of_nat (length bs)) @ bs"
    using assms(3)
    by (auto simp: write_message_def to_bytes_def vec_write_all_def res_bind_Ok_iff map_err_Ok_iff not_less
        split: sum.splits if_splits)
  have "dec c bs = Ok v" using assms(1) bs(1) by (simp add: codec_ok_def)
  then have "from_bytes Q c bs = Ok v" using bs(2) assms(2) by (simp add: from_bytes_def)
  moreover have "unat (of_nat (length bs) :: u32) = length bs" using bs(3) by (simp add: unat_of_nat)
  ultimately have "read_message slice_read_exact Q c ((u32_to_be_bytes (of_nat (length bs)) @ bs) @ rest) = (rest, Ok v)" for rest
    using bs(2) by (simp add: read_message_def slice_read_exact_def MESSAGE_LENGTH_SIZE_def)
  with bs(4) show ?thesis by blast
qed

definition sample_params :: chain_params where
  "sample_params = \<lparr>protocol_version = 1, chain_id = 7, chain_name = ''c'', protocol_stage = ''s'', network_magic = [1, 2, 3, 4]\<rparr>"

theorem read_write_message_witness:
  "\<exists>frame. fst (write_message vec_write_all (table_codec [to_envelope sample_params GetTip]) [] (to_envelope sample_params GetTip)) = frame \<and>
     read_message slice_read_exact sample_params (table_codec [to_envelope sample_params GetTip]) (frame @ [9]) =
       ([9], Ok (to_envelope sample_params GetTip))"
proof -
  have "write_message vec_write_all (table_codec [to_envelope sample_params GetTip]) [] (to_envelope sample_params GetTip) =
      (u32_to_be_bytes 1 @ [0], Ok ())"
    by (simp add: write_message_def to_bytes_def table_codec_def vec_write_all_def MAX_NETWORK_MESSAGE_SIZE_def)
  from read_write_message [OF table_codec_ok _ this] this show ?thesis
    by (fastforce simp: to_envelope_def)
qed

text \<open>
  C37. Size limit: no reader is made to buffer more than the maximal message size. Whatever the
  stream holds, a frame longer than the limit is refused after its four length bytes, and a message
  that is delivered had an encoding within the limit and the chain's magic.
\<close>

theorem read_message_bounded:
  assumes "read_message slice_read_exact Q c r = (r', res)"
  shows "(4 \<le> length r \<and> 8 * 1024 * 1024 < be_value (take 4 r) \<longrightarrow> res = Err MessageTooLarge \<and> r' = drop 4 r) \<and>
    (\<forall>v. res = Ok v \<longrightarrow> magic v = network_magic Q \<and> length r - length r' \<le> 4 + 8 * 1024 * 1024)"
proof -
  have max: "unat MAX_NETWORK_MESSAGE_SIZE = 8 * 1024 * 1024" by (simp add: MAX_NETWORK_MESSAGE_SIZE_def)
  have len: "unat (u32_from_be_bytes (take 4 r)) = be_value (take 4 r)" if "4 \<le> length r"
  proof -
    have "length (take 4 r) = 4" using that by simp
    with be_value_bound [of "take 4 r"] have "be_value (take 4 r) < 256 ^ 4" by simp
    then show ?thesis by (simp add: u32_from_be_bytes_def unat_of_nat)
  qed
  show ?thesis
    using assms len
    by (auto simp: read_message_def slice_read_exact_def MESSAGE_LENGTH_SIZE_def Let_def max from_bytes_def
        res_bind_Ok_iff map_err_Ok_iff not_less split: if_splits)
qed

theorem read_message_bounded_witness:
  "fst (read_message slice_read_exact sample_params (table_codec []) [255, 0, 0, 0, 5]) = [5]"
  using read_message_bounded [where Q = sample_params and c = "table_codec []" and r = "[255, 0, 0, 0, 5]",
      OF prod.collapse [symmetric]]
  by (simp add: be_value_def)

context node_provider begin

lemma handle_message_good: "good n \<Longrightarrow> good (fst (handle_message Q E now n m))"
proof (cases m)
  case (Block b)
  then show "good n \<Longrightarrow> ?thesis" using apply_good [of n b now] by (simp add: case_prod_beta)
next
  case (Transaction t)
  then show "good n \<Longrightarrow> ?thesis" using submit_good [of n t now] by (simp add: case_prod_beta)
qed simp_all

end

text \<open>
  Whatever a peer sends, handling it keeps the node in the states it can reach by itself, so the
  invariants of a running node survive every message; only block and transaction messages change it.
\<close>

lemma handle_message_safe:
  assumes "reach (node_init E) (node_step E) n"
  shows "reach (node_init E) (node_step E) (fst (handle_message Q E now n m)) \<and>
    ((\<forall>b. m \<noteq> Block b) \<and> (\<forall>t. m \<noteq> Transaction t) \<longrightarrow> fst (handle_message Q E now n m) = n)"
proof
  show "reach (node_init E) (node_step E) (fst (handle_message Q E now n m))"
    by (rule reached.handle_message_good [OF assms])
  show "(\<forall>b. m \<noteq> Block b) \<and> (\<forall>t. m \<noteq> Transaction t) \<longrightarrow> fst (handle_message Q E now n m) = n"
    by (cases m) simp_all
qed

end
