(* ===== verification/Gossip.thy ===== *)
theory Gossip
  imports Network
begin

text \<open>
  Gossip (\<open>src/gossip.rs\<close>): the bounded memory of hashes already seen, and the broadcast of a message
  to the known peers and to the inbound connections. Connections are an abstract type \<open>'c\<close> with the
  calls that open one and send on it; a lock that another thread poisoned is a flag of the call
  (the code then reports or skips). Peer maps are association lists, so that the iteration order of
  the hash map is the order of the list.
\<close>

section \<open>Deduplication\<close>

record gossip_dedupe =
  capacity :: nat
  seen_blocks :: "hash set"
  block_order :: "hash list"
  seen_transactions :: "hash set"
  transaction_order :: "hash list"

definition dedupe_new :: "nat \<Rightarrow> gossip_dedupe" where
  "dedupe_new cap = \<lparr>capacity = cap, seen_blocks = {}, block_order = [], seen_transactions = {}, transaction_order = []\<rparr>"

text \<open>
  The eviction loop. With an empty order it would spin for ever while the set is too large, which
  is the value \<open>None\<close>; \<open>mark_seen_window\<close> shows that this does not happen.
\<close>

fun evict :: "nat \<Rightarrow> hash set \<Rightarrow> hash list \<Rightarrow> (hash set \<times> hash list) option" where
  "evict cap seen [] = (if cap < card seen then None else Some (seen, []))"
| "evict cap seen (x # order) = (if cap < card seen then evict cap (seen - {x}) order else Some (seen, x # order))"

definition mark_seen :: "nat \<Rightarrow> hash set \<Rightarrow> hash list \<Rightarrow> hash \<Rightarrow> ((hash set \<times> hash list) \<times> bool) option" where
  "mark_seen cap seen order v =
     (if v \<in> seen then Some ((seen, order), False)
      else if cap = 0 then Some ((seen, order), True)
      else map_option (\<lambda>s. (s, True)) (evict cap (insert v seen) (order @ [v])))"

definition mark_block_seen :: "gossip_dedupe \<Rightarrow> hash \<Rightarrow> (gossip_dedupe \<times> bool) option" where
  "mark_block_seen g h =
     map_option (\<lambda>((s, ord), r). (g\<lparr>seen_blocks := s, block_order := ord\<rparr>, r))
       (mark_seen (capacity g) (seen_blocks g) (block_order g) h)"

definition mark_transaction_seen :: "gossip_dedupe \<Rightarrow> hash \<Rightarrow> (gossip_dedupe \<times> bool) option" where
  "mark_transaction_seen g h =
     map_option (\<lambda>((s, ord), r). (g\<lparr>seen_transactions := s, transaction_order := ord\<rparr>, r))
       (mark_seen (capacity g) (seen_transactions g) (transaction_order g) h)"

text \<open>The state as the code keeps it: the order lists the seen hashes once each, at most \<open>cap\<close> of them.\<close>

definition seen_ok :: "nat \<Rightarrow> hash set \<Rightarrow> hash list \<Rightarrow> bool" where
  "seen_ok cap seen order \<longleftrightarrow> seen = set order \<and> distinct order \<and> length order \<le> cap"

lemma evict_fits: "card seen \<le> cap \<Longrightarrow> evict cap seen order = Some (seen, order)"
  by (cases order) auto

text \<open>The specification: the window of the last \<open>cap\<close> hashes.\<close>

definition window :: "nat \<Rightarrow> hash list \<Rightarrow> hash list" where
  "window cap xs = drop (length xs - cap) xs"

text \<open>
  The memory of seen hashes is the window of the last \<open>capacity\<close> new ones: marking a hash always
  returns, says whether the hash was outside the window, and moves the window by one when it was;
  the set and the order stay consistent and bounded.
\<close>

lemma mark_seen_window:
  assumes "seen_ok cap seen order"
  shows "mark_seen cap seen order v =
      (let order' = (if v \<in> set order then order else window cap (order @ [v]))
       in Some ((set order', order'), v \<notin> set order)) \<and>
    seen_ok cap (set (if v \<in> set order then order else window cap (order @ [v])))
      (if v \<in> set order then order else window cap (order @ [v]))"
proof -
  have s: "seen = set order" "distinct order" "length order \<le> cap" using assms by (simp_all add: seen_ok_def)
  show ?thesis
  proof (cases "v \<in> set order \<or> cap = 0")
    case True
    then show ?thesis using s by (auto simp: mark_seen_def window_def seen_ok_def)
  next
    case False
    then have new: "v \<notin> set order" "0 < cap" by simp_all
    then have card: "card (insert v (set order)) = Suc (length order)" using s(2) by (simp add: distinct_card)
    have "evict cap (insert v (set order)) (order @ [v]) = Some (set (window cap (order @ [v])), window cap (order @ [v]))"
    proof (cases "length order < cap")
      case True
      then show ?thesis using card by (subst evict_fits) (simp_all add: window_def)
    next
      case False
      then have len: "length order = cap" using s(3) by simp
      then obtain x xs where x: "order = x # xs" using new(2) by (cases order) auto
      have "insert v (set order) - {x} = set (xs @ [v])" using x s(2) new(1) by auto
      moreover have "card (set (xs @ [v])) \<le> cap" using len x card_length [of "xs @ [v]"] by simp
      ultimately have "evict cap (insert v (set order) - {x}) (xs @ [v]) = Some (set (xs @ [v]), xs @ [v])"
        using evict_fits by metis
      then show ?thesis using card len x by (simp add: window_def)
    qed
    moreover have "seen_ok cap (set (window cap (order @ [v]))) (window cap (order @ [v]))"
      using s new by (auto simp: seen_ok_def window_def dest: in_set_dropD)
    ultimately show ?thesis using new s(1) by (simp add: mark_seen_def Let_def)
  qed
qed

section \<open>Broadcast\<close>

record broadcast_report =
  attempted :: nat
  sent :: nat
  failed :: nat

record 'c channel =
  connect :: "string \<Rightarrow> string + 'c"
  channel_send :: "'c \<Rightarrow> network_message \<Rightarrow> 'c \<times> (string + unit)"

type_synonym 'c connections = "(string \<times> 'c) list"

definition conn_update :: "string \<Rightarrow> 'c \<Rightarrow> 'c connections \<Rightarrow> 'c connections" where
  "conn_update a c cs = (a, c) # filter (\<lambda>e. fst e \<noteq> a) cs"

definition conn_remove :: "string \<Rightarrow> 'c connections \<Rightarrow> 'c connections" where
  "conn_remove a cs = filter (\<lambda>e. fst e \<noteq> a) cs"

text \<open>Connect when there is no connection, then send; the table keeps what the calls leave.\<close>

definition send_outbound ::
  "'c channel \<Rightarrow> network_message \<Rightarrow> string \<Rightarrow> 'c connections \<Rightarrow> 'c connections \<times> (string + unit)" where
  "send_outbound H m a cs =
     (case (case map_of cs a of Some c \<Rightarrow> Ok c | None \<Rightarrow> connect H a) of
        Inl e \<Rightarrow> (cs, Err e)
      | Inr c \<Rightarrow> (case channel_send H c m of (c', r) \<Rightarrow> (conn_update a c' cs, r)))"

definition send_inbound ::
  "'c channel \<Rightarrow> network_message \<Rightarrow> string \<Rightarrow> 'c connections \<Rightarrow> 'c connections \<times> (string + unit)" where
  "send_inbound H m a cs =
     (case map_of cs a of
        None \<Rightarrow> (cs, Err ''missing inbound connection'')
      | Some c \<Rightarrow> (case channel_send H c m of (c', r) \<Rightarrow> (conn_update a c' cs, r)))"

text \<open>One round of either loop, with the send it makes; \<open>locked\<close> is whether the lock was taken.\<close>

definition broadcast_round ::
  "(string \<Rightarrow> 'c connections \<Rightarrow> 'c connections \<times> (string + unit)) \<Rightarrow> bool \<Rightarrow> string \<Rightarrow>
   'c connections \<times> broadcast_report \<Rightarrow> 'c connections \<times> broadcast_report" where
  "broadcast_round snd_to locked a = (\<lambda>(cs, rep).
     if \<not> locked then (cs, rep\<lparr>failed := Suc (failed rep)\<rparr>)
     else case snd_to a cs of
       (cs', Inr _) \<Rightarrow> (cs', rep\<lparr>sent := Suc (sent rep)\<rparr>)
     | (cs', Inl _) \<Rightarrow> (conn_remove a cs', rep\<lparr>failed := Suc (failed rep)\<rparr>))"

definition broadcast_to_peers ::
  "'c channel \<Rightarrow> string list option \<Rightarrow> bool \<Rightarrow> bool \<Rightarrow> 'c connections \<Rightarrow> 'c connections \<Rightarrow> network_message \<Rightarrow>
   'c connections \<times> 'c connections \<times> broadcast_report" where
  "broadcast_to_peers H peers conns_ok inbound_ok conns inbound m =
     (case peers of
        None \<Rightarrow> (conns, inbound, \<lparr>attempted = 0, sent = 0, failed = 0\<rparr>)
      | Some ps \<Rightarrow>
          let (conns', rep) = fold (broadcast_round (send_outbound H m) conns_ok) ps
                (conns, \<lparr>attempted = length ps, sent = 0, failed = 0\<rparr>);
              inbound_peers = (if inbound_ok then map fst inbound else []);
              (inbound', rep') = fold (\<lambda>a (cs, rep). broadcast_round (send_inbound H m) inbound_ok a
                  (cs, rep\<lparr>attempted := Suc (attempted rep)\<rparr>))
                (filter (\<lambda>a. a \<notin> set ps) inbound_peers) (inbound, rep)
          in (conns', inbound', rep'))"

lemma broadcast_round_counts:
  "broadcast_round f l a (cs, rep) = (cs', rep') \<Longrightarrow>
   attempted rep' = attempted rep \<and> sent rep' + failed rep' = Suc (sent rep + failed rep)"
  by (auto simp: broadcast_round_def split: if_splits prod.splits sum.splits)

lemma outbound_counts:
  "fold (broadcast_round f l) ps (cs, rep) = (cs', rep') \<Longrightarrow>
   attempted rep' = attempted rep \<and> sent rep' + failed rep' = sent rep + failed rep + length ps"
proof (induction ps arbitrary: cs rep)
  case (Cons p ps)
  obtain cs1 rep1 where r: "broadcast_round f l p (cs, rep) = (cs1, rep1)" by fastforce
  with Cons show ?case using broadcast_round_counts [OF r] by fastforce
qed simp

lemma inbound_counts:
  "fold (\<lambda>a (cs, rep). broadcast_round f l a (cs, rep\<lparr>attempted := Suc (attempted rep)\<rparr>)) ps (cs, rep) = (cs', rep') \<Longrightarrow>
   attempted rep' = attempted rep + length ps \<and> sent rep' + failed rep' = sent rep + failed rep + length ps"
proof (induction ps arbitrary: cs rep)
  case (Cons p ps)
  obtain cs1 rep1 where r: "broadcast_round f l p (cs, rep\<lparr>attempted := Suc (attempted rep)\<rparr>) = (cs1, rep1)" by fastforce
  with Cons show ?case using broadcast_round_counts [OF r] by fastforce
qed simp

text \<open>
  A broadcast report adds up: every known peer and every inbound connection that is not a known
  peer is attempted once, and each attempt is counted as sent or as failed.
\<close>

lemma broadcast_report_adds_up:
  assumes "broadcast_to_peers H (Some ps) conns_ok True conns inbound m = (conns', inbound', rep)"
  shows "attempted rep = length ps + length (filter (\<lambda>a. a \<notin> set ps) (map fst inbound)) \<and>
    sent rep + failed rep = attempted rep"
proof -
  obtain rep1 where r: "fold (broadcast_round (send_outbound H m) conns_ok) ps
      (conns, \<lparr>attempted = length ps, sent = 0, failed = 0\<rparr>) = (conns', rep1)"
    "fold (\<lambda>a (cs, rep). broadcast_round (send_inbound H m) True a (cs, rep\<lparr>attempted := Suc (attempted rep)\<rparr>))
      (filter (\<lambda>a. a \<notin> set ps) (map fst inbound)) (inbound, rep1) = (inbound', rep)"
    using assms by (auto simp: broadcast_to_peers_def Let_def split: prod.splits)
  from outbound_counts [OF r(1)] inbound_counts [OF r(2)] show ?thesis by simp
qed

end
