(* ===== verification/Locks.thy ===== *)
theory Locks
  imports Prelude
begin

text \<open>
  The mutexes the threads of a running node share (\<open>src/main.rs\<close>, \<open>src/gossip.rs\<close>, \<open>src/p2p.rs\<close>), and in
  which order each thread takes them. A thread is the list of its lock operations; a guard holds its
  lock until the end of its scope, so that a function whose guard is alive while it calls another
  one gives nested operations. What the threads do to the data is the subject of \<open>Service\<close> and \<open>Rpc\<close>;
  here only taking and releasing locks is followed, for every interleaving.

  The main thread nests locks in \<open>poll_persistent_peer\<close> (connections, then node), in the status line of
  \<open>run\<close> (node, then the others) and in \<open>shutdown\<close>. Every other thread holds one lock at a time, except
  the handler of the route \<open>/status\<close>, which takes all four, the node first.
\<close>

datatype lock = NodeLock | PeersLock | ConnectionsLock | InboundLock

datatype lock_op = Acquire lock | Release lock

text \<open>The scope of a guard.\<close>

definition guarded :: "lock \<Rightarrow> lock_op list \<Rightarrow> lock_op list" where
  "guarded l ops = Acquire l # ops @ [Release l]"

section \<open>The threads\<close>

text \<open>
  \<open>poll_persistent_peer\<close> with \<open>k\<close> sections of \<open>poll_peer_connection\<close> on the node (none when the
  connection fails), and the round of \<open>sync_peers\<close> for a peer: after a success, whether the peer sent
  addresses and whether some were new; after a failure, whether the peer was dropped.
\<close>

definition poll_locks :: "nat \<Rightarrow> lock_op list" where
  "poll_locks k = guarded ConnectionsLock (concat (replicate k (guarded NodeLock [])))"

datatype sync_outcome = Answered nat bool bool | Unreachable nat bool

fun sync_peer_locks :: "sync_outcome \<Rightarrow> lock_op list" where
  "sync_peer_locks (Answered k infos changed) =
     poll_locks k @ guarded PeersLock [] @ guarded ConnectionsLock [] @
     (if infos then guarded PeersLock [] @ (if changed then guarded PeersLock [] else []) else [])"
| "sync_peer_locks (Unreachable k dropped) =
     poll_locks k @ guarded PeersLock [] @ guarded ConnectionsLock [] @
     (if dropped then guarded PeersLock [] else [])"

text \<open>
  A broadcast to known peers and inbound connections, where \<open>False\<close> is a send after which the
  connection is removed under a second guard.
\<close>

definition broadcast_locks :: "bool list \<Rightarrow> bool list \<Rightarrow> lock_op list" where
  "broadcast_locks known_sent inbound_sent =
     guarded PeersLock [] @
     concat (map (\<lambda>ok. guarded ConnectionsLock [] @ (if ok then [] else guarded ConnectionsLock [])) known_sent) @
     guarded InboundLock [] @
     concat (map (\<lambda>ok. guarded InboundLock [] @ (if ok then [] else guarded InboundLock [])) inbound_sent)"

text \<open>The gateway refresh, with peers found or not, with new ones or not; and the two checks of the peers' tips.\<close>

definition refresh_locks :: "bool \<Rightarrow> bool \<Rightarrow> lock_op list" where
  "refresh_locks found changed =
     guarded NodeLock [] @ guarded PeersLock [] @
     (if found then guarded PeersLock [] @ (if changed then guarded PeersLock [] else []) else [])"

definition tip_check_locks :: "bool \<Rightarrow> bool \<Rightarrow> lock_op list" where
  "tip_check_locks requires_sync handshake_pending =
     (if requires_sync then guarded PeersLock [] else []) @
     (if handshake_pending then [] else guarded NodeLock [] @ guarded PeersLock [])"

text \<open>
  The parts of the main thread: the preflight (refresh, then per peer the sections of its poll on the
  node), accepting connections, the synchronisation, the gateway refresh, the activity log, the mining
  decision and the round (whose second section follows a search that ended without an error), the
  broadcast, the status line and the shutdown.
\<close>

datatype main_section =
    Preflight bool bool "nat list"
  | AcceptP2p nat
  | SyncPeers "sync_outcome list"
  | RefreshGateway bool bool
  | LogActivity bool bool bool
  | MiningWaitReason bool bool bool
  | MineOnce bool
  | BroadcastBlock "bool list" "bool list"
  | StatusLine
  | Shutdown

fun main_locks :: "main_section \<Rightarrow> lock_op list" where
  "main_locks (Preflight found changed polls) =
     guarded NodeLock [] @ refresh_locks found changed @ guarded PeersLock [] @
     concat (map (\<lambda>k. concat (replicate k (guarded NodeLock [])) @ guarded PeersLock []) polls) @
     guarded PeersLock [] @ guarded NodeLock []"
| "main_locks (AcceptP2p k) = concat (replicate k (guarded InboundLock []))"
| "main_locks (SyncPeers outcomes) = guarded PeersLock [] @ concat (map sync_peer_locks outcomes)"
| "main_locks (RefreshGateway found changed) = refresh_locks found changed"
| "main_locks (LogActivity waiting_or_pending requires_sync handshake_pending) =
     guarded NodeLock [] @ guarded PeersLock [] @
     (if waiting_or_pending then [] else tip_check_locks requires_sync handshake_pending)"
| "main_locks (MiningWaitReason pending requires_sync handshake_pending) =
     guarded NodeLock [] @ (if pending then [] else tip_check_locks requires_sync handshake_pending)"
| "main_locks (MineOnce searched) = guarded NodeLock [] @ (if searched then guarded NodeLock [] else [])"
| "main_locks (BroadcastBlock known_sent inbound_sent) = broadcast_locks known_sent inbound_sent"
| "main_locks StatusLine =
     guarded NodeLock (guarded PeersLock [] @ guarded ConnectionsLock [] @ guarded InboundLock [])"
| "main_locks Shutdown = guarded NodeLock (guarded PeersLock [] @ guarded PeersLock [])"

text \<open>A thread that serves an inbound connection: per message, and at its end.\<close>

datatype handler_section = SendPeers | TakePeers bool | HandleMessage | ConnectionClosed

fun handler_locks :: "handler_section \<Rightarrow> lock_op list" where
  "handler_locks SendPeers = guarded PeersLock []"
| "handler_locks (TakePeers changed) = guarded PeersLock [] @ (if changed then guarded PeersLock [] else [])"
| "handler_locks HandleMessage = guarded NodeLock []"
| "handler_locks ConnectionClosed = guarded InboundLock []"

text \<open>
  An RPC request: the routes that read the node, \<open>/peers\<close>, the routes without state, a submission,
  accepted (with its broadcast) or not; and \<open>/status\<close>, kept apart.
\<close>

datatype rpc_section = ReadNode | ReadPeers | Stateless | SubmitRefused | SubmitAccepted "bool list" "bool list"

fun rpc_locks :: "rpc_section \<Rightarrow> lock_op list" where
  "rpc_locks ReadNode = guarded NodeLock []"
| "rpc_locks ReadPeers = guarded PeersLock []"
| "rpc_locks Stateless = []"
| "rpc_locks SubmitRefused = guarded NodeLock []"
| "rpc_locks (SubmitAccepted known_sent inbound_sent) =
     guarded NodeLock [] @ broadcast_locks known_sent inbound_sent"

definition rpc_status_locks :: "lock_op list" where
  "rpc_status_locks =
     guarded NodeLock (guarded PeersLock (guarded ConnectionsLock (guarded InboundLock [])))"

section \<open>Interleaving\<close>

text \<open>A thread holds some locks and has operations left; acquiring waits until no thread holds the lock.\<close>

type_synonym thread = "lock list \<times> lock_op list"

definition thread_of :: "lock_op list \<Rightarrow> thread" where
  "thread_of ops = ([], ops)"

definition lock_free :: "lock \<Rightarrow> thread list \<Rightarrow> bool" where
  "lock_free l s \<longleftrightarrow> list_all (\<lambda>t. l \<notin> set (fst t)) s"

inductive lock_step :: "thread list \<Rightarrow> thread list \<Rightarrow> bool" where
  acquire: "i < length s \<Longrightarrow> s ! i = (held, Acquire l # ops) \<Longrightarrow> lock_free l s \<Longrightarrow>
    lock_step s (s[i := (l # held, ops)])"
| release: "i < length s \<Longrightarrow> s ! i = (held, Release l # ops) \<Longrightarrow>
    lock_step s (s[i := (remove1 l held, ops)])"

inductive_cases lock_stepE: "lock_step s t"

definition finished :: "thread list \<Rightarrow> bool" where
  "finished s \<longleftrightarrow> list_all (\<lambda>t. snd t = []) s"

definition remaining :: "thread list \<Rightarrow> nat" where
  "remaining s = sum_list (map (\<lambda>t. length (snd t)) s)"

text \<open>The threads of a node without requests for \<open>/status\<close>: the main thread first.\<close>

definition node_threads ::
  "main_section list \<Rightarrow> handler_section list list \<Rightarrow> rpc_section list \<Rightarrow> thread list" where
  "node_threads main handlers rpcs =
     thread_of (concat (map main_locks main)) #
     map (\<lambda>hs. thread_of (concat (map handler_locks hs))) handlers @ map (\<lambda>r. thread_of (rpc_locks r)) rpcs"

section \<open>Lock disciplines\<close>

text \<open>A thread that never takes a lock it holds and releases all of them; one that holds one lock at a time.\<close>

fun well_nested :: "lock list \<Rightarrow> lock_op list \<Rightarrow> bool" where
  "well_nested held [] \<longleftrightarrow> held = []"
| "well_nested held (Acquire l # ops) \<longleftrightarrow> l \<notin> set held \<and> well_nested (l # held) ops"
| "well_nested held (Release l # ops) \<longleftrightarrow> l \<in> set held \<and> well_nested (remove1 l held) ops"

fun one_at_a_time :: "lock list \<Rightarrow> lock_op list \<Rightarrow> bool" where
  "one_at_a_time held [] \<longleftrightarrow> held = []"
| "one_at_a_time held (Acquire l # ops) \<longleftrightarrow> held = [] \<and> one_at_a_time [l] ops"
| "one_at_a_time held (Release l # ops) \<longleftrightarrow> held = [l] \<and> one_at_a_time [] ops"

lemma well_nested_append: "well_nested held xs \<Longrightarrow> well_nested [] ys \<Longrightarrow> well_nested held (xs @ ys)"
  by (induction held xs rule: well_nested.induct) auto

lemma one_at_a_time_append: "one_at_a_time held xs \<Longrightarrow> one_at_a_time [] ys \<Longrightarrow> one_at_a_time held (xs @ ys)"
  by (induction held xs rule: one_at_a_time.induct) auto

lemma one_at_a_time_concat: "(\<And>xs. xs \<in> set xss \<Longrightarrow> one_at_a_time [] xs) \<Longrightarrow> one_at_a_time [] (concat xss)"
  by (induction xss) (auto intro: one_at_a_time_append)

lemma well_nested_concat: "(\<And>xs. xs \<in> set xss \<Longrightarrow> well_nested [] xs) \<Longrightarrow> well_nested [] (concat xss)"
  by (induction xss) (auto intro: well_nested_append)

lemma one_at_a_time_guarded [simp]: "one_at_a_time [] (guarded l [])"
  by (simp add: guarded_def)

lemma one_at_a_time_well_nested: "one_at_a_time held ops \<Longrightarrow> well_nested held ops"
  by (induction held ops rule: one_at_a_time.induct) auto

lemma poll_locks_nested: "well_nested [] (poll_locks k)"
proof -
  have "well_nested [ConnectionsLock] (concat (replicate k (guarded NodeLock [])) @ [Release ConnectionsLock])"
    by (induction k) (simp_all add: guarded_def)
  then show ?thesis by (simp add: poll_locks_def guarded_def)
qed

lemma broadcast_locks_flat: "one_at_a_time [] (broadcast_locks known_sent inbound_sent)"
  by (auto simp: broadcast_locks_def intro!: one_at_a_time_append one_at_a_time_concat)

lemma refresh_locks_flat: "one_at_a_time [] (refresh_locks found changed)"
  by (simp add: refresh_locks_def one_at_a_time_append)

lemma tip_check_locks_flat: "one_at_a_time [] (tip_check_locks requires_sync handshake_pending)"
  by (simp add: tip_check_locks_def one_at_a_time_append)

lemma handler_locks_flat: "one_at_a_time [] (handler_locks h)"
  by (cases h) (auto intro: one_at_a_time_append)

lemma rpc_locks_flat: "one_at_a_time [] (rpc_locks r)"
  by (cases r) (auto intro!: one_at_a_time_append broadcast_locks_flat)

lemma guarded_nested [simp]: "well_nested [] (guarded l [])"
  by (simp add: guarded_def)

lemma sync_peer_locks_nested: "well_nested [] (sync_peer_locks r)"
  by (cases r) (auto intro!: well_nested_append poll_locks_nested)

lemmas flat_nested =
  one_at_a_time_well_nested [OF broadcast_locks_flat] one_at_a_time_well_nested [OF refresh_locks_flat]
  one_at_a_time_well_nested [OF tip_check_locks_flat]

lemma main_locks_nested: "well_nested [] (main_locks m)"
proof (cases m)
  case StatusLine
  then show ?thesis by (simp add: guarded_def)
next
  case Shutdown
  then show ?thesis by (simp add: guarded_def)
qed (auto intro!: well_nested_append well_nested_concat sync_peer_locks_nested flat_nested)

section \<open>Progress\<close>

text \<open>The first thread may nest locks, the others hold one at a time.\<close>

definition disciplined :: "thread list \<Rightarrow> bool" where
  "disciplined s \<longleftrightarrow> s \<noteq> [] \<and> well_nested (fst (hd s)) (snd (hd s)) \<and>
     (\<forall>t \<in> set (tl s). one_at_a_time (fst t) (snd t))"

lemma node_threads_disciplined: "disciplined (node_threads main handlers rpcs)"
  by (auto simp: disciplined_def node_threads_def thread_of_def rpc_locks_flat
      intro!: well_nested_concat main_locks_nested one_at_a_time_concat handler_locks_flat)

lemma disciplined_step:
  assumes "disciplined s" "lock_step s t"
  shows "disciplined t"
proof -
  obtain m os where s: "s = m # os" using assms(1) by (cases s) (auto simp: disciplined_def)
  have upd: "disciplined (s[i := t'])"
    if "i = 0 \<Longrightarrow> well_nested (fst t') (snd t')" "i \<noteq> 0 \<Longrightarrow> one_at_a_time (fst t') (snd t')" for i t'
    using that assms(1) by (cases i) (auto simp: s disciplined_def dest!: set_update_subset_insert [THEN subsetD])
  have thr: "i = 0 \<Longrightarrow> well_nested (fst (s ! i)) (snd (s ! i))" "i \<noteq> 0 \<Longrightarrow> one_at_a_time (fst (s ! i)) (snd (s ! i))"
    if "i < length s" for i
    using assms(1) that by (auto simp: s disciplined_def nth_Cons' )
  show ?thesis using assms(2)
  proof cases
    case (acquire i held l ops)
    then show ?thesis using thr [of i] by (auto intro!: upd)
  next
    case (release i held l ops)
    then show ?thesis using thr [of i] by (auto intro!: upd)
  qed
qed

interpretation running_threads: invariant_system
  "\<lambda>s. \<exists>main handlers rpcs. s = node_threads main handlers rpcs" lock_step disciplined
  by unfold_locales (auto simp: node_threads_disciplined intro: disciplined_step)

lemma one_at_a_time_release: "one_at_a_time held ops \<Longrightarrow> held \<noteq> [] \<Longrightarrow> \<exists>l rest. held = [l] \<and> ops = Release l # rest"
  by (cases "(held, ops)" rule: one_at_a_time.cases) auto

lemma disciplined_progress:
  assumes "disciplined s" "\<not> finished s"
  shows "\<exists>t. lock_step s t"
proof (cases "\<exists>t \<in> set (tl s). fst t \<noteq> []")
  case True
  then obtain t where t: "t \<in> set (tl s)" "fst t \<noteq> []" by auto
  then have "one_at_a_time (fst t) (snd t)" using assms(1) by (simp add: disciplined_def)
  from one_at_a_time_release [OF this t(2)] obtain l rest where r: "t = ([l], Release l # rest)"
    by (metis prod.collapse)
  from t(1) have "t \<in> set s" by (cases s) auto
  then obtain i where "i < length s" "s ! i = t" by (auto simp: in_set_conv_nth)
  then show ?thesis using r lock_step.release by blast
next
  case False
  obtain m os where s: "s = m # os" using assms(1) by (cases s) (auto simp: disciplined_def)
  have others: "fst t = []" if "t \<in> set os" for t using False that by (auto simp: s)
  have wn: "well_nested (fst m) (snd m)" using assms(1) by (simp add: s disciplined_def)
  show ?thesis
  proof (cases "snd m")
    case Nil
    then have "fst m = []" using wn by simp
    then have free: "lock_free l s" for l using others by (auto simp: s lock_free_def list_all_iff)
    obtain t where t: "t \<in> set os" "snd t \<noteq> []" using assms(2) Nil by (auto simp: s finished_def list_all_iff)
    then have "one_at_a_time [] (snd t)" using assms(1) others [OF t(1)] by (auto simp: s disciplined_def)
    then obtain l rest where "snd t = Acquire l # rest"
      using t(2) by (cases "([] :: lock list, snd t)" rule: one_at_a_time.cases) auto
    then have r: "t = ([], Acquire l # rest)" using others [OF t(1)] by (metis prod.collapse)
    have "t \<in> set s" using t(1) by (simp add: s)
    then obtain i where "i < length s" "s ! i = t" by (auto simp: in_set_conv_nth)
    then show ?thesis using r free lock_step.acquire by blast
  next
    case (Cons x rest)
    show ?thesis
    proof (cases x)
      case (Acquire l)
      then have "lock_free l s" using wn Cons others by (auto simp: s lock_free_def list_all_iff)
      then show ?thesis using lock_step.acquire [of 0 s "fst m" l rest] Acquire Cons by (auto simp: s prod_eq_iff)
    next
      case (Release l)
      then show ?thesis using lock_step.release [of 0 s "fst m" l rest] Cons by (auto simp: s prod_eq_iff)
    qed
  qed
qed

lemma remaining_update:
  "i < length s \<Longrightarrow> s ! i = (h, x # ops) \<Longrightarrow> remaining s = Suc (remaining (s[i := (h', ops)]))"
proof (induction s arbitrary: i)
  case (Cons t s)
  then show ?case by (cases i) (auto simp: remaining_def)
qed simp

lemma remaining_step: "lock_step s t \<Longrightarrow> remaining s = Suc (remaining t)"
  by (auto elim!: lock_stepE intro: remaining_update)

lemma disciplined_finishes: "disciplined s \<Longrightarrow> \<exists>t. lock_step\<^sup>*\<^sup>* s t \<and> finished t"
proof (induction "remaining s" arbitrary: s rule: less_induct)
  case less
  show ?case
  proof (cases "finished s")
    case False
    with disciplined_progress [OF less.prems] obtain t where t: "lock_step s t" by blast
    then have "remaining t < remaining s" using remaining_step by fastforce
    from less.hyps [OF this disciplined_step [OF less.prems t]] t show ?thesis
      by (meson converse_rtranclp_into_rtranclp)
  qed auto
qed

section \<open>Properties\<close>

text \<open>
  C14. Without requests for \<open>/status\<close>, no interleaving of the main thread, of any number of connection
  handlers and of RPC requests deadlocks: every step uses up one lock operation, some thread can go on
  as long as one has operations left, and every thread can finish.
\<close>

theorem node_threads_finish:
  assumes "reach (\<lambda>s. \<exists>main handlers rpcs. s = node_threads main handlers rpcs) lock_step s"
  shows "(\<forall>t. lock_step s t \<longrightarrow> remaining s = Suc (remaining t)) \<and>
    (finished s \<or> (\<exists>t. lock_step s t)) \<and> (\<exists>t. lock_step\<^sup>*\<^sup>* s t \<and> finished t)"
  using running_threads.reach_inv [OF assms] remaining_step disciplined_progress disciplined_finishes by blast

theorem node_threads_finish_witness:
  "\<exists>t. lock_step\<^sup>*\<^sup>* (node_threads [SyncPeers [Answered 2 True False], Shutdown] [[HandleMessage, SendPeers]] [SubmitAccepted [True] [False]]) t \<and>
     finished t"
proof -
  let ?s = "node_threads [SyncPeers [Answered 2 True False], Shutdown] [[HandleMessage, SendPeers]] [SubmitAccepted [True] [False]]"
  have "reach (\<lambda>s. \<exists>main handlers rpcs. s = node_threads main handlers rpcs) lock_step ?s"
    by (rule reach.start) blast
  from node_threads_finish [OF this] show ?thesis by blast
qed

text \<open>
  C23. A request for \<open>/status\<close> can stop the node for good: \<open>poll_persistent_peer\<close> holds the connections and
  waits for the node, while \<open>rpc_status\<close> holds the node and the peers and waits for the connections.
  This state is reached whatever the number of sections the poll has on the node, and from it no step is possible.
\<close>

theorem status_request_deadlocks:
  "\<exists>s. lock_step\<^sup>*\<^sup>* [thread_of (poll_locks (Suc k)), thread_of rpc_status_locks] s \<and>
     (\<forall>t. \<not> lock_step s t) \<and> snd (s ! 0) \<noteq> [] \<and> snd (s ! 1) \<noteq> []"
proof -
  let ?poll = "guarded NodeLock [] @ concat (replicate k (guarded NodeLock [])) @ [Release ConnectionsLock]"
  let ?rest = "guarded ConnectionsLock (guarded InboundLock []) @ [Release PeersLock, Release NodeLock]"
  let ?s0 = "[([], Acquire ConnectionsLock # ?poll), ([], Acquire NodeLock # Acquire PeersLock # ?rest)]"
  let ?s1 = "[([ConnectionsLock], ?poll), ([], Acquire NodeLock # Acquire PeersLock # ?rest)]"
  let ?s2 = "[([ConnectionsLock], ?poll), ([NodeLock], Acquire PeersLock # ?rest)]"
  let ?s3 = "[([ConnectionsLock], ?poll), ([PeersLock, NodeLock], ?rest)]"
  have start: "[thread_of (poll_locks (Suc k)), thread_of rpc_status_locks] = ?s0"
    by (simp add: thread_of_def poll_locks_def rpc_status_locks_def guarded_def)
  have "lock_step ?s0 ?s1" using lock_step.acquire [of 0 ?s0] by (simp add: lock_free_def)
  moreover have "lock_step ?s1 ?s2" using lock_step.acquire [of 1 ?s1] by (simp add: lock_free_def)
  moreover have "lock_step ?s2 ?s3" using lock_step.acquire [of 1 ?s2] by (simp add: lock_free_def)
  moreover have "\<not> lock_step ?s3 t" for t
    by (auto elim!: lock_stepE simp: less_Suc_eq nth_Cons' guarded_def lock_free_def split: if_splits)
  ultimately have "lock_step\<^sup>*\<^sup>* ?s0 ?s3 \<and> (\<forall>t. \<not> lock_step ?s3 t)" by auto
  then show ?thesis unfolding start by (intro exI [of _ ?s3]) (simp add: guarded_def)
qed

end
