(* ===== verification/Fork_Tree.thy ===== *)
theory Fork_Tree
  imports Node_Properties
begin

text \<open>
  The protocol crate's fork-choice index as the node relies on it: a tree of blocks that grows by one
  block per insertion, with one best tip. The index itself is a parameter of the node; here are the
  branches of such a tree, the crate's documented behaviour as the hypothesis \<open>fork_tree_laws\<close>, and
  a concrete index that meets it.
\<close>

section \<open>Branches\<close>

text \<open>The blocks from a genesis block down to the block with a given hash, along the parent links.\<close>

inductive branch :: "'f fork_choice_ops \<Rightarrow> 'f \<Rightarrow> hash \<Rightarrow> block list \<Rightarrow> bool" for F fc where
  root: "fc_get F fc h = Some nd \<Longrightarrow> fn_height nd = 0 \<Longrightarrow> branch F fc h [fn_block nd]"
| child: "fc_get F fc h = Some nd \<Longrightarrow> fn_height nd \<noteq> 0 \<Longrightarrow> branch F fc (previous_hash (fn_block nd)) bs \<Longrightarrow>
    branch F fc h (bs @ [fn_block nd])"

inductive_cases branchE: "branch F fc h bs"

lemma branch_unique: "branch F fc h bs \<Longrightarrow> branch F fc h bs' \<Longrightarrow> bs' = bs"
proof (induction arbitrary: bs' rule: branch.induct)
  case (root h nd)
  from root.prems show ?case by cases (use root.hyps in simp_all)
next
  case (child h nd bs)
  note IH = child.IH and nd = child.hyps(1,2)
  from child.prems show ?case
  proof cases
    case (child nd' bs')
    then show ?thesis using nd IH [of bs'] by simp
  qed (use nd in simp)
qed

lemma branch_not_Nil [simp]: "\<not> branch F fc h []"
  by (auto elim: branchE)

lemma branch_last: "branch F fc h bs \<Longrightarrow> \<exists>nd. fc_get F fc h = Some nd \<and> last bs = fn_block nd"
  by (auto elim: branchE)

lemma branch_mono:
  assumes "branch F fc h bs" "\<And>x nd. fc_get F fc x = Some nd \<Longrightarrow> fc_get F fc' x = Some nd"
  shows "branch F fc' h bs"
  using assms by (induction rule: branch.induct) (auto intro: branch.intros)

lemma branch_known:
  "branch F fc h bs \<Longrightarrow> b \<in> set bs \<Longrightarrow> \<exists>x nd. fc_get F fc x = Some nd \<and> fn_block nd = b"
  by (induction rule: branch.induct) auto

section \<open>What the crate promises\<close>

inductive fork_built :: "'f fork_choice_ops \<Rightarrow> 'f \<Rightarrow> bool" for F where
  new: "fork_built F (fc_new F)"
| insert: "fork_built F fc \<Longrightarrow> fork_built F (fst (fc_insert F fc b))"

text \<open>
  Of every index built by insertions: a new index is empty; an accepted block is a genesis block or has a
  known parent, it was not known before, it is the only change, and the best tip is that block or stays;
  a refused block changes nothing, and a known block is refused as a duplicate; an index with a block has a best
  tip, a known block without known children; \<open>ancestor_hashes\<close> goes up the branch of a block, with the block itself
  or without it, and \<open>branch_from_ancestor\<close> returns the part of the branch below the ancestor.
\<close>

definition fork_grows :: "core \<Rightarrow> 'f fork_choice_ops \<Rightarrow> bool" where
  "fork_grows K F \<longleftrightarrow>
     (\<forall>fc b fc' h. fork_built F fc \<longrightarrow> fc_insert F fc b = (fc', Ok h) \<longrightarrow>
        h = block_hash K b \<and> fc_get F fc h = None \<and>
        (block_height b \<noteq> 0 \<longrightarrow> fc_get F fc (previous_hash b) \<noteq> None) \<and>
        fc_get F fc' = (fc_get F fc)(h \<mapsto> fork_node_of K b) \<and>
        (map_option fn_hash (fc_best_tip F fc') = Some h \<or>
         map_option fn_hash (fc_best_tip F fc') = map_option fn_hash (fc_best_tip F fc)))"

definition fork_refuses :: "core \<Rightarrow> 'f fork_choice_ops \<Rightarrow> bool" where
  "fork_refuses K F \<longleftrightarrow>
     (\<forall>fc b fc' e. fork_built F fc \<longrightarrow> fc_insert F fc b = (fc', Err e) \<longrightarrow> fc' = fc) \<and>
     (\<forall>fc b. fork_built F fc \<longrightarrow> fc_get F fc (block_hash K b) \<noteq> None \<longrightarrow>
        snd (fc_insert F fc b) = Err ForkDuplicateBlock)"

definition fork_best_is_tip :: "'f fork_choice_ops \<Rightarrow> bool" where
  "fork_best_is_tip F \<longleftrightarrow>
     (\<forall>fc h. fork_built F fc \<longrightarrow> fc_best_tip F fc = None \<longrightarrow> fc_get F fc h = None) \<and>
     (\<forall>fc nd. fork_built F fc \<longrightarrow> fc_best_tip F fc = Some nd \<longrightarrow> fc_get F fc (fn_hash nd) = Some nd) \<and>
     (\<forall>fc nd h c. fork_built F fc \<longrightarrow> fc_best_tip F fc = Some nd \<longrightarrow> fc_get F fc h = Some c \<longrightarrow>
        fn_height c = 0 \<or> previous_hash (fn_block c) \<noteq> fn_hash nd)"

definition fork_walks :: "core \<Rightarrow> 'f fork_choice_ops \<Rightarrow> bool" where
  "fork_walks K F \<longleftrightarrow>
     (\<forall>fc h bs. fork_built F fc \<longrightarrow> branch F fc h bs \<longrightarrow>
        fc_ancestor_hashes F fc h = rev (map (block_hash K) bs) \<or>
        fc_ancestor_hashes F fc h = tl (rev (map (block_hash K) bs))) \<and>
     (\<forall>fc h bs i. fork_built F fc \<longrightarrow> branch F fc h bs \<longrightarrow> i < length bs \<longrightarrow>
        fc_branch_from_ancestor F fc (block_hash K (bs ! i)) h = Some (drop (Suc i) bs))"

definition fork_tree_laws :: "core \<Rightarrow> 'f fork_choice_ops \<Rightarrow> bool" where
  "fork_tree_laws K F \<longleftrightarrow>
     (\<forall>h. fc_get F (fc_new F) h = None) \<and> fc_best_tip F (fc_new F) = None \<and>
     (\<forall>fc h. fork_built F fc \<longrightarrow> (fc_contains F fc h \<longleftrightarrow> fc_get F fc h \<noteq> None)) \<and>
     fork_grows K F \<and> fork_refuses K F \<and> fork_best_is_tip F \<and> fork_walks K F"

lemma fork_tree_new: "fork_tree_laws K F \<Longrightarrow> fc_get F (fc_new F) h = None \<and> fc_best_tip F (fc_new F) = None"
  by (simp add: fork_tree_laws_def)

lemma fork_tree_contains:
  "fork_tree_laws K F \<Longrightarrow> fork_built F fc \<Longrightarrow> fc_contains F fc h \<longleftrightarrow> fc_get F fc h \<noteq> None"
  by (simp add: fork_tree_laws_def)

lemma fork_tree_insert:
  assumes "fork_tree_laws K F" "fork_built F fc" "fc_insert F fc b = (fc', Ok h)"
  shows "h = block_hash K b" "fc_get F fc h = None" "fc_get F fc' = (fc_get F fc)(h \<mapsto> fork_node_of K b)"
    "block_height b \<noteq> 0 \<Longrightarrow> fc_get F fc (previous_hash b) \<noteq> None" "fork_built F fc'"
    "map_option fn_hash (fc_best_tip F fc') = Some h \<or>
     map_option fn_hash (fc_best_tip F fc') = map_option fn_hash (fc_best_tip F fc)"
proof -
  have "fork_grows K F" using assms(1) by (simp add: fork_tree_laws_def)
  note grows = this [unfolded fork_grows_def, rule_format, OF assms(2,3)]
  then show "h = block_hash K b" "fc_get F fc h = None" "fc_get F fc' = (fc_get F fc)(h \<mapsto> fork_node_of K b)"
    "block_height b \<noteq> 0 \<Longrightarrow> fc_get F fc (previous_hash b) \<noteq> None"
    "map_option fn_hash (fc_best_tip F fc') = Some h \<or>
     map_option fn_hash (fc_best_tip F fc') = map_option fn_hash (fc_best_tip F fc)" by blast+
  show "fork_built F fc'" using fork_built.insert [OF assms(2), of b] assms(3) by simp
qed

lemma fork_tree_refuse:
  "fork_tree_laws K F \<Longrightarrow> fork_built F fc \<Longrightarrow> fc_insert F fc b = (fc', Err e) \<Longrightarrow> fc' = fc"
  unfolding fork_tree_laws_def fork_refuses_def by blast

lemma fork_tree_duplicate:
  assumes "fork_tree_laws K F" "fork_built F fc" "fc_get F fc (block_hash K b) \<noteq> None"
  shows "fc_insert F fc b = (fc, Err ForkDuplicateBlock)"
proof -
  have "snd (fc_insert F fc b) = Err ForkDuplicateBlock"
    using assms by (auto simp: fork_tree_laws_def fork_refuses_def)
  with fork_tree_refuse [OF assms(1,2), of b] show ?thesis by (simp add: prod_eq_iff)
qed

lemma fork_tree_best:
  assumes "fork_tree_laws K F" "fork_built F fc" "fc_best_tip F fc = Some nd"
  shows "fc_get F fc (fn_hash nd) = Some nd"
    "fc_get F fc h = Some c \<Longrightarrow> fn_height c = 0 \<or> previous_hash (fn_block c) \<noteq> fn_hash nd"
proof -
  have best: "fork_best_is_tip F" using assms(1) by (simp add: fork_tree_laws_def)
  show "fc_get F fc (fn_hash nd) = Some nd"
    using best [unfolded fork_best_is_tip_def, THEN conjunct2, THEN conjunct1] assms(2,3) by blast
  show "fc_get F fc h = Some c \<Longrightarrow> fn_height c = 0 \<or> previous_hash (fn_block c) \<noteq> fn_hash nd"
    using best [unfolded fork_best_is_tip_def, THEN conjunct2, THEN conjunct2] assms(2,3) by blast
qed

lemma fork_tree_best_None:
  "fork_tree_laws K F \<Longrightarrow> fork_built F fc \<Longrightarrow> fc_best_tip F fc = None \<Longrightarrow> fc_get F fc h = None"
  unfolding fork_tree_laws_def fork_best_is_tip_def by blast

lemma fork_tree_ancestors:
  assumes "fork_tree_laws K F" "fork_built F fc" "branch F fc h bs"
  shows "fc_ancestor_hashes F fc h = rev (map (block_hash K) bs) \<or>
    fc_ancestor_hashes F fc h = tl (rev (map (block_hash K) bs))"
  using assms by (simp add: fork_tree_laws_def fork_walks_def)

lemma fork_tree_branch_from:
  assumes "fork_tree_laws K F" "fork_built F fc" "branch F fc h bs" "i < length bs"
  shows "fc_branch_from_ancestor F fc (block_hash K (bs ! i)) h = Some (drop (Suc i) bs)"
  using assms by (simp add: fork_tree_laws_def fork_walks_def)

section \<open>Facts about every index\<close>

lemma fork_node_of_simps [simp]:
  "fn_hash (fork_node_of K b) = block_hash K b" "fn_height (fork_node_of K b) = block_height b"
  "fn_block (fork_node_of K b) = b"
  by (simp_all add: fork_node_of_def)

text \<open>Every known block is under its hash and on a branch.\<close>

lemma fork_tree_known:
  assumes "fork_tree_laws K F" "fork_built F fc" "fc_get F fc h = Some nd"
  shows "nd = fork_node_of K (fn_block nd) \<and> block_hash K (fn_block nd) = h \<and> (\<exists>bs. branch F fc h bs)"
  using assms(2,3)
proof (induction arbitrary: h nd rule: fork_built.induct)
  case new
  then show ?case using fork_tree_new [OF assms(1)] by simp
next
  case (insert fc b)
  obtain fc' r where ins: "fc_insert F fc b = (fc', r)" by fastforce
  show ?case
  proof (cases r)
    case (Inl e)
    then have "fc' = fc" using fork_tree_refuse [OF assms(1) insert.hyps] ins by blast
    then show ?thesis using insert.IH insert.prems by (simp add: ins)
  next
    case (Inr x)
    note law = fork_tree_insert [OF assms(1) insert.hyps ins [unfolded Inr]]
    have get: "fc_get F fc' x' = (if x' = block_hash K b then Some (fork_node_of K b) else fc_get F fc x')" for x'
      using law(1,3) by simp
    have mono: "branch F fc' y bs" if "branch F fc y bs" for y bs
      using that by (rule branch_mono) (use get law(1,2) in auto)
    show ?thesis
    proof (cases "h = block_hash K b")
      case False
      then show ?thesis using insert.IH [of h nd] insert.prems get mono by (auto simp: ins)
    next
      case True
      then have nd: "nd = fork_node_of K b" "fc_get F fc' h = Some nd" using insert.prems get by (simp_all add: ins)
      have "\<exists>bs. branch F fc' h bs"
      proof (cases "block_height b = 0")
        case True
        then show ?thesis using branch.root [OF nd(2)] nd(1) by auto
      next
        case False
        then obtain bs where "branch F fc (previous_hash b) bs" using law(4) insert.IH by blast
        then show ?thesis using branch.child [OF nd(2)] nd(1) False mono by fastforce
      qed
      then show ?thesis using nd True by (simp add: ins)
    qed
  qed
qed

lemma branch_hash:
  assumes "fork_tree_laws K F" "fork_built F fc" "branch F fc h bs"
  shows "block_hash K (last bs) = h"
  using branch_last [OF assms(3)] fork_tree_known [OF assms(1,2)] by fastforce

text \<open>An accepted block ends a branch one longer than its parent's; the other branches stay.\<close>

lemma branch_after_insert:
  assumes "fork_tree_laws K F" "fork_built F fc" "fc_insert F fc b = (fc', Ok h)"
  shows "branch F fc x bs \<Longrightarrow> branch F fc' x bs"
    and "branch F fc (previous_hash b) bs \<Longrightarrow> block_height b \<noteq> 0 \<Longrightarrow> branch F fc' h (bs @ [b])"
proof -
  note law = fork_tree_insert [OF assms]
  show mono: "branch F fc' x bs" if "branch F fc x bs" for x bs
    using that by (rule branch_mono) (use law(2,3) in auto)
  have "fc_get F fc' h = Some (fork_node_of K b)" using law(3) by simp
  from branch.child [OF this] mono show "branch F fc (previous_hash b) bs \<Longrightarrow> block_height b \<noteq> 0 \<Longrightarrow> branch F fc' h (bs @ [b])"
    by simp
qed

text \<open>A block on the best tip becomes the best tip.\<close>

lemma best_tip_extended:
  assumes "fork_tree_laws K F" "fork_built F fc" "fc_insert F fc b = (fc', Ok h)"
    and "map_option fn_hash (fc_best_tip F fc) = Some (previous_hash b)" "block_height b \<noteq> 0"
  shows "map_option fn_hash (fc_best_tip F fc') = Some h"
proof (rule ccontr)
  note law = fork_tree_insert [OF assms(1-3)]
  assume "\<not> ?thesis"
  then obtain nd where nd: "fc_best_tip F fc' = Some nd" "fn_hash nd = previous_hash b"
    using law(6) assms(4) by auto
  have "fc_get F fc' h = Some (fork_node_of K b)" using law(3) by simp
  from fork_tree_best(2) [OF assms(1) law(5) nd(1) this] nd(2) assms(5) show False by simp
qed

section \<open>A concrete index\<close>

text \<open>
  The known blocks, newest first. A block is accepted when it is a genesis block or one higher than its
  known parent; the best tip is the first block to have reached the greatest height.
\<close>

fun walk :: "core \<Rightarrow> block list \<Rightarrow> hash \<Rightarrow> block list" where
  "walk K [] h = []"
| "walk K (b # bl) h =
     (if block_hash K b = h then (if block_height b = 0 then [b] else walk K bl (previous_hash b) @ [b])
      else walk K bl h)"

fun best_block :: "block list \<Rightarrow> block option" where
  "best_block [] = None"
| "best_block (b # bl) = (case best_block bl of None \<Rightarrow> Some b
     | Some c \<Rightarrow> if block_height c < block_height b then Some b else Some c)"

definition find_block :: "core \<Rightarrow> block list \<Rightarrow> hash \<Rightarrow> block option" where
  "find_block K bl h = find (\<lambda>b. block_hash K b = h) bl"

definition tree_insert :: "core \<Rightarrow> block list \<Rightarrow> block \<Rightarrow> block list \<times> (fork_choice_error + hash)" where
  "tree_insert K bl b =
     (if known K bl (block_hash K b) then (bl, Err ForkDuplicateBlock)
      else if block_height b = 0 then (b # bl, Ok (block_hash K b))
      else (case find_block K bl (previous_hash b) of
          None \<Rightarrow> (bl, Err MissingParent)
        | Some p \<Rightarrow> if block_height p < block_height b then (b # bl, Ok (block_hash K b))
            else (bl, Err (OtherForkChoiceError 0))))"

definition tree_fork :: "core \<Rightarrow> block list fork_choice_ops" where
  "tree_fork K = \<lparr>
     fc_new = [],
     fc_insert = tree_insert K,
     fc_best_tip = (\<lambda>bl. map_option (fork_node_of K) (best_block bl)),
     fc_get = (\<lambda>bl h. map_option (fork_node_of K) (find_block K bl h)),
     fc_contains = known K,
     fc_ancestor_hashes = (\<lambda>bl h. rev (map (block_hash K) (walk K bl h))),
     fc_branch_from_ancestor = (\<lambda>bl a t. let w = walk K bl t in
       if a \<in> block_hash K ` set w then Some (tl (dropWhile (\<lambda>b. block_hash K b \<noteq> a) w)) else None)\<rparr>"

lemma tree_fork_simps [simp]:
  "fc_new (tree_fork K) = []" "fc_insert (tree_fork K) = tree_insert K"
  "fc_best_tip (tree_fork K) bl = map_option (fork_node_of K) (best_block bl)"
  "fc_get (tree_fork K) bl h = map_option (fork_node_of K) (find_block K bl h)"
  "fc_contains (tree_fork K) bl h = known K bl h"
  "fc_ancestor_hashes (tree_fork K) bl h = rev (map (block_hash K) (walk K bl h))"
  by (simp_all add: tree_fork_def)

lemma find_block_simps [simp]:
  "find_block K [] h = None"
  "find_block K (b # bl) h = (if block_hash K b = h then Some b else find_block K bl h)"
  by (simp_all add: find_block_def)

lemma known_iff_find: "known K bl h \<longleftrightarrow> find_block K bl h \<noteq> None"
  by (induction bl) (auto simp: known_def)

lemma find_block_SomeD: "find_block K bl h = Some b \<Longrightarrow> b \<in> set bl \<and> block_hash K b = h"
  by (auto simp: find_block_def dest: find_SomeD)

text \<open>What an insertion keeps: distinct hashes, and parents that are older and lower.\<close>

fun tree_ok :: "core \<Rightarrow> block list \<Rightarrow> bool" where
  "tree_ok K [] \<longleftrightarrow> True"
| "tree_ok K (b # bl) \<longleftrightarrow> \<not> known K bl (block_hash K b) \<and>
     (block_height b = 0 \<or> (\<exists>p. find_block K bl (previous_hash b) = Some p \<and> block_height p < block_height b)) \<and>
     tree_ok K bl"

lemma tree_built_ok: "fork_built (tree_fork K) bl \<Longrightarrow> tree_ok K bl"
proof (induction rule: fork_built.induct)
  case (insert bl b)
  then show ?case by (auto simp: tree_insert_def split: option.splits)
qed simp

lemma best_block_max: "best_block bl = Some c \<Longrightarrow> b \<in> set bl \<Longrightarrow> block_height b \<le> block_height c"
proof (induction bl arbitrary: c)
  case (Cons x bl)
  show ?case
  proof (cases "best_block bl")
    case None
    then have "bl = []" by (cases bl) (auto split: option.splits if_splits)
    then show ?thesis using Cons.prems by simp
  next
    case (Some y)
    have "b \<in> set bl \<Longrightarrow> block_height b \<le> block_height y" using Cons.IH [OF Some] .
    then show ?thesis using Cons.prems Some by (fastforce split: if_splits)
  qed
qed simp

lemma best_block_mem: "best_block bl = Some c \<Longrightarrow> c \<in> set bl"
  by (induction bl arbitrary: c) (auto split: option.splits if_splits)

lemma find_block_mem: "tree_ok K bl \<Longrightarrow> b \<in> set bl \<Longrightarrow> find_block K bl (block_hash K b) = Some b"
  by (induction bl) (auto simp: known_def)

lemma tree_parent:
  "tree_ok K bl \<Longrightarrow> b \<in> set bl \<Longrightarrow> block_height b \<noteq> 0 \<Longrightarrow>
   \<exists>p. find_block K bl (previous_hash b) = Some p \<and> block_height p < block_height b"
  by (induction bl) (fastforce simp: known_iff_find)+

lemma branch_older:
  assumes "branch (tree_fork K) (b # bl) h bs" "tree_ok K (b # bl)" "block_hash K b \<noteq> h"
  shows "branch (tree_fork K) bl h bs"
  using assms
proof (induction rule: branch.induct)
  case (root h nd)
  then show ?case using branch.root [of "tree_fork K" bl h nd] by simp
next
  case (child h nd bs)
  then obtain c where c: "find_block K bl h = Some c" "nd = fork_node_of K c" by auto
  then have "c \<in> set bl" using find_block_SomeD by blast
  then obtain p where "find_block K bl (previous_hash c) = Some p"
    using tree_parent [of K bl c] child.hyps(2) child.prems(1) c(2) by auto
  then have "block_hash K b \<noteq> previous_hash c"
    using child.prems(1) by (auto simp: known_iff_find)
  then show ?case using child.IH child.prems(1) branch.child [of "tree_fork K" bl h nd bs] child.hyps(2) c by simp
qed

lemma walk_branch: "branch (tree_fork K) bl h bs \<Longrightarrow> tree_ok K bl \<Longrightarrow> walk K bl h = bs"
proof (induction bl arbitrary: h bs)
  case Nil
  then show ?case by (auto elim: branchE)
next
  case (Cons b bl)
  show ?case
  proof (cases "block_hash K b = h")
    case False
    then show ?thesis using Cons.IH [OF branch_older [OF Cons.prems False]] Cons.prems(2) by simp
  next
    case True
    from Cons.prems(1) show ?thesis
    proof (rule branchE)
      fix nd
      assume "bs = [fn_block nd]" "fc_get (tree_fork K) (b # bl) h = Some nd" "fn_height nd = 0"
      then show ?thesis using True by auto
    next
      fix nd bs'
      assume nd: "bs = bs' @ [fn_block nd]" "fc_get (tree_fork K) (b # bl) h = Some nd" "fn_height nd \<noteq> 0"
        and br: "branch (tree_fork K) (b # bl) (previous_hash (fn_block nd)) bs'"
      then have "nd = fork_node_of K b" using True by simp
      moreover from this have "block_hash K b \<noteq> previous_hash b"
        using Cons.prems(2) nd(3) by (auto simp: known_iff_find)
      ultimately show ?thesis using Cons.IH [OF branch_older [OF br Cons.prems(2)]] nd True Cons.prems(2) by simp
    qed
  qed
qed

lemma set_walk: "set (walk K bl h) \<subseteq> set bl"
proof (induction bl arbitrary: h)
  case (Cons b bl)
  show ?case using Cons [of h] Cons [of "previous_hash b"] by auto
qed simp

lemma distinct_walk: "tree_ok K bl \<Longrightarrow> distinct (map (block_hash K) (walk K bl h))"
proof (induction bl arbitrary: h)
  case (Cons b bl)
  then show ?case using set_walk [of K bl "previous_hash b"] by (auto simp: known_def)
qed simp

lemma dropWhile_nth:
  "distinct (map f xs) \<Longrightarrow> i < length xs \<Longrightarrow> dropWhile (\<lambda>x. f x \<noteq> f (xs ! i)) xs = drop i xs"
proof (induction xs arbitrary: i)
  case (Cons x xs)
  show ?case
  proof (cases i)
    case (Suc j)
    then have "f x \<noteq> f (xs ! j)" using Cons.prems by auto
    then show ?thesis using Cons Suc by simp
  qed simp
qed simp

lemma tree_fork_grows: "fork_grows K (tree_fork K)"
  unfolding fork_grows_def
proof (intro allI impI)
  fix bl b bl' h
  assume "fc_insert (tree_fork K) bl b = (bl', Ok h)"
  then have ins: "bl' = b # bl" "h = block_hash K b" "\<not> known K bl h"
    "block_height b \<noteq> 0 \<longrightarrow> find_block K bl (previous_hash b) \<noteq> None"
    by (auto simp: tree_insert_def split: if_splits option.splits)
  then show "h = block_hash K b \<and> fc_get (tree_fork K) bl h = None \<and>
    (block_height b \<noteq> 0 \<longrightarrow> fc_get (tree_fork K) bl (previous_hash b) \<noteq> None) \<and>
    fc_get (tree_fork K) bl' = (fc_get (tree_fork K) bl)(h \<mapsto> fork_node_of K b) \<and>
    (map_option fn_hash (fc_best_tip (tree_fork K) bl') = Some h \<or>
     map_option fn_hash (fc_best_tip (tree_fork K) bl') = map_option fn_hash (fc_best_tip (tree_fork K) bl))"
    by (auto simp: known_iff_find split: option.split)
qed

lemma tree_fork_best_is_tip: "fork_best_is_tip (tree_fork K)"
proof -
  have *: "find_block K bl (block_hash K x) = Some x \<and>
      (find_block K bl h = Some y \<longrightarrow> block_height y = 0 \<or> previous_hash y \<noteq> block_hash K x)"
    if "fork_built (tree_fork K) bl" "best_block bl = Some x" for bl x h y
  proof -
    have ok: "tree_ok K bl" using that(1) by (rule tree_built_ok)
    have fx: "find_block K bl (block_hash K x) = Some x" using find_block_mem [OF ok best_block_mem [OF that(2)]] .
    moreover have "block_height y = 0 \<or> previous_hash y \<noteq> block_hash K x" if "find_block K bl h = Some y"
      using tree_parent [OF ok, of y] best_block_max [OF \<open>best_block bl = Some x\<close>, of y] fx find_block_SomeD [OF that]
      by auto
    ultimately show ?thesis by blast
  qed
  from * have "previous_hash y \<noteq> block_hash K x"
    if "fork_built (tree_fork K) bl" "best_block bl = Some x" "find_block K bl h = Some y" "block_height y \<noteq> 0" for bl x h y
    using that by blast
  moreover have "best_block bl = None \<Longrightarrow> find_block K bl h = None" for bl h
    by (cases bl) (auto split: option.splits if_splits)
  ultimately show ?thesis using * by (auto simp: fork_best_is_tip_def)
qed

lemma tree_fork_walks: "fork_walks K (tree_fork K)"
  unfolding fork_walks_def
proof (intro conjI allI impI)
  fix bl h bs and i :: nat
  assume built: "fork_built (tree_fork K) bl" and br: "branch (tree_fork K) bl h bs" and i: "i < length bs"
  have w: "walk K bl h = bs" using walk_branch [OF br tree_built_ok [OF built]] .
  have "distinct (map (block_hash K) bs)" using distinct_walk [OF tree_built_ok [OF built], of h] w by simp
  then show "fc_branch_from_ancestor (tree_fork K) bl (block_hash K (bs ! i)) h = Some (drop (Suc i) bs)"
    using i by (simp add: tree_fork_def w dropWhile_nth drop_Suc tl_drop)
qed (simp add: walk_branch tree_built_ok)

lemma tree_fork_laws: "fork_tree_laws K (tree_fork K)"
  using tree_fork_grows tree_fork_best_is_tip tree_fork_walks
  by (auto simp: fork_tree_laws_def fork_refuses_def known_iff_find tree_insert_def split: if_splits option.splits)

end
