(* ===== verification/Node_Chain.thy ===== *)
theory Node_Chain
  imports Fork_Tree Ledger_Chain
begin

text \<open>
  The node's active chain. The ledger is well-formed and follows the best tip of the fork-choice index,
  and it is the state that replaying the branch of that tip from the genesis accounts gives. This holds
  of every node reached from a start, across extensions, side branches and reorganisations
  (\<open>reorg_to_best_tip\<close>, \<open>ledger_for_branch_tip\<close> and \<open>apply_known_parent_block\<close> of \<open>node.rs\<close>), whatever
  the storage engine does.
\<close>

section \<open>Replaying a branch of the index\<close>

text \<open>\<open>ledger_for_branch_tip\<close> replays the branch of its argument.\<close>

lemma ledger_for_branch_tip_replay:
  assumes laws: "fork_tree_laws (env_core E) (env_fork E)" and built: "fork_built (env_fork E) (fork_choice n)"
    and br: "branch (env_fork E) (fork_choice n) tip bs"
  shows "ledger_for_branch_tip E n tip = map_err LedgerError (replay_branch (env_core E) (genesis_accounts n) bs)"
proof -
  let ?K = "env_core E" and ?F = "env_fork E" and ?fc = "fork_choice n"
  let ?hs = "fc_ancestor_hashes ?F ?fc tip"
  obtain g gs where bs: "bs = g # gs" using br by (cases bs) auto
  have tip: "block_hash ?K (last bs) = tip" using branch_hash [OF laws built br] .
  have gh: "(if ?hs = [] then tip else last ?hs) = block_hash ?K g"
    using fork_tree_ancestors [OF laws built br] tip bs
    by (cases gs rule: rev_cases) (auto simp: last_rev last_tl)
  obtain x nd where nd: "fc_get ?F ?fc x = Some nd" "fn_block nd = g" using branch_known [OF br, of g] bs by auto
  then have get: "fc_get ?F ?fc (block_hash ?K g) = Some nd" using fork_tree_known [OF laws built nd(1)] by auto
  have "fc_branch_from_ancestor ?F ?fc (block_hash ?K g) tip = Some gs"
    using fork_tree_branch_from [OF laws built br, of 0] bs by simp
  then show ?thesis
    unfolding ledger_for_branch_tip_def Let_def gh
    by (simp add: get nd(2) replay_branch_def bs res_bind_def split: sum.split)
qed

section \<open>The invariant\<close>

definition crate_laws :: "('e, 't, 'f) node_env \<Rightarrow> bool" where
  "crate_laws E \<longleftrightarrow> chain_laws (env_core E) \<and> ledger_laws (env_core E) \<and> fork_tree_laws (env_core E) (env_fork E)"

text \<open>
  The ledger's chain is built by insertion and its accounts are keyed by address; its blocks are the
  branch of the index's best tip; every branch of the index starts with the ledger's first block; and a
  node that knows its genesis accounts has the ledger that replaying this branch from them gives.
\<close>

definition chain_inv :: "('e, 't, 'f) node_env \<Rightarrow> ('e, 'f) node \<Rightarrow> bool" where
  "chain_inv E n \<longleftrightarrow>
     (let K = env_core E; F = env_fork E; L = node_ledger n; fc = fork_choice n; tip = block_hash K (last (ledger_blocks L)) in
      fork_built F fc \<and> rebuilds K L \<and> ledger_blocks L \<noteq> [] \<and>
      accounts_ok (ledger_accounts L) \<and> accounts_ok (genesis_accounts n) \<and>
      map_option fn_hash (fc_best_tip F fc) = Some tip \<and> branch F fc tip (ledger_blocks L) \<and>
      (\<forall>h bs. branch F fc h bs \<longrightarrow> hd bs = hd (ledger_blocks L)) \<and>
      (genesis_accounts n = [] \<or> replay_branch K (genesis_accounts n) (ledger_blocks L) = Ok L))"

lemma chain_invD:
  assumes "chain_inv E n"
  defines "tip \<equiv> block_hash (env_core E) (last (ledger_blocks (node_ledger n)))"
  shows "fork_built (env_fork E) (fork_choice n)" "rebuilds (env_core E) (node_ledger n)"
    "ledger_blocks (node_ledger n) \<noteq> []"
    "accounts_ok (ledger_accounts (node_ledger n))" "accounts_ok (genesis_accounts n)"
    "map_option fn_hash (fc_best_tip (env_fork E) (fork_choice n)) = Some tip"
    "branch (env_fork E) (fork_choice n) tip (ledger_blocks (node_ledger n))"
    "branch (env_fork E) (fork_choice n) h bs \<Longrightarrow> hd bs = hd (ledger_blocks (node_ledger n))"
    "genesis_accounts n \<noteq> [] \<Longrightarrow>
       replay_branch (env_core E) (genesis_accounts n) (ledger_blocks (node_ledger n)) = Ok (node_ledger n)"
  using assms(1) unfolding chain_inv_def Let_def tip_def by blast+

lemma chain_invI:
  assumes "fork_built (env_fork E) (fork_choice n)" "rebuilds (env_core E) (node_ledger n)"
    and "ledger_blocks (node_ledger n) = bs" "bs \<noteq> []"
    and "accounts_ok (ledger_accounts (node_ledger n))" "accounts_ok (genesis_accounts n)"
    and "map_option fn_hash (fc_best_tip (env_fork E) (fork_choice n)) = Some tip"
    and "branch (env_fork E) (fork_choice n) tip bs" "block_hash (env_core E) (last bs) = tip"
    and "\<And>h bs'. branch (env_fork E) (fork_choice n) h bs' \<Longrightarrow> hd bs' = hd bs"
    and "genesis_accounts n \<noteq> [] \<Longrightarrow> replay_branch (env_core E) (genesis_accounts n) bs = Ok (node_ledger n)"
  shows "chain_inv E n"
  unfolding chain_inv_def Let_def using assms by blast

lemma chain_inv_cong:
  "chain_inv E n \<Longrightarrow> node_ledger n' = node_ledger n \<Longrightarrow> fork_choice n' = fork_choice n \<Longrightarrow>
   genesis_accounts n' = genesis_accounts n \<Longrightarrow> chain_inv E n'"
  by (simp add: chain_inv_def)

lemma chain_inv_tip:
  "ledger_laws (env_core E) \<Longrightarrow> chain_inv E n \<Longrightarrow> ledger_tip_hash (env_core E) (node_ledger n) =
     Some (block_hash (env_core E) (last (ledger_blocks (node_ledger n))))"
  using chain_invD(3) by (simp add: ledger_tip_blocks)

text \<open>An accepted block is not a second genesis block, and the branch of its parent is known.\<close>

lemma nonempty_apply_height:
  assumes "chain_laws K" "ledger_blocks L \<noteq> []" "ledger_apply_block K L b = Ok L'"
  shows "block_height b \<noteq> 0"
  using chain_insertD(3) [OF assms(1) ledger_applyD(1) [OF assms(1,3)]] assms(2) by auto

lemma branch_ledger_nonempty:
  assumes "chain_laws (env_core E)" "ledger_for_branch_tip E n tip = Ok L"
  shows "ledger_blocks L \<noteq> []"
proof -
  let ?K = "env_core E"
  obtain g c bs where c: "chain_insert_block ?K (chain_new ?K) g = Ok c"
    and fold: "try_fold (\<lambda>b L. ledger_apply_block ?K L b) bs \<lparr>ledger_accounts = genesis_accounts n, ledger_chain = c\<rparr> = Ok L"
    using assms(2) by (auto simp: ledger_for_branch_tip_def Let_def res_simps)
  show ?thesis
    using fold by (rule try_fold_inv) (use chain_insertD(1) [OF assms(1) c] ledger_apply_blocks [OF assms(1)] in simp_all)
qed

lemma valid_block_state:
  assumes laws: "crate_laws E" and inv: "chain_inv E n"
    and valid: "validate_block_state_for_known_parent E n b = Ok ()"
  shows "block_height b \<noteq> 0"
    "extends_active_tip E n b \<Longrightarrow> \<exists>L. ledger_apply_block (env_core E) (node_ledger n) b = Ok L"
    "\<not> extends_active_tip E n b \<Longrightarrow> genesis_accounts n \<noteq> [] \<and>
       (\<exists>P L. ledger_for_branch_tip E n (previous_hash b) = Ok P \<and> ledger_apply_block (env_core E) P b = Ok L)"
proof -
  show ext: "\<exists>L. ledger_apply_block (env_core E) (node_ledger n) b = Ok L" if "extends_active_tip E n b"
    using valid that by (auto simp: validate_block_state_for_known_parent_def res_simps)
  show side: "genesis_accounts n \<noteq> [] \<and>
       (\<exists>P L. ledger_for_branch_tip E n (previous_hash b) = Ok P \<and> ledger_apply_block (env_core E) P b = Ok L)"
    if "\<not> extends_active_tip E n b"
    using valid that by (auto simp: validate_block_state_for_known_parent_def res_simps split: if_splits)
  have chain: "chain_laws (env_core E)" using laws by (simp add: crate_laws_def)
  show "block_height b \<noteq> 0"
    using nonempty_apply_height [OF chain chain_invD(3) [OF inv]] nonempty_apply_height [OF chain branch_ledger_nonempty [OF chain]]
      ext side by blast
qed

section \<open>Applying a block, case by case\<close>

text \<open>A branch of two blocks or more has a block whose parent is the first.\<close>

lemma branch_second:
  assumes "fork_tree_laws K F" "fork_built F fc" "branch F fc h bs" "1 < length bs"
  shows "\<exists>x c. fc_get F fc x = Some c \<and> fn_height c \<noteq> 0 \<and> previous_hash (fn_block c) = block_hash K (hd bs)"
  using assms(3,4)
proof (induction rule: branch.induct)
  case (child h nd bs)
  show ?case
  proof (cases "length bs = 1")
    case True
    then obtain g where "bs = [g]" by (auto simp: length_Suc_conv)
    then show ?thesis using child.hyps branch_hash [OF assms(1,2) child.hyps(3)] by auto
  next
    case False
    then have "1 < length bs" using child.hyps(3) by (cases bs) auto
    with child.IH show ?thesis by (cases bs) auto
  qed
qed simp

lemma set_tl_subset: "set (tl xs) \<subseteq> set xs"
  by (cases xs) auto

text \<open>Two branches from the same first block have a common ancestor, unless one tip is that block.\<close>

lemma common_ancestor_found:
  assumes laws: "fork_tree_laws (env_core E) (env_fork E)" and built: "fork_built (env_fork E) (fork_choice n)"
    and old: "branch (env_fork E) (fork_choice n) h bs" "1 < length bs"
    and new: "branch (env_fork E) (fork_choice n) h' bs'" "1 < length bs'" and "hd bs = hd bs'"
  shows "\<exists>i < length bs'. common_ancestor E n (Some h) h' = Some (block_hash (env_core E) (bs' ! i))"
proof -
  let ?K = "env_core E" and ?A = "fc_ancestor_hashes (env_fork E) (fork_choice n)"
  have first: "block_hash ?K (hd cs) \<in> set (?A x)" if "branch (env_fork E) (fork_choice n) x cs" "1 < length cs" for x cs
  proof -
    from that(2) obtain c d ds where "cs = c # d # ds" by (cases cs; cases "tl cs") auto
    moreover have "set xs \<subseteq> set (tl (ys @ xs))" if "ys \<noteq> []" for xs ys :: "hash list" using that by (cases ys) auto
    ultimately show ?thesis using fork_tree_ancestors [OF laws built that(1)] by fastforce
  qed
  have "set (?A h') \<subseteq> block_hash ?K ` set bs'"
    using fork_tree_ancestors [OF laws built new(1)] set_tl_subset [of "rev (map (block_hash ?K) bs')"] by auto
  moreover have "find (\<lambda>x. x \<in> set (?A h)) (?A h') \<noteq> None"
    unfolding find_None_iff using first [OF old] first [OF new] assms(7) by metis
  then obtain x where x: "find (\<lambda>x. x \<in> set (?A h)) (?A h') = Some x" by blast
  ultimately have "x \<in> block_hash ?K ` set bs'" using find_SomeD [OF x] by blast
  with x show ?thesis by (auto simp: common_ancestor_def in_set_conv_nth)
qed

text \<open>Once a block off the tip is in the index and best, the reorganisation can only fail to save.\<close>

lemma reorg_effect:
  assumes laws: "crate_laws E" and inv: "chain_inv E n" and tip: "\<not> extends_active_tip E n b"
    and valid: "validate_block_state_for_known_parent E n b = Ok ()"
    and ins: "fc_insert (env_fork E) (fork_choice n) b = (fc, Ok h)"
    and best: "map_option fn_hash (fc_best_tip (env_fork E) fc) = Some h"
    and br: "branch (env_fork E) (fork_choice n) (previous_hash b) bs"
  obtains L st x where "replay_branch (env_core E) (genesis_accounts n) (bs @ [b]) = Ok L"
    and "save_ledger (env_core E) (env_lmdb E) (env_codecs E) (node_storage n) L = (st, x)"
    and "reorg_to_best_tip E (n\<lparr>fork_choice := fc\<rparr>) now =
      (n\<lparr>fork_choice := fc, node_ledger := L, node_cache := from_ledger (env_core E) L, node_storage := st,
         node_mempool := (case x of Inl _ \<Rightarrow> node_mempool n
           | Inr _ \<Rightarrow> reinsert_transactions E L now (set (fc_ancestor_hashes (env_fork E) fc h))
               (ledger_blocks (node_ledger n)) (node_mempool n))\<rparr>, map_err StorageError x)"
proof -
  let ?K = "env_core E" and ?F = "env_fork E" and ?n = "n\<lparr>fork_choice := fc\<rparr>"
  let ?old = "ledger_blocks (node_ledger n)"
  have fl: "fork_tree_laws ?K ?F" and ll: "ledger_laws ?K" using laws by (simp_all add: crate_laws_def)
  note built = chain_invD(1) [OF inv] and state = valid_block_state [OF laws inv valid]
  note inserted = fork_tree_insert [OF fl built ins] and grown = branch_after_insert [OF fl built ins]
  have built': "fork_built ?F (fork_choice ?n)" using inserted(5) by simp
  have old_tip: "ledger_tip_hash ?K (node_ledger n) = Some (block_hash ?K (last ?old))"
    using chain_inv_tip [OF ll inv] .
  have newbr: "branch ?F (fork_choice ?n) h (bs @ [b])" using grown(2) [OF br state(1)] by simp
  have oldbr: "branch ?F (fork_choice ?n) (block_hash ?K (last ?old)) ?old" using grown(1) [OF chain_invD(7) [OF inv]] by simp
  have bs: "bs \<noteq> []" "hd bs = hd ?old" using br chain_invD(8) [OF inv br] by auto
  obtain P L where P: "ledger_for_branch_tip E n (previous_hash b) = Ok P" "ledger_apply_block ?K P b = Ok L"
    using state(3) [OF tip] by blast
  have "replay_branch ?K (genesis_accounts n) bs = Ok P"
    using P(1) by (simp add: ledger_for_branch_tip_replay [OF fl built br] map_err_Ok_iff)
  then have L: "replay_branch ?K (genesis_accounts n) (bs @ [b]) = Ok L" using P(2) bs(1) by (simp add: replay_snoc)
  have long: "1 < length ?old"
  proof (rule ccontr)
    assume "\<not> 1 < length ?old"
    then have old: "?old = [hd bs]" using bs(2) chain_invD(3) [OF inv] by (cases ?old) auto
    obtain nd where nd: "fc_best_tip ?F (fork_choice n) = Some nd" "fn_hash nd = block_hash ?K (hd bs)"
      using chain_invD(6) [OF inv] old by auto
    have "\<not> 1 < length bs"
      using branch_second [OF fl built br] fork_tree_best(2) [OF fl built nd(1)] nd(2) by auto
    then have "bs = [hd bs]" using bs(1) by (cases bs) auto
    then have "previous_hash b = block_hash ?K (last ?old)" using branch_hash [OF fl built br] old by (metis last.simps)
    then show False using tip old_tip by (simp add: extends_active_tip_def)
  qed
  obtain i where i: "i < length (bs @ [b])"
    "common_ancestor E ?n (Some (block_hash ?K (last ?old))) h = Some (block_hash ?K ((bs @ [b]) ! i))"
    using common_ancestor_found [OF fl built' oldbr long newbr] bs by auto
  have "ledger_for_branch_tip E ?n h = Ok L"
    using ledger_for_branch_tip_replay [OF fl built' newbr] L by simp
  moreover obtain st x where st: "save_ledger ?K (env_lmdb E) (env_codecs E) (node_storage n) L = (st, x)" by fastforce
  ultimately show ?thesis
    using fork_tree_branch_from [OF fl built' newbr i(1)] state(3) [OF tip] best i(2) old_tip
    by (intro that [OF L st], cases x) (auto simp: reorg_to_best_tip_def Let_def)
qed

text \<open>A block is refused, or it passes the checks of its state, is indexed, and one of the three branches of the code is taken.\<close>

lemma apply_indexedE:
  assumes fl: "fork_tree_laws (env_core E) (env_fork E)" and built: "fork_built (env_fork E) (fork_choice n)"
    and app: "apply_known_parent_block E n b now = (n', r)"
  obtains (refused) e where "r = Err e" "n' = n"
  | (indexed) fc h where "validate_block_state_for_known_parent E n b = Ok ()"
      "fc_insert (env_fork E) (fork_choice n) b = (fc, Ok h)"
      "(if map_option fn_hash (fc_best_tip (env_fork E) fc) \<noteq> Some h
        then (case save_side_block (env_core E) (env_lmdb E) (env_codecs E) (node_storage n) b of
          (st, x) \<Rightarrow> (n\<lparr>fork_choice := fc, node_storage := st\<rparr>, map_err StorageError x))
        else if \<not> extends_active_tip E n b then reorg_to_best_tip E (n\<lparr>fork_choice := fc\<rparr>) now
        else (case ledger_apply_block (env_core E) (node_ledger n) b of
            Inl e \<Rightarrow> (n\<lparr>fork_choice := fc\<rparr>, Err (LedgerError e))
          | Inr L \<Rightarrow> (case save_ledger (env_core E) (env_lmdb E) (env_codecs E) (node_storage n) L of
              (st, x) \<Rightarrow> (n\<lparr>fork_choice := fc, node_ledger := L, node_mempool := remove_confirmed (env_core E) (node_mempool n) b,
                 node_cache := refresh_cache E L b (node_cache n), node_storage := st\<rparr>, map_err StorageError x)))) = (n', r)"
proof (cases "res_bind (validate_block_for_known_parent E n b now) (\<lambda>_. validate_block_state_for_known_parent E n b)")
  case (Inl e)
  then show ?thesis using app by (intro refused [of e]) (simp_all add: apply_known_parent_block_def)
next
  case valid: (Inr u)
  obtain fc y where ins: "fc_insert (env_fork E) (fork_choice n) b = (fc, y)" by fastforce
  show ?thesis
  proof (cases y)
    case (Inl e)
    then have "fc = fork_choice n" using fork_tree_refuse [OF fl built] ins by blast
    then show ?thesis using app valid ins Inl by (intro refused [of "ForkChoiceError e"]) (simp_all add: apply_known_parent_block_def)
  next
    case (Inr h)
    have same: "extends_active_tip E (n\<lparr>fork_choice := fc\<rparr>) b = extends_active_tip E n b" by (simp add: extends_active_tip_def)
    show ?thesis
      using app valid ins Inr
      by (intro indexed [of fc h]) (auto simp: apply_known_parent_block_def Let_def res_bind_Ok_iff same split: sum.splits)
  qed
qed

lemma apply_known_parent_cases:
  assumes laws: "crate_laws E" and inv: "chain_inv E n" and app: "apply_known_parent_block E n b now = (n', r)"
  obtains (refused) e where "r = Err e" "n' = n"
  | (side) fc h st x where "fc_insert (env_fork E) (fork_choice n) b = (fc, Ok h)" "block_height b \<noteq> 0"
      "map_option fn_hash (fc_best_tip (env_fork E) fc) = map_option fn_hash (fc_best_tip (env_fork E) (fork_choice n))"
      "save_side_block (env_core E) (env_lmdb E) (env_codecs E) (node_storage n) b = (st, x)"
      "n' = n\<lparr>fork_choice := fc, node_storage := st\<rparr>" "r = map_err StorageError x"
  | (extended) fc h L st x where "fc_insert (env_fork E) (fork_choice n) b = (fc, Ok h)" "block_height b \<noteq> 0"
      "map_option fn_hash (fc_best_tip (env_fork E) fc) = Some h" "extends_active_tip E n b"
      "ledger_apply_block (env_core E) (node_ledger n) b = Ok L"
      "save_ledger (env_core E) (env_lmdb E) (env_codecs E) (node_storage n) L = (st, x)"
      "n' = n\<lparr>fork_choice := fc, node_ledger := L, node_mempool := remove_confirmed (env_core E) (node_mempool n) b,
         node_cache := refresh_cache E L b (node_cache n), node_storage := st\<rparr>" "r = map_err StorageError x"
  | (reorganised) fc h bs L st x where "fc_insert (env_fork E) (fork_choice n) b = (fc, Ok h)" "block_height b \<noteq> 0"
      "map_option fn_hash (fc_best_tip (env_fork E) fc) = Some h" "\<not> extends_active_tip E n b"
      "branch (env_fork E) (fork_choice n) (previous_hash b) bs"
      "replay_branch (env_core E) (genesis_accounts n) (bs @ [b]) = Ok L"
      "save_ledger (env_core E) (env_lmdb E) (env_codecs E) (node_storage n) L = (st, x)"
      "n' = n\<lparr>fork_choice := fc, node_ledger := L, node_cache := from_ledger (env_core E) L, node_storage := st,
         node_mempool := (case x of Inl _ \<Rightarrow> node_mempool n
           | Inr _ \<Rightarrow> reinsert_transactions E L now (set (fc_ancestor_hashes (env_fork E) fc h))
               (ledger_blocks (node_ledger n)) (node_mempool n))\<rparr>" "r = map_err StorageError x"
proof -
  let ?K = "env_core E" and ?F = "env_fork E"
  have fl: "fork_tree_laws ?K ?F" using laws by (simp add: crate_laws_def)
  note built = chain_invD(1) [OF inv]
  from fl built app show thesis
  proof (cases rule: apply_indexedE)
    case r: (refused e)
    then show ?thesis by (rule refused)
  next
    case i: (indexed fc h)
    note state = valid_block_state [OF laws inv i(1)] and inserted = fork_tree_insert [OF fl built i(2)]
    obtain bs where br: "branch ?F (fork_choice n) (previous_hash b) bs"
      using inserted(4) [OF state(1)] fork_tree_known [OF fl built] by blast
    consider (1) "map_option fn_hash (fc_best_tip ?F fc) \<noteq> Some h"
      | (2) "map_option fn_hash (fc_best_tip ?F fc) = Some h" "extends_active_tip E n b"
      | (3) "map_option fn_hash (fc_best_tip ?F fc) = Some h" "\<not> extends_active_tip E n b" by blast
    then show ?thesis
    proof cases
      case 1
      then show ?thesis using side [OF i(2) state(1)] inserted(6) i(3) by (auto split: prod.splits)
    next
      case 2
      obtain L where L: "ledger_apply_block ?K (node_ledger n) b = Ok L" using state(2) 2(2) by blast
      obtain st x where st: "save_ledger ?K (env_lmdb E) (env_codecs E) (node_storage n) L = (st, x)" by fastforce
      show ?thesis using i(3) 2 L st by (intro extended [OF i(2) state(1) 2 L st]) auto
    next
      case 3
      obtain L st x where re: "replay_branch ?K (genesis_accounts n) (bs @ [b]) = Ok L"
        "save_ledger ?K (env_lmdb E) (env_codecs E) (node_storage n) L = (st, x)"
        "reorg_to_best_tip E (n\<lparr>fork_choice := fc\<rparr>) now =
          (n\<lparr>fork_choice := fc, node_ledger := L, node_cache := from_ledger ?K L, node_storage := st,
             node_mempool := (case x of Inl _ \<Rightarrow> node_mempool n
               | Inr _ \<Rightarrow> reinsert_transactions E L now (set (fc_ancestor_hashes ?F fc h))
                   (ledger_blocks (node_ledger n)) (node_mempool n))\<rparr>, map_err StorageError x)"
        by (rule reorg_effect [OF laws inv 3(2) i(1,2) 3(1) br])
      with 3 i(3) show ?thesis by (intro reorganised [OF i(2) state(1) 3 br re(1,2)]) auto
    qed
  qed
qed

section \<open>Every step keeps the invariant\<close>

text \<open>Inserting a block that is not a genesis block keeps all branches on the same first block.\<close>

lemma insert_same_root:
  assumes "fork_tree_laws K F" "fork_built F fc" "fc_insert F fc b = (fc', Ok h)" "block_height b \<noteq> 0"
    and root: "\<And>x bs. branch F fc x bs \<Longrightarrow> hd bs = g" and br: "branch F fc' x bs"
  shows "hd bs = g"
proof -
  note law = fork_tree_insert [OF assms(1-3)]
  have "fc_get F fc' x \<noteq> None" using br by (auto elim: branchE)
  show ?thesis
  proof (cases "fc_get F fc x")
    case (Some nd)
    then obtain cs where "branch F fc x cs" using fork_tree_known [OF assms(1,2)] by blast
    then show ?thesis using root branch_unique [OF br] branch_after_insert(1) [OF assms(1-3)] by blast
  next
    case None
    then have "x = h" using \<open>fc_get F fc' x \<noteq> None\<close> law(3) by (auto split: if_splits)
    obtain cs where cs: "branch F fc (previous_hash b) cs"
      using law(4) [OF assms(4)] fork_tree_known [OF assms(1,2)] by blast
    then have "bs = cs @ [b]" using branch_unique [OF br] branch_after_insert(2) [OF assms(1-3) cs assms(4)] \<open>x = h\<close> by simp
    then show ?thesis using root [OF cs] cs by (cases cs) auto
  qed
qed

text \<open>A block that does not become the best tip, and a block that does, with a ledger that ends in it.\<close>

lemma chain_inv_side:
  assumes laws: "crate_laws E" and inv: "chain_inv E n"
    and ins: "fc_insert (env_fork E) (fork_choice n) b = (fc, Ok h)" "block_height b \<noteq> 0"
    and best: "map_option fn_hash (fc_best_tip (env_fork E) fc) = map_option fn_hash (fc_best_tip (env_fork E) (fork_choice n))"
  shows "chain_inv E (n\<lparr>fork_choice := fc\<rparr>)"
proof -
  have fl: "fork_tree_laws (env_core E) (env_fork E)" using laws by (simp add: crate_laws_def)
  note I = chain_invD [OF inv]
  show ?thesis
  proof (rule chain_invI)
    show "branch (env_fork E) (fork_choice (n\<lparr>fork_choice := fc\<rparr>)) (block_hash (env_core E) (last (ledger_blocks (node_ledger n))))
        (ledger_blocks (node_ledger n))"
      using branch_after_insert(1) [OF fl I(1) ins(1) I(7)] by simp
    show "hd bs = hd (ledger_blocks (node_ledger n))" if "branch (env_fork E) (fork_choice (n\<lparr>fork_choice := fc\<rparr>)) y bs" for y bs
      using insert_same_root [OF fl I(1) ins I(8)] that by simp
  qed (use I best fork_tree_insert(5) [OF fl I(1) ins(1)] in simp_all)
qed

lemma chain_inv_adopt:
  assumes laws: "crate_laws E" and inv: "chain_inv E n"
    and ins: "fc_insert (env_fork E) (fork_choice n) b = (fc, Ok h)" "block_height b \<noteq> 0"
    and best: "map_option fn_hash (fc_best_tip (env_fork E) fc) = Some h"
    and br: "branch (env_fork E) (fork_choice n) (previous_hash b) bs"
    and L: "rebuilds (env_core E) L" "accounts_ok (ledger_accounts L)" "ledger_blocks L = bs @ [b]"
      "genesis_accounts n \<noteq> [] \<Longrightarrow> replay_branch (env_core E) (genesis_accounts n) (bs @ [b]) = Ok L"
  shows "chain_inv E (n\<lparr>fork_choice := fc, node_ledger := L\<rparr>)"
proof -
  have fl: "fork_tree_laws (env_core E) (env_fork E)" using laws by (simp add: crate_laws_def)
  note I = chain_invD [OF inv]
  note inserted = fork_tree_insert [OF fl I(1) ins(1)]
  have bs: "bs \<noteq> []" "hd bs = hd (ledger_blocks (node_ledger n))" using br I(8) by auto
  show ?thesis
  proof (rule chain_invI)
    show "branch (env_fork E) (fork_choice (n\<lparr>fork_choice := fc, node_ledger := L\<rparr>)) h (bs @ [b])"
      using branch_after_insert(2) [OF fl I(1) ins(1) br ins(2)] by simp
    show "hd cs = hd (bs @ [b])" if "branch (env_fork E) (fork_choice (n\<lparr>fork_choice := fc, node_ledger := L\<rparr>)) y cs" for y cs
      using insert_same_root [OF fl I(1) ins I(8)] that bs by simp
  qed (use I inserted(1,5) best L in simp_all)
qed

lemma chain_inv_apply:
  assumes laws: "crate_laws E" and inv: "chain_inv E n"
  shows "chain_inv E (fst (apply_known_parent_block E n b now))"
proof -
  have ll: "ledger_laws (env_core E)" and cl: "chain_laws (env_core E)" using laws by (simp_all add: crate_laws_def)
  note I = chain_invD [OF inv]
  obtain n' r where app: "apply_known_parent_block E n b now = (n', r)" by fastforce
  from laws inv app have "chain_inv E n'"
  proof (cases rule: apply_known_parent_cases)
    case refused
    then show ?thesis using inv by simp
  next
    case (side fc h st x)
    show ?thesis by (rule chain_inv_cong [OF chain_inv_side [OF laws inv side(1-3)]]) (simp_all add: side(5))
  next
    case (extended fc h L st x)
    have br: "branch (env_fork E) (fork_choice n) (previous_hash b) (ledger_blocks (node_ledger n))"
      using extended(4) chain_inv_tip [OF ll inv] I(7) by (simp add: extends_active_tip_def)
    have "chain_inv E (n\<lparr>fork_choice := fc, node_ledger := L\<rparr>)"
      using I(9) I(3) extended(5)
      by (intro chain_inv_adopt [OF laws inv extended(1-3) br rebuilds_apply [OF cl ll I(2) extended(5)]
            ledger_applyD(2) [OF cl extended(5) I(4)] ledger_apply_blocks [OF cl extended(5)]]) (simp add: replay_snoc)
    then show ?thesis by (rule chain_inv_cong) (simp_all add: extended(7))
  next
    case (reorganised fc h bs L st x)
    have "rebuilds (env_core E) L" "accounts_ok (ledger_accounts L)" "ledger_blocks L = bs @ [b]"
      using replay_good [OF cl ll I(5) _ reorganised(6)] by (simp_all add: ledger_typed_def)
    from chain_inv_adopt [OF laws inv reorganised(1-3,5) this reorganised(6)]
    show ?thesis by (rule chain_inv_cong) (simp_all add: reorganised(8))
  qed
  then show ?thesis by (simp add: app)
qed

text \<open>
  A predicate on the ledger, the index, the genesis accounts, the cache and the store that the application
  of a block and a flush keep is kept by every call of the node: the orphan and request queues and the
  pool are handled without touching those five.
\<close>

lemma evict_orphan_chain [simp]:
  "node_ledger (evict_orphan n) = node_ledger n" "fork_choice (evict_orphan n) = fork_choice n"
  "genesis_accounts (evict_orphan n) = genesis_accounts n" "node_cache (evict_orphan n) = node_cache n"
  "node_storage (evict_orphan n) = node_storage n"
  by (simp_all add: evict_orphan_def remove_orphan_def split: list.split)

locale chain_predicate =
  fixes E :: "('e, 't, 'f) node_env" and P :: "('e, 'f) node \<Rightarrow> bool"
  assumes P_cong: "P n \<Longrightarrow> node_ledger n' = node_ledger n \<Longrightarrow> fork_choice n' = fork_choice n \<Longrightarrow>
      genesis_accounts n' = genesis_accounts n \<Longrightarrow> node_cache n' = node_cache n \<Longrightarrow>
      node_storage n' = node_storage n \<Longrightarrow> P n'"
    and P_apply: "P n \<Longrightarrow> P (fst (apply_known_parent_block E n b now))"
    and P_flush: "P n \<Longrightarrow> P (fst (flush_to_storage E n))"
begin

lemma P_prune: "P n \<Longrightarrow> P (prune_expired_orphans E n now)"
  by (erule P_cong) (simp_all)

lemma P_queue: "P n \<Longrightarrow> P (queue_missing_parent_request_at E n h t)"
  by (erule P_cong) (simp_all add: queue_missing_parent_request_at_def Let_def)

lemma P_cache_orphan: "P n \<Longrightarrow> P (cache_orphan_block E n b now)"
  by (erule P_cong)
    (simp_all add: cache_orphan_block_def Let_def store_orphan_def queue_missing_parent_request_def
      queue_missing_parent_request_at_def)

lemma P_process_children: "process_children E now cs n ps = (n', ps') \<Longrightarrow> P n \<Longrightarrow> P n'"
proof (induction cs arbitrary: n ps)
  case (Cons c cs)
  show ?case
  proof (cases "bt_get (orphan_blocks n) c")
    case (Some x)
    let ?n1 = "n\<lparr>orphan_blocks := bt_remove c (orphan_blocks n)\<rparr>"
    obtain n2 r where ap: "apply_known_parent_block E ?n1 (orphan_block_of x) now = (n2, r)" by fastforce
    have "P ?n1" using Cons.prems(2) by (rule P_cong) simp_all
    then have n2: "P n2" using P_apply [of ?n1 "orphan_block_of x" now] by (simp add: ap)
    then show ?thesis
      using Cons.prems(1) Some ap Cons.IH P_cache_orphan [OF n2, of "orphan_block_of x" now]
      by (cases r) (auto split: if_splits)
  qed (use Cons in simp)
qed simp

lemma P_process_stack: "P n \<Longrightarrow> P (process_stack E now ps n)"
proof (induction "length ps + length (orphan_blocks n)" arbitrary: ps n rule: less_induct)
  case less
  show ?case
  proof (cases ps)
    case (Cons p qs)
    show ?thesis
    proof (cases "bt_get (orphan_children_by_parent n) p")
      case None
      then show ?thesis using less.hyps [of qs n] less.prems Cons by simp
    next
      case (Some cs)
      let ?n1 = "n\<lparr>orphan_children_by_parent := bt_remove p (orphan_children_by_parent n)\<rparr>"
      obtain n' ps' where pc: "process_children E now cs ?n1 qs = (n', ps')" by fastforce
      have "P ?n1" using less.prems by (rule P_cong) simp_all
      then show ?thesis
        using less.hyps [of ps' n'] process_children_size [OF pc] P_process_children [OF pc] Cons Some pc by simp
    qed
  qed (use less.prems in simp)
qed

lemma P_apply_block: "P n \<Longrightarrow> P (fst (apply_block E n b now))"
  using P_apply [of "prune_expired_orphans E n now" b now] P_prune [of n now]
  by (auto simp: apply_block_def process_orphans_for_parent_def case_prod_beta simp del: process_stack.simps
      intro!: P_cache_orphan P_process_stack P_prune split: sum.split)

lemma P_mine_block: "P n \<Longrightarrow> P (fst (mine_block E n miner ts attempts limit now))"
proof -
  assume "P n"
  then have "P (n\<lparr>node_mempool := fst (prune_expired (env_core E) (node_mempool n) ts)\<rparr>)" by (rule P_cong) simp_all
  then show ?thesis
    using P_apply_block by (auto simp: mine_block_def Let_def case_prod_beta split: sum.split)
qed

lemma P_step: "node_step E n n' \<Longrightarrow> P n \<Longrightarrow> P n'"
proof (induction rule: node_step.induct)
  case (retry n h now)
  then show ?case by (simp add: retry_missing_parent_request_def P_queue)
qed (auto simp: P_apply_block P_mine_block P_flush submit_transaction_def drain_missing_parent_requests_at_def
    case_prod_beta intro: P_cong)

lemma P_reach: "reach init (node_step E) n \<Longrightarrow> (\<And>s. init s \<Longrightarrow> P s) \<Longrightarrow> P n"
  by (induction rule: reach.induct) (auto intro: P_step)

end

text \<open>Such a predicate is kept by everything the node's clients do.\<close>

sublocale chain_predicate \<subseteq> client: node_provider E P
  by unfold_locales (blast intro: P_step node_step.intros)+

lemma flush_frame [simp]:
  "node_ledger (fst (flush_to_storage E n)) = node_ledger n" "fork_choice (fst (flush_to_storage E n)) = fork_choice n"
  "genesis_accounts (fst (flush_to_storage E n)) = genesis_accounts n" "node_cache (fst (flush_to_storage E n)) = node_cache n"
  by (simp_all add: flush_to_storage_def case_prod_beta)

interpretation active_chain: chain_predicate E "\<lambda>n. crate_laws E \<longrightarrow> chain_inv E n" for E
  by unfold_locales (auto simp: chain_inv_apply elim: chain_inv_cong)

section \<open>The ledger is well-formed, whatever the index answers\<close>

lemma reorg_ledger:
  assumes "reorg_to_best_tip E n now = (n', r)"
  shows "node_ledger n' = node_ledger n \<and> node_cache n' = node_cache n \<or>
   (\<exists>tip. ledger_for_branch_tip E n tip = Ok (node_ledger n') \<and> node_cache n' = from_ledger (env_core E) (node_ledger n'))"
  using assms by (auto simp: reorg_to_best_tip_def Let_def res_simps split: sum.splits prod.splits if_splits)

lemma apply_known_parent_ledger:
  assumes "apply_known_parent_block E n b now = (n', r)"
  shows "node_ledger n' = node_ledger n \<and> node_cache n' = node_cache n \<or>
    ledger_apply_block (env_core E) (node_ledger n) b = Ok (node_ledger n') \<and>
      node_cache n' = refresh_cache E (node_ledger n') b (node_cache n) \<or>
    (\<exists>fc tip. ledger_for_branch_tip E (n\<lparr>fork_choice := fc\<rparr>) tip = Ok (node_ledger n') \<and>
      node_cache n' = from_ledger (env_core E) (node_ledger n'))"
  using assms reorg_ledger [of E "n\<lparr>fork_choice := fc\<rparr>" now n' r for fc]
  by (auto simp: apply_known_parent_block_def Let_def split: sum.splits prod.splits if_splits)

lemma genesis_accounts_apply [simp]:
  "genesis_accounts (fst (apply_known_parent_block E n b now)) = genesis_accounts n"
  by (auto simp: apply_known_parent_block_def reorg_to_best_tip_def Let_def split: sum.splits prod.splits)

definition typed_node :: "('e, 't, 'f) node_env \<Rightarrow> ('e, 'f) node \<Rightarrow> bool" where
  "typed_node E n \<longleftrightarrow> (chain_laws (env_core E) \<longrightarrow> ledger_laws (env_core E) \<longrightarrow> accounts_ok (genesis_accounts n) \<longrightarrow>
     ledger_typed (env_core E) (node_ledger n))"

lemma typed_node_apply: "typed_node E n \<Longrightarrow> typed_node E (fst (apply_known_parent_block E n b now))"
  using apply_known_parent_ledger [OF prod.collapse [symmetric], of E n b now] ledger_typed_apply [of "env_core E" "node_ledger n" b]
    branch_ledger_typed [of E "n\<lparr>fork_choice := fc\<rparr>" for fc]
  by (auto simp: typed_node_def)

interpretation typed_ledger: chain_predicate E "typed_node E" for E
  by unfold_locales (simp add: typed_node_def, rule typed_node_apply, assumption, simp add: typed_node_def)

lemma index_stored_frame [simp]:
  "node_ledger (fst (index_stored_blocks E n)) = node_ledger n"
  "node_cache (fst (index_stored_blocks E n)) = node_cache n"
  "genesis_accounts (fst (index_stored_blocks E n)) = genesis_accounts n"
  by (simp_all add: index_stored_blocks_def split: sum.split prod.split)

text \<open>What a start provides: a genuine ledger, the cache of that ledger, and the index of its blocks with more or none.\<close>

lemma node_initE:
  assumes "node_init E n"
  obtains L fc where "genuine_ledger (env_core E) L" "node_ledger n = L" "node_cache n = from_ledger (env_core E) L"
    "index_chain (env_fork E) (ledger_blocks L) (fc_new (env_fork E)) = Some fc"
    "fork_choice n = fc \<or> (\<exists>blocks. fork_choice n = fst (index_loop E blocks fc))"
proof -
  obtain L st accs n0 m where n0: "with_genesis_accounts E L st accs = Some n0" "genuine_ledger (env_core E) L"
    and n: "n = n0\<lparr>node_mempool := m\<rparr> \<or> n = (fst (index_stored_blocks E n0))\<lparr>node_mempool := m\<rparr>"
    using assms unfolding node_init_def by blast
  obtain fc where fc: "index_chain (env_fork E) (ledger_blocks L) (fc_new (env_fork E)) = Some fc" "fork_choice n0 = fc"
    and L: "node_ledger n0 = L" "node_cache n0 = from_ledger (env_core E) L"
    using n0(1) by (auto simp: with_genesis_accounts_def)
  have "fork_choice (fst (index_stored_blocks E n0)) = fc \<or>
      (\<exists>blocks. fork_choice (fst (index_stored_blocks E n0)) = fst (index_loop E blocks fc))"
    by (auto simp: index_stored_blocks_def case_prod_beta fc(2) split: sum.split)
  with n show ?thesis by (intro that [OF n0(2) _ _ fc(1)]) (auto simp: L fc(2))
qed

lemma node_init_typed: "node_init E n \<Longrightarrow> typed_node E n"
  by (auto simp: typed_node_def genuine_ledger_def elim: node_initE)

lemma reachable_typed: "reach (node_init E) (node_step E) n \<Longrightarrow> typed_node E n"
  using typed_ledger.P_reach node_init_typed by blast

end
