(* ===== verification/Node_Start.thy ===== *)
theory Node_Start
  imports Node_Chain
begin

text \<open>
  How a node starts on a store, and what the start must find there for the invariant of the active chain
  to hold: the index built from the ledger's chain and the stored blocks has the chain as a branch, and
  the rest is the definition \<open>consistent_start\<close>.
\<close>

section \<open>Starting\<close>

text \<open>Indexing blocks keeps the known branches, whatever is inserted.\<close>

definition fork_extends :: "'f fork_choice_ops \<Rightarrow> 'f \<Rightarrow> 'f \<Rightarrow> bool" where
  "fork_extends F fc fc' \<longleftrightarrow> fork_built F fc' \<and> (\<forall>h bs. branch F fc h bs \<longrightarrow> branch F fc' h bs)"

lemma insert_extends:
  assumes "fork_tree_laws K F" "fork_built F fc" "fc_insert F fc b = (fc', r)"
  shows "fork_extends F fc fc'"
proof (cases r)
  case (Inl e)
  then show ?thesis using fork_tree_refuse [OF assms(1,2)] assms by (auto simp: fork_extends_def)
next
  case (Inr h)
  then show ?thesis
    using fork_tree_insert(5) [OF assms(1,2)] branch_after_insert(1) [OF assms(1,2)] assms(3) by (auto simp: fork_extends_def)
qed

lemma fork_extends_trans: "fork_extends F a b \<Longrightarrow> fork_extends F b c \<Longrightarrow> fork_extends F a c"
  by (auto simp: fork_extends_def)

lemma index_pass_extends:
  assumes "fork_tree_laws (env_core E) (env_fork E)"
  shows "fork_built (env_fork E) fc \<Longrightarrow> fork_extends (env_fork E) fc (fst (index_pass E bs fc))"
proof (induction bs arbitrary: fc)
  case Nil
  then show ?case by (simp add: fork_extends_def)
next
  case (Cons b bs)
  obtain fc1 r where ins: "fc_insert (env_fork E) fc b = (fc1, r)" by fastforce
  have ext: "fork_extends (env_fork E) fc fc1" by (rule insert_extends [OF assms Cons.prems ins])
  then have "fork_extends (env_fork E) fc (fst (index_pass E bs fc1))"
    using Cons.IH [of fc1] fork_extends_trans by (auto simp: fork_extends_def)
  then show ?case
    using Cons.IH [OF Cons.prems] ext ins by (auto simp: case_prod_beta split: sum.splits)
qed

lemma index_loop_extends:
  "fork_tree_laws (env_core E) (env_fork E) \<Longrightarrow> fork_built (env_fork E) fc \<Longrightarrow>
   fork_extends (env_fork E) fc (fst (index_loop E blocks fc))"
proof (induction E blocks fc rule: index_loop.induct)
  case (1 E blocks fc)
  obtain fc1 r where pass: "index_pass E blocks fc = (fc1, r)" by fastforce
  have ext: "fork_extends (env_fork E) fc fc1"
    using index_pass_extends [OF 1(2,3), of blocks] by (simp add: pass)
  show ?case
  proof (cases "\<exists>rest. r = Ok (rest, True)")
    case True
    then obtain rest where r: "r = Ok (rest, True)" by blast
    have "fork_extends (env_fork E) fc1 (fst (index_loop E rest fc1))"
      using 1(1) [OF pass [symmetric] _ refl] r ext 1(2) by (simp add: fork_extends_def)
    with ext show ?thesis by (simp add: index_loop.simps [of E blocks] pass r fork_extends_trans)
  next
    case False
    with ext show ?thesis by (auto simp: index_loop.simps [of E blocks] pass split: sum.split)
  qed
qed

text \<open>
  Of the blocks that a pass goes over, those it does not return are known afterwards; a pass without progress changes
  nothing, and the index lacks the parents of all of them.
\<close>

lemma index_pass_spec:
  assumes laws: "fork_tree_laws (env_core E) (env_fork E)"
  shows "fork_built (env_fork E) fc \<Longrightarrow> index_pass E bs fc = (fc', Ok (rest, p)) \<Longrightarrow>
    (\<forall>x. fc_get (env_fork E) fc x \<noteq> None \<longrightarrow> fc_get (env_fork E) fc' x \<noteq> None) \<and> set rest \<subseteq> set bs \<and>
    (\<forall>b \<in> set bs. b \<in> set rest \<or> fc_get (env_fork E) fc' (block_hash (env_core E) b) \<noteq> None) \<and>
    (\<not> p \<longrightarrow> fc' = fc \<and> rest = bs \<and> (\<forall>b \<in> set bs. snd (fc_insert (env_fork E) fc b) = Err MissingParent))"
proof (induction bs arbitrary: fc fc' rest p)
  case (Cons b bs)
  let ?F = "env_fork E" and ?h = "block_hash (env_core E) b"
  note contains = fork_tree_contains [OF laws Cons.prems(1)]
  show ?case
  proof (cases "fc_contains ?F fc ?h")
    case True
    then obtain q where "index_pass E bs fc = (fc', Ok (rest, q))" "p"
      using Cons.prems(2) by (auto simp: res_bind_Ok_iff split: prod.splits)
    with Cons.IH [OF Cons.prems(1)] True show ?thesis unfolding contains by auto
  next
    case new: False
    obtain fc1 r where ins: "fc_insert ?F fc b = (fc1, r)" by fastforce
    show ?thesis
    proof (cases r)
      case (Inr h)
      note law = fork_tree_insert [OF laws Cons.prems(1) ins [unfolded Inr]]
      obtain q where "index_pass E bs fc1 = (fc', Ok (rest, q))" "p"
        using Cons.prems(2) new ins Inr by (auto simp: res_bind_Ok_iff split: prod.splits)
      with Cons.IH [OF law(5)] law(1,3) show ?thesis by auto
    next
      case (Inl e)
      then have "fc1 = fc" using fork_tree_refuse [OF laws Cons.prems(1)] ins by blast
      then obtain rest' where "e = MissingParent" "index_pass E bs fc = (fc', Ok (rest', p))" "rest = b # rest'"
        using Cons.prems(2) new ins Inl by (auto simp: res_bind_Ok_iff split: prod.splits if_splits)
      with Cons.IH [OF Cons.prems(1)] ins Inl show ?thesis by auto
    qed
  qed
qed simp

lemma index_loop_spec:
  "fork_tree_laws (env_core E) (env_fork E) \<Longrightarrow> fork_built (env_fork E) fc \<Longrightarrow> index_loop E blocks fc = (fc', Ok ()) \<Longrightarrow>
   (\<forall>x. fc_get (env_fork E) fc x \<noteq> None \<longrightarrow> fc_get (env_fork E) fc' x \<noteq> None) \<and>
   (\<forall>b \<in> set blocks. fc_get (env_fork E) fc' (block_hash (env_core E) b) \<noteq> None \<or>
      snd (fc_insert (env_fork E) fc' b) = Err MissingParent)"
proof (induction E blocks fc arbitrary: fc' rule: index_loop.induct)
  case (1 E blocks fc)
  obtain fc1 rest p where pass: "index_pass E blocks fc = (fc1, Ok (rest, p))"
    using 1(4) by (auto simp: index_loop.simps [of E blocks] split: prod.splits sum.splits)
  note spec = index_pass_spec [OF 1(2,3) pass]
  have built: "fork_built (env_fork E) fc1" using index_pass_extends [OF 1(2,3), of blocks] by (simp add: pass fork_extends_def)
  show ?case
  proof (cases p)
    case True
    then have "index_loop E rest fc1 = (fc', Ok ())" using 1(4) pass by (simp add: index_loop.simps [of E blocks])
    from 1(1) [OF pass [symmetric] refl refl True 1(2) built this] spec show ?thesis by blast
  next
    case False
    then have "fc' = fc1" using 1(4) pass by (simp add: index_loop.simps [of E blocks])
    then show ?thesis using spec False by auto
  qed
qed

text \<open>
  Indexing the stored blocks ends, and when it succeeds every stored block is in the fork-choice
  index, except blocks that the index refuses for a missing parent; nothing else of the node changes.
\<close>

lemma index_stored_blocks_complete:
  assumes "fork_tree_laws (env_core E) (env_fork E)" "fork_built (env_fork E) (fork_choice n)" "index_stored_blocks E n = (n', Ok ())"
  shows "\<exists>blocks. load_blocks_by_hash (env_lmdb E) (env_codecs E) (node_storage n) = Ok blocks \<and>
    n' = n\<lparr>fork_choice := fork_choice n'\<rparr> \<and>
    (\<forall>h. fc_get (env_fork E) (fork_choice n) h \<noteq> None \<longrightarrow> fc_get (env_fork E) (fork_choice n') h \<noteq> None) \<and>
    (\<forall>b \<in> set blocks. fc_get (env_fork E) (fork_choice n') (block_hash (env_core E) b) \<noteq> None \<or>
       snd (fc_insert (env_fork E) (fork_choice n') b) = Err MissingParent)"
proof -
  obtain blocks fc where b: "load_blocks_by_hash (env_lmdb E) (env_codecs E) (node_storage n) = Ok blocks"
    "index_loop E (sort_key block_height blocks) (fork_choice n) = (fc, Ok ())" "n' = n\<lparr>fork_choice := fc\<rparr>"
    using assms(3) by (auto simp: index_stored_blocks_def split: sum.splits prod.splits)
  from index_loop_spec [OF assms(1,2) b(2)] b(1,3) show ?thesis by simp
qed

text \<open>Indexing a chain built by insertion gives the branch of its last block.\<close>

lemma index_chain_append: "index_chain F (xs @ ys) fc = Option.bind (index_chain F xs fc) (index_chain F ys)"
  by (induction xs arbitrary: fc) (auto split: prod.split sum.split)

lemma index_chain_snocE:
  assumes "index_chain F (bs @ [b]) fc = Some fc'"
  obtains fc0 h where "index_chain F bs fc = Some fc0" "fc_insert F fc0 b = (fc', Ok h)"
proof -
  obtain fc0 where fc0: "index_chain F bs fc = Some fc0" "index_chain F [b] fc0 = Some fc'"
    using assms by (auto simp: index_chain_append bind_eq_Some_conv)
  from fc0(2) obtain h where "fc_insert F fc0 b = (fc', Ok h)"
    by (cases "fc_insert F fc0 b"; cases "snd (fc_insert F fc0 b)") auto
  with fc0(1) show ?thesis by (rule that)
qed

lemma index_chain_branch:
  assumes "fork_tree_laws K F" "chain_laws K" "ledger_laws K"
  shows "build_chain K bs = Ok c \<Longrightarrow> index_chain F bs (fc_new F) = Some fc \<Longrightarrow>
    fork_built F fc \<and> (bs \<noteq> [] \<longrightarrow> branch F fc (block_hash K (last bs)) bs)"
proof (induction bs arbitrary: c fc rule: rev_induct)
  case Nil
  then show ?case using fork_built.new [of F] by auto
next
  case (snoc b bs)
  obtain c0 where c0: "build_chain K bs = Ok c0" "chain_insert_block K c0 b = Ok c"
    using snoc.prems(1) by (auto simp: build_chain_snoc res_bind_Ok_iff)
  obtain fc0 h where fc0: "index_chain F bs (fc_new F) = Some fc0" "fc_insert F fc0 b = (fc, Ok h)"
    using snoc.prems(2) by (rule index_chain_snocE)
  note IH = snoc.IH [OF c0(1) fc0(1)]
  then have built: "fork_built F fc0" by blast
  note inserted = fork_tree_insert [OF assms(1) built fc0(2)]
  have get: "fc_get F fc h = Some (fork_node_of K b)" using inserted(3) by simp
  note linked = chain_insertD [OF assms(2) c0(2)]
  have vals: "bt_values (chain_blocks c0) = bs" using build_chain_values [OF assms(2,3) c0(1)] .
  have "branch F fc h (bs @ [b])"
  proof (cases "bs = []")
    case True
    then have "block_height b = 0" using linked(2) vals by simp
    then show ?thesis using branch.root [OF get] True by simp
  next
    case False
    then have ne: "chain_blocks c0 \<noteq> []" "snd (last (chain_blocks c0)) = last bs"
      using vals by (cases "chain_blocks c0" rule: rev_cases; auto)+
    then have "block_height b \<noteq> 0" "previous_hash b = block_hash K (last bs)" using linked(3) by auto
    then show ?thesis using branch_after_insert(2) [OF assms(1) built fc0(2)] IH False by simp
  qed
  then show ?case using inserted(1,5) by simp
qed

text \<open>
  A consistent start: the node has a ledger and knows one genesis block, the best tip of the index is the
  ledger's tip, and the stored accounts are those that a replay from the genesis accounts gives. The code
  checks everything else that the invariant says.
\<close>

definition consistent_start :: "('e, 't, 'f) node_env \<Rightarrow> ('e, 'f) node \<Rightarrow> bool" where
  "consistent_start E n \<longleftrightarrow> node_init E n \<and> ledger_blocks (node_ledger n) \<noteq> [] \<and> accounts_ok (genesis_accounts n) \<and>
     map_option fn_hash (fc_best_tip (env_fork E) (fork_choice n)) = ledger_tip_hash (env_core E) (node_ledger n) \<and>
     (\<forall>x y c d. fc_get (env_fork E) (fork_choice n) x = Some c \<and> fc_get (env_fork E) (fork_choice n) y = Some d \<and>
        fn_height c = 0 \<and> fn_height d = 0 \<longrightarrow> c = d) \<and>
     (genesis_accounts n = [] \<or>
        replay_branch (env_core E) (genesis_accounts n) (ledger_blocks (node_ledger n)) = Ok (node_ledger n))"

lemma branch_first_known:
  "branch F fc h bs \<Longrightarrow> \<exists>x nd. fc_get F fc x = Some nd \<and> fn_height nd = 0 \<and> fn_block nd = hd bs"
proof (induction rule: branch.induct)
  case (child h nd bs)
  then show ?case by (cases bs) auto
qed auto

lemma consistent_start_inv:
  assumes laws: "crate_laws E" and start: "consistent_start E n"
  shows "chain_inv E n"
proof -
  let ?K = "env_core E" and ?F = "env_fork E"
  have fl: "fork_tree_laws ?K ?F" and ll: "ledger_laws ?K" and cl: "chain_laws ?K"
    using laws by (simp_all add: crate_laws_def)
  have c: "node_init E n" "ledger_blocks (node_ledger n) \<noteq> []" "accounts_ok (genesis_accounts n)"
    "map_option fn_hash (fc_best_tip ?F (fork_choice n)) = ledger_tip_hash ?K (node_ledger n)"
    using start unfolding consistent_start_def by blast+
  from c(1) obtain L fc where L: "genuine_ledger ?K L" "node_ledger n = L"
    and fc: "index_chain ?F (ledger_blocks L) (fc_new ?F) = Some fc"
      "fork_choice n = fc \<or> (\<exists>blocks. fork_choice n = fst (index_loop E blocks fc))"
    by (rule node_initE) blast
  have typed: "ledger_typed ?K L" using L(1) cl ll by (simp add: genuine_ledger_def)
  then have "build_chain ?K (ledger_blocks L) = Ok (ledger_chain L)" by (simp add: ledger_typed_def rebuilds_iff [OF ll])
  from index_chain_branch [OF fl cl ll this fc(1)] c(2) L(2)
  have br: "fork_built ?F fc" "branch ?F fc (block_hash ?K (last (ledger_blocks L))) (ledger_blocks L)" by simp_all
  have ext: "fork_extends ?F fc (fork_choice n)"
    using fc(2) index_loop_extends [OF fl br(1)] br(1) by (auto simp: fork_extends_def)
  then have tipbr: "branch ?F (fork_choice n) (block_hash ?K (last (ledger_blocks L))) (ledger_blocks L)"
    using br(2) by (simp add: fork_extends_def)
  show ?thesis
  proof (rule chain_invI [OF _ _ refl _ _ c(3) _ tipbr [folded L(2)] refl])
    show "hd bs = hd (ledger_blocks (node_ledger n))" if "branch ?F (fork_choice n) h bs" for h bs
      using branch_first_known [OF that] branch_first_known [OF tipbr] start L(2)
      unfolding consistent_start_def by metis
    show "replay_branch ?K (genesis_accounts n) (ledger_blocks (node_ledger n)) = Ok (node_ledger n)"
      if "genesis_accounts n \<noteq> []"
      using start that unfolding consistent_start_def by blast
  qed (use ext typed c(2,4) L(2) ledger_tip_blocks [OF ll] in \<open>auto simp: fork_extends_def ledger_typed_def\<close>)
qed

lemma consistent_reach_inv:
  assumes "crate_laws E" "reach (consistent_start E) (node_step E) n"
  shows "chain_inv E n"
  using active_chain.P_reach [OF assms(2)] consistent_start_inv assms(1) by blast

end
