(* ===== verification/Two_Branches.thy ===== *)
theory Two_Branches
  imports Node_Start
begin

text \<open>
  A concrete node with two branches, to evaluate the definitions on: a crate that links blocks as the
  laws say, the index of \<open>Fork_Tree\<close>, and a storage engine that accepts every write. The node applies a
  block on genesis, then a competing block, then a second block on the competing one, to which it
  reorganises.
\<close>

section \<open>The environment\<close>

definition linked_hash :: "block \<Rightarrow> hash" where
  "linked_hash b = (case bh_merkle_root (header b) of [x] \<Rightarrow> [x] | _ \<Rightarrow> [0])"

definition linked_insert :: "chain \<Rightarrow> block \<Rightarrow> ledger_error + chain" where
  "linked_insert c b =
     (if (case rev (chain_blocks c) of
            [] \<Rightarrow> block_height b = 0 \<and> previous_hash b = [0]
          | e # _ \<Rightarrow> unat (block_height b) = Suc (unat (fst e)) \<and> previous_hash b = linked_hash (snd e))
      then Ok \<lparr>chain_blocks = chain_blocks c @ [(block_height b, b)]\<rparr> else Err (OtherLedgerError 0))"

definition linked_core :: core where
  "linked_core = sample_core\<lparr>block_hash := linked_hash,
     ledger_tip_hash := (\<lambda>L. case rev (chain_blocks (ledger_chain L)) of [] \<Rightarrow> None | e # _ \<Rightarrow> Some (linked_hash (snd e))),
     chain_insert_block := linked_insert,
     ledger_apply_block := (\<lambda>L b. res_bind (linked_insert (ledger_chain L) b) (\<lambda>c.
       Ok \<lparr>ledger_accounts = (if block_height b = 0 then [([1], stored_account)] else ledger_accounts L), ledger_chain = c\<rparr>))\<rparr>"

definition accepting_codec :: "'a codec" where
  "accepting_codec = \<lparr>enc = (\<lambda>_. Ok []), dec = (\<lambda>_. Err (OtherIoError 0))\<rparr>"

definition tree_env :: "(unit, unit, block list) node_env" where
  "tree_env = \<lparr>env_core = linked_core,
     env_lmdb = \<lparr>create_dir_all = (\<lambda>_. Ok ()), open_env = (\<lambda>_. Ok ()), create_db = (\<lambda>_ _. ((), Ok ())), begin_ro_txn = Ok,
       begin_rw_txn = Ok, txn_get = (\<lambda>_ _ _. Err NotFound), txn_put = (\<lambda>_ _ _ _. Ok ()), txn_clear_db = (\<lambda>_ _. Ok ()),
       txn_iter = (\<lambda>_ _. Ok []), txn_commit = (\<lambda>_ _. ((), Ok ())), env_sync = (\<lambda>_. Ok ())\<rparr>,
     env_codecs = \<lparr>block_codec = accepting_codec, account_codec = accepting_codec, accounts_codec = accepting_codec,
       snapshot_codec = accepting_codec, location_codec = accepting_codec, address_location_codec = accepting_codec,
       height_codec = accepting_codec, version_codec = accepting_codec\<rparr>,
     env_consensus = env_consensus sample_env, env_fork = tree_fork linked_core, env_is_genesis = (\<lambda>b. block_height b = 0),
     env_validate_checkpoint = (\<lambda>_ _. True), env_genesis_block = genesis, env_GENESIS_HASH = [3]\<rparr>"

lemma linked_core_laws: "chain_laws linked_core" "ledger_laws linked_core"
proof -
  show "ledger_laws linked_core"
    by (simp add: ledger_laws_def linked_core_def sample_core_def split: list.splits)
  have "length (linked_hash b) = 1" for b by (simp add: linked_hash_def split: list.split)
  moreover have "linked_insert c b = Ok c' \<longleftrightarrow> c' = \<lparr>chain_blocks = chain_blocks c @ [(block_height b, b)]\<rparr> \<and>
      (if chain_blocks c = [] then block_height b = 0 \<and> previous_hash b = [0]
       else unat (block_height b) = Suc (unat (fst (last (chain_blocks c)))) \<and>
         previous_hash b = linked_hash (snd (last (chain_blocks c))))" for c b c'
    by (cases "chain_blocks c" rule: rev_cases) (auto simp: linked_insert_def)
  ultimately show "chain_laws linked_core"
    by (auto simp: chain_laws_def linked_core_def sample_core_def zero_hash_def res_simps accounts_ok_def bt_wf_def stored_account_def)
qed

lemma tree_env_simps [simp]:
  "env_core tree_env = linked_core" "env_fork tree_env = tree_fork linked_core"
  by (simp_all add: tree_env_def)

lemma tree_env_laws: "crate_laws tree_env"
  by (simp add: crate_laws_def linked_core_laws tree_fork_laws)

definition tree_node :: "(unit, block list) node" where
  "tree_node = \<lparr>node_ledger = genesis_ledger, node_mempool = mempool_new, node_storage = (),
     node_cache = from_ledger linked_core genesis_ledger, fork_choice = [genesis],
     genesis_accounts = [([1], stored_account)], orphan_blocks = [], orphan_children_by_parent = [],
     missing_parent_requests = [], missing_parent_request_set = {}, missing_parent_retry_at = []\<rparr>"

lemma tree_node_start: "consistent_start tree_env tree_node"
proof -
  have L: "ledger_blocks genesis_ledger = [genesis]" by (simp add: genesis_ledger_def)
  have ins: "linked_insert \<lparr>chain_blocks = []\<rparr> genesis = Ok \<lparr>chain_blocks = [(0, genesis)]\<rparr>"
    by (simp add: linked_insert_def genesis_def sample_block_def)
  have K: "chain_new linked_core = \<lparr>chain_blocks = []\<rparr>" "chain_insert_block linked_core = linked_insert"
    by (simp_all add: linked_core_def sample_core_def)
  have typed: "genuine_ledger linked_core genesis_ledger"
    by (simp add: genuine_ledger_def ledger_typed_def rebuilds_iff [OF linked_core_laws(2)] build_chain_def L K ins)
      (simp add: genesis_ledger_def accounts_ok_def bt_wf_def stored_account_def)
  have "with_genesis_accounts tree_env genesis_ledger () [([1], stored_account)] = Some tree_node"
    by (simp add: with_genesis_accounts_def L tree_insert_def known_def tree_node_def) (simp add: genesis_def sample_block_def)
  with typed have "node_init tree_env tree_node"
    unfolding node_init_def
    by (intro exI [of _ genesis_ledger] exI [of _ "()"] exI [of _ "[([1], stored_account)]"] exI [of _ tree_node]
        exI [of _ mempool_new]) (simp add: mempool_new_init tree_node_def)
  moreover have "replay_branch linked_core [([1], stored_account)] [genesis] = Ok genesis_ledger"
    by (simp add: replay_branch_def K ins) (simp add: genesis_ledger_def)
  moreover have "ledger_tip_hash linked_core genesis_ledger = Some (block_hash linked_core genesis)"
    by (simp add: linked_core_def genesis_ledger_def)
  ultimately show ?thesis
    by (auto simp: consistent_start_def tree_node_def L accounts_ok_def bt_wf_def stored_account_def split: if_splits)
qed

lemma tree_reach:
  assumes "reach (consistent_start tree_env) (node_step tree_env) n"
  shows "reach (consistent_start tree_env) (node_step tree_env) (fst (apply_block tree_env n b now))"
  using assms node_step.block by (rule reach.step)

section \<open>Three blocks\<close>

definition side1 :: block where "side1 = sample_block 1 [3] [5] []"
definition side2 :: block where "side2 = sample_block 2 [5] [6] []"

lemmas two_branches = genesis_def block1_def side1_def side2_def

lemma tree_hashes [simp]:
  "block_hash linked_core (sample_block h p [x] txs) = [x]" "block_height (sample_block h p r txs) = h"
  "previous_hash (sample_block h p r txs) = p" "block_transactions (sample_block h p r txs) = txs"
  by (simp_all add: linked_core_def linked_hash_def sample_block_def)

lemma tree_storage [simp]:
  "put_bytes (env_lmdb tree_env) d k bs t = Ok ()" "put_value (env_lmdb tree_env) accepting_codec d k v t = Ok ()"
  "clear_db (env_lmdb tree_env) d t = Ok ()" "f () = Ok () \<Longrightarrow> with_rw (env_lmdb tree_env) e f = ((), Ok ())"
  "flush (env_lmdb tree_env) e = Ok ()" "encode accepting_codec x = Ok []"
  by (simp_all add: put_bytes_def put_value_def encode_def clear_db_def with_rw_def flush_def tree_env_def accepting_codec_def)

lemma tree_codecs [simp]:
  "block_codec (env_codecs tree_env) = accepting_codec" "account_codec (env_codecs tree_env) = accepting_codec"
  "accounts_codec (env_codecs tree_env) = accepting_codec" "snapshot_codec (env_codecs tree_env) = accepting_codec"
  "location_codec (env_codecs tree_env) = accepting_codec"
  "address_location_codec (env_codecs tree_env) = accepting_codec" "height_codec (env_codecs tree_env) = accepting_codec"
  by (simp_all add: tree_env_def)

lemma try_fold_unit: "(\<And>x. x \<in> set xs \<Longrightarrow> f x () = Inr ()) \<Longrightarrow> try_fold f xs () = Inr ()"
  by (induction xs) simp_all

lemma tree_save:
  assumes "\<forall>b \<in> set (ledger_blocks L). block_transactions b \<in> {[], [stored_tx]}"
  shows "save_ledger linked_core (env_lmdb tree_env) (env_codecs tree_env) e L = ((), Ok ())"
proof -
  have "put_block linked_core (env_lmdb tree_env) (env_codecs tree_env) b bs () = Ok ()" if "b \<in> set (ledger_blocks L)" for b bs
    using assms that by (auto simp: put_block_def index_block_transactions_def index_transaction_def stored_tx_def Let_def)
  then have "try_fold (\<lambda>b. put_block linked_core (env_lmdb tree_env) (env_codecs tree_env) b []) (ledger_blocks L) () = Ok ()"
    by (intro try_fold_unit)
  then have "put_ledger linked_core (env_lmdb tree_env) (env_codecs tree_env) L () = Ok ()"
    by (auto simp: put_ledger_def put_tip_state_def put_tip_def try_fold_unit split: option.split)
  then show ?thesis by (simp add: save_ledger_def then_env_def)
qed

lemma tree_side_save: "save_side_block linked_core (env_lmdb tree_env) (env_codecs tree_env) e b = ((), Ok ())"
  by (simp add: save_side_block_def)

text \<open>The environments whose crate and consensus rules are those above, with any storage engine.\<close>

definition tree_like :: "('e, 't, block list) node_env \<Rightarrow> bool" where
  "tree_like E \<longleftrightarrow> env_core E = linked_core \<and> env_fork E = tree_fork linked_core \<and> env_consensus E = env_consensus sample_env \<and>
     env_is_genesis E = (\<lambda>b. block_height b = 0) \<and> env_validate_checkpoint E = (\<lambda>_ _. True)"

lemma tree_env_like [simp]: "tree_like tree_env"
  by (simp add: tree_like_def) (simp add: tree_env_def)

lemma tree_valid:
  "tree_like E \<Longrightarrow> h \<noteq> 0 \<Longrightarrow> known linked_core (fork_choice n) p \<Longrightarrow>
   validate_block_for_known_parent E n (sample_block h p r txs) now = Ok ()"
  by (auto simp: validate_block_for_known_parent_def known_iff_find tree_like_def)
    (simp_all add: sample_env_def sample_consensus_def)

lemma tree_root: "tree_like E \<Longrightarrow> h \<noteq> 0 \<Longrightarrow> validate_canonical_state_root E L (sample_block h p r txs) = Ok ()"
  by (simp add: validate_canonical_state_root_def tree_like_def linked_core_def sample_core_def sample_block_def zero_hash_def)

lemma tree_ledgers:
  "ledger_apply_block linked_core genesis_ledger block1 = Ok stored_ledger"
  "ledger_tip_hash linked_core genesis_ledger = Some [3]" "ledger_tip_hash linked_core stored_ledger = Some [4]"
  "ledger_blocks genesis_ledger = [genesis]" "ledger_blocks stored_ledger = [genesis, block1]"
  by (simp_all add: linked_core_def linked_insert_def genesis_ledger_def stored_ledger_def two_branches sample_block_def linked_hash_def)

definition tip_node :: "(unit, block list) node" where
  "tip_node = tree_node\<lparr>fork_choice := [block1, genesis], node_ledger := stored_ledger,
     node_mempool := remove_confirmed linked_core mempool_new block1,
     node_cache := refresh_cache tree_env stored_ledger block1 (node_cache tree_node)\<rparr>"

lemma extend_like:
  assumes E: "tree_like E" and b: "b = sample_block h p [x] txs" "h \<noteq> 0" "known linked_core (fork_choice n) p"
    and tip: "ledger_tip_hash linked_core (node_ledger n) = Some p"
    and L: "ledger_apply_block linked_core (node_ledger n) b = Ok L"
      "save_ledger linked_core (env_lmdb E) (env_codecs E) (node_storage n) L = (e, r)"
    and fc: "tree_insert linked_core (fork_choice n) b = (fc, Ok [x])" "best_block fc = Some b"
  shows "apply_known_parent_block E n b now = (n\<lparr>fork_choice := fc, node_ledger := L, node_storage := e,
     node_mempool := remove_confirmed linked_core (node_mempool n) b, node_cache := refresh_cache E L b (node_cache n)\<rparr>, map_err StorageError r)"
proof -
  have "validate_block_for_known_parent E n b now = Ok ()" "validate_canonical_state_root E (node_ledger n) b = Ok ()"
    unfolding b(1) using E b(2,3) by (auto intro: tree_valid tree_root)
  moreover have "env_core E = linked_core" "env_fork E = tree_fork linked_core" using E by (simp_all add: tree_like_def)
  moreover from this have "extends_active_tip E (n\<lparr>fork_choice := f\<rparr>) b" "extends_active_tip E n b" for f
    by (simp_all add: extends_active_tip_def tip b(1))
  moreover have "block_hash linked_core b = [x]" by (simp add: b(1))
  ultimately show ?thesis
    using L fc by (simp add: apply_known_parent_block_def validate_block_state_for_known_parent_def Let_def)
qed

lemma tree_extend:
  assumes "b = sample_block h p [x] txs" "h \<noteq> 0" "known linked_core (fork_choice n) p"
    and "ledger_tip_hash linked_core (node_ledger n) = Some p" "ledger_apply_block linked_core (node_ledger n) b = Ok L"
      "\<forall>b \<in> set (ledger_blocks L). block_transactions b \<in> {[], [stored_tx]}"
    and "tree_insert linked_core (fork_choice n) b = (fc, Ok [x])" "best_block fc = Some b"
  shows "apply_known_parent_block tree_env n b now = (n\<lparr>fork_choice := fc, node_ledger := L,
     node_mempool := remove_confirmed linked_core (node_mempool n) b, node_cache := refresh_cache tree_env L b (node_cache n)\<rparr>, Ok ())"
  by (subst extend_like [OF tree_env_like assms(1-5) tree_save [OF assms(6)] assms(7,8)]) simp

lemma tree_step1: "apply_known_parent_block tree_env tree_node block1 100 = (tip_node, Ok ())"
  unfolding tip_node_def
  by (rule trans [OF tree_extend [OF block1_def]])
    (simp_all add: tree_node_def tree_ledgers known_def tree_insert_def two_branches tree_ledgers(1) [unfolded two_branches])

definition side_ledger :: ledger where
  "side_ledger = \<lparr>ledger_accounts = [([1], stored_account)],
     ledger_chain = \<lparr>chain_blocks = [(0, genesis), (1, side1), (2, side2)]\<rparr>\<rparr>"

lemma side_replays:
  "ledger_apply_block linked_core genesis_ledger side1 = Ok (genesis_ledger\<lparr>ledger_chain := \<lparr>chain_blocks = [(0, genesis), (1, side1)]\<rparr>\<rparr>)"
  "ledger_apply_block linked_core (genesis_ledger\<lparr>ledger_chain := \<lparr>chain_blocks = [(0, genesis), (1, side1)]\<rparr>\<rparr>) side2 = Ok side_ledger"
  "replay_branch linked_core [([1], stored_account)] [genesis] = Ok genesis_ledger"
  by (simp_all add: linked_core_def linked_insert_def genesis_ledger_def side_ledger_def two_branches sample_block_def
      linked_hash_def replay_branch_def sample_core_def)

lemma tip_node_simps:
  "node_ledger tip_node = stored_ledger" "fork_choice tip_node = [block1, genesis]"
  "genesis_accounts tip_node = [([1], stored_account)]" "node_storage tip_node = ()" "orphan_blocks tip_node = []"
  "orphan_children_by_parent tip_node = []"
  by (simp_all add: tip_node_def tree_node_def)

lemma tree_step2: "apply_known_parent_block tree_env tip_node side1 100 = (tip_node\<lparr>fork_choice := [side1, block1, genesis]\<rparr>, Ok ())"
proof -
  have "walk linked_core [block1, genesis] [3] = [genesis]" by (simp add: two_branches)
  then have "ledger_for_branch_tip tree_env tip_node [3] = Ok genesis_ledger"
    using side_replays(3)
    by (simp add: ledger_for_branch_tip_def tip_node_simps tree_fork_def replay_branch_def two_branches)
      (simp add: res_simps)
  moreover have "\<not> extends_active_tip tree_env tip_node side1"
    by (simp add: extends_active_tip_def tip_node_simps tree_ledgers two_branches)
  moreover have "validate_block_for_known_parent tree_env tip_node side1 100 = Ok ()"
    "validate_canonical_state_root tree_env genesis_ledger side1 = Ok ()"
    unfolding side1_def by (rule tree_valid tree_root; simp add: tip_node_simps known_def two_branches)+
  moreover have "tree_insert linked_core [block1, genesis] side1 = ([side1, block1, genesis], Ok [5])"
    by (simp add: tree_insert_def known_def two_branches)
  moreover have "best_block [side1, block1, genesis] = Some block1" "block_hash linked_core block1 = [4]" "previous_hash side1 = [3]"
    by (simp_all add: two_branches)
  ultimately show ?thesis
    by (simp add: apply_known_parent_block_def validate_block_state_for_known_parent_def Let_def tip_node_simps side_replays
        tree_side_save)
qed

definition fork_node2 :: "(unit, block list) node" where
  "fork_node2 = tip_node\<lparr>fork_choice := [side1, block1, genesis]\<rparr>"

definition fork_node3 :: "(unit, block list) node" where
  "fork_node3 = tip_node\<lparr>fork_choice := [side2, side1, block1, genesis], node_ledger := side_ledger,
     node_cache := from_ledger linked_core side_ledger,
     node_mempool := fst (insert_validated_at linked_core (node_mempool tip_node) side_ledger stored_tx 100)\<rparr>"

lemma side_hashes:
  "block_hash linked_core genesis = [3]" "block_hash linked_core block1 = [4]" "block_hash linked_core side1 = [5]"
  "block_hash linked_core side2 = [6]" "previous_hash side2 = [5]" "block_transactions block1 = [stored_tx]"
  by (simp_all add: two_branches)

lemma side_walks:
  "walk linked_core [side1, block1, genesis] [5] = [genesis, side1]"
  "walk linked_core [side2, side1, block1, genesis] [6] = [genesis, side1, side2]"
  "walk linked_core [side2, side1, block1, genesis] [4] = [genesis, block1]"
  "best_block [side2, side1, block1, genesis] = Some side2"
  by (simp_all add: two_branches)

lemma side_branch_ledgers:
  "ledger_for_branch_tip tree_env fork_node2 [5] =
     Ok (genesis_ledger\<lparr>ledger_chain := \<lparr>chain_blocks = [(0, genesis), (1, side1)]\<rparr>\<rparr>)"
  "ledger_for_branch_tip tree_env (fork_node2\<lparr>fork_choice := [side2, side1, block1, genesis]\<rparr>) [6] = Ok side_ledger"
proof -
  have "replay_branch linked_core [([1], stored_account)] [genesis, side1] =
      Ok (genesis_ledger\<lparr>ledger_chain := \<lparr>chain_blocks = [(0, genesis), (1, side1)]\<rparr>\<rparr>)"
    "replay_branch linked_core [([1], stored_account)] [genesis, side1, side2] = Ok side_ledger"
    using side_replays replay_snoc [of "[genesis]" linked_core "[([1], stored_account)]" side1]
      replay_snoc [of "[genesis, side1]" linked_core "[([1], stored_account)]" side2] by simp_all
  then show "ledger_for_branch_tip tree_env fork_node2 [5] =
      Ok (genesis_ledger\<lparr>ledger_chain := \<lparr>chain_blocks = [(0, genesis), (1, side1)]\<rparr>\<rparr>)"
    "ledger_for_branch_tip tree_env (fork_node2\<lparr>fork_choice := [side2, side1, block1, genesis]\<rparr>) [6] = Ok side_ledger"
    by (simp_all add: fork_node2_def ledger_for_branch_tip_def tip_node_simps tree_fork_def replay_branch_def side_walks side_hashes
        del: walk.simps) (simp_all add: res_simps)
qed

lemma tree_reorg:
  "reorg_to_best_tip tree_env (fork_node2\<lparr>fork_choice := [side2, side1, block1, genesis]\<rparr>) 100 = (fork_node3, Ok ())"
proof -
  let ?fc = "[side2, side1, block1, genesis]"
  have "common_ancestor tree_env (fork_node2\<lparr>fork_choice := ?fc\<rparr>) (Some [4]) [6] = Some [3]"
    by (simp add: common_ancestor_def side_walks side_hashes del: walk.simps)
  moreover have "fc_branch_from_ancestor (tree_fork linked_core) ?fc [3] [6] = Some [side1, side2]"
    by (simp add: tree_fork_def side_walks side_hashes del: walk.simps)
  moreover have "save_ledger linked_core (env_lmdb tree_env) (env_codecs tree_env) () side_ledger = ((), Ok ())"
    by (rule tree_save) (simp add: side_ledger_def two_branches)
  ultimately show ?thesis
    using side_branch_ledgers(2)
    by (simp add: reorg_to_best_tip_def Let_def fork_node2_def fork_node3_def tip_node_simps tree_ledgers reinsert_transactions_def
        side_walks side_hashes del: walk.simps best_block.simps)
qed

lemma tree_step3: "apply_known_parent_block tree_env fork_node2 side2 100 = (fork_node3, Ok ())"
proof -
  have "\<not> extends_active_tip tree_env (fork_node2\<lparr>fork_choice := fc\<rparr>) side2" for fc
    by (simp add: extends_active_tip_def fork_node2_def tip_node_simps tree_ledgers two_branches)
  moreover have "\<not> extends_active_tip tree_env fork_node2 side2"
    by (simp add: extends_active_tip_def fork_node2_def tip_node_simps tree_ledgers two_branches)
  moreover have "validate_block_for_known_parent tree_env fork_node2 side2 100 = Ok ()"
    "validate_canonical_state_root tree_env (genesis_ledger\<lparr>ledger_chain := \<lparr>chain_blocks = [(0, genesis), (1, side1)]\<rparr>\<rparr>) side2 = Ok ()"
    unfolding side2_def by (rule tree_valid tree_root; simp add: fork_node2_def tip_node_simps known_def two_branches)+
  moreover have "tree_insert linked_core [side1, block1, genesis] side2 = ([side2, side1, block1, genesis], Ok [6])"
    by (simp_all add: tree_insert_def known_def two_branches)
  ultimately show ?thesis
    using side_branch_ledgers(1) tree_reorg
    by (simp add: apply_known_parent_block_def validate_block_state_for_known_parent_def Let_def fork_node2_def tip_node_simps
        side_replays side_hashes side_walks(4) del: best_block.simps)
qed

lemma tree_reach_nodes:
  "reach (consistent_start tree_env) (node_step tree_env) tip_node"
  "reach (consistent_start tree_env) (node_step tree_env) fork_node2"
  "reach (consistent_start tree_env) (node_step tree_env) fork_node3"
proof -
  have "orphan_blocks tree_node = []" "orphan_children_by_parent tree_node = []" by (simp_all add: tree_node_def)
  from tree_reach [OF reach.start [of "consistent_start tree_env", OF tree_node_start], of block1 100] apply_block_alone [OF this tree_step1]
  show 1: "reach (consistent_start tree_env) (node_step tree_env) tip_node" by simp
  from tree_reach [OF 1, of side1 100] apply_block_alone [OF _ _ tree_step2]
  show 2: "reach (consistent_start tree_env) (node_step tree_env) fork_node2" by (simp add: tip_node_simps fork_node2_def)
  from tree_reach [OF 2, of side2 100] apply_block_alone [OF _ _ tree_step3]
  show "reach (consistent_start tree_env) (node_step tree_env) fork_node3" by (simp add: tip_node_simps fork_node2_def)
qed

end
