(* ===== verification/Node_Reorg.thy ===== *)
theory Node_Reorg
  imports Two_Branches
begin

text \<open>
  What the invariant of the active chain gives: a node that satisfies it follows the best tip with the ledger
  that a replay of its branch gives, linked chains that end in the same block are equal, a block is applied
  completely or refused without a trace, and a reorganisation replaces the ledger, its cache and its stored copy and
  puts the transactions of the losing branch back into the pool.
\<close>

section \<open>Chains that end in the same block\<close>

lemma linked_chains_equal:
  assumes laws: "chain_laws K" "ledger_laws K" and built: "build_chain K xs = Ok c" "build_chain K ys = Ok d"
    and "xs \<noteq> []" "ys \<noteq> []" "block_hash K (last xs) = block_hash K (last ys)"
    and inj: "inj_on (block_hash K) (set xs \<union> set ys)"
  shows "xs = ys"
proof -
  note X = build_chain_shape [OF laws built(1)] and Y = build_chain_shape [OF laws built(2)]
  have last: "last xs = last ys" using assms(5-7) inj by (auto dest: inj_onD)
  have len: "length xs = length ys"
  proof -
    have "(of_nat (length xs - 1) :: u64) = of_nat (length ys - 1)"
      using X Y last assms(5,6) by (metis diff_less last_conv_nth length_greater_0_conv zero_less_one)
    moreover have "length xs - 1 < 2 ^ 64" "length ys - 1 < 2 ^ 64"
      using X Y assms(5,6) by (cases xs; cases ys; auto)+
    ultimately have "length xs - 1 = length ys - 1" by (simp add: word_unat_eq_iff unat_of_nat)
    then show ?thesis using assms(5,6) by (cases xs; cases ys) auto
  qed
  have down: "xs ! (length xs - Suc i) = ys ! (length ys - Suc i)" if "i < length xs" for i
    using that
  proof (induction i)
    case 0
    then show ?case using last assms(5,6) by (simp add: last_conv_nth)
  next
    case (Suc i)
    let ?j = "length xs - Suc (Suc i)"
    have j: "Suc ?j = length xs - Suc i" "Suc ?j < length xs" using Suc.prems by auto
    have "block_hash K (xs ! ?j) = block_hash K (ys ! ?j)"
      using X Y j Suc.IH Suc.prems len by (metis Suc_lessD)
    moreover have "xs ! ?j \<in> set xs" "ys ! ?j \<in> set ys" using j len by simp_all
    ultimately have "xs ! ?j = ys ! ?j" using inj by (auto dest: inj_onD)
    then show ?case using len by simp
  qed
  have "xs ! k = ys ! k" if "k < length xs" for k
  proof -
    have "length xs - Suc (length xs - Suc k) = k" using that by simp
    with down [of "length xs - Suc k"] that len show ?thesis by simp
  qed
  with len show ?thesis by (intro nth_equalityI) auto
qed

section \<open>The pool after a reorganisation\<close>

text \<open>The transactions of the old chain's blocks that are not among the given hashes, oldest first.\<close>

definition losing_transactions :: "core \<Rightarrow> hash set \<Rightarrow> block list \<Rightarrow> signed_transaction list" where
  "losing_transactions K hs bl = concat (map block_transactions (filter (\<lambda>b. block_hash K b \<notin> hs) bl))"

lemma reinsert_losing:
  "reinsert_transactions E L now hs bl m =
     fold (\<lambda>t m. fst (insert_validated_at (env_core E) m L t now)) (losing_transactions (env_core E) hs bl) m"
  unfolding reinsert_transactions_def
  by (induction bl arbitrary: m) (simp_all add: losing_transactions_def)

text \<open>For blocks known before, the hashes above the new tip decide, with the tip or without it.\<close>

lemma losing_ancestors:
  assumes laws: "fork_tree_laws K F" and built: "fork_built F fc" and ins: "fc_insert F fc b = (fc', Ok h)"
    and "block_height b \<noteq> 0" "branch F fc (previous_hash b) bs" and known: "\<And>x. x \<in> set bl \<Longrightarrow> fc_get F fc (block_hash K x) \<noteq> None"
  shows "losing_transactions K (set (fc_ancestor_hashes F fc' h)) bl = losing_transactions K (block_hash K ` set bs) bl"
proof -
  note law = fork_tree_insert [OF laws built ins]
  have "branch F fc' h (bs @ [b])" using branch_after_insert(2) [OF laws built ins assms(5,4)] .
  from fork_tree_ancestors [OF laws law(5) this]
  have "set (fc_ancestor_hashes F fc' h) = insert h (block_hash K ` set bs) \<or>
      set (fc_ancestor_hashes F fc' h) = block_hash K ` set bs" using law(1) by auto
  moreover have "block_hash K x \<noteq> h" if "x \<in> set bl" for x using known [OF that] law(2) by auto
  ultimately show ?thesis unfolding losing_transactions_def by (auto intro!: arg_cong [where f = "\<lambda>xs. concat (map block_transactions xs)"] filter_cong)
qed

section \<open>Properties\<close>

lemma follows_best_tip:
  assumes "crate_laws E" "chain_inv E n"
  shows "\<exists>tip. ledger_tip_hash (env_core E) (node_ledger n) = Some tip \<and>
    map_option fn_hash (fc_best_tip (env_fork E) (fork_choice n)) = Some tip \<and>
    branch (env_fork E) (fork_choice n) tip (ledger_blocks (node_ledger n)) \<and>
    (genesis_accounts n = [] \<or> ledger_for_branch_tip E n tip = Ok (node_ledger n))"
proof -
  have fl: "fork_tree_laws (env_core E) (env_fork E)" and ll: "ledger_laws (env_core E)"
    using assms(1) by (simp_all add: crate_laws_def)
  note I = chain_invD [OF assms(2)]
  have "ledger_for_branch_tip E n (block_hash (env_core E) (last (ledger_blocks (node_ledger n)))) = Ok (node_ledger n)"
    if "genesis_accounts n \<noteq> []"
    using ledger_for_branch_tip_replay [OF fl I(1,7)] I(9) [OF that] by simp
  then show ?thesis using chain_inv_tip [OF ll assms(2)] I(6,7) by blast
qed

text \<open>
  C9. In a node that was started with the ledger of its best tip, a block that \<open>apply_block\<close> refuses leaves no
  trace: an error other than a failed write means that nothing but the expiry of orphans has happened. After a failed
  write the block is indexed, and the ledger in memory is still that of the best tip.
\<close>

theorem block_all_or_nothing:
  assumes "crate_laws E" "reach (consistent_start E) (node_step E) n" "apply_block E n b now = (n', Err e)"
  shows "n' = prune_expired_orphans E n now \<or>
    (\<exists>x. e = StorageError x) \<and> fc_get (env_fork E) (fork_choice n') (block_hash (env_core E) b) \<noteq> None \<and>
    map_option fn_hash (fc_best_tip (env_fork E) (fork_choice n')) = ledger_tip_hash (env_core E) (node_ledger n')"
proof -
  let ?p = "prune_expired_orphans E n now"
  have fl: "fork_tree_laws (env_core E) (env_fork E)" using assms(1) by (simp add: crate_laws_def)
  have inv: "chain_inv E ?p" by (rule chain_inv_cong [OF consistent_reach_inv [OF assms(1,2)]]) simp_all
  have app: "apply_known_parent_block E ?p b now = (n', Err e)"
    using assms(3) by (auto simp: apply_block_def split: prod.splits sum.splits if_splits)
  then have "chain_inv E n'" using chain_inv_apply [OF assms(1) inv, of b now] by simp
  then have follows: "map_option fn_hash (fc_best_tip (env_fork E) (fork_choice n')) = ledger_tip_hash (env_core E) (node_ledger n')"
    using follows_best_tip [OF assms(1)] by fastforce
  have known: "fc_get (env_fork E) fc (block_hash (env_core E) b) \<noteq> None"
    if "fc_insert (env_fork E) (fork_choice ?p) b = (fc, Ok h)" for fc h
    using fork_tree_insert(1,3) [OF fl chain_invD(1) [OF inv] that] by simp
  from assms(1) inv app show ?thesis
  proof (cases rule: apply_known_parent_cases)
    case (side fc h st x)
    then show ?thesis using known [OF side(1)] follows by (auto simp: map_err_Err_iff dest: sym)
  next
    case (extended fc h L st x)
    then show ?thesis using known [OF extended(1)] follows by (auto simp: map_err_Err_iff dest: sym)
  next
    case (reorganised fc h bs L st x)
    then show ?thesis using known [OF reorganised(1)] follows by (auto simp: map_err_Err_iff dest: sym)
  qed simp
qed

text \<open>The block of the example, with another state root.\<close>

definition bad_root :: block where
  "bad_root = side1\<lparr>header := (header side1)\<lparr>bh_state_root := [7]\<rparr>\<rparr>"

theorem block_all_or_nothing_witness:
  "apply_block tree_env tree_node bad_root 100 = (prune_expired_orphans tree_env tree_node 100, Err (LedgerError InvalidStateRoot))"
proof -
  have "prune_expired_orphans tree_env tree_node 100 = tree_node" by (simp add: prune_expired_orphans_def tree_node_def)
  moreover have "validate_block_for_known_parent tree_env tree_node bad_root 100 = Ok ()"
    by (simp add: validate_block_for_known_parent_def)
      (simp add: bad_root_def tree_node_def two_branches tree_env_def sample_env_def sample_consensus_def)
  moreover have "extends_active_tip tree_env tree_node bad_root"
    by (simp add: extends_active_tip_def tree_node_def tree_ledgers bad_root_def side1_def)
  then have "validate_block_state_for_known_parent tree_env tree_node bad_root = Err (LedgerError InvalidStateRoot)"
    by (simp add: validate_block_state_for_known_parent_def validate_canonical_state_root_def)
      (simp add: bad_root_def side1_def linked_core_def sample_core_def)
  ultimately have "snd (apply_block tree_env tree_node bad_root 100) = Err (LedgerError InvalidStateRoot)"
    by (simp add: apply_block_def apply_known_parent_block_def)
  then have "apply_block tree_env tree_node bad_root 100 =
      (fst (apply_block tree_env tree_node bad_root 100), Err (LedgerError InvalidStateRoot))" by (simp add: prod_eq_iff)
  from block_all_or_nothing [OF tree_env_laws reach.start [of "consistent_start tree_env", OF tree_node_start] this] this
  show ?thesis by (simp add: prod_eq_iff)
qed

text \<open>
  A block the node knows already changes nothing: ledger, pool, store, cache and index stay as they
  are. (So a block whose first application failed to be written is not written when it arrives again.)
\<close>

lemma known_block_ignored:
  assumes "crate_laws E" "reach (consistent_start E) (node_step E) n"
    and "fc_get (env_fork E) (fork_choice n) (block_hash (env_core E) b) \<noteq> None" "apply_block E n b now = (n', r)"
  shows "node_ledger n' = node_ledger n \<and> node_mempool n' = node_mempool n \<and> node_storage n' = node_storage n \<and>
    node_cache n' = node_cache n \<and> fork_choice n' = fork_choice n"
proof -
  let ?p = "prune_expired_orphans E n now"
  have fl: "fork_tree_laws (env_core E) (env_fork E)" using assms(1) by (simp add: crate_laws_def)
  have inv: "chain_inv E ?p" by (rule chain_inv_cong [OF consistent_reach_inv [OF assms(1,2)]]) simp_all
  have dup: "fc_insert (env_fork E) (fork_choice ?p) b \<noteq> (fc, Ok h)" for fc h
    using fork_tree_duplicate [OF fl chain_invD(1) [OF inv], of b] assms(3) by simp
  obtain q s where app: "apply_known_parent_block E ?p b now = (q, s)" by fastforce
  from assms(1) inv app obtain e where "s = Err e" "q = ?p"
    by (cases rule: apply_known_parent_cases) (use dup in blast)+
  with app have app: "apply_known_parent_block E ?p b now = (?p, Err e)" by simp
  have "cache_orphan_block E ?p b now = prune_expired_orphans E ?p now"
    using assms(3) fork_tree_contains [OF fl chain_invD(1) [OF inv]] by (simp add: cache_orphan_block_def Let_def)
  then have "n' = ?p \<or> n' = prune_expired_orphans E ?p now" using assms(4) by (auto simp: apply_block_def app split: if_splits)
  then show ?thesis by auto
qed

text \<open>
  C8. A reorganisation: when a block off the active tip becomes the best tip, the ledger becomes the replay
  of its branch from the genesis accounts, the cache is rebuilt from it and it is what the store holds;
  the pool is the old one after submitting the transactions of the blocks that have left the chain, in
  the order of the old chain.
\<close>

theorem reorganisation_effect:
  assumes "crate_laws E" "reach (consistent_start E) (node_step E) n" "apply_known_parent_block E n b now = (n', Ok ())"
    and "\<not> extends_active_tip E n b"
    and "map_option fn_hash (fc_best_tip (env_fork E) (fork_choice n')) = Some (block_hash (env_core E) b)"
  shows "\<exists>bs. branch (env_fork E) (fork_choice n) (previous_hash b) bs \<and>
    replay_branch (env_core E) (genesis_accounts n) (bs @ [b]) = Ok (node_ledger n') \<and>
    ledger_blocks (node_ledger n') = bs @ [b] \<and> node_cache n' = from_ledger (env_core E) (node_ledger n') \<and>
    save_ledger (env_core E) (env_lmdb E) (env_codecs E) (node_storage n) (node_ledger n') = (node_storage n', Ok ()) \<and>
    node_mempool n' = fold (\<lambda>t m. fst (insert_validated_at (env_core E) m (node_ledger n') t now))
      (losing_transactions (env_core E) (block_hash (env_core E) ` set bs) (ledger_blocks (node_ledger n))) (node_mempool n)"
proof -
  have fl: "fork_tree_laws (env_core E) (env_fork E)" and ll: "ledger_laws (env_core E)" and cl: "chain_laws (env_core E)"
    using assms(1) by (simp_all add: crate_laws_def)
  have inv: "chain_inv E n" by (rule consistent_reach_inv [OF assms(1,2)])
  note I = chain_invD [OF inv]
  from assms(1) inv assms(3) show ?thesis
  proof (cases rule: apply_known_parent_cases)
    case (side fc h st x)
    have "fc_get (env_fork E) (fork_choice n) h \<noteq> None" if "map_option fn_hash (fc_best_tip (env_fork E) (fork_choice n)) = Some h"
      using fork_tree_best(1) [OF fl I(1)] that by auto
    then show ?thesis using side(3,5) assms(5) fork_tree_insert(1,2) [OF fl I(1) side(1)] by auto
  next
    case (reorganised fc h bs L st x)
    have x: "x = Ok ()" using reorganised(9) by (cases x) auto
    have known: "fc_get (env_fork E) (fork_choice n) (block_hash (env_core E) y) \<noteq> None" if "y \<in> set (ledger_blocks (node_ledger n))" for y
      using branch_known [OF I(7) that] fork_tree_known [OF fl I(1)] by fastforce
    have losing: "losing_transactions (env_core E) (set (fc_ancestor_hashes (env_fork E) fc h)) (ledger_blocks (node_ledger n)) =
        losing_transactions (env_core E) (block_hash (env_core E) ` set bs) (ledger_blocks (node_ledger n))"
      by (rule losing_ancestors [OF fl I(1) reorganised(1,2,5)]) (rule known)
    show ?thesis
      using reorganised replay_good [OF cl ll I(5) _ reorganised(6)] x
      by (intro exI [of _ bs]) (simp add: reinsert_losing losing)
  qed (use assms(4) in auto)
qed

theorem reorganisation_effect_witness:
  "node_mempool fork_node3 = fst (insert_validated_at linked_core (node_mempool fork_node2) side_ledger stored_tx 100) \<and>
   replay_branch linked_core (genesis_accounts fork_node2) [genesis, side1, side2] = Ok (node_ledger fork_node3)"
proof -
  have tip: "\<not> extends_active_tip tree_env fork_node2 side2"
    by (simp add: extends_active_tip_def fork_node2_def tip_node_simps tree_ledgers two_branches)
  have best: "map_option fn_hash (fc_best_tip (env_fork tree_env) (fork_choice fork_node3)) = Some (block_hash (env_core tree_env) side2)"
    by (simp add: fork_node3_def two_branches)
  obtain bs where bs: "ledger_blocks (node_ledger fork_node3) = bs @ [side2]"
    "replay_branch linked_core (genesis_accounts fork_node2) (bs @ [side2]) = Ok (node_ledger fork_node3)"
    "node_mempool fork_node3 = fold (\<lambda>t m. fst (insert_validated_at linked_core m (node_ledger fork_node3) t 100))
      (losing_transactions linked_core (block_hash linked_core ` set bs) (ledger_blocks (node_ledger fork_node2))) (node_mempool fork_node2)"
    using reorganisation_effect [OF tree_env_laws tree_reach_nodes(2) tree_step3 tip best] by auto
  have L: "node_ledger fork_node3 = side_ledger" "ledger_blocks side_ledger = [genesis, side1, side2]"
    "ledger_blocks (node_ledger fork_node2) = [genesis, block1]"
    by (simp_all add: fork_node3_def fork_node2_def side_ledger_def tip_node_simps tree_ledgers)
  then have "bs = [genesis, side1]" using bs(1) by simp
  moreover have "losing_transactions linked_core {[3], [5]} [genesis, block1] = [stored_tx]"
    by (simp add: losing_transactions_def two_branches)
  ultimately show ?thesis using bs(2,3) L by (simp add: two_branches)
qed

text \<open>
  A reorganisation submits transactions and takes none out: one that was pending and is confirmed by the
  winning branch is still pending when the losing branch had no transactions.
\<close>

lemma confirmed_stays_pending:
  assumes "crate_laws E" "chain_inv E n" "apply_known_parent_block E n b now = (n', Ok ())"
    and "\<not> extends_active_tip E n b" "\<forall>y \<in> set (ledger_blocks (node_ledger n)). block_transactions y = []"
  shows "node_mempool n' = node_mempool n"
  using assms(1-3)
proof (cases rule: apply_known_parent_cases)
  case (reorganised fc h bs L st x)
  have "losing_transactions (env_core E) hs (ledger_blocks (node_ledger n)) = []" for hs
    using assms(5) by (auto simp: losing_transactions_def)
  then show ?thesis using reorganised(8) by (simp add: reinsert_losing split: sum.split)
qed (use assms(4) in auto)

end
