(* ===== verification/Storage_Blocks.thy ===== *)
theory Storage_Blocks
  imports Storage_Ledger
begin

text \<open>
  What the node's writes do to the parts of the store that outlive a reorganisation: the blocks by hash,
  which are never cleared, the genesis accounts and the storage version. The facts hold of successful and
  of failed writes.
\<close>

section \<open>Writing\<close>

text \<open>A block that is stored under its hash.\<close>

definition block_stored :: "core \<Rightarrow> codecs \<Rightarrow> dbs \<Rightarrow> block \<Rightarrow> bool" where
  "block_stored K C v b \<longleftrightarrow> (\<exists>bs. encode (block_codec C) b = Ok bs \<and> v BLOCKS_BY_HASH (block_hash K b) = Some bs)"

lemma encode_block_inj:
  assumes "codecs_ok C" "encode (block_codec C) a = Ok bs" "encode (block_codec C) b = Ok bs"
  shows "a = b"
  using encode_decode [OF _ assms(2)] encode_decode [OF _ assms(3)] assms(1) by (simp add: codecs_ok_def)

lemma put_blocks_by_hash:
  assumes "lmdb_laws D V W"
    and "try_fold (\<lambda>b t. res_bind (encode (block_codec C) b) (\<lambda>bs. put_block K D C b bs t)) bl t = Ok t'"
    and "W t' BLOCKS_BY_HASH k = Some bs"
  shows "W t BLOCKS_BY_HASH k = Some bs \<or> (\<exists>b \<in> set bl. encode (block_codec C) b = Ok bs)"
  using assms(2,3)
proof (induction bl arbitrary: t)
  case (Cons b bl)
  then obtain es t1 where t1: "encode (block_codec C) b = Ok es" "put_block K D C b es t = Ok t1"
    "try_fold (\<lambda>b t. res_bind (encode (block_codec C) b) (\<lambda>bs. put_block K D C b bs t)) bl t1 = Ok t'"
    by (auto simp: res_bind_Ok_iff)
  from Cons.IH [OF t1(3) Cons.prems(2)] show ?case
    using put_block_view(2) [OF assms(1) t1(2)] t1(1) by (auto split: if_splits)
qed simp

text \<open>The blocks of a ledger are stored under their hashes; other hashes keep their blocks.\<close>

lemma put_blocks_hashes:
  assumes laws: "lmdb_laws D V W"
    and "try_fold (\<lambda>b t. res_bind (encode (block_codec C) b) (\<lambda>bs. put_block K D C b bs t)) bl t = Ok t'"
  shows "if k \<in> block_hash K ` set bl
    then \<exists>b \<in> set bl. block_hash K b = k \<and> (\<exists>bs. encode (block_codec C) b = Ok bs \<and> W t' BLOCKS_BY_HASH k = Some bs)
    else W t' BLOCKS_BY_HASH k = W t BLOCKS_BY_HASH k"
  using assms(2)
proof (induction bl arbitrary: t)
  case (Cons b bl)
  then obtain es t1 where t1: "encode (block_codec C) b = Ok es" "put_block K D C b es t = Ok t1"
    "try_fold (\<lambda>b t. res_bind (encode (block_codec C) b) (\<lambda>bs. put_block K D C b bs t)) bl t1 = Ok t'"
    by (auto simp: res_bind_Ok_iff)
  from Cons.IH [OF t1(3)] show ?case
    using put_block_view(2) [OF laws t1(2)] t1(1) by (auto split: if_splits)
qed simp

lemma put_tip_state_accounts:
  assumes "lmdb_laws D V W" "put_tip_state K D C L t = Ok t'"
    and "ledger_tip_height K L = Some h" "ledger_tip_hash K L = Some bh"
  shows "W t' GENESIS_ACCOUNTS GENESIS_ACCOUNTS_KEY = W t GENESIS_ACCOUNTS GENESIS_ACCOUNTS_KEY \<or>
    h = 0 \<and> (\<exists>bs. encode (accounts_codec C) (ledger_accounts L) = Ok bs \<and> W t' GENESIS_ACCOUNTS GENESIS_ACCOUNTS_KEY = Some bs)"
proof -
  obtain t1 t2 where p: "put_tip D C h bh t = Ok t1"
    "t2 = t1 \<or> put_value D (snapshot_codec C) STATE_SNAPSHOTS (height_key h) (snapshot_of K L h bh) t1 = Ok t2"
    "t' = t2 \<or> h = 0 \<and> put_value D (accounts_codec C) GENESIS_ACCOUNTS GENESIS_ACCOUNTS_KEY (ledger_accounts L) t2 = Ok t'"
    using assms(2) by (auto simp: put_tip_state_def assms(3,4) res_bind_Ok_iff split: if_splits)
  have "W t1 GENESIS_ACCOUNTS = W t GENESIS_ACCOUNTS" by (rule put_tip_view [OF assms(1) p(1)]) simp
  moreover have "W t2 GENESIS_ACCOUNTS = W t1 GENESIS_ACCOUNTS" using p(2) by (auto elim!: put_value_view [OF assms(1)])
  ultimately show ?thesis using p(3) by (auto elim!: put_value_view [OF assms(1)])
qed

text \<open>A call of \<open>save_ledger\<close> leaves the content as it was or commits the whole ledger, whatever it returns.\<close>

lemma save_ledger_commits:
  assumes "lmdb_laws D V W" "save_ledger K D C e L = (e', r)"
  shows "V e' = V e \<or> (\<exists>t t'. W t = V e \<and> put_ledger K D C L t = Ok t' \<and> V e' = W t')"
proof -
  obtain e1 r1 where rw: "with_rw D e (put_ledger K D C L) = (e1, r1)" by fastforce
  have e1: "e' = e1" using assms(2) rw by (cases r1) (auto simp: save_ledger_def then_env_def)
  show ?thesis
  proof (cases r1)
    case (Inl x)
    then show ?thesis using with_rw_Err [OF assms(1)] rw e1 by blast
  next
    case (Inr u)
    then obtain t t' where "W t = V e" "put_ledger K D C L t = Ok t'" "V e1 = W t'"
      using with_rw_Ok [OF assms(1)] rw by blast
    then show ?thesis using e1 by blast
  qed
qed

text \<open>The parts of \<open>put_ledger\<close>: after clearing and the accounts, the blocks and the tip.\<close>

lemma put_ledger_parts:
  assumes laws: "lmdb_laws D V W" and "put_ledger K D C L t = Ok t'"
  obtains t2 t3 where "\<forall>d \<in> {BLOCKS_BY_HASH, GENESIS_ACCOUNTS, META}. W t2 d = W t d"
    "try_fold (\<lambda>b t. res_bind (encode (block_codec C) b) (\<lambda>bs. put_block K D C b bs t))
       (bt_values (chain_blocks (ledger_chain L))) t2 = Ok t3" "put_tip_state K D C L t3 = Ok t'"
proof -
  obtain t1 t2 t3 where p:
    "try_fold (clear_db D) [BLOCKS_BY_HEIGHT, ACCOUNTS, STATE_SNAPSHOTS, TX_INDEX, ADDRESS_TX_INDEX] t = Ok t1"
    "try_fold (\<lambda>a. put_value D (account_codec C) ACCOUNTS (acc_address a) a) (bt_values (ledger_accounts L)) t1 = Ok t2"
    "try_fold (\<lambda>b t. res_bind (encode (block_codec C) b) (\<lambda>bs. put_block K D C b bs t))
       (bt_values (chain_blocks (ledger_chain L))) t2 = Ok t3"
    "put_tip_state K D C L t3 = Ok t'"
    using assms(2) unfolding put_ledger_def by (auto simp only: res_bind_Ok_iff)
  have "\<forall>d \<in> {BLOCKS_BY_HASH, GENESIS_ACCOUNTS, META}. W t2 d = W t d"
    using put_accounts_view [OF laws p(2)] clear_dbs_view [OF laws p(1)] by auto
  then show ?thesis by (rule that [OF _ p(3,4)])
qed

lemma save_ledger_kept:
  assumes laws: "lmdb_laws D V W" and saved: "save_ledger K D C e L = (e', r)"
    and tip: "ledger_tip_height K L = Some h" "ledger_tip_hash K L = Some bh"
  shows "V e' BLOCKS_BY_HASH k = Some bs \<Longrightarrow> V e BLOCKS_BY_HASH k = Some bs \<or>
      (\<exists>b \<in> set (bt_values (chain_blocks (ledger_chain L))). encode (block_codec C) b = Ok bs)"
    and "V e' GENESIS_ACCOUNTS GENESIS_ACCOUNTS_KEY = V e GENESIS_ACCOUNTS GENESIS_ACCOUNTS_KEY \<or>
      h = 0 \<and> (\<exists>bs. encode (accounts_codec C) (ledger_accounts L) = Ok bs \<and> V e' GENESIS_ACCOUNTS GENESIS_ACCOUNTS_KEY = Some bs)"
    and "V e' META STORAGE_VERSION_KEY = V e META STORAGE_VERSION_KEY"
proof -
  have *: "(V e' BLOCKS_BY_HASH k = Some bs \<longrightarrow> V e BLOCKS_BY_HASH k = Some bs \<or>
      (\<exists>b \<in> set (bt_values (chain_blocks (ledger_chain L))). encode (block_codec C) b = Ok bs)) \<and>
    (V e' GENESIS_ACCOUNTS GENESIS_ACCOUNTS_KEY = V e GENESIS_ACCOUNTS GENESIS_ACCOUNTS_KEY \<or>
      h = 0 \<and> (\<exists>bs. encode (accounts_codec C) (ledger_accounts L) = Ok bs \<and> V e' GENESIS_ACCOUNTS GENESIS_ACCOUNTS_KEY = Some bs)) \<and>
    V e' META STORAGE_VERSION_KEY = V e META STORAGE_VERSION_KEY"
    using save_ledger_commits [OF laws saved]
  proof
    assume "\<exists>t t'. W t = V e \<and> put_ledger K D C L t = Ok t' \<and> V e' = W t'"
    then obtain t t' where t: "W t = V e" "put_ledger K D C L t = Ok t'" "V e' = W t'" by blast
    obtain t2 t3 where v2: "\<forall>d \<in> {BLOCKS_BY_HASH, GENESIS_ACCOUNTS, META}. W t2 d = W t d" and p:
      "try_fold (\<lambda>b t. res_bind (encode (block_codec C) b) (\<lambda>bs. put_block K D C b bs t))
         (bt_values (chain_blocks (ledger_chain L))) t2 = Ok t3" "put_tip_state K D C L t3 = Ok t'"
      by (rule put_ledger_parts [OF laws t(2)])
    have v3: "W t3 d = W t2 d" if "d \<in> {GENESIS_ACCOUNTS, META}" for d using that put_blocks_view [OF laws p(1)] by auto
    obtain hb where tip': "W t' META = (W t3 META)(TIP_HEIGHT_KEY \<mapsto> hb, TIP_HASH_KEY \<mapsto> bh)"
      "\<And>d. d \<notin> {META, STATE_SNAPSHOTS, GENESIS_ACCOUNTS} \<Longrightarrow> W t' d = W t3 d"
      using put_tip_state_view [OF laws p(2) tip] by metis
    show ?thesis
      using put_blocks_by_hash [OF laws p(1), of k bs] put_tip_state_accounts [OF laws p(2) tip]
        v2 v3 [of META] v3 [of GENESIS_ACCOUNTS]
        tip'(1) tip'(2) [of BLOCKS_BY_HASH] t(1,3) by simp
  qed simp
  from * show "V e' BLOCKS_BY_HASH k = Some bs \<Longrightarrow> V e BLOCKS_BY_HASH k = Some bs \<or>
      (\<exists>b \<in> set (bt_values (chain_blocks (ledger_chain L))). encode (block_codec C) b = Ok bs)"
    "V e' GENESIS_ACCOUNTS GENESIS_ACCOUNTS_KEY = V e GENESIS_ACCOUNTS GENESIS_ACCOUNTS_KEY \<or>
      h = 0 \<and> (\<exists>bs. encode (accounts_codec C) (ledger_accounts L) = Ok bs \<and> V e' GENESIS_ACCOUNTS GENESIS_ACCOUNTS_KEY = Some bs)"
    "V e' META STORAGE_VERSION_KEY = V e META STORAGE_VERSION_KEY" by blast+
qed

lemma save_ledger_hashes:
  assumes laws: "lmdb_laws D V W" and saved: "save_ledger K D C e L = (e', Ok ())"
    and tip: "ledger_tip_height K L = Some h" "ledger_tip_hash K L = Some bh"
  shows "if k \<in> block_hash K ` set (bt_values (chain_blocks (ledger_chain L)))
    then \<exists>b \<in> set (bt_values (chain_blocks (ledger_chain L))). block_hash K b = k \<and>
      (\<exists>bs. encode (block_codec C) b = Ok bs \<and> V e' BLOCKS_BY_HASH k = Some bs)
    else V e' BLOCKS_BY_HASH k = V e BLOCKS_BY_HASH k"
proof -
  obtain t t' where t: "W t = V e" "put_ledger K D C L t = Ok t'" "V e' = W t'"
    by (rule save_ledgerE [OF laws saved])
  obtain t2 t3 where v2: "\<forall>d \<in> {BLOCKS_BY_HASH, GENESIS_ACCOUNTS, META}. W t2 d = W t d" and p:
    "try_fold (\<lambda>b t. res_bind (encode (block_codec C) b) (\<lambda>bs. put_block K D C b bs t))
       (bt_values (chain_blocks (ledger_chain L))) t2 = Ok t3" "put_tip_state K D C L t3 = Ok t'"
    by (rule put_ledger_parts [OF laws t(2)])
  have "V e' BLOCKS_BY_HASH = W t3 BLOCKS_BY_HASH" unfolding t(3) by (rule put_tip_state_view [OF laws p(2) tip]) simp
  moreover have "V e BLOCKS_BY_HASH = W t2 BLOCKS_BY_HASH" using v2 t(1) by simp
  ultimately show ?thesis using put_blocks_hashes [OF laws p(1), of k] by (simp only:)
qed

lemma save_side_block_view:
  assumes laws: "lmdb_laws D V W" and saved: "save_side_block K D C e b = (e', r)"
  shows "V e' = V e \<and> r \<noteq> Ok () \<or>
    (\<exists>bs. encode (block_codec C) b = Ok bs \<and> V e' = (V e)(BLOCKS_BY_HASH := (V e BLOCKS_BY_HASH)(block_hash K b \<mapsto> bs)))"
proof (cases "encode (block_codec C) b")
  case (Inr es)
  then have rw: "with_rw D e (put_bytes D BLOCKS_BY_HASH (block_hash K b) es) = (e', r)"
    using saved by (simp add: save_side_block_def)
  show ?thesis
  proof (cases r)
    case (Inl x)
    then show ?thesis using with_rw_Err [OF laws] rw by blast
  next
    case (Inr u)
    then obtain t t' where "W t = V e" "put_bytes D BLOCKS_BY_HASH (block_hash K b) es t = Ok t'" "V e' = W t'"
      using with_rw_Ok [OF laws] rw by blast
    then show ?thesis using put_bytes_view [OF laws] \<open>encode (block_codec C) b = Ok es\<close> by metis
  qed
qed (use saved in \<open>auto simp: save_side_block_def\<close>)

lemma save_side_block_kept:
  assumes "lmdb_laws D V W" "save_side_block K D C e b = (e', r)"
  shows "V e' BLOCKS_BY_HASH k = Some bs \<Longrightarrow> V e BLOCKS_BY_HASH k = Some bs \<or> encode (block_codec C) b = Ok bs"
    and "d \<noteq> BLOCKS_BY_HASH \<Longrightarrow> V e' d = V e d"
  using save_side_block_view [OF assms] by (auto split: if_splits)

section \<open>Reading\<close>

lemma load_genesis_accounts_view:
  assumes "lmdb_laws D V W" "readable D e"
  shows "load_genesis_accounts D C e =
    try_map_option (decode (accounts_codec C)) (V e GENESIS_ACCOUNTS GENESIS_ACCOUNTS_KEY)"
  by (rule with_ro_view [OF assms])
    (simp add: with_ro_def load_genesis_accounts_def read_value_def read_bytes_view [OF assms(1)])

lemma save_genesis_accounts_view:
  assumes laws: "lmdb_laws D V W" and "save_genesis_accounts D C e accs = (e', Ok ())"
  obtains bs where "encode (accounts_codec C) accs = Ok bs"
    "V e' = (V e)(GENESIS_ACCOUNTS := (V e GENESIS_ACCOUNTS)(GENESIS_ACCOUNTS_KEY \<mapsto> bs))"
proof -
  obtain t t' where t: "W t = V e" "put_value D (accounts_codec C) GENESIS_ACCOUNTS GENESIS_ACCOUNTS_KEY accs t = Ok t'" "V e' = W t'"
    using with_rw_Ok [OF laws assms(2) [unfolded save_genesis_accounts_def]] by blast
  show ?thesis by (rule put_value_view [OF laws t(2)]) (use that t(1,3) in auto)
qed

lemma loaded_blocks_stored:
  assumes "lmdb_laws D V W" "readable D e" "load_blocks_by_hash D C e = Ok blocks" "b \<in> set blocks"
  shows "\<exists>k bs. V e BLOCKS_BY_HASH k = Some bs \<and> decode (block_codec C) bs = Ok b"
proof -
  obtain t where t: "begin_ro_txn D e = Ok t" and W: "W t = V e" by (rule with_ro_view [OF assms(1,2)])
  obtain es where es: "txn_iter D t BLOCKS_BY_HASH = Ok es" "bt_wf es" "map_of es = W t BLOCKS_BY_HASH"
    using lmdb_iter [OF assms(1)] by blast
  have "try_fold (\<lambda>(_, bs) blocks. res_bind (decode (block_codec C) bs) (\<lambda>b. Ok (blocks @ [b]))) es [] = Ok blocks"
    using assms(3) t es(1) by (simp add: load_blocks_by_hash_def with_ro_def)
  then have "\<forall>b \<in> set blocks. \<exists>(k, bs) \<in> set es. decode (block_codec C) bs = Ok b"
    by (rule try_fold_inv) (fastforce simp: res_bind_Ok_iff)+
  then obtain k bs where "(k, bs) \<in> set es" "decode (block_codec C) bs = Ok b" using assms(4) by blast
  moreover from this have "W t BLOCKS_BY_HASH k = Some bs" using es(2,3) by (metis bt_get_iff_mem)
  ultimately show ?thesis using W by auto
qed

lemma stored_blocks_loaded:
  assumes "lmdb_laws D V W" "readable D e" "load_blocks_by_hash D C e = Ok blocks"
    and "V e BLOCKS_BY_HASH k = Some bs" "decode (block_codec C) bs = Ok b"
  shows "b \<in> set blocks"
proof -
  obtain t where t: "begin_ro_txn D e = Ok t" and W: "W t = V e" by (rule with_ro_view [OF assms(1,2)])
  obtain es where es: "txn_iter D t BLOCKS_BY_HASH = Ok es" "bt_wf es" "map_of es = W t BLOCKS_BY_HASH"
    using lmdb_iter [OF assms(1)] by blast
  have fold: "try_fold (\<lambda>(_, bs) blocks. res_bind (decode (block_codec C) bs) (\<lambda>b. Ok (blocks @ [b]))) es [] = Ok blocks"
    using assms(3) t es(1) by (simp add: load_blocks_by_hash_def with_ro_def)
  have "b \<in> set r" if "try_fold (\<lambda>(_, bs) blocks. res_bind (decode (block_codec C) bs) (\<lambda>b. Ok (blocks @ [b]))) es l = Ok r"
    "(k, bs) \<in> set es \<or> b \<in> set l" for es l r
    using that by (induction es arbitrary: l) (fastforce simp: res_bind_Ok_iff assms(5))+
  moreover have "(k, bs) \<in> set es" using map_of_SomeD [of es k bs] assms(4) W es(3) by simp
  ultimately show ?thesis using fold by blast
qed

end
