(* ===== verification/Node_Restart.thy ===== *)
theory Node_Restart
  imports Node_Reorg Storage_Blocks
begin

text \<open>
  The life of a node across restarts. The blocks, the genesis accounts and the version in the store stay
  those of the node through everything it handles and every failed write; a first start on an empty
  store is consistent; and a restart after a flush finds the same ledger, rebuilds an index whose best
  tip is the ledger's tip, and is consistent again.
\<close>

section \<open>Weights\<close>

text \<open>
  How the crate chooses the best tip: branches have a weight, and a new block becomes the best tip exactly
  when its branch is heavier than the best so far.
\<close>

definition fork_weighs :: "'f fork_choice_ops \<Rightarrow> (block list \<Rightarrow> nat) \<Rightarrow> bool" where
  "fork_weighs F w \<longleftrightarrow>
     (\<forall>fc b fc' h bs tip ts. fork_built F fc \<longrightarrow> fc_insert F fc b = (fc', Ok h) \<longrightarrow> branch F fc' h bs \<longrightarrow>
        map_option fn_hash (fc_best_tip F fc) = Some tip \<longrightarrow> branch F fc tip ts \<longrightarrow>
        (map_option fn_hash (fc_best_tip F fc') = Some h \<longleftrightarrow> w ts < w bs))"

lemma fork_weighsD:
  assumes "fork_weighs F w" "fork_built F fc" "fc_insert F fc b = (fc', Ok h)" "branch F fc' h bs"
    and "map_option fn_hash (fc_best_tip F fc) = Some tip" "branch F fc tip ts"
  shows "map_option fn_hash (fc_best_tip F fc') = Some h \<longleftrightarrow> w ts < w bs"
  using assms unfolding fork_weighs_def by blast

text \<open>The best tip has the heaviest branch.\<close>

definition heaviest :: "'f fork_choice_ops \<Rightarrow> (block list \<Rightarrow> nat) \<Rightarrow> 'f \<Rightarrow> bool" where
  "heaviest F w fc \<longleftrightarrow>
     (\<forall>tip ts h bs. map_option fn_hash (fc_best_tip F fc) = Some tip \<longrightarrow> branch F fc tip ts \<longrightarrow> branch F fc h bs \<longrightarrow> w bs \<le> w ts)"

text \<open>The first block of an index is its only branch.\<close>

lemma only_branch:
  assumes laws: "fork_tree_laws K F" and built: "fork_built F fc" and ins: "fc_insert F fc b = (fc', Ok x)"
    and none: "fc_best_tip F fc = None" and br: "branch F fc' y ys"
  shows "y = x"
proof (rule ccontr)
  assume "y \<noteq> x"
  then have "fc_get F fc' y = None"
    using fork_tree_insert(3) [OF laws built ins] fork_tree_best_None [OF laws built none] by simp
  then show False using branch_last [OF br] by simp
qed

lemma heaviest_insert:
  assumes laws: "fork_tree_laws K F" "fork_weighs F w" and built: "fork_built F fc" and ins: "fc_insert F fc b = (fc', Ok x)"
    and old: "fc_best_tip F fc = Some nd" "heaviest F w fc"
  shows "heaviest F w fc'"
proof -
  note law = fork_tree_insert [OF laws(1) built ins] and grown = branch_after_insert(1) [OF laws(1) built ins]
  have tip: "map_option fn_hash (fc_best_tip F fc) = Some (fn_hash nd)" using old(1) by simp
  obtain xs where xs: "branch F fc' x xs" using fork_tree_known [OF laws(1) law(5), of x] law(3) by auto
  obtain os where os: "branch F fc (fn_hash nd) os"
    using fork_tree_best(1) [OF laws(1) built old(1)] fork_tree_known [OF laws(1) built] by blast
  note new = fork_weighsD [OF laws(2) built ins xs tip os]
  have le: "w bs \<le> max (w os) (w xs)" if bs: "branch F fc' h bs" for h bs
  proof (cases "h = x")
    case True
    then show ?thesis using branch_unique [OF xs] bs by simp
  next
    case False
    then obtain hs where hs: "branch F fc h hs"
      using branch_last [OF bs] law(3) fork_tree_known [OF laws(1) built, of h] by auto
    then have "bs = hs" using branch_unique [OF grown bs] by simp
    then show ?thesis using old(2) tip os hs unfolding heaviest_def by fastforce
  qed
  show ?thesis
    unfolding heaviest_def
  proof (intro allI impI)
    fix t ts h bs
    assume t: "map_option fn_hash (fc_best_tip F fc') = Some t" "branch F fc' t ts" and bs: "branch F fc' h bs"
    show "w bs \<le> w ts"
    proof (cases "t = x")
      case True
      then show ?thesis using le [OF bs] new t branch_unique [OF xs] by auto
    next
      case False
      then have "t = fn_hash nd" using law(6) t(1) tip by auto
      then have "ts = os" using branch_unique [OF grown [OF os]] t(2) by simp
      then show ?thesis using le [OF bs] new False t(1) by simp
    qed
  qed
qed

lemma built_heaviest:
  assumes laws: "fork_tree_laws K F" "fork_weighs F w"
  shows "fork_built F fc \<Longrightarrow> heaviest F w fc"
proof (induction rule: fork_built.induct)
  case new
  then show ?case using fork_tree_new [OF laws(1)] by (simp add: heaviest_def)
next
  case (insert fc b)
  obtain fc' r where ins: "fc_insert F fc b = (fc', r)" by fastforce
  show ?case
  proof (cases r)
    case (Inl e)
    then show ?thesis using fork_tree_refuse [OF laws(1) insert.hyps] ins insert.IH by auto
  next
    case (Inr x)
    show ?thesis
    proof (cases "fc_best_tip F fc")
      case None
      have "heaviest F w fc'"
        unfolding heaviest_def
        using only_branch [OF laws(1) insert.hyps ins [unfolded Inr] None] branch_unique by (metis order_refl)
      then show ?thesis by (simp add: ins)
    next
      case (Some nd)
      then show ?thesis using heaviest_insert [OF laws insert.hyps ins [unfolded Inr] Some insert.IH] by (simp add: ins)
    qed
  qed
qed

lemma best_tip_heaviest:
  assumes "fork_tree_laws K F" "fork_weighs F w" "fork_built F fc" "map_option fn_hash (fc_best_tip F fc) = Some tip"
    and "branch F fc tip ts" "branch F fc h bs"
  shows "w bs \<le> w ts"
  using built_heaviest [OF assms(1-3)] assms(4-6) unfolding heaviest_def by blast

section \<open>What stays in the store\<close>

text \<open>
  Every stored block is known to the node as that block; the stored genesis accounts are the node's, and the
  version is the supported one.
\<close>

definition store_inv :: "('e, 't, 'f) node_env \<Rightarrow> ('e \<Rightarrow> dbs) \<Rightarrow> ('e, 'f) node \<Rightarrow> bool" where
  "store_inv E V n \<longleftrightarrow>
     (\<forall>k bs. V (node_storage n) BLOCKS_BY_HASH k = Some bs \<longrightarrow>
        (\<exists>b. encode (block_codec (env_codecs E)) b = Ok bs \<and>
           fc_get (env_fork E) (fork_choice n) (block_hash (env_core E) b) = Some (fork_node_of (env_core E) b))) \<and>
     (\<exists>bs. encode (accounts_codec (env_codecs E)) (genesis_accounts n) = Ok bs \<and>
        V (node_storage n) GENESIS_ACCOUNTS GENESIS_ACCOUNTS_KEY = Some bs) \<and>
     (\<exists>bs. decode (version_codec (env_codecs E)) bs = Ok STORAGE_VERSION \<and>
        V (node_storage n) META STORAGE_VERSION_KEY = Some bs)"

lemma store_inv_kept:
  assumes "store_inv E V n" "genesis_accounts n' = genesis_accounts n"
    and "\<And>h nd. fc_get (env_fork E) (fork_choice n) h = Some nd \<Longrightarrow> fc_get (env_fork E) (fork_choice n') h = Some nd"
    and "\<And>k bs. V (node_storage n') BLOCKS_BY_HASH k = Some bs \<Longrightarrow> V (node_storage n) BLOCKS_BY_HASH k = Some bs \<or>
      (\<exists>b. encode (block_codec (env_codecs E)) b = Ok bs \<and>
         fc_get (env_fork E) (fork_choice n') (block_hash (env_core E) b) = Some (fork_node_of (env_core E) b))"
    and "V (node_storage n') GENESIS_ACCOUNTS GENESIS_ACCOUNTS_KEY = V (node_storage n) GENESIS_ACCOUNTS GENESIS_ACCOUNTS_KEY \<or>
      (\<exists>bs. encode (accounts_codec (env_codecs E)) (genesis_accounts n) = Ok bs \<and>
         V (node_storage n') GENESIS_ACCOUNTS GENESIS_ACCOUNTS_KEY = Some bs)"
    and "V (node_storage n') META STORAGE_VERSION_KEY = V (node_storage n) META STORAGE_VERSION_KEY"
  shows "store_inv E V n'"
  unfolding store_inv_def
proof (intro conjI allI impI)
  fix k bs
  assume "V (node_storage n') BLOCKS_BY_HASH k = Some bs"
  then show "\<exists>b. encode (block_codec (env_codecs E)) b = Ok bs \<and>
      fc_get (env_fork E) (fork_choice n') (block_hash (env_core E) b) = Some (fork_node_of (env_core E) b)"
    using assms(4) [of k bs] assms(1,3) unfolding store_inv_def by blast
next
  show "\<exists>bs. encode (accounts_codec (env_codecs E)) (genesis_accounts n') = Ok bs \<and>
      V (node_storage n') GENESIS_ACCOUNTS GENESIS_ACCOUNTS_KEY = Some bs"
    using assms(1,2,5) by (auto simp: store_inv_def)
  show "\<exists>bs. decode (version_codec (env_codecs E)) bs = Ok STORAGE_VERSION \<and> V (node_storage n') META STORAGE_VERSION_KEY = Some bs"
    using assms(1,6) by (simp add: store_inv_def)
qed

definition lasting :: "('e, 't, 'f) node_env \<Rightarrow> ('e \<Rightarrow> dbs) \<Rightarrow> ('e, 'f) node \<Rightarrow> bool" where
  "lasting E V n \<longleftrightarrow> chain_inv E n \<and> genesis_accounts n \<noteq> [] \<and> store_inv E V n"

text \<open>The blocks of the ledger are known, and at height 0 its accounts are the genesis accounts.\<close>

lemma ledger_block_known:
  assumes "crate_laws E" "chain_inv E n" "b \<in> set (ledger_blocks (node_ledger n))"
  shows "fc_get (env_fork E) (fork_choice n) (block_hash (env_core E) b) = Some (fork_node_of (env_core E) b)"
proof -
  have fl: "fork_tree_laws (env_core E) (env_fork E)" using assms(1) by (simp add: crate_laws_def)
  obtain x nd where "fc_get (env_fork E) (fork_choice n) x = Some nd" "fn_block nd = b"
    using branch_known [OF chain_invD(7) [OF assms(2)] assms(3)] by blast
  with fork_tree_known [OF fl chain_invD(1) [OF assms(2)]] show ?thesis by metis
qed

lemma genesis_height_accounts:
  assumes laws: "crate_laws E" and inv: "chain_inv E n" and ne: "genesis_accounts n \<noteq> []"
    and tip: "ledger_tip_height (env_core E) (node_ledger n) = Some 0"
  shows "ledger_accounts (node_ledger n) = genesis_accounts n"
proof -
  have cl: "chain_laws (env_core E)" and ll: "ledger_laws (env_core E)" using laws by (simp_all add: crate_laws_def)
  let ?bs = "ledger_blocks (node_ledger n)"
  have built: "build_chain (env_core E) ?bs = Ok (ledger_chain (node_ledger n))"
    using chain_invD(2) [OF inv] by (simp add: rebuilds_iff [OF ll])
  note shape = build_chain_shape [OF cl ll built]
  obtain m where m: "length ?bs = Suc m" using chain_invD(3) [OF inv] by (cases ?bs) auto
  have "chain_blocks (ledger_chain (node_ledger n)) = map (\<lambda>i. (of_nat i, ?bs ! i)) [0..<Suc m]"
    using shape m by simp
  from ledger_tip [OF ll this] tip have "(of_nat m :: u64) = 0" by simp
  moreover have "m < 2 ^ 64" using shape m by simp
  ultimately have "m = 0" by (simp add: word_unat_eq_iff unat_of_nat)
  then obtain g where "?bs = [g]" using m by (auto simp: length_Suc_conv)
  then show ?thesis
    using chain_invD(9) [OF inv ne] by (auto simp: replay_branch_def res_bind_Ok_iff dest: arg_cong [of _ _ ledger_accounts])
qed

lemma tip_of_nonempty:
  assumes "ledger_laws K" "ledger_blocks L \<noteq> []"
  obtains h bh where "ledger_tip_height K L = Some h" "ledger_tip_hash K L = Some bh"
  using assms that
  by (cases "chain_blocks (ledger_chain L)" rule: rev_cases) (simp_all add: ledger_laws_def)

text \<open>Saving the node's ledger keeps the store as described, whether it succeeds or not.\<close>

lemma save_store_inv:
  assumes laws: "crate_laws E" "lmdb_laws (env_lmdb E) V W" and inv: "chain_inv E n'" "genesis_accounts n' \<noteq> []"
    and old: "store_inv E V n" "genesis_accounts n' = genesis_accounts n"
      "\<And>h nd. fc_get (env_fork E) (fork_choice n) h = Some nd \<Longrightarrow> fc_get (env_fork E) (fork_choice n') h = Some nd"
    and saved: "save_ledger (env_core E) (env_lmdb E) (env_codecs E) (node_storage n) (node_ledger n') = (node_storage n', r)"
  shows "store_inv E V n'"
proof -
  have ll: "ledger_laws (env_core E)" using laws by (simp add: crate_laws_def)
  obtain h bh where tip: "ledger_tip_height (env_core E) (node_ledger n') = Some h" "ledger_tip_hash (env_core E) (node_ledger n') = Some bh"
    by (rule tip_of_nonempty [OF ll chain_invD(3) [OF inv(1)]])
  note kept = save_ledger_kept [OF laws(2) saved tip]
  show ?thesis
  proof (rule store_inv_kept [OF old(1,2)])
    show "V (node_storage n) BLOCKS_BY_HASH k = Some bs \<or> (\<exists>b. encode (block_codec (env_codecs E)) b = Ok bs \<and>
         fc_get (env_fork E) (fork_choice n') (block_hash (env_core E) b) = Some (fork_node_of (env_core E) b))"
      if "V (node_storage n') BLOCKS_BY_HASH k = Some bs" for k bs
      using kept(1) [OF that] ledger_block_known [OF laws(1) inv(1)] by blast
    show "V (node_storage n') GENESIS_ACCOUNTS GENESIS_ACCOUNTS_KEY = V (node_storage n) GENESIS_ACCOUNTS GENESIS_ACCOUNTS_KEY \<or>
      (\<exists>bs. encode (accounts_codec (env_codecs E)) (genesis_accounts n) = Ok bs \<and>
         V (node_storage n') GENESIS_ACCOUNTS GENESIS_ACCOUNTS_KEY = Some bs)"
      using kept(2) genesis_height_accounts [OF laws(1) inv] tip(1) old(2) by auto
  qed (use old(3) kept(3) in auto)
qed

lemma lasting_apply:
  assumes laws: "crate_laws E" "lmdb_laws (env_lmdb E) V W" and inv: "lasting E V n"
  shows "lasting E V (fst (apply_known_parent_block E n b now))"
proof -
  have fl: "fork_tree_laws (env_core E) (env_fork E)" using laws by (simp add: crate_laws_def)
  have I: "chain_inv E n" "genesis_accounts n \<noteq> []" "store_inv E V n" using inv by (simp_all add: lasting_def)
  obtain n' r where app: "apply_known_parent_block E n b now = (n', r)" by fastforce
  have inv': "chain_inv E n'" using chain_inv_apply [OF laws(1) I(1), of b now] by (simp add: app)
  have accs: "genesis_accounts n' = genesis_accounts n" using genesis_accounts_apply [of E n b now] by (simp add: app)
  have grown: "fc_get (env_fork E) fc h = Some nd"
    if "fc_insert (env_fork E) (fork_choice n) b = (fc, Ok x)" "fc_get (env_fork E) (fork_choice n) h = Some nd" for fc x h nd
    using fork_tree_insert(2,3) [OF fl chain_invD(1) [OF I(1)] that(1)] that(2) by auto
  from laws(1) I(1) app have "store_inv E V n'"
  proof (cases rule: apply_known_parent_cases)
    case refused
    then show ?thesis using I(3) by simp
  next
    case (side fc h st x)
    have n': "fork_choice n' = fc" "node_storage n' = st" by (simp_all add: side(5))
    have new: "fc_get (env_fork E) fc (block_hash (env_core E) b) = Some (fork_node_of (env_core E) b)"
      using fork_tree_insert(1,3) [OF fl chain_invD(1) [OF I(1)] side(1)] by simp
    note kept = save_side_block_kept [OF laws(2) side(4)]
    have "V st BLOCKS_BY_HASH k = Some bs \<Longrightarrow> V (node_storage n) BLOCKS_BY_HASH k = Some bs \<or>
        (\<exists>b. encode (block_codec (env_codecs E)) b = Ok bs \<and>
           fc_get (env_fork E) fc (block_hash (env_core E) b) = Some (fork_node_of (env_core E) b))" for k bs
      using kept(1) new by blast
    then show ?thesis
      using kept(2) [of GENESIS_ACCOUNTS] kept(2) [of META] grown [OF side(1)]
      by (intro store_inv_kept [OF I(3) accs]) (simp_all add: n')
  next
    case (extended fc h L st x)
    show ?thesis
      by (rule save_store_inv [OF laws inv' _ I(3) accs, where r = x])
        (use I(2) accs extended(6) grown [OF extended(1)] in \<open>auto simp: extended(7)\<close>)
  next
    case (reorganised fc h bs L st x)
    show ?thesis
      by (rule save_store_inv [OF laws inv' _ I(3) accs, where r = x])
        (use I(2) accs reorganised(7) grown [OF reorganised(1)] in \<open>auto simp: reorganised(8)\<close>)
  qed
  then show ?thesis using inv' I(2) accs by (simp add: lasting_def app)
qed

lemma lasting_flush:
  assumes laws: "crate_laws E" "lmdb_laws (env_lmdb E) V W" and inv: "lasting E V n"
  shows "lasting E V (fst (flush_to_storage E n))"
proof -
  have I: "chain_inv E n" "genesis_accounts n \<noteq> []" "store_inv E V n" using inv by (simp_all add: lasting_def)
  have inv': "chain_inv E (fst (flush_to_storage E n))" by (rule chain_inv_cong [OF I(1)]) simp_all
  moreover have "store_inv E V (fst (flush_to_storage E n))"
    by (rule save_store_inv [OF laws inv' _ I(3),
          where r = "snd (save_ledger (env_core E) (env_lmdb E) (env_codecs E) (node_storage n) (node_ledger n))"])
      (use I(2) in \<open>auto simp: flush_to_storage_def case_prod_beta\<close>)
  ultimately show ?thesis using I(2) by (simp add: lasting_def)
qed

lemma lasting_cong:
  "lasting E V n \<Longrightarrow> node_ledger n' = node_ledger n \<Longrightarrow> fork_choice n' = fork_choice n \<Longrightarrow>
   genesis_accounts n' = genesis_accounts n \<Longrightarrow> node_storage n' = node_storage n \<Longrightarrow> lasting E V n'"
  using chain_inv_cong [of E n n'] by (simp add: lasting_def store_inv_def)

interpretation lasting_node: chain_predicate E "\<lambda>n. crate_laws E \<longrightarrow> lmdb_laws (env_lmdb E) V W \<longrightarrow> lasting E V n" for E V W
  by unfold_locales (blast intro: lasting_cong lasting_apply lasting_flush)+

lemma lasting_reach:
  "crate_laws E \<Longrightarrow> lmdb_laws (env_lmdb E) V W \<Longrightarrow> reach init (node_step E) n \<Longrightarrow> (\<And>s. init s \<Longrightarrow> lasting E V s) \<Longrightarrow>
   lasting E V n"
  using lasting_node.P_reach [where E = E and V = V and W = W and init = init and n = n] by blast

section \<open>Rebuilding the index\<close>

lemma init_or_loadE:
  assumes "init_or_load E st = (st', Some (Ok n))"
  obtains L accs n0 where "load_or_create_ledger E st = (st', Some (Ok L))"
    "load_genesis_accounts (env_lmdb E) (env_codecs E) st' = Ok accs"
    "with_genesis_accounts E L st' (case accs of Some a \<Rightarrow> a
       | None \<Rightarrow> if ledger_tip_height (env_core E) L = Some 0 then ledger_accounts L else []) = Some n0"
    "index_stored_blocks E n0 = (n, Ok ())"
  using assms by (auto simp: init_or_load_def res_bind_Ok_iff split: prod.splits option.splits sum.splits)

lemma init_or_load_init:
  assumes "init_or_load E st = (st', Some (Ok n))" "pool_init m"
  shows "node_init E (n\<lparr>node_mempool := m\<rparr>)"
  using assms(1)
proof (rule init_or_loadE)
  fix L accs n0
  assume "load_or_create_ledger E st = (st', Some (Ok L))" "index_stored_blocks E n0 = (n, Ok ())"
    "with_genesis_accounts E L st' (case accs of Some a \<Rightarrow> a
       | None \<Rightarrow> if ledger_tip_height (env_core E) L = Some 0 then ledger_accounts L else []) = Some n0"
  then show ?thesis
    using assms(2) started_ledger_genuine [of E st st' L] unfolding node_init_def by (metis fst_conv)
qed

text \<open>The parts of a node that a start sets.\<close>

lemma with_genesis_accountsD:
  assumes "with_genesis_accounts E L st accs = Some n"
  shows "node_ledger n = L" "genesis_accounts n = accs" "node_storage n = st"
    "index_chain (env_fork E) (ledger_blocks L) (fc_new (env_fork E)) = Some (fork_choice n)"
  using assms by (auto simp: with_genesis_accounts_def)

lemma index_storedE:
  assumes "index_stored_blocks E n = (n', Ok ())"
  obtains blocks where "load_blocks_by_hash (env_lmdb E) (env_codecs E) (node_storage n) = Ok blocks"
    "index_loop E (sort_key block_height blocks) (fork_choice n) = (fork_choice n', Ok ())" "n' = n\<lparr>fork_choice := fork_choice n'\<rparr>"
  using assms by (auto simp: index_stored_blocks_def split: sum.splits prod.splits)

lemma index_chain_built: "index_chain F bs (fc_new F) = Some fc \<Longrightarrow> fork_built F fc"
proof (induction bs arbitrary: fc rule: rev_induct)
  case Nil
  then show ?case using fork_built.new [of F] by auto
next
  case (snoc b bs)
  from snoc.prems show ?case
  proof (rule index_chain_snocE)
    fix fc0 h
    assume "index_chain F bs (fc_new F) = Some fc0" "fc_insert F fc0 b = (fc, Ok h)"
    then show ?thesis using snoc.IH fork_built.insert [of F fc0 b] by simp
  qed
qed

text \<open>The last block of an indexed chain is the best tip.\<close>

lemma index_chain_best:
  assumes laws: "fork_tree_laws K F" "chain_laws K" "ledger_laws K"
  shows "build_chain K bs = Ok c \<Longrightarrow> index_chain F bs (fc_new F) = Some fc \<Longrightarrow> bs \<noteq> [] \<Longrightarrow>
    map_option fn_hash (fc_best_tip F fc) = Some (block_hash K (last bs))"
proof (induction bs arbitrary: c fc rule: rev_induct)
  case (snoc b bs)
  obtain c0 where c0: "build_chain K bs = Ok c0" "chain_insert_block K c0 b = Ok c"
    using snoc.prems(1) by (auto simp: build_chain_snoc res_bind_Ok_iff)
  obtain fc0 h where fc0: "index_chain F bs (fc_new F) = Some fc0" and ins: "fc_insert F fc0 b = (fc, Ok h)"
    using snoc.prems(2) by (rule index_chain_snocE)
  have built: "fork_built F fc0" using index_chain_branch [OF laws c0(1) fc0] by blast
  note law = fork_tree_insert [OF laws(1) built ins]
  have vals: "bt_values (chain_blocks c0) = bs" by (rule build_chain_values [OF laws(2,3) c0(1)])
  show ?case
  proof (cases "bs = []")
    case True
    then have "fc_best_tip F fc0 = None" using fc0 fork_tree_new [OF laws(1)] by simp
    moreover have "fc_best_tip F fc \<noteq> None" using fork_tree_best_None [OF laws(1) law(5), of h] law(3) by auto
    ultimately show ?thesis using law(1,6) by auto
  next
    case False
    then have "previous_hash b = block_hash K (last bs)" "block_height b \<noteq> 0"
      using chain_insertD(3) [OF laws(2) c0(2)] vals by (cases "chain_blocks c0" rule: rev_cases; auto)+
    then show ?thesis
      using best_tip_extended [OF laws(1) built ins] snoc.IH [OF c0(1) fc0 False] law(1) by simp
  qed
qed simp

text \<open>Blocks that are known already are skipped.\<close>

lemma index_loop_known:
  assumes "\<forall>b \<in> set blocks. fc_contains (env_fork E) fc (block_hash (env_core E) b)"
  shows "index_loop E blocks fc = (fc, Ok ())"
proof -
  have pass: "index_pass E bs fc = (fc, Ok ([], bs \<noteq> []))" if "\<forall>b \<in> set bs. fc_contains (env_fork E) fc (block_hash (env_core E) b)" for bs
    using that by (induction bs) auto
  show ?thesis
    by (simp add: index_loop.simps [of E blocks] pass [OF assms]) (simp add: index_loop.simps)
qed

text \<open>
  An index all of whose blocks are known to another one, with the other's best tip: inserting blocks that
  the other knows keeps it so.
\<close>

definition sub_index :: "'f fork_choice_ops \<Rightarrow> 'f \<Rightarrow> hash \<Rightarrow> block list \<Rightarrow> 'f \<Rightarrow> bool" where
  "sub_index F R tip ts fc \<longleftrightarrow> fork_built F fc \<and> (\<forall>h nd. fc_get F fc h = Some nd \<longrightarrow> fc_get F R h = Some nd) \<and>
     map_option fn_hash (fc_best_tip F fc) = Some tip \<and> branch F fc tip ts"

lemma sub_index_insert:
  assumes laws: "fork_tree_laws K F" "fork_weighs F w"
    and R: "fork_built F R" "map_option fn_hash (fc_best_tip F R) = Some tip" "branch F R tip ts"
    and sub: "sub_index F R tip ts fc" and b: "fc_get F R (block_hash K b) = Some (fork_node_of K b)"
  shows "sub_index F R tip ts (fst (fc_insert F fc b))"
proof -
  have S: "fork_built F fc" "\<And>h nd. fc_get F fc h = Some nd \<Longrightarrow> fc_get F R h = Some nd"
    "map_option fn_hash (fc_best_tip F fc) = Some tip" "branch F fc tip ts" using sub by (auto simp: sub_index_def)
  obtain fc' r where ins: "fc_insert F fc b = (fc', r)" by fastforce
  show ?thesis
  proof (cases r)
    case (Inl e)
    then show ?thesis using fork_tree_refuse [OF laws(1) S(1)] ins sub by auto
  next
    case (Inr h)
    note law = fork_tree_insert [OF laws(1) S(1) ins [unfolded Inr]]
    have sub': "fc_get F R x = Some nd" if "fc_get F fc' x = Some nd" for x nd
      using that S(2) b law(1,3) by (auto split: if_splits)
    obtain bs where bs: "branch F fc' h bs" using fork_tree_known [OF laws(1) law(5), of h] law(3) by auto
    have "w bs \<le> w ts" using best_tip_heaviest [OF laws R(1,2,3) branch_mono [OF bs sub']] .
    then have "map_option fn_hash (fc_best_tip F fc') = Some tip"
      using fork_weighsD [OF laws(2) S(1) ins [unfolded Inr] bs S(3,4)] law(6) S(3) by auto
    moreover have "branch F fc' tip ts" using branch_after_insert(1) [OF laws(1) S(1) ins [unfolded Inr] S(4)] .
    ultimately show ?thesis using law(5) sub' by (simp add: ins sub_index_def)
  qed
qed

lemma index_chain_sub:
  assumes laws: "fork_tree_laws K F"
  shows "index_chain F bs (fc_new F) = Some fc \<Longrightarrow> fc_get F fc x = Some nd \<Longrightarrow> \<exists>b \<in> set bs. x = block_hash K b \<and> nd = fork_node_of K b"
proof (induction bs arbitrary: fc rule: rev_induct)
  case Nil
  then show ?case using fork_tree_new [OF laws] by auto
next
  case (snoc b bs)
  obtain fc0 h where fc0: "index_chain F bs (fc_new F) = Some fc0" and ins: "fc_insert F fc0 b = (fc, Ok h)"
    using snoc.prems(1) by (rule index_chain_snocE)
  from fork_tree_insert(1,3) [OF laws index_chain_built [OF fc0] ins] snoc show ?case
    using fc0 by (auto split: if_splits)
qed

lemma sub_index_pass:
  assumes laws: "fork_tree_laws (env_core E) (env_fork E)" "fork_weighs (env_fork E) w"
    and R: "fork_built (env_fork E) R" "map_option fn_hash (fc_best_tip (env_fork E) R) = Some tip" "branch (env_fork E) R tip ts"
  shows "sub_index (env_fork E) R tip ts fc \<Longrightarrow>
    \<forall>b \<in> set bs. fc_get (env_fork E) R (block_hash (env_core E) b) = Some (fork_node_of (env_core E) b) \<Longrightarrow>
    sub_index (env_fork E) R tip ts (fst (index_pass E bs fc))"
proof (induction bs arbitrary: fc)
  case (Cons b bs)
  obtain fc1 r where ins: "fc_insert (env_fork E) fc b = (fc1, r)" by fastforce
  have "sub_index (env_fork E) R tip ts fc1"
    using sub_index_insert [OF laws R Cons.prems(1), of b] Cons.prems(2) by (simp add: ins)
  then show ?case
    using Cons.IH [of fc] Cons.IH [of fc1] Cons.prems ins by (auto simp: case_prod_beta split: sum.splits)
qed simp

lemma index_pass_rest: "index_pass E bs fc = (fc', Ok (rest, p)) \<Longrightarrow> set rest \<subseteq> set bs"
proof (induction bs arbitrary: fc fc' rest p)
  case (Cons b bs)
  then show ?case by (fastforce simp: res_bind_Ok_iff split: if_splits prod.splits sum.splits)
qed simp

lemma sub_index_loop:
  "fork_tree_laws (env_core E) (env_fork E) \<Longrightarrow> fork_weighs (env_fork E) w \<Longrightarrow> fork_built (env_fork E) R \<Longrightarrow>
   map_option fn_hash (fc_best_tip (env_fork E) R) = Some tip \<Longrightarrow> branch (env_fork E) R tip ts \<Longrightarrow>
   sub_index (env_fork E) R tip ts fc \<Longrightarrow>
   \<forall>b \<in> set blocks. fc_get (env_fork E) R (block_hash (env_core E) b) = Some (fork_node_of (env_core E) b) \<Longrightarrow>
   sub_index (env_fork E) R tip ts (fst (index_loop E blocks fc))"
proof (induction E blocks fc rule: index_loop.induct)
  case (1 E blocks fc)
  obtain fc1 r where pass: "index_pass E blocks fc = (fc1, r)" by fastforce
  have sub: "sub_index (env_fork E) R tip ts fc1"
    using sub_index_pass [OF 1(2-7) 1(8)] by (simp add: pass)
  show ?case
  proof (cases "\<exists>rest. r = Ok (rest, True)")
    case True
    then obtain rest where r: "r = Ok (rest, True)" by blast
    have "set rest \<subseteq> set blocks" using index_pass_rest [of E blocks fc fc1 rest True] pass r by simp
    then have "\<forall>b \<in> set rest. fc_get (env_fork E) R (block_hash (env_core E) b) = Some (fork_node_of (env_core E) b)"
      using 1(8) by blast
    from 1(1) [OF pass [symmetric] r refl TrueI 1(2-6) sub this] show ?thesis by (simp add: index_loop.simps [of E blocks] pass r)
  next
    case False
    with sub show ?thesis by (auto simp: index_loop.simps [of E blocks] pass split: sum.split)
  qed
qed

section \<open>The first start\<close>

text \<open>A store as the first start finds it: the supported version, no tip and no blocks.\<close>

definition empty_store :: "('e, 't, 'f) node_env \<Rightarrow> ('e \<Rightarrow> dbs) \<Rightarrow> 'e \<Rightarrow> bool" where
  "empty_store E V st \<longleftrightarrow> load_tip (env_core E) (env_lmdb E) (env_codecs E) st = Ok None \<and>
     V st BLOCKS_BY_HASH = Map.empty \<and> load_storage_version (env_lmdb E) (env_codecs E) st = Ok (Some STORAGE_VERSION)"

lemma create_ledgerE:
  assumes "load_or_create_ledger E st = (st', Some (Ok L))" "load_tip (env_core E) (env_lmdb E) (env_codecs E) st = Ok None"
  obtains st1 where "ledger_apply_block (env_core E) (ledger_new (env_core E)) (env_genesis_block E) = Ok L"
    "save_ledger (env_core E) (env_lmdb E) (env_codecs E) st L = (st1, Ok ())"
    "save_genesis_accounts (env_lmdb E) (env_codecs E) st1 (ledger_accounts L) = (st', Ok ())"
  using assms
  by (auto simp: load_or_create_ledger_def Let_def then_env_def res_simps split: sum.splits if_splits prod.splits)

lemma first_ledger:
  assumes "chain_laws K" "ledger_laws K" "ledger_apply_block K (ledger_new K) g = Ok L"
  shows "ledger_blocks L = [g]" "replay_branch K (ledger_accounts L) [g] = Ok L" "accounts_ok (ledger_accounts L)"
proof -
  have new: "ledger_blocks (ledger_new K) = []" "ledger_accounts (ledger_new K) = []" "ledger_chain (ledger_new K) = chain_new K"
    using assms(2) by (simp_all add: ledger_laws_def)
  show "ledger_blocks L = [g]" using ledger_apply_blocks [OF assms(1,3)] new(1) by simp
  show "replay_branch K (ledger_accounts L) [g] = Ok L"
    using ledger_applyD(1) [OF assms(1,3)] new(3) by (simp add: replay_branch_def)
  show "accounts_ok (ledger_accounts L)" using ledger_applyD(2) [OF assms(1,3)] new(2) by (simp add: accounts_ok_def)
qed

text \<open>The store that the first start leaves, and the index of the genesis block alone.\<close>

lemma created_store:
  assumes laws: "crate_laws E" "lmdb_laws (env_lmdb E) V W" "codecs_ok (env_codecs E)" "\<forall>e. readable (env_lmdb E) e"
    and st: "empty_store E V st" and L: "ledger_blocks L = [env_genesis_block E]" "ledger_wf (env_core E) L"
    and saved: "save_ledger (env_core E) (env_lmdb E) (env_codecs E) st L = (st1, Ok ())"
      "save_genesis_accounts (env_lmdb E) (env_codecs E) st1 (ledger_accounts L) = (st', Ok ())"
  shows "V st' BLOCKS_BY_HASH k = Some bs \<Longrightarrow> encode (block_codec (env_codecs E)) (env_genesis_block E) = Ok bs"
    "\<exists>bs. encode (accounts_codec (env_codecs E)) (ledger_accounts L) = Ok bs \<and>
       V st' GENESIS_ACCOUNTS GENESIS_ACCOUNTS_KEY = Some bs"
    "load_genesis_accounts (env_lmdb E) (env_codecs E) st' = Ok (Some (ledger_accounts L))"
    "\<exists>bs. decode (version_codec (env_codecs E)) bs = Ok STORAGE_VERSION \<and> V st' META STORAGE_VERSION_KEY = Some bs"
    "holds_ledger (env_core E) (env_codecs E) (V st') L" "block_stored (env_core E) (env_codecs E) (V st') (env_genesis_block E)"
proof -
  have rd: "readable (env_lmdb E) e" for e using laws(4) by simp
  obtain h bh where tip: "ledger_tip_height (env_core E) L = Some h" "ledger_tip_hash (env_core E) L = Some bh"
    using tip_of_nonempty [of "env_core E" L] laws(1) L(1) by (auto simp: crate_laws_def)
  obtain abs where abs: "encode (accounts_codec (env_codecs E)) (ledger_accounts L) = Ok abs"
    "V st' = (V st1)(GENESIS_ACCOUNTS := (V st1 GENESIS_ACCOUNTS)(GENESIS_ACCOUNTS_KEY \<mapsto> abs))"
    by (rule save_genesis_accounts_view [OF laws(2) saved(2)])
  then show "\<exists>bs. encode (accounts_codec (env_codecs E)) (ledger_accounts L) = Ok bs \<and>
       V st' GENESIS_ACCOUNTS GENESIS_ACCOUNTS_KEY = Some bs" by simp
  have "decode (accounts_codec (env_codecs E)) abs = Ok (ledger_accounts L)"
    using encode_decode [OF _ abs(1)] laws(3) by (simp add: codecs_ok_def)
  then show "load_genesis_accounts (env_lmdb E) (env_codecs E) st' = Ok (Some (ledger_accounts L))"
    using abs(2) by (simp add: load_genesis_accounts_view [OF laws(2) rd])
  note kept = save_ledger_kept [OF laws(2) saved(1) tip]
  show "V st' BLOCKS_BY_HASH k = Some bs \<Longrightarrow> encode (block_codec (env_codecs E)) (env_genesis_block E) = Ok bs"
    using kept(1) [of k bs] abs(2) st L(1) by (simp add: empty_store_def)
  have "holds_ledger (env_core E) (env_codecs E) (V st1) L"
    using saved_ledger_holds(1) [OF laws(2) _ L(2) saved(1)] laws(1) by (simp add: crate_laws_def)
  then show "holds_ledger (env_core E) (env_codecs E) (V st') L" by (rule holds_ledger_cong) (simp_all add: abs(2))
  show "block_stored (env_core E) (env_codecs E) (V st') (env_genesis_block E)"
    using save_ledger_hashes [OF laws(2) saved(1) tip, of "block_hash (env_core E) (env_genesis_block E)"] L(1) abs(2)
    by (simp add: block_stored_def)
  show "\<exists>bs. decode (version_codec (env_codecs E)) bs = Ok STORAGE_VERSION \<and> V st' META STORAGE_VERSION_KEY = Some bs"
    using st kept(3) abs(2)
    by (auto simp: empty_store_def load_storage_version_view [OF laws(2) rd] try_map_option_def res_simps split: option.splits)
qed

lemma genesis_index:
  assumes laws: "fork_tree_laws K F" "chain_laws K" "ledger_laws K"
    and g: "build_chain K [g] = Ok c" "index_chain F [g] (fc_new F) = Some fc"
  shows "fork_built F fc" "fc_get F fc x = (if x = block_hash K g then Some (fork_node_of K g) else None)"
    "map_option fn_hash (fc_best_tip F fc) = Some (block_hash K g)"
proof -
  show "fork_built F fc" using index_chain_branch [OF laws g] by blast
  obtain y where "fc_insert F (fc_new F) g = (fc, Ok y)" using g(2) by (auto split: prod.splits sum.splits)
  from fork_tree_insert(1,3) [OF laws(1) fork_built.new this]
  show "fc_get F fc x = (if x = block_hash K g then Some (fork_node_of K g) else None)"
    using fork_tree_new [OF laws(1)] by simp
  show "map_option fn_hash (fc_best_tip F fc) = Some (block_hash K g)" using index_chain_best [OF laws g] by simp
qed

lemma first_start:
  assumes laws: "crate_laws E" "lmdb_laws (env_lmdb E) V W" "codecs_ok (env_codecs E)" "\<forall>e. readable (env_lmdb E) e"
    and st: "empty_store E V st" "init_or_load E st = (st', Some (Ok n))" and m: "pool_init m"
  shows "consistent_start E (n\<lparr>node_mempool := m\<rparr>)" "store_inv E V n"
    "holds_ledger (env_core E) (env_codecs E) (V (node_storage n)) (node_ledger n)"
    "fc_get (env_fork E) (fork_choice n) h = Some nd \<Longrightarrow> block_stored (env_core E) (env_codecs E) (V (node_storage n)) (fn_block nd)"
proof -
  let ?K = "env_core E" and ?F = "env_fork E" and ?D = "env_lmdb E" and ?C = "env_codecs E" and ?g = "env_genesis_block E"
  have fl: "fork_tree_laws ?K ?F" and ll: "ledger_laws ?K" and cl: "chain_laws ?K" using laws(1) by (simp_all add: crate_laws_def)
  obtain L accs n0 where start: "load_or_create_ledger E st = (st', Some (Ok L))" "load_genesis_accounts ?D ?C st' = Ok accs"
    "with_genesis_accounts E L st' (case accs of Some a \<Rightarrow> a
       | None \<Rightarrow> if ledger_tip_height ?K L = Some 0 then ledger_accounts L else []) = Some n0"
    "index_stored_blocks E n0 = (n, Ok ())" by (rule init_or_loadE [OF st(2)])
  obtain st1 where created: "ledger_apply_block ?K (ledger_new ?K) ?g = Ok L" "save_ledger ?K ?D ?C st L = (st1, Ok ())"
    "save_genesis_accounts ?D ?C st1 (ledger_accounts L) = (st', Ok ())"
    using create_ledgerE [OF start(1)] st(1) by (auto simp: empty_store_def)
  note L = first_ledger [OF cl ll created(1)]
  have typed: "ledger_typed ?K L" using started_ledger_genuine [OF start(1)] cl ll by (simp add: genuine_ledger_def)
  then have "ledger_wf ?K L" using L(1) by (intro rebuilds_wf [OF cl ll]) (auto simp: ledger_typed_def)
  note store = created_store [OF laws st(1) L(1) this created(2,3)]
  have "accs = Some (ledger_accounts L)" using start(2) store(3) by simp
  then have n0: "node_ledger n0 = L" "genesis_accounts n0 = ledger_accounts L" "node_storage n0 = st'"
    "index_chain ?F [?g] (fc_new ?F) = Some (fork_choice n0)"
    using with_genesis_accountsD [OF start(3)] L(1) by simp_all
  have "build_chain ?K [?g] = Ok (ledger_chain L)" using typed L(1) by (simp add: ledger_typed_def rebuilds_iff [OF ll])
  note index = genesis_index [OF fl cl ll this n0(4)]
  obtain blocks where blocks: "load_blocks_by_hash ?D ?C st' = Ok blocks"
    "index_loop E (sort_key block_height blocks) (fork_choice n0) = (fork_choice n, Ok ())" "n = n0\<lparr>fork_choice := fork_choice n\<rparr>"
    using index_storedE [OF start(4)] n0(3) by metis
  have "b = ?g" if "b \<in> set blocks" for b
    using loaded_blocks_stored [OF laws(2) _ blocks(1) that] store(1) encode_decode [of "block_codec ?C" ?g] laws(3,4)
    by (fastforce simp: codecs_ok_def)
  then have "index_loop E (sort_key block_height blocks) (fork_choice n0) = (fork_choice n0, Ok ())"
    by (intro index_loop_known) (auto simp: fork_tree_contains [OF fl index(1)] index(2))
  then have n: "n = n0" using blocks(2,3) by simp
  show "consistent_start E (n\<lparr>node_mempool := m\<rparr>)"
    using init_or_load_init [OF st(2) m] L index(2,3)
    by (simp add: consistent_start_def n n0(1,2) ledger_tip_blocks [OF ll] split: if_splits)
  show "store_inv E V n" using store(1,2,4) index(2) by (auto simp: store_inv_def n n0)
  show "holds_ledger ?K ?C (V (node_storage n)) (node_ledger n)" using store(5) by (simp add: n n0)
  show "fc_get ?F (fork_choice n) h = Some nd \<Longrightarrow> block_stored ?K ?C (V (node_storage n)) (fn_block nd)"
    using store(6) index(2) by (auto simp: n n0 split: if_splits)
qed

section \<open>A restart\<close>

text \<open>What a start reads from the store of a lasting node.\<close>

lemma stored_genesis_accounts:
  assumes "store_inv E V n" "lmdb_laws (env_lmdb E) V W" "codecs_ok (env_codecs E)" "readable (env_lmdb E) (node_storage n)"
  shows "load_genesis_accounts (env_lmdb E) (env_codecs E) (node_storage n) = Ok (Some (genesis_accounts n))"
proof -
  obtain bs where "encode (accounts_codec (env_codecs E)) (genesis_accounts n) = Ok bs"
    "V (node_storage n) GENESIS_ACCOUNTS GENESIS_ACCOUNTS_KEY = Some bs" using assms(1) by (auto simp: store_inv_def)
  moreover from this have "decode (accounts_codec (env_codecs E)) bs = Ok (genesis_accounts n)"
    using encode_decode assms(3) by (auto simp: codecs_ok_def)
  ultimately show ?thesis by (simp add: load_genesis_accounts_view [OF assms(2,4)])
qed

lemma stored_version:
  assumes "store_inv E V n" "lmdb_laws (env_lmdb E) V W" "readable (env_lmdb E) (node_storage n)"
  shows "load_storage_version (env_lmdb E) (env_codecs E) (node_storage n) = Ok (Some STORAGE_VERSION)"
  using assms(1) by (auto simp: store_inv_def load_storage_version_view [OF assms(2,3)])

lemma stored_encoding:
  assumes "store_inv E V n" "lmdb_laws (env_lmdb E) V W" "codecs_ok (env_codecs E)" "readable (env_lmdb E) (node_storage n)"
    and "load_blocks_by_hash (env_lmdb E) (env_codecs E) (node_storage n) = Ok blocks" "b \<in> set blocks"
  shows "\<exists>k bs. V (node_storage n) BLOCKS_BY_HASH k = Some bs \<and> encode (block_codec (env_codecs E)) b = Ok bs"
    "fc_get (env_fork E) (fork_choice n) (block_hash (env_core E) b) = Some (fork_node_of (env_core E) b)"
proof -
  obtain k bs where bs: "V (node_storage n) BLOCKS_BY_HASH k = Some bs" "decode (block_codec (env_codecs E)) bs = Ok b"
    using loaded_blocks_stored [OF assms(2,4,5,6)] by blast
  then obtain b' where b': "encode (block_codec (env_codecs E)) b' = Ok bs"
    "fc_get (env_fork E) (fork_choice n) (block_hash (env_core E) b') = Some (fork_node_of (env_core E) b')"
    using assms(1) unfolding store_inv_def by blast
  moreover from this have "b' = b" using encode_decode [of "block_codec (env_codecs E)" b' bs] assms(3) bs(2) by (simp add: codecs_ok_def)
  ultimately show "\<exists>k bs. V (node_storage n) BLOCKS_BY_HASH k = Some bs \<and> encode (block_codec (env_codecs E)) b = Ok bs"
    "fc_get (env_fork E) (fork_choice n) (block_hash (env_core E) b) = Some (fork_node_of (env_core E) b)" using bs(1) by blast+
qed

lemmas stored_blocks_known = stored_encoding(2)

text \<open>A ledger that the store may hold: the replay of a branch that the node knows.\<close>

definition kept_ledger :: "('e, 't, 'f) node_env \<Rightarrow> ('e, 'f) node \<Rightarrow> ledger \<Rightarrow> bool" where
  "kept_ledger E n L \<longleftrightarrow> rebuilds (env_core E) L \<and> accounts_ok (ledger_accounts L) \<and> ledger_blocks L \<noteq> [] \<and>
     branch (env_fork E) (fork_choice n) (block_hash (env_core E) (last (ledger_blocks L))) (ledger_blocks L) \<and>
     replay_branch (env_core E) (genesis_accounts n) (ledger_blocks L) = Ok L"

lemma own_ledger_kept: "lasting E V n \<Longrightarrow> kept_ledger E n (node_ledger n)"
  using chain_invD [of E n] by (simp add: lasting_def kept_ledger_def)

lemma kept_ledger_wf: "crate_laws E \<Longrightarrow> kept_ledger E n L \<Longrightarrow> ledger_wf (env_core E) L"
  by (simp add: crate_laws_def kept_ledger_def rebuilds_wf)

lemma held_reload:
  assumes laws: "crate_laws E" "lmdb_laws (env_lmdb E) V W" "codecs_ok (env_codecs E)" "\<forall>e. readable (env_lmdb E) e"
    and n: "store_inv E V n" and L: "kept_ledger E n L" "holds_ledger (env_core E) (env_codecs E) (V (node_storage n)) L"
  shows "load_or_create_ledger E (node_storage n) = (node_storage n, Some (Ok L))"
proof -
  have rd: "readable (env_lmdb E) e" for e using laws(4) by simp
  have ll: "ledger_laws (env_core E)" using laws(1) by (simp add: crate_laws_def)
  have "rebuilds (env_core E) L" using L(1) by (simp add: kept_ledger_def)
  from held_ledger_loads [OF laws(2,3) ll kept_ledger_wf [OF laws(1) L(1)] this rd L(2) stored_version [OF n laws(2) rd]]
  show ?thesis by (auto simp: load_or_create_ledger_def Let_def)
qed

text \<open>The rebuilt index: part of the old one, with the same best tip and the same genesis block.\<close>

lemma rebuilt_index:
  assumes laws: "crate_laws E" "fork_weighs (env_fork E) w" and inv: "chain_inv E n"
    and chain: "index_chain (env_fork E) (ledger_blocks (node_ledger n)) (fc_new (env_fork E)) = Some fc"
    and all: "\<forall>b \<in> set blocks. fc_get (env_fork E) (fork_choice n) (block_hash (env_core E) b) = Some (fork_node_of (env_core E) b)"
  shows "sub_index (env_fork E) (fork_choice n) (block_hash (env_core E) (last (ledger_blocks (node_ledger n))))
    (ledger_blocks (node_ledger n)) (fst (index_loop E blocks fc))"
proof -
  let ?K = "env_core E" and ?F = "env_fork E" and ?ts = "ledger_blocks (node_ledger n)"
  have fl: "fork_tree_laws ?K ?F" and ll: "ledger_laws ?K" and cl: "chain_laws ?K" using laws(1) by (simp_all add: crate_laws_def)
  note I = chain_invD [OF inv]
  have built: "build_chain ?K ?ts = Ok (ledger_chain (node_ledger n))" using I(2) by (simp add: rebuilds_iff [OF ll])
  have "sub_index ?F (fork_choice n) (block_hash ?K (last ?ts)) ?ts fc"
    using index_chain_branch [OF fl cl ll built chain] index_chain_best [OF fl cl ll built chain I(3)] I(3)
      index_chain_sub [OF fl chain] ledger_block_known [OF laws(1) inv]
    by (auto simp: sub_index_def)
  from sub_index_loop [OF fl laws(2) I(1,6,7) this all] show ?thesis .
qed

lemma sub_index_root:
  assumes laws: "crate_laws E" and inv: "chain_inv E n" and sub: "sub_index (env_fork E) (fork_choice n) tip ts fc"
    and "fc_get (env_fork E) fc x = Some c" "fc_get (env_fork E) fc y = Some d" "fn_height c = 0" "fn_height d = 0"
  shows "c = d"
proof -
  have fl: "fork_tree_laws (env_core E) (env_fork E)" using laws by (simp add: crate_laws_def)
  note I = chain_invD [OF inv]
  have get: "fc_get (env_fork E) (fork_choice n) x = Some c" "fc_get (env_fork E) (fork_choice n) y = Some d"
    using assms(4,5) sub by (simp_all add: sub_index_def)
  then have "fn_block c = fn_block d"
    using I(8) [OF branch.root [OF get(1) assms(6)]] I(8) [OF branch.root [OF get(2) assms(7)]] by simp
  then show ?thesis using fork_tree_known [OF fl I(1) get(1)] fork_tree_known [OF fl I(1) get(2)] by simp
qed

lemma restartedE:
  assumes laws: "crate_laws E" "lmdb_laws (env_lmdb E) V W" "codecs_ok (env_codecs E)" "\<forall>e. readable (env_lmdb E) e"
    and n: "lasting E V n" "holds_ledger (env_core E) (env_codecs E) (V (node_storage n)) (node_ledger n)"
    and load: "init_or_load E (node_storage n) = (st, Some (Ok r))"
  obtains n0 blocks where "node_ledger r = node_ledger n" "genesis_accounts r = genesis_accounts n" "node_storage r = node_storage n"
    "index_chain (env_fork E) (ledger_blocks (node_ledger n)) (fc_new (env_fork E)) = Some (fork_choice n0)"
    "load_blocks_by_hash (env_lmdb E) (env_codecs E) (node_storage n) = Ok blocks"
    "index_loop E (sort_key block_height blocks) (fork_choice n0) = (fork_choice r, Ok ())"
proof -
  have rd: "readable (env_lmdb E) e" for e using laws(4) by simp
  have store: "store_inv E V n" using n(1) by (simp add: lasting_def)
  obtain L accs n0 where start: "load_or_create_ledger E (node_storage n) = (st, Some (Ok L))"
    "load_genesis_accounts (env_lmdb E) (env_codecs E) st = Ok accs"
    "with_genesis_accounts E L st (case accs of Some a \<Rightarrow> a
       | None \<Rightarrow> if ledger_tip_height (env_core E) L = Some 0 then ledger_accounts L else []) = Some n0"
    "index_stored_blocks E n0 = (r, Ok ())" by (rule init_or_loadE [OF load])
  have L: "L = node_ledger n" "st = node_storage n"
    using start(1) held_reload [OF laws store own_ledger_kept [OF n(1)] n(2)] by simp_all
  have "accs = Some (genesis_accounts n)"
    using start(2) stored_genesis_accounts [OF store laws(2,3) rd] L(2) by simp
  then have n0: "node_ledger n0 = node_ledger n" "genesis_accounts n0 = genesis_accounts n" "node_storage n0 = node_storage n"
    "index_chain (env_fork E) (ledger_blocks (node_ledger n)) (fc_new (env_fork E)) = Some (fork_choice n0)"
    using with_genesis_accountsD [OF start(3)] L by simp_all
  from start(4) show ?thesis
  proof (rule index_storedE)
    fix blocks
    assume "load_blocks_by_hash (env_lmdb E) (env_codecs E) (node_storage n0) = Ok blocks"
      "index_loop E (sort_key block_height blocks) (fork_choice n0) = (fork_choice r, Ok ())" "r = n0\<lparr>fork_choice := fork_choice r\<rparr>"
    then show ?thesis using that n0 by (metis node.select_convs(1,3,6) node.simps node.surjective)
  qed
qed

lemma restarted:
  assumes laws: "crate_laws E" "lmdb_laws (env_lmdb E) V W" "codecs_ok (env_codecs E)" "\<forall>e. readable (env_lmdb E) e"
      "fork_weighs (env_fork E) w"
    and n: "lasting E V n" "holds_ledger (env_core E) (env_codecs E) (V (node_storage n)) (node_ledger n)"
    and load: "init_or_load E (node_storage n) = (st, Some (Ok r))" and m: "pool_init m"
  shows "node_ledger r = node_ledger n" "genesis_accounts r = genesis_accounts n"
    "sub_index (env_fork E) (fork_choice n) (block_hash (env_core E) (last (ledger_blocks (node_ledger n))))
      (ledger_blocks (node_ledger n)) (fork_choice r)" (is ?sub)
    "consistent_start E (r\<lparr>node_mempool := m\<rparr>)"
proof -
  have rd: "readable (env_lmdb E) e" for e using laws(4) by simp
  have ll: "ledger_laws (env_core E)" using laws(1) by (simp add: crate_laws_def)
  have inv: "chain_inv E n" and ne: "genesis_accounts n \<noteq> []" and store: "store_inv E V n" using n(1) by (simp_all add: lasting_def)
  note I = chain_invD [OF inv]
  obtain n0 bl where r: "node_ledger r = node_ledger n" "genesis_accounts r = genesis_accounts n"
    and fc: "index_chain (env_fork E) (ledger_blocks (node_ledger n)) (fc_new (env_fork E)) = Some (fork_choice n0)"
    and bl: "load_blocks_by_hash (env_lmdb E) (env_codecs E) (node_storage n) = Ok bl"
      "index_loop E (sort_key block_height bl) (fork_choice n0) = (fork_choice r, Ok ())"
    by (rule restartedE [OF laws(1-4) n load])
  show "node_ledger r = node_ledger n" "genesis_accounts r = genesis_accounts n" by (rule r)+
  show sub: ?sub
    using rebuilt_index [OF laws(1,5) inv fc, of "sort_key block_height bl"] stored_blocks_known [OF store laws(2,3) rd bl(1)]
    by (simp add: bl(2))
  show "consistent_start E (r\<lparr>node_mempool := m\<rparr>)"
    unfolding consistent_start_def
    using init_or_load_init [OF load m] I(3,5,9) ne sub sub_index_root [OF laws(1) inv sub]
    by (simp add: r ledger_tip_blocks [OF ll] sub_index_def) blast
qed

end
