(* ===== verification/Node_Lifecycle.thy ===== *)
theory Node_Lifecycle
  imports Node_Restart
begin

text \<open>
  From the first start to a restart: a node that started on an empty store, whatever it handled since, can
  flush its ledger and be started again. The restart succeeds, and the node resumes with the ledger and the
  genesis accounts it had, in a state from which everything shown of consistent starts holds.
\<close>

section \<open>The restart succeeds\<close>

text \<open>
  Whether the crate's index accepts a block depends on the block and its parent only: a block that one index
  has accepted is accepted by any part of that index that knows the parent (or nothing, for a genesis block),
  and misses its parent in any other part.
\<close>

definition part_of :: "'f fork_choice_ops \<Rightarrow> 'f \<Rightarrow> 'f \<Rightarrow> bool" where
  "part_of F fc R \<longleftrightarrow> fork_built F fc \<and> (\<forall>h nd. fc_get F fc h = Some nd \<longrightarrow> fc_get F R h = Some nd)"

definition fork_accepts :: "core \<Rightarrow> 'f fork_choice_ops \<Rightarrow> bool" where
  "fork_accepts K F \<longleftrightarrow>
     (\<forall>fc R b. fork_built F R \<longrightarrow> part_of F fc R \<longrightarrow> fc_get F R (block_hash K b) = Some (fork_node_of K b) \<longrightarrow>
        fc_get F fc (block_hash K b) = None \<longrightarrow>
        (if block_height b = 0 then (\<forall>h. fc_get F fc h = None) \<longrightarrow> (\<exists>fc'. fc_insert F fc b = (fc', Ok (block_hash K b)))
         else if fc_get F fc (previous_hash b) = None then snd (fc_insert F fc b) = Err MissingParent
         else (\<exists>fc'. fc_insert F fc b = (fc', Ok (block_hash K b)))))"

lemma part_of_get: "part_of F fc R \<Longrightarrow> fc_get F fc h \<noteq> None \<Longrightarrow> fc_get F fc h = fc_get F R h"
  unfolding part_of_def by (metis not_None_eq)

lemma fork_acceptsD:
  assumes "fork_accepts K F" "fork_built F R" "part_of F fc R" "fc_get F R (block_hash K b) = Some (fork_node_of K b)"
    and "fc_get F fc (block_hash K b) = None"
  shows "block_height b \<noteq> 0 \<Longrightarrow> snd (fc_insert F fc b) \<in> {Err MissingParent, Ok (block_hash K b)}"
    "block_height b \<noteq> 0 \<Longrightarrow> fc_get F fc (previous_hash b) \<noteq> None \<Longrightarrow> \<exists>fc'. fc_insert F fc b = (fc', Ok (block_hash K b))"
    "block_height b = 0 \<Longrightarrow> \<forall>h. fc_get F fc h = None \<Longrightarrow> \<exists>fc'. fc_insert F fc b = (fc', Ok (block_hash K b))"
proof -
  note law = assms(1) [unfolded fork_accepts_def, rule_format, OF assms(2-5)]
  then show "block_height b \<noteq> 0 \<Longrightarrow> fc_get F fc (previous_hash b) \<noteq> None \<Longrightarrow> \<exists>fc'. fc_insert F fc b = (fc', Ok (block_hash K b))"
    "block_height b = 0 \<Longrightarrow> \<forall>h. fc_get F fc h = None \<Longrightarrow> \<exists>fc'. fc_insert F fc b = (fc', Ok (block_hash K b))" by simp_all
  show "block_height b \<noteq> 0 \<Longrightarrow> snd (fc_insert F fc b) \<in> {Err MissingParent, Ok (block_hash K b)}"
    using law by (cases "fc_get F fc (previous_hash b) = None") auto
qed

lemma part_of_insert:
  assumes "fork_tree_laws K F" "part_of F fc R" "fc_get F R (block_hash K b) = Some (fork_node_of K b)"
  shows "part_of F (fst (fc_insert F fc b)) R"
    "fc_get F fc x \<noteq> None \<Longrightarrow> fc_get F (fst (fc_insert F fc b)) x \<noteq> None"
proof -
  obtain fc' r where ins: "fc_insert F fc b = (fc', r)" by fastforce
  have built: "fork_built F fc" using assms(2) by (simp add: part_of_def)
  have *: "part_of F fc' R \<and> (fc_get F fc x \<noteq> None \<longrightarrow> fc_get F fc' x \<noteq> None)"
  proof (cases r)
    case (Inl e)
    then show ?thesis using fork_tree_refuse [OF assms(1) built] ins assms(2) by auto
  next
    case (Inr h)
    from fork_tree_insert(1,3,5) [OF assms(1) built ins [unfolded this]] assms(2,3) show ?thesis
      by (auto simp: part_of_def)
  qed
  then show "part_of F (fst (fc_insert F fc b)) R"
    "fc_get F fc x \<noteq> None \<Longrightarrow> fc_get F (fst (fc_insert F fc b)) x \<noteq> None" by (simp_all add: ins)
qed

lemma index_pass_total:
  assumes laws: "fork_tree_laws (env_core E) (env_fork E)" "fork_accepts (env_core E) (env_fork E)" "fork_built (env_fork E) R"
  shows "part_of (env_fork E) fc R \<Longrightarrow>
    \<forall>b \<in> set bs. fc_get (env_fork E) R (block_hash (env_core E) b) = Some (fork_node_of (env_core E) b) \<and>
      (block_height b = 0 \<longrightarrow> fc_get (env_fork E) fc (block_hash (env_core E) b) \<noteq> None) \<Longrightarrow>
    \<exists>fc' rest p. index_pass E bs fc = (fc', Ok (rest, p)) \<and> part_of (env_fork E) fc' R \<and>
      (\<forall>x. fc_get (env_fork E) fc x \<noteq> None \<longrightarrow> fc_get (env_fork E) fc' x \<noteq> None)"
proof (induction bs arbitrary: fc)
  case (Cons b bs)
  let ?F = "env_fork E" and ?h = "block_hash (env_core E) b"
  have built: "fork_built ?F fc" using Cons.prems(1) by (simp add: part_of_def)
  have R: "fc_get ?F R ?h = Some (fork_node_of (env_core E) b)" using Cons.prems(2) by simp
  obtain fc1 r where ins: "fc_insert ?F fc b = (fc1, r)" by fastforce
  note grown = part_of_insert [OF laws(1) Cons.prems(1) R, unfolded ins fst_conv]
  have rest: "\<exists>fc' rest p. index_pass E bs f = (fc', Ok (rest, p)) \<and> part_of ?F fc' R \<and>
      (\<forall>x. fc_get ?F f x \<noteq> None \<longrightarrow> fc_get ?F fc' x \<noteq> None)" if "f \<in> {fc, fc1}" for f
    using that Cons.prems grown by (intro Cons.IH) auto
  show ?case
  proof (cases "fc_get ?F fc ?h = None")
    case False
    then show ?thesis using rest [of fc] by (force simp: fork_tree_contains [OF laws(1) built])
  next
    case True
    then have "r = Err MissingParent \<or> r = Ok ?h"
      using fork_acceptsD(1) [OF laws(2,3) Cons.prems(1) R] Cons.prems(2) ins by auto
    then show ?thesis
      using rest [of fc1] grown(2) True by (force simp: fork_tree_contains [OF laws(1) built] ins)
  qed
qed auto

lemma index_loop_total:
  "fork_tree_laws (env_core E) (env_fork E) \<Longrightarrow> fork_accepts (env_core E) (env_fork E) \<Longrightarrow> fork_built (env_fork E) R \<Longrightarrow>
   part_of (env_fork E) fc R \<Longrightarrow>
   \<forall>b \<in> set blocks. fc_get (env_fork E) R (block_hash (env_core E) b) = Some (fork_node_of (env_core E) b) \<and>
     (block_height b = 0 \<longrightarrow> fc_get (env_fork E) fc (block_hash (env_core E) b) \<noteq> None) \<Longrightarrow>
   \<exists>fc'. index_loop E blocks fc = (fc', Ok ()) \<and> part_of (env_fork E) fc' R"
proof (induction E blocks fc rule: index_loop.induct)
  case (1 E blocks fc)
  obtain fc' rest p where pass: "index_pass E blocks fc = (fc', Ok (rest, p))" "part_of (env_fork E) fc' R"
    "\<forall>x. fc_get (env_fork E) fc x \<noteq> None \<longrightarrow> fc_get (env_fork E) fc' x \<noteq> None"
    using index_pass_total [OF 1(2-5) 1(6)] by blast
  have "set rest \<subseteq> set blocks" using index_pass_rest [OF pass(1)] .
  then have known: "\<forall>b \<in> set rest. fc_get (env_fork E) R (block_hash (env_core E) b) = Some (fork_node_of (env_core E) b) \<and>
      (block_height b = 0 \<longrightarrow> fc_get (env_fork E) fc' (block_hash (env_core E) b) \<noteq> None)"
    using 1(6) pass(3) by blast
  show ?case
  proof (cases p)
    case True
    from 1(1) [OF pass(1) [symmetric] refl refl True 1(2-4) pass(2) known] show ?thesis
      by (simp add: index_loop.simps [of E blocks] pass(1) True)
  qed (use pass(2) in \<open>simp add: index_loop.simps [of E blocks] pass(1)\<close>)
qed

text \<open>A chain that was indexed once is indexed again, from an empty index.\<close>

lemma index_chain_total:
  assumes laws: "fork_tree_laws K F" "fork_accepts K F" "chain_laws K" "ledger_laws K" and R: "fork_built F R"
  shows "build_chain K bs = Ok c \<Longrightarrow> \<forall>b \<in> set bs. fc_get F R (block_hash K b) = Some (fork_node_of K b) \<Longrightarrow>
    \<exists>fc. index_chain F bs (fc_new F) = Some fc"
proof (induction bs arbitrary: c rule: rev_induct)
  case (snoc b bs)
  note shape = build_chain_shape [OF laws(3,4) snoc.prems(1)]
  obtain c0 where c0: "build_chain K bs = Ok c0" using snoc.prems(1) by (auto simp: build_chain_snoc res_bind_Ok_iff)
  then obtain fc where fc: "index_chain F bs (fc_new F) = Some fc" using snoc by auto
  note br = index_chain_branch [OF laws(1,3,4) c0 fc]
  have known: "\<exists>d \<in> set bs. x = block_hash K d \<and> nd = fork_node_of K d" if "fc_get F fc x = Some nd" for x nd
    by (rule index_chain_sub [OF laws(1) fc that])
  then have part: "part_of F fc R" using br snoc.prems(2) by (fastforce simp: part_of_def)
  have new: "fc_get F fc (block_hash K b) = None"
  proof (rule ccontr)
    assume "\<not> ?thesis"
    then obtain d where d: "d \<in> set bs" "block_hash K b = block_hash K d" using known by blast
    then have "fork_node_of K d = fork_node_of K b" using snoc.prems(2) by (metis Un_iff option.inject set_append list.set_intros(1))
    then have "fn_block (fork_node_of K d) = fn_block (fork_node_of K b)" by simp
    then have "d = b" by simp
    then obtain i where i: "i < length bs" "(bs @ [b]) ! i = b" using d(1) by (auto simp: in_set_conv_nth nth_append)
    then have "(of_nat i :: u64) = of_nat (length bs)" using shape by (metis length_append_singleton less_SucI lessI nth_append_length)
    moreover have "length bs < 2 ^ 64" using shape by simp
    ultimately show False using i(1) by (simp add: word_unat_eq_iff unat_of_nat)
  qed
  have "\<exists>fc'. fc_insert F fc b = (fc', Ok (block_hash K b))"
  proof (cases "bs = []")
    case True
    then have "block_height b = 0" using shape by simp
    then show ?thesis using fork_acceptsD(3) [OF laws(2) R part _ new] snoc.prems(2) fc True fork_tree_new [OF laws(1)] by simp
  next
    case False
    then obtain m where m: "length bs = Suc m" by (cases bs) auto
    then have "previous_hash ((bs @ [b]) ! Suc m) = block_hash K ((bs @ [b]) ! m)" "block_height ((bs @ [b]) ! Suc m) = of_nat (Suc m)"
      using shape by simp_all
    then have "previous_hash b = block_hash K (last bs)" "block_height b = of_nat (Suc m)"
      using m False by (simp_all add: nth_append last_conv_nth)
    moreover have "(of_nat (Suc m) :: u64) \<noteq> 0" using shape m by (simp add: word_unat_eq_iff unat_of_nat del: of_nat_Suc)
    moreover have "fc_get F fc (block_hash K (last bs)) \<noteq> None" using br False branch_last by fastforce
    ultimately show ?thesis using fork_acceptsD(2) [OF laws(2) R part _ new] snoc.prems(2) by simp
  qed
  then show ?case using fc by (auto simp: index_chain_append)
qed simp

lemma index_chain_knows:
  assumes "fork_tree_laws K F" "index_chain F bs (fc_new F) = Some fc" "b \<in> set bs"
  shows "fc_get F fc (block_hash K b) \<noteq> None"
  using assms(2,3)
proof (induction bs arbitrary: fc rule: rev_induct)
  case (snoc d bs)
  obtain fc0 h where fc0: "index_chain F bs (fc_new F) = Some fc0" "fc_insert F fc0 d = (fc, Ok h)"
    using snoc.prems(1) by (rule index_chain_snocE)
  with fork_tree_insert(1,3) [OF assms(1) index_chain_built [OF fc0(1)] fc0(2)] snoc show ?case by auto
qed simp

lemma stored_block_decodes:
  assumes "store_inv E V n" "codecs_ok (env_codecs E)" "V (node_storage n) BLOCKS_BY_HASH k = Some bs"
  shows "\<exists>b. decode (block_codec (env_codecs E)) bs = Ok b"
proof -
  obtain b where "encode (block_codec (env_codecs E)) b = Ok bs" using assms(1,3) unfolding store_inv_def by blast
  with encode_decode [of "block_codec (env_codecs E)" b bs] assms(2) show ?thesis by (auto simp: codecs_ok_def)
qed

lemma load_blocks_total:
  assumes "lmdb_laws D V W" "readable D e" "\<And>k bs. V e BLOCKS_BY_HASH k = Some bs \<Longrightarrow> \<exists>b. decode (block_codec C) bs = Ok b"
  shows "\<exists>blocks. load_blocks_by_hash D C e = Ok blocks"
proof -
  obtain t where t: "begin_ro_txn D e = Ok t" and W: "W t = V e" by (rule with_ro_view [OF assms(1,2)])
  obtain es where es: "txn_iter D t BLOCKS_BY_HASH = Ok es" "bt_wf es" "map_of es = W t BLOCKS_BY_HASH"
    using lmdb_iter [OF assms(1)] by blast
  have dec: "\<exists>b. decode (block_codec C) bs = Ok b" if "(k, bs) \<in> set es" for k bs
    using assms(3) [of k bs] that es(2,3) W by (metis bt_get_iff_mem)
  have "\<forall>e \<in> set es. \<exists>b. decode (block_codec C) (snd e) = Ok b" using dec by (metis prod.collapse)
  then have "\<exists>r. try_fold (\<lambda>(_, bs) blocks. res_bind (decode (block_codec C) bs) (\<lambda>b. Ok (blocks @ [b]))) es bl = Ok r" for bl
    by (induction es arbitrary: bl) (auto simp: case_prod_beta)
  then show ?thesis using t es(1) by (simp add: load_blocks_by_hash_def with_ro_def)
qed

text \<open>A start on the store of a lasting node that holds a ledger succeeds, with that ledger.\<close>

lemma branch_block_known:
  assumes "fork_tree_laws K F" "fork_built F fc" "branch F fc h bs" "b \<in> set bs"
  shows "fc_get F fc (block_hash K b) = Some (fork_node_of K b)"
  using branch_known [OF assms(3,4)] fork_tree_known [OF assms(1,2)] by metis

lemma start_succeeds:
  assumes laws: "crate_laws E" "fork_accepts (env_core E) (env_fork E)" "lmdb_laws (env_lmdb E) V W" "codecs_ok (env_codecs E)"
      "\<forall>e. readable (env_lmdb E) e"
    and n: "lasting E V n" and L: "kept_ledger E n L" "holds_ledger (env_core E) (env_codecs E) (V (node_storage n)) L"
  shows "\<exists>r. init_or_load E (node_storage n) = (node_storage n, Some (Ok r)) \<and> node_storage r = node_storage n \<and> node_ledger r = L \<and>
    genesis_accounts r = genesis_accounts n \<and> part_of (env_fork E) (fork_choice r) (fork_choice n)"
proof -
  let ?K = "env_core E" and ?F = "env_fork E"
  have rd: "readable (env_lmdb E) e" for e using laws(5) by simp
  have fl: "fork_tree_laws ?K ?F" and ll: "ledger_laws ?K" and cl: "chain_laws ?K" using laws(1) by (simp_all add: crate_laws_def)
  have inv: "chain_inv E n" and store: "store_inv E V n" using n by (simp_all add: lasting_def)
  note I = chain_invD [OF inv]
  have br: "branch ?F (fork_choice n) (block_hash ?K (last (ledger_blocks L))) (ledger_blocks L)" and ne: "ledger_blocks L \<noteq> []"
    and built: "build_chain ?K (ledger_blocks L) = Ok (ledger_chain L)"
    using L(1) by (simp_all add: kept_ledger_def rebuilds_iff [OF ll])
  note known = branch_block_known [OF fl I(1) br]
  obtain fc where fc: "index_chain ?F (ledger_blocks L) (fc_new ?F) = Some fc"
    using index_chain_total [OF fl laws(2) cl ll I(1) built] known by blast
  then obtain n0 where n0: "with_genesis_accounts E L (node_storage n) (genesis_accounts n) = Some n0"
    by (simp add: with_genesis_accounts_def)
  note start = with_genesis_accountsD [OF n0]
  obtain bl where bl: "load_blocks_by_hash (env_lmdb E) (env_codecs E) (node_storage n) = Ok bl"
    using load_blocks_total [OF laws(3) rd] stored_block_decodes [OF store laws(4)] by blast
  have part: "part_of ?F fc (fork_choice n)"
    using index_chain_built [OF fc] index_chain_sub [OF fl fc] known by (fastforce simp: part_of_def)
  have "fc_get ?F (fork_choice n) (block_hash ?K b) = Some (fork_node_of ?K b) \<and>
      (block_height b = 0 \<longrightarrow> fc_get ?F fc (block_hash ?K b) \<noteq> None)" if "b \<in> set bl" for b
  proof -
    note b = stored_blocks_known [OF store laws(3,4) rd bl that]
    moreover have "b = hd (ledger_blocks L)" if "block_height b = 0" using I(8) [OF branch.root [OF b]] I(8) [OF br] that by simp
    ultimately show ?thesis using index_chain_knows [OF fl fc] hd_in_set [OF ne] by blast
  qed
  then obtain fc' where "index_loop E (sort_key block_height bl) fc = (fc', Ok ())" "part_of ?F fc' (fork_choice n)"
    using index_loop_total [OF fl laws(2) I(1) part] by (metis set_sort)
  then have "\<exists>n1. index_stored_blocks E n0 = (n1, Ok ()) \<and> node_storage n1 = node_storage n \<and> node_ledger n1 = L \<and> genesis_accounts n1 = genesis_accounts n \<and>
      part_of ?F (fork_choice n1) (fork_choice n)"
    using start fc bl by (auto simp: index_stored_blocks_def)
  then show ?thesis
    using held_reload [OF laws(1,3,4,5) store L] stored_genesis_accounts [OF store laws(3,4) rd] n0
    by (auto simp: init_or_load_def)
qed

lemma resumes:
  assumes laws: "crate_laws E" "fork_weighs (env_fork E) w" "fork_accepts (env_core E) (env_fork E)"
    and "lmdb_laws (env_lmdb E) V W" "codecs_ok (env_codecs E)" "\<forall>e. readable (env_lmdb E) e"
    and n: "lasting E V n" "holds_ledger (env_core E) (env_codecs E) (V (node_storage n)) (node_ledger n)" and m: "pool_init m"
  shows "\<exists>st r. init_or_load E (node_storage n) = (st, Some (Ok r)) \<and> node_ledger r = node_ledger n \<and>
    genesis_accounts r = genesis_accounts n \<and> consistent_start E (r\<lparr>node_mempool := m\<rparr>)"
proof -
  obtain st r where "init_or_load E (node_storage n) = (st, Some (Ok r))"
    using start_succeeds [OF assms(1,3-6) n(1) own_ledger_kept [OF n(1)] n(2)] by blast
  with restarted [OF assms(1,4-6,2) n _ m] show ?thesis by metis
qed

lemma flush_holds:
  assumes "crate_laws E" "lmdb_laws (env_lmdb E) V W" "lasting E V n" "flush_to_storage E n = (n', Ok ())"
  shows "holds_ledger (env_core E) (env_codecs E) (V (node_storage n')) (node_ledger n')"
proof -
  have "save_ledger (env_core E) (env_lmdb E) (env_codecs E) (node_storage n) (node_ledger n) = (node_storage n', Ok ())"
    "node_ledger n' = node_ledger n"
    using assms(4) by (auto simp: flush_to_storage_def map_err_Ok_iff split: prod.splits)
  with saved_ledger_holds(1) [OF assms(2) _ kept_ledger_wf [OF assms(1) own_ledger_kept [OF assms(3)]]] assms(1) show ?thesis
    by (simp add: crate_laws_def)
qed

lemma first_start_lasting:
  assumes "crate_laws E" "lmdb_laws (env_lmdb E) V W" "codecs_ok (env_codecs E)" "\<forall>e. readable (env_lmdb E) e"
    and "empty_store E V st" "init_or_load E st = (st', Some (Ok n))" "pool_init m" "genesis_accounts n \<noteq> []"
  shows "lasting E V (n\<lparr>node_mempool := m\<rparr>)"
  using consistent_start_inv [OF assms(1) first_start(1) [OF assms(1-7)]] assms(8) first_start(2) [OF assms(1-7)]
  by (simp add: lasting_def store_inv_def)

text \<open>The concrete index weighs branches by their height, and it accepts blocks by their parent.\<close>

lemma tree_fork_weighs: "fork_weighs (tree_fork K) (\<lambda>bs. unat (block_height (last bs)))"
  unfolding fork_weighs_def
proof (intro allI impI)
  fix bl b bl' h bs tip ts
  assume built: "fork_built (tree_fork K) bl" and ins: "fc_insert (tree_fork K) bl b = (bl', Ok h)"
    and br: "branch (tree_fork K) bl' h bs" "branch (tree_fork K) bl tip ts"
    and best: "map_option fn_hash (fc_best_tip (tree_fork K) bl) = Some tip"
  from best obtain c where c: "best_block bl = Some c" "tip = block_hash K c" by auto
  have bl': "bl' = b # bl" "h = block_hash K b" "\<not> known K bl h" using ins by (auto simp: tree_insert_def split: if_splits option.splits)
  have "find_block K bl tip = Some c"
    unfolding c(2) using find_block_mem [OF tree_built_ok [OF built] best_block_mem [OF c(1)]] .
  then have "last ts = c" "last bs = b" "tip \<noteq> h"
    using branch_last [OF br(1)] branch_last [OF br(2)] bl' by (auto simp: known_iff_find)
  then show "(map_option fn_hash (fc_best_tip (tree_fork K) bl') = Some h) = (unat (block_height (last ts)) < unat (block_height (last bs)))"
    using c bl' by (simp add: word_less_nat_alt)
qed

lemma tree_fork_accepts: "fork_accepts K (tree_fork K)"
  unfolding fork_accepts_def
proof (intro allI impI)
  fix bl R b
  assume built: "fork_built (tree_fork K) R" and part: "part_of (tree_fork K) bl R"
    and R: "fc_get (tree_fork K) R (block_hash K b) = Some (fork_node_of K b)"
    and new: "fc_get (tree_fork K) bl (block_hash K b) = None"
  have inj: "p = q" if "fork_node_of K p = fork_node_of K q" for p q using arg_cong [OF that, of fn_block] by simp
  have b: "find_block K R (block_hash K b) = Some b" using R inj by auto
  have "block_height p < block_height b" if p: "find_block K bl (previous_hash b) = Some p" "block_height b \<noteq> 0" for p
  proof -
    have "fc_get (tree_fork K) bl (previous_hash b) = Some (fork_node_of K p)" using p(1) by simp
    then have "fc_get (tree_fork K) R (previous_hash b) = Some (fork_node_of K p)" using part unfolding part_of_def by blast
    then have "find_block K R (previous_hash b) = Some p" using inj by auto
    with tree_parent [OF tree_built_ok [OF built], of b] find_block_SomeD [OF b] p(2) show ?thesis by auto
  qed
  with new show "if block_height b = 0
      then (\<forall>h. fc_get (tree_fork K) bl h = None) \<longrightarrow> (\<exists>fc'. fc_insert (tree_fork K) bl b = (fc', Ok (block_hash K b)))
      else if fc_get (tree_fork K) bl (previous_hash b) = None then snd (fc_insert (tree_fork K) bl b) = Err MissingParent
      else (\<exists>fc'. fc_insert (tree_fork K) bl b = (fc', Ok (block_hash K b)))"
    by (auto simp: tree_insert_def known_iff_find)
qed

section \<open>A restart\<close>

text \<open>The node of \<open>Two_Branches\<close> with a store in memory, after its first start and one block.\<close>

definition life_codecs :: codecs where
  "life_codecs = sample_codecs\<lparr>accounts_codec := table_codec [[([1], stored_account)]],
     snapshot_codec := table_codec [snapshot_of linked_core genesis_ledger 0 [3]]\<rparr>"

definition life_env :: "(mem_env, mem_env, block list) node_env" where
  "life_env = sample_env\<lparr>env_core := linked_core, env_codecs := life_codecs, env_fork := tree_fork linked_core\<rparr>"

lemma life_env_simps [simp]:
  "env_core life_env = linked_core" "env_lmdb life_env = mem_lmdb" "env_codecs life_env = life_codecs"
  "env_fork life_env = tree_fork linked_core" "env_genesis_block life_env = genesis" "env_GENESIS_HASH life_env = [3]"
  "tree_like life_env"
  by (simp_all add: life_env_def tree_like_def) (simp_all add: sample_env_def)

lemma life_laws: "crate_laws life_env"
  by (simp add: crate_laws_def linked_core_laws tree_fork_laws)

lemma life_codecs_ok: "codecs_ok life_codecs"
  using sample_codecs_ok by (simp add: codecs_ok_def life_codecs_def table_codec_ok)

lemma life_encodes:
  "encode (block_codec life_codecs) genesis = Ok [0]" "encode (block_codec life_codecs) block1 = Ok [1]"
  "encode (account_codec life_codecs) stored_account = Ok [0]"
  "encode (accounts_codec life_codecs) [([1], stored_account)] = Ok [0]"
  "encode (snapshot_codec life_codecs) (snapshot_of linked_core genesis_ledger 0 [3]) = Ok [0]"
  "encode (height_codec life_codecs) 0 = Ok [0]" "encode (height_codec life_codecs) 1 = Ok [1]"
  "encode (location_codec life_codecs) (location_at linked_core block1 0) = Ok [0]"
  "\<exists>bs. encode (address_location_codec life_codecs) \<lparr>aloc_tx_hash = [5], aloc_block_height = 1,
      aloc_block_hash = [4], aloc_tx_index = 0, aloc_sent = s\<rparr> = Ok bs"
  using sample_encodes
  by (simp_all add: life_codecs_def) (simp_all add: encode_def table_codec_def sample_codecs_def location_at_def linked_core_def
    sample_core_def linked_hash_def block1_def sample_block_def stored_tx_def)

lemma life_put_block:
  "\<exists>t'. put_block linked_core mem_lmdb life_codecs genesis bs t = Ok t'"
  "\<exists>t'. put_block linked_core mem_lmdb life_codecs block1 bs t = Ok t'"
proof -
  have "key_ok [3]" "key_ok [4]" "key_ok [5]" by (simp_all add: key_ok_def)
  moreover have "block_hash linked_core genesis = [3]" "block_hash linked_core block1 = [4]" "tx_hash linked_core stored_tx = [5]"
    "block_transactions genesis = []" "block_transactions block1 = [stored_tx]" "block_height block1 = 1"
    by (simp_all add: genesis_def block1_def) (simp add: linked_core_def sample_core_def stored_tx_def)
  moreover have "length (tx_from (payload stored_tx)) \<le> 100" "length (tx_to (payload stored_tx)) \<le> 100"
    by (simp_all add: stored_tx_def)
  ultimately show "\<exists>t'. put_block linked_core mem_lmdb life_codecs genesis bs t = Ok t'"
    "\<exists>t'. put_block linked_core mem_lmdb life_codecs block1 bs t = Ok t'"
    using mem_index [of 0 linked_core stored_tx life_codecs block1 "[0]"] life_encodes(8,9)
    by (simp_all add: put_block_def mem_put_bytes index_block_transactions_def res_bind_Ok_iff)
qed

lemma life_tip_state:
  "\<exists>t'. put_tip_state linked_core mem_lmdb life_codecs genesis_ledger t = Ok t'"
  "\<exists>t'. put_tip_state linked_core mem_lmdb life_codecs stored_ledger t = Ok t'"
proof -
  have "ledger_tip_height linked_core genesis_ledger = Some 0" "ledger_tip_height linked_core stored_ledger = Some 1"
    "\<not> is_snapshot_height linked_core 1" "ledger_accounts genesis_ledger = [([1], stored_account)]"
    by (simp_all add: linked_core_def sample_core_def genesis_ledger_def stored_ledger_def)
  moreover have "key_ok [3]" "key_ok [4]" "key_ok (height_key 0)"
    by (simp_all add: key_ok_def height_key_def)
  ultimately show "\<exists>t'. put_tip_state linked_core mem_lmdb life_codecs genesis_ledger t = Ok t'"
    "\<exists>t'. put_tip_state linked_core mem_lmdb life_codecs stored_ledger t = Ok t'"
    by (simp_all add: put_tip_state_def put_tip_def tree_ledgers mem_put_bytes mem_put_value [OF life_encodes(4)]
        mem_put_value [OF life_encodes(5)] mem_put_value [OF life_encodes(6)] mem_put_value [OF life_encodes(7)] del: fun_upd_apply)
qed

lemma life_save:
  assumes "L = genesis_ledger \<or> L = stored_ledger"
  shows "\<exists>e'. save_ledger linked_core mem_lmdb life_codecs e L = (e', Ok ())"
proof -
  have "bt_values (ledger_accounts L) = [stored_account]" "key_ok (acc_address stored_account)"
    using assms by (auto simp: genesis_ledger_def stored_ledger_def stored_account_def key_ok_def)
  moreover have "\<exists>t'. try_fold (\<lambda>b t. res_bind (encode (block_codec life_codecs) b) (\<lambda>bs. put_block linked_core mem_lmdb life_codecs b bs t))
      (ledger_blocks L) t = Ok t'" for t
    using assms life_put_block by (auto simp: tree_ledgers life_encodes res_bind_Ok_iff) metis
  moreover have "\<exists>t'. put_tip_state linked_core mem_lmdb life_codecs L t = Ok t'" for t using assms life_tip_state by blast
  ultimately have "\<exists>t. put_ledger linked_core mem_lmdb life_codecs L e = Ok t"
    by (simp add: put_ledger_def mem_clear_db mem_put_value [OF life_encodes(3)] res_bind_Ok_iff del: fun_upd_apply) metis
  then show ?thesis by (auto simp: save_ledger_def then_env_def mem_with_rw flush_def) (simp add: mem_lmdb_def)
qed

lemma life_empty: "empty_store life_env mem_view env0"
proof -
  have "mem_view env0 META TIP_HEIGHT_KEY = None" "mem_view env0 BLOCKS_BY_HASH = Map.empty"
    using meta_keys(7) [symmetric] by (auto simp: env0_content mem_view_def sorted_db_def bt_wf_def)
  moreover have "load_storage_version mem_lmdb life_codecs env0 = Ok (Some STORAGE_VERSION)"
    using load_env0_version by (simp add: load_storage_version_def life_codecs_def)
  ultimately show ?thesis by (simp add: empty_store_def load_tip_view [OF mem_lmdb_laws mem_readable])
qed

lemma life_genesis: "ledger_apply_block linked_core (ledger_new linked_core) genesis = Ok genesis_ledger"
  by (simp add: linked_core_def linked_insert_def sample_core_def genesis_ledger_def genesis_def sample_block_def)

lemma life_start:
  obtains st n where "init_or_load life_env env0 = (st, Some (Ok n))" "node_ledger n = genesis_ledger"
    "genesis_accounts n = [([1], stored_account)]" "fork_choice n = [genesis]" "orphan_blocks n = []" "orphan_children_by_parent n = []"
proof -
  let ?a = "[([1], stored_account)]"
  obtain e1 where e1: "save_ledger linked_core mem_lmdb life_codecs env0 genesis_ledger = (e1, Ok ())" using life_save by blast
  obtain e2 where e2: "save_genesis_accounts mem_lmdb life_codecs e1 ?a = (e2, Ok ())"
    using mem_with_rw [OF mem_put_value [OF life_encodes(4) meta_keys(4)]] by (simp add: save_genesis_accounts_def)
  have view: "mem_view e2 = (mem_view e1)(GENESIS_ACCOUNTS := (mem_view e1 GENESIS_ACCOUNTS)(GENESIS_ACCOUNTS_KEY \<mapsto> [0]))"
    by (rule save_genesis_accounts_view [OF mem_lmdb_laws e2]) (simp add: life_encodes)
  have created: "load_or_create_ledger life_env env0 = (e2, Some (Ok genesis_ledger))"
    using life_empty e1 e2 life_genesis
    by (simp add: load_or_create_ledger_def empty_store_def then_env_def genesis_def) (simp add: genesis_ledger_def)
  have accs: "load_genesis_accounts mem_lmdb life_codecs e2 = Ok (Some ?a)"
    using encode_decode [OF _ life_encodes(4)] life_codecs_ok
    by (simp add: load_genesis_accounts_view [OF mem_lmdb_laws mem_readable] view codecs_ok_def)
  have dec: "decode (block_codec life_codecs) bs = Ok genesis" if "mem_view e2 BLOCKS_BY_HASH k = Some bs" for k bs
  proof -
    have tip: "ledger_tip_height linked_core genesis_ledger = Some 0" by (simp add: linked_core_def sample_core_def genesis_ledger_def)
    have "encode (block_codec life_codecs) genesis = Ok bs"
      using save_ledger_kept(1) [OF mem_lmdb_laws e1 tip tree_ledgers(2), of k bs] that view life_empty
      by (simp add: tree_ledgers empty_store_def)
    then show ?thesis using encode_decode life_codecs_ok by (auto simp: codecs_ok_def)
  qed
  define n where "n = \<lparr>node_ledger = genesis_ledger, node_mempool = mempool_new, node_storage = e2,
     node_cache = from_ledger linked_core genesis_ledger, fork_choice = [genesis],
     genesis_accounts = ?a, orphan_blocks = [], orphan_children_by_parent = [],
     missing_parent_requests = [], missing_parent_request_set = {}, missing_parent_retry_at = []\<rparr>"
  have n: "with_genesis_accounts life_env genesis_ledger e2 ?a = Some n"
    by (simp add: with_genesis_accounts_def tree_ledgers tree_insert_def known_def n_def) (simp add: genesis_def)
  obtain bl where bl: "load_blocks_by_hash mem_lmdb life_codecs e2 = Ok bl"
    using load_blocks_total [OF mem_lmdb_laws mem_readable, of e2 life_codecs] dec by blast
  have "b = genesis" if "b \<in> set bl" for b
    using loaded_blocks_stored [OF mem_lmdb_laws mem_readable bl that] dec by fastforce
  then have "index_loop life_env (sort_key block_height bl) [genesis] = ([genesis], Ok ())"
    by (intro index_loop_known) (auto simp: known_def)
  then have "index_stored_blocks life_env n = (n, Ok ())"
    using bl by (simp add: index_stored_blocks_def n_def)
  then have "init_or_load life_env env0 = (e2, Some (Ok n))" using created accs n by (simp add: init_or_load_def)
  then show ?thesis by (rule that) (simp_all add: n_def)
qed

lemma life_block1:
  obtains st n0 n where "init_or_load life_env env0 = (st, Some (Ok n0))" "genesis_accounts n0 \<noteq> []"
    "node_ledger n0 = genesis_ledger" "node_ledger n = stored_ledger"
    "apply_known_parent_block life_env (n0\<lparr>node_mempool := mempool_new\<rparr>) block1 100 = (n, Ok ())"
    "apply_block life_env (n0\<lparr>node_mempool := mempool_new\<rparr>) block1 100 = (n, Ok ())"
proof (rule life_start)
  fix st n0
  assume start: "init_or_load life_env env0 = (st, Some (Ok n0))" "node_ledger n0 = genesis_ledger"
    "genesis_accounts n0 = [([1], stored_account)]" "fork_choice n0 = [genesis]" "orphan_blocks n0 = []" "orphan_children_by_parent n0 = []"
  let ?n0 = "n0\<lparr>node_mempool := mempool_new\<rparr>"
  obtain e where e: "save_ledger linked_core mem_lmdb life_codecs (node_storage n0) stored_ledger = (e, Ok ())" using life_save by blast
  define n where "n = ?n0\<lparr>fork_choice := [block1, genesis], node_ledger := stored_ledger, node_storage := e,
     node_mempool := remove_confirmed linked_core mempool_new block1, node_cache := refresh_cache life_env stored_ledger block1 (node_cache n0)\<rparr>"
  have known: "apply_known_parent_block life_env ?n0 block1 100 = (n, Ok ())"
    unfolding n_def
    by (rule trans [OF extend_like [where e = e and r = "Ok ()", OF life_env_simps(7) block1_def]])
      (use e in \<open>simp_all add: map_err_def start tree_ledgers known_def tree_insert_def two_branches tree_ledgers(1) [unfolded two_branches]\<close>)
  then have "apply_block life_env ?n0 block1 100 = (n, Ok ())" using start(5,6) by (intro apply_block_alone) simp_all
  then show ?thesis using that [OF start(1) _ start(2) _ known] start(3) by (simp add: n_def)
qed

end
