(* ===== verification/Node_Life.thy ===== *)
theory Node_Life
  imports Node_Lifecycle
begin

text \<open>
  Any number of restarts. A start indexes the stored blocks whose ancestors are stored too. When the store has the
  parent of every block it has, and the ledger of the node, the node that a start gives is one of which everything shown of
  the first start holds again: the life of a node is a sequence of calls and restarts.
\<close>

section \<open>Stores that a start indexes completely\<close>

definition restartable :: "('e, 't, 'f) node_env \<Rightarrow> ('e \<Rightarrow> dbs) \<Rightarrow> ('e, 'f) node \<Rightarrow> bool" where
  "restartable E V n \<longleftrightarrow> holds_ledger (env_core E) (env_codecs E) (V (node_storage n)) (node_ledger n) \<and>
     (\<forall>k bs b. V (node_storage n) BLOCKS_BY_HASH k = Some bs \<longrightarrow> encode (block_codec (env_codecs E)) b = Ok bs \<longrightarrow> block_height b \<noteq> 0 \<longrightarrow>
        (\<exists>p. block_stored (env_core E) (env_codecs E) (V (node_storage n)) p \<and> block_hash (env_core E) p = previous_hash b))"

text \<open>The loop leaves no block unknown whose ancestors are all among the blocks.\<close>

lemma index_loop_all:
  assumes laws: "fork_tree_laws (env_core E) (env_fork E)" "fork_accepts (env_core E) (env_fork E)" and R: "fork_built (env_fork E) R"
    and fc: "fork_built (env_fork E) fc" and loop: "index_loop E blocks fc = (fc', Ok ())" and part: "part_of (env_fork E) fc' R"
    and known: "\<forall>b \<in> set blocks. fc_get (env_fork E) R (block_hash (env_core E) b) = Some (fork_node_of (env_core E) b)"
    and closed: "\<forall>b \<in> set blocks. block_height b \<noteq> 0 \<longrightarrow> (\<exists>p \<in> set blocks. block_hash (env_core E) p = previous_hash b)"
    and root: "\<And>h nd. fc_get (env_fork E) R h = Some nd \<Longrightarrow> fn_height nd = 0 \<Longrightarrow> fc_get (env_fork E) fc h \<noteq> None"
  shows "branch (env_fork E) R h bs \<Longrightarrow> last bs \<in> set blocks \<Longrightarrow> fc_get (env_fork E) fc' h \<noteq> None"
proof (induction rule: branch.induct)
  case (root h nd)
  then show ?case using index_loop_spec [OF laws(1) fc loop] assms(9) by blast
next
  case (child h nd bs)
  let ?K = "env_core E" and ?F = "env_fork E" and ?b = "fn_block nd"
  have b: "?b \<in> set blocks" and nd: "nd = fork_node_of ?K ?b" "block_hash ?K ?b = h"
    using child.prems fork_tree_known [OF laws(1) R child.hyps(1)] by auto
  then have height: "block_height ?b \<noteq> 0" using child.hyps(2) fork_node_of_simps(2) by metis
  then obtain p where p: "p \<in> set blocks" "block_hash ?K p = previous_hash ?b" using closed b by blast
  have "last bs = p" using branch_last [OF child.hyps(3)] known p by (metis fork_node_of_simps(3) option.inject)
  then have parent: "fc_get ?F fc' (previous_hash ?b) \<noteq> None" using child.IH p(1) by simp
  show ?case
  proof (rule ccontr)
    assume new: "\<not> ?case"
    then have "snd (fc_insert ?F fc' ?b) = Err MissingParent" using index_loop_spec [OF laws(1) fc loop] b nd(2) by auto
    then show False using fork_acceptsD(2) [OF laws(2) R part _ _ height parent] known b new nd(2) by auto
  qed
qed

lemma restart_lasting:
  assumes laws: "crate_laws E" "fork_weighs (env_fork E) w" "fork_accepts (env_core E) (env_fork E)"
      "lmdb_laws (env_lmdb E) V W" "codecs_ok (env_codecs E)" "\<forall>e. readable (env_lmdb E) e"
    and n: "lasting E V n" "restartable E V n"
    and load: "init_or_load E (node_storage n) = (st, Some (Ok r))" and m: "pool_init m"
  shows "lasting E V (r\<lparr>node_mempool := m\<rparr>)"
proof -
  let ?K = "env_core E" and ?F = "env_fork E" and ?C = "env_codecs E" and ?v = "V (node_storage n)"
  have rd: "readable (env_lmdb E) e" for e using laws(6) by simp
  have fl: "fork_tree_laws ?K ?F" using laws(1) by (simp add: crate_laws_def)
  have inv: "chain_inv E n" and ne: "genesis_accounts n \<noteq> []" and store: "store_inv E V n" using n(1) by (simp_all add: lasting_def)
  note I = chain_invD [OF inv]
  have holds: "holds_ledger ?K ?C ?v (node_ledger n)" using n(2) by (simp add: restartable_def)
  note r = restarted [OF laws(1,4-6,2) n(1) holds load m]
  obtain n0 bl where st: "node_storage r = node_storage n"
    and fc: "index_chain ?F (ledger_blocks (node_ledger n)) (fc_new ?F) = Some (fork_choice n0)"
    and bl: "load_blocks_by_hash (env_lmdb E) ?C (node_storage n) = Ok bl"
      "index_loop E (sort_key block_height bl) (fork_choice n0) = (fork_choice r, Ok ())"
    by (rule restartedE [OF laws(1,4-6) n(1) holds load])
  have loaded: "b \<in> set bl" if "?v BLOCKS_BY_HASH k = Some bs" "encode (block_codec ?C) b = Ok bs" for k bs b
    using stored_blocks_loaded [OF laws(4) rd bl(1) that(1)] encode_decode [OF _ that(2)] laws(5) by (simp add: codecs_ok_def)
  have part: "part_of ?F (fork_choice r) (fork_choice n)" using r(3) by (simp add: part_of_def sub_index_def)
  have known: "\<forall>b \<in> set bl. fc_get ?F (fork_choice n) (block_hash ?K b) = Some (fork_node_of ?K b)"
    using stored_blocks_known [OF store laws(4,5) rd bl(1)] by blast
  have closed: "\<exists>p \<in> set bl. block_hash ?K p = previous_hash b" if b: "b \<in> set bl" "block_height b \<noteq> 0" for b
  proof -
    obtain k bs where "?v BLOCKS_BY_HASH k = Some bs" "encode (block_codec ?C) b = Ok bs"
      using stored_encoding [OF store laws(4,5) rd bl(1) b(1)] by blast
    then obtain p where "block_stored ?K ?C ?v p" "block_hash ?K p = previous_hash b" using n(2) b(2) unfolding restartable_def by blast
    then show ?thesis using loaded by (auto simp: block_stored_def)
  qed
  have root: "fc_get ?F (fork_choice n0) h \<noteq> None" if "fc_get ?F (fork_choice n) h = Some nd" "fn_height nd = 0" for h nd
    using I(8) [OF branch.root [OF that]] fork_tree_known [OF fl I(1) that(1)] index_chain_knows [OF fl fc] hd_in_set [OF I(3)] by auto
  have indexed: "fc_get ?F (fork_choice r) (block_hash ?K b) = Some (fork_node_of ?K b)" if b: "b \<in> set bl" for b
  proof -
    have get: "fc_get ?F (fork_choice n) (block_hash ?K b) = Some (fork_node_of ?K b)" using known b by blast
    then obtain bs where bs: "branch ?F (fork_choice n) (block_hash ?K b) bs" using fork_tree_known [OF fl I(1)] by blast
    then have "last bs = b" using branch_last get by fastforce
    then have "fc_get ?F (fork_choice r) (block_hash ?K b) \<noteq> None"
      using index_loop_all [OF fl laws(3) I(1) index_chain_built [OF fc] bl(2) part _ _ root bs] known closed b by simp
    then show ?thesis using part get by (auto simp: part_of_def)
  qed
  have "chain_inv E (r\<lparr>node_mempool := m\<rparr>)" by (rule consistent_start_inv [OF laws(1) r(4)])
  moreover have "store_inv E V r"
    using store indexed loaded unfolding store_inv_def st r(2) by blast
  ultimately show ?thesis using ne by (simp add: lasting_def store_inv_def r(2))
qed

section \<open>A node whose writes have all succeeded\<close>

text \<open>Its store has every block of its index, so that a start can follow at any time, and knows the same blocks.\<close>

definition written :: "('e, 't, 'f) node_env \<Rightarrow> ('e \<Rightarrow> dbs) \<Rightarrow> ('e, 'f) node \<Rightarrow> bool" where
  "written E V n \<longleftrightarrow> holds_ledger (env_core E) (env_codecs E) (V (node_storage n)) (node_ledger n) \<and>
     (\<forall>h nd. fc_get (env_fork E) (fork_choice n) h = Some nd \<longrightarrow>
        block_stored (env_core E) (env_codecs E) (V (node_storage n)) (fn_block nd))"

lemma written_restartable:
  assumes laws: "crate_laws E" "codecs_ok (env_codecs E)" and n: "lasting E V n" "written E V n"
  shows "restartable E V n"
proof -
  let ?K = "env_core E" and ?F = "env_fork E" and ?C = "env_codecs E" and ?v = "V (node_storage n)"
  have fl: "fork_tree_laws ?K ?F" using laws(1) by (simp add: crate_laws_def)
  have built: "fork_built ?F (fork_choice n)" and store: "store_inv E V n" using n(1) chain_invD(1) by (auto simp: lasting_def)
  have "\<exists>p. block_stored ?K ?C ?v p \<and> block_hash ?K p = previous_hash b"
    if b: "?v BLOCKS_BY_HASH k = Some bs" "encode (block_codec ?C) b = Ok bs" "block_height b \<noteq> 0" for k bs b
  proof -
    have get: "fc_get ?F (fork_choice n) (block_hash ?K b) = Some (fork_node_of ?K b)"
      using store b(1) encode_block_inj [OF laws(2) b(2)] unfolding store_inv_def by fastforce
    then obtain bs where "branch ?F (fork_choice n) (block_hash ?K b) bs" using fork_tree_known [OF fl built] by blast
    then obtain p where "fc_get ?F (fork_choice n) (previous_hash b) = Some p"
      by cases (use get b(3) branch_last in fastforce)+
    then show ?thesis using n(2) fork_tree_known [OF fl built] unfolding written_def by blast
  qed
  then show ?thesis using n(2) unfolding restartable_def written_def by blast
qed

lemma written_save:
  assumes laws: "crate_laws E" "lmdb_laws (env_lmdb E) V W" and inv: "lasting E V n'"
    and saved: "save_ledger (env_core E) (env_lmdb E) (env_codecs E) st (node_ledger n') = (node_storage n', Ok ())"
    and old: "\<And>h nd. fc_get (env_fork E) (fork_choice n') h = Some nd \<Longrightarrow>
      h \<noteq> block_hash (env_core E) (last (ledger_blocks (node_ledger n'))) \<Longrightarrow> block_stored (env_core E) (env_codecs E) (V st) (fn_block nd)"
  shows "written E V n'"
proof -
  let ?K = "env_core E" and ?F = "env_fork E" and ?C = "env_codecs E" and ?bs = "ledger_blocks (node_ledger n')"
  have fl: "fork_tree_laws ?K ?F" and ll: "ledger_laws ?K" using laws(1) by (simp_all add: crate_laws_def)
  have chain: "chain_inv E n'" using inv by (simp add: lasting_def)
  obtain h bh where tip: "ledger_tip_height ?K (node_ledger n') = Some h" "ledger_tip_hash ?K (node_ledger n') = Some bh"
    by (rule tip_of_nonempty [OF ll chain_invD(3) [OF chain]])
  have "block_stored ?K ?C (V (node_storage n')) (fn_block nd)" if get: "fc_get ?F (fork_choice n') k = Some nd" for k nd
  proof -
    note nd = fork_tree_known [OF fl chain_invD(1) [OF chain] get]
    note hashes = save_ledger_hashes [OF laws(2) saved tip, of k]
    show ?thesis
    proof (cases "k \<in> block_hash ?K ` set ?bs")
      case True
      then obtain d bs where "d \<in> set ?bs" "block_hash ?K d = k" "encode (block_codec ?C) d = Ok bs"
        "V (node_storage n') BLOCKS_BY_HASH k = Some bs" using hashes by auto
      moreover from this have "fn_block nd = d" using ledger_block_known [OF laws(1) chain, of d] get by simp
      ultimately show ?thesis by (simp add: block_stored_def)
    next
      case False
      then have "k \<noteq> block_hash ?K (last ?bs)" using last_in_set [OF chain_invD(3) [OF chain]] by blast
      with old [OF get] False hashes nd show ?thesis by (auto simp: block_stored_def)
    qed
  qed
  then show ?thesis
    using saved_ledger_holds(1) [OF laws(2) ll kept_ledger_wf [OF laws(1) own_ledger_kept [OF inv]] saved] by (simp add: written_def)
qed

lemma written_apply:
  assumes laws: "crate_laws E" "lmdb_laws (env_lmdb E) V W" and n: "lasting E V n" "written E V n"
    and app: "apply_known_parent_block E n b now = (n', Ok ())"
  shows "written E V n'"
proof -
  let ?K = "env_core E" and ?F = "env_fork E" and ?C = "env_codecs E"
  have chain: "chain_inv E n" using n(1) by (simp add: lasting_def)
  have fl: "fork_tree_laws ?K ?F" using laws(1) by (simp add: crate_laws_def)
  have new: "lasting E V n'" using lasting_apply [OF laws n(1), of b now] by (simp add: app)
  then have tip: "map_option fn_hash (fc_best_tip ?F (fork_choice n')) = Some (block_hash ?K (last (ledger_blocks (node_ledger n'))))"
    using chain_invD(6) unfolding lasting_def by blast
  note inserted = fork_tree_insert [OF fl chain_invD(1) [OF chain]]
  have old: "block_stored ?K ?C (V (node_storage n)) (fn_block nd)"
    if "fc_insert ?F (fork_choice n) b = (fc, Ok h)" "fc_get ?F fc k = Some nd" "k \<noteq> h" for fc h k nd
    using n(2) inserted(3) [OF that(1)] that(2,3) by (auto simp: written_def)
  from laws(1) chain app show ?thesis
  proof (cases rule: apply_known_parent_cases)
    case (side fc h st x)
    then have Ok: "x = Ok ()" by (simp add: eq_commute [of "Ok ()"] map_err_Ok_iff)
    then obtain bs where bs: "encode (block_codec ?C) b = Ok bs"
      "V st = (V (node_storage n))(BLOCKS_BY_HASH := (V (node_storage n) BLOCKS_BY_HASH)(block_hash ?K b \<mapsto> bs))"
      using save_side_block_view [OF laws(2) side(4)] by blast
    have "block_stored ?K ?C (V st) (fn_block nd)" if "fc_get ?F fc k = Some nd" for k nd
      using old [OF side(1) that] inserted(1,3) [OF side(1)] fork_tree_known [OF fl inserted(5) [OF side(1)] that] that bs
      by (cases "k = h") (auto simp: block_stored_def)
    moreover have "holds_ledger ?K ?C (V st) (node_ledger n)"
      by (rule holds_ledger_cong [where v = "V (node_storage n)"]) (use n(2) in \<open>simp_all add: bs(2) written_def\<close>)
    ultimately show ?thesis by (simp add: written_def side(5))
  next
    case (extended fc h L st x)
    then have "x = Ok ()" by (simp add: eq_commute [of "Ok ()"] map_err_Ok_iff)
    then show ?thesis
      using extended(3,6) tip old [OF extended(1)] by (intro written_save [OF laws new, where st = "node_storage n"]) (auto simp: extended(7))
  next
    case (reorganised fc h bs L st x)
    then have "x = Ok ()" by (simp add: eq_commute [of "Ok ()"] map_err_Ok_iff)
    then show ?thesis
      using reorganised(3,7) tip old [OF reorganised(1)]
      by (intro written_save [OF laws new, where st = "node_storage n"]) (auto simp: reorganised(8))
  qed simp
qed

lemma written_flush:
  assumes laws: "crate_laws E" "lmdb_laws (env_lmdb E) V W" and n: "lasting E V n" "written E V n"
    and flush: "flush_to_storage E n = (n', Ok ())"
  shows "written E V n'"
proof -
  have n': "lasting E V n'" using lasting_flush [OF laws n(1)] by (simp add: flush)
  have "save_ledger (env_core E) (env_lmdb E) (env_codecs E) (node_storage n) (node_ledger n') = (node_storage n', Ok ())"
    "fork_choice n' = fork_choice n"
    using flush by (auto simp: flush_to_storage_def map_err_Ok_iff split: prod.splits)
  then show ?thesis using n(2) by (intro written_save [OF laws n']) (auto simp: written_def)
qed

section \<open>Calls and restarts\<close>

inductive life_step :: "('e, 't, 'f) node_env \<Rightarrow> ('e \<Rightarrow> dbs) \<Rightarrow> ('e, 'f) node \<Rightarrow> ('e, 'f) node \<Rightarrow> bool" for E V where
  handle: "node_step E n n' \<Longrightarrow> life_step E V n n'"
| restart: "restartable E V n \<Longrightarrow> init_or_load E (node_storage n) = (st, Some (Ok r)) \<Longrightarrow> pool_init m \<Longrightarrow>
    life_step E V n (r\<lparr>node_mempool := m\<rparr>)"

lemma lasting_life_step:
  assumes "crate_laws E" "fork_weighs (env_fork E) w" "fork_accepts (env_core E) (env_fork E)"
    and "lmdb_laws (env_lmdb E) V W" "codecs_ok (env_codecs E)" "\<forall>e. readable (env_lmdb E) e"
    and "lasting E V n" "life_step E V n n'"
  shows "lasting E V n'"
  using assms(8)
proof cases
  case handle
  then show ?thesis using lasting_node.P_step [where V = V and W = W] assms(1,4,7) by blast
next
  case (restart st r m)
  then show ?thesis using restart_lasting [OF assms(1-7)] by blast
qed

text \<open>The life of a node that was first started on an empty store.\<close>

definition first_started :: "('e, 't, 'f) node_env \<Rightarrow> ('e \<Rightarrow> dbs) \<Rightarrow> ('e, 'f) node \<Rightarrow> bool" where
  "first_started E V n \<longleftrightarrow> (\<exists>st st' n0 m. empty_store E V st \<and> init_or_load E st = (st', Some (Ok n0)) \<and> pool_init m \<and>
     genesis_accounts n0 \<noteq> [] \<and> n = n0\<lparr>node_mempool := m\<rparr>)"

definition life_ok :: "('e, 't, 'f) node_env \<Rightarrow> ('e \<Rightarrow> dbs) \<Rightarrow> ('t \<Rightarrow> dbs) \<Rightarrow> (block list \<Rightarrow> nat) \<Rightarrow> bool" where
  "life_ok E V W w \<longleftrightarrow> crate_laws E \<and> fork_weighs (env_fork E) w \<and> fork_accepts (env_core E) (env_fork E) \<and>
     lmdb_laws (env_lmdb E) V W \<and> codecs_ok (env_codecs E) \<and> (\<forall>e. readable (env_lmdb E) e)"

interpretation node_life: invariant_system "first_started E V" "life_step E V"
    "\<lambda>n. life_ok E V W w \<longrightarrow> lasting E V n" for E V W w
proof
  show "first_started E V n \<Longrightarrow> life_ok E V W w \<longrightarrow> lasting E V n" for n
    using first_start_lasting by (fastforce simp: first_started_def life_ok_def)
  show "life_ok E V W w \<longrightarrow> lasting E V n \<Longrightarrow> life_step E V n n' \<Longrightarrow> life_ok E V W w \<longrightarrow> lasting E V n'" for n n'
    using lasting_life_step unfolding life_ok_def by blast
qed

lemma life_lasting: "life_ok E V W w \<Longrightarrow> reach (first_started E V) (life_step E V) n \<Longrightarrow> lasting E V n"
  using node_life.reach_inv by blast

lemma life_okD:
  assumes "life_ok E V W w"
  shows "crate_laws E" "fork_weighs (env_fork E) w" "fork_accepts (env_core E) (env_fork E)"
    "lmdb_laws (env_lmdb E) V W" "codecs_ok (env_codecs E)" "\<forall>e. readable (env_lmdb E) e"
  using assms by (simp_all add: life_ok_def)

text \<open>A first start is written, and a start on the store that it leaves gives the same node.\<close>

lemma first_start_written:
  assumes "life_ok E V W w" "empty_store E V st" "init_or_load E st = (st', Some (Ok n))" "pool_init m"
  shows "written E V (n\<lparr>node_mempool := m\<rparr>)"
  using first_start(3,4) [OF life_okD(1,4-6) [OF assms(1)] assms(2-4)] by (simp add: written_def)

lemma first_start_again:
  assumes "life_ok E V W w" "empty_store E V st" "init_or_load E st = (st', Some (Ok n))" "genesis_accounts n \<noteq> []"
  shows "init_or_load E (node_storage n) = (node_storage n, Some (Ok n))"
proof -
  note laws = life_okD [OF assms(1)]
  let ?n = "n\<lparr>node_mempool := mempool_new\<rparr>"
  have n: "lasting E V ?n" by (rule first_start_lasting [OF laws(1,4-6) assms(2,3) mempool_new_init assms(4)])
  obtain L accs n0 where start: "load_or_create_ledger E st = (st', Some (Ok L))" "index_stored_blocks E n0 = (n, Ok ())"
    "with_genesis_accounts E L st' (case accs of Some a \<Rightarrow> a
       | None \<Rightarrow> if ledger_tip_height (env_core E) L = Some 0 then ledger_accounts L else []) = Some n0"
    by (rule init_or_loadE [OF assms(3)])
  obtain bl where "n = n0\<lparr>fork_choice := fork_choice n\<rparr>" by (rule index_storedE [OF start(2)])
  then have "node_storage n = node_storage n0" "node_ledger n = node_ledger n0" by (metis node.select_convs node.simps node.surjective)+
  then have st: "node_storage n = st'" "node_ledger n = L" using with_genesis_accountsD [OF start(3)] by simp_all
  have "load_or_create_ledger E st' = (st', Some (Ok L))"
    using held_reload [OF laws(1,4-6) _ own_ledger_kept [OF n]] n first_start(3) [OF laws(1,4-6) assms(2,3) mempool_new_init]
    by (simp add: lasting_def st)
  then have "init_or_load E st' = init_or_load E st" using start(1) by (simp add: init_or_load_def)
  then show ?thesis using assms(3) by (simp add: st)
qed

lemma first_start_lives:
  assumes "life_ok E V W w" "empty_store E V st" "init_or_load E st = (st', Some (Ok n))" "pool_init m" "genesis_accounts n \<noteq> []"
  shows "reach (first_started E V) (life_step E V) (n\<lparr>node_mempool := m\<rparr>)"
proof -
  note laws = life_okD [OF assms(1)]
  have "first_started E V (n\<lparr>node_mempool := m\<rparr>)" using assms(2-5) by (auto simp: first_started_def)
  then have start: "reach (first_started E V) (life_step E V) (n\<lparr>node_mempool := m\<rparr>)" by (rule reach.start)
  have "restartable E V (n\<lparr>node_mempool := m\<rparr>)"
    by (rule written_restartable [OF laws(1,5) first_start_lasting [OF laws(1,4-6) assms(2-5)] first_start_written [OF assms(1-4)]])
  then have "life_step E V (n\<lparr>node_mempool := m\<rparr>) (n\<lparr>node_mempool := m\<rparr>)"
    by (rule life_step.restart) (use first_start_again [OF assms(1-3,5)] assms(4) in simp_all)
  with start show ?thesis by (rule reach.step)
qed

text \<open>A restart of a node whose writes have all succeeded loses nothing: it knows the blocks that the node knew.\<close>

lemma written_restart:
  assumes "life_ok E V W w" "lasting E V n" "written E V n" "init_or_load E (node_storage n) = (st, Some (Ok r))"
  shows "fc_get (env_fork E) (fork_choice r) = fc_get (env_fork E) (fork_choice n)"
proof (rule ext)
  fix h
  let ?K = "env_core E" and ?F = "env_fork E" and ?C = "env_codecs E"
  note laws = life_okD [OF assms(1)]
  have fl: "fork_tree_laws ?K ?F" using laws(1) by (simp add: crate_laws_def)
  have holds: "holds_ledger ?K ?C (V (node_storage n)) (node_ledger n)" using assms(3) by (simp add: written_def)
  have sub: "fc_get ?F (fork_choice n) h = Some nd" if "fc_get ?F (fork_choice r) h = Some nd" for nd
    using restarted(3) [OF laws(1,4-6,2) assms(2) holds assms(4) mempool_new_init] that by (simp add: sub_index_def)
  have r: "lasting E V (r\<lparr>node_mempool := mempool_new\<rparr>)" "node_storage r = node_storage n"
    using restart_lasting [OF laws assms(2) written_restartable [OF laws(1,5) assms(2,3)] assms(4) mempool_new_init]
      restartedE [OF laws(1,4-6) assms(2) holds assms(4)] by blast+
  have "fc_get ?F (fork_choice r) h = Some nd" if get: "fc_get ?F (fork_choice n) h = Some nd" for nd
  proof -
    note nd = fork_tree_known [OF fl chain_invD(1) get]
    obtain bs where bs: "encode (block_codec ?C) (fn_block nd) = Ok bs"
      "V (node_storage r) BLOCKS_BY_HASH (block_hash ?K (fn_block nd)) = Some bs"
      using assms(3) get r(2) by (auto simp: written_def block_stored_def)
    then obtain b where "encode (block_codec ?C) b = Ok bs" "fc_get ?F (fork_choice r) (block_hash ?K b) = Some (fork_node_of ?K b)"
      using r(1) by (auto simp: lasting_def store_inv_def)
    moreover from this have "b = fn_block nd" using encode_block_inj [OF laws(5)] bs(1) by blast
    ultimately show ?thesis using nd assms(2) by (simp add: lasting_def)
  qed
  then show "fc_get ?F (fork_choice r) h = fc_get ?F (fork_choice n) h"
    using sub by (cases "fc_get ?F (fork_choice r) h"; cases "fc_get ?F (fork_choice n) h") auto
qed

text \<open>The concrete node meets the hypotheses.\<close>

lemma life_env_ok: "life_ok life_env mem_view mem_view (\<lambda>bs. unat (block_height (last bs)))"
  using life_laws life_codecs_ok by (simp add: life_ok_def tree_fork_weighs tree_fork_accepts mem_lmdb_laws)

end
