(* ===== verification/Node_Crash.thy ===== *)
theory Node_Crash
  imports Node_Life
begin

text \<open>
  Crashes. Every write of a ledger is one transaction, so a store always holds some ledger that the node had: the
  one it has now, or, when writes have failed since, an earlier one. The node may be killed at any time: a start on the
  store it leaves succeeds with that ledger.
\<close>

section \<open>What the store holds\<close>

definition durable :: "('e, 't, 'f) node_env \<Rightarrow> ('e \<Rightarrow> dbs) \<Rightarrow> ('e, 'f) node \<Rightarrow> bool" where
  "durable E V n \<longleftrightarrow> lasting E V n \<and>
     (\<exists>L. kept_ledger E n L \<and> holds_ledger (env_core E) (env_codecs E) (V (node_storage n)) L)"

lemma durable_lasting: "durable E V n \<Longrightarrow> lasting E V n"
  by (simp add: durable_def)

lemma kept_ledger_mono:
  "kept_ledger E n L \<Longrightarrow> genesis_accounts n' = genesis_accounts n \<Longrightarrow>
   (\<And>h bs. branch (env_fork E) (fork_choice n) h bs \<Longrightarrow> branch (env_fork E) (fork_choice n') h bs) \<Longrightarrow> kept_ledger E n' L"
  by (simp add: kept_ledger_def)

lemma durable_cong:
  "durable E V n \<Longrightarrow> node_ledger n' = node_ledger n \<Longrightarrow> fork_choice n' = fork_choice n \<Longrightarrow>
   genesis_accounts n' = genesis_accounts n \<Longrightarrow> node_storage n' = node_storage n \<Longrightarrow> durable E V n'"
  using lasting_cong [of E V n n'] by (auto simp: durable_def kept_ledger_def)

text \<open>A write that commits leaves the node's ledger in the store; one that does not leaves the store's ledger there.\<close>

lemma durable_save:
  assumes laws: "crate_laws E" "lmdb_laws (env_lmdb E) V W" and old: "durable E V n" and new: "lasting E V n'"
    and "genesis_accounts n' = genesis_accounts n"
      "\<And>h bs. branch (env_fork E) (fork_choice n) h bs \<Longrightarrow> branch (env_fork E) (fork_choice n') h bs"
    and saved: "save_ledger (env_core E) (env_lmdb E) (env_codecs E) (node_storage n) (node_ledger n') = (node_storage n', r)"
  shows "durable E V n'"
proof -
  obtain L where L: "kept_ledger E n L" "holds_ledger (env_core E) (env_codecs E) (V (node_storage n)) L"
    using old by (auto simp: durable_def)
  have ll: "ledger_laws (env_core E)" using laws(1) by (simp add: crate_laws_def)
  note own = own_ledger_kept [OF new]
  from save_ledger_commits [OF laws(2) saved] show ?thesis
  proof
    assume "V (node_storage n') = V (node_storage n)"
    then show ?thesis using kept_ledger_mono [OF L(1) assms(5,6)] L(2) new by (auto simp: durable_def)
  next
    assume "\<exists>t t'. W t = V (node_storage n) \<and> put_ledger (env_core E) (env_lmdb E) (env_codecs E) (node_ledger n') t = Ok t' \<and>
      V (node_storage n') = W t'"
    with put_ledger_holds(1) [OF laws(2) ll kept_ledger_wf [OF laws(1) own]] own new show ?thesis
      by (auto simp: durable_def)
  qed
qed

lemma durable_apply:
  assumes laws: "crate_laws E" "lmdb_laws (env_lmdb E) V W" and inv: "durable E V n"
  shows "durable E V (fst (apply_known_parent_block E n b now))"
proof -
  have chain: "chain_inv E n" using durable_lasting [OF inv] by (simp add: lasting_def)
  obtain n' r where app: "apply_known_parent_block E n b now = (n', r)" by fastforce
  have new: "lasting E V n'" using lasting_apply [OF laws durable_lasting [OF inv], of b now] by (simp add: app)
  have accs: "genesis_accounts n' = genesis_accounts n" using genesis_accounts_apply [of E n b now] by (simp add: app)
  have fl: "fork_tree_laws (env_core E) (env_fork E)" using laws(1) by (simp add: crate_laws_def)
  note grown = branch_after_insert(1) [OF fl chain_invD(1) [OF chain]]
  from laws(1) chain app have "durable E V n'"
  proof (cases rule: apply_known_parent_cases)
    case refused
    then show ?thesis using inv by simp
  next
    case (side fc h st x)
    obtain L where L: "kept_ledger E n L" "holds_ledger (env_core E) (env_codecs E) (V (node_storage n)) L"
      using inv by (auto simp: durable_def)
    have "kept_ledger E n' L" by (rule kept_ledger_mono [OF L(1) accs]) (use grown [OF side(1)] side(5) in simp)
    moreover have "holds_ledger (env_core E) (env_codecs E) (V (node_storage n')) L"
      by (rule holds_ledger_cong [OF L(2)]) (simp_all add: side(5) save_side_block_kept(2) [OF laws(2) side(4)])
    ultimately show ?thesis using new by (auto simp: durable_def)
  next
    case (extended fc h L st x)
    show ?thesis by (rule durable_save [OF laws inv new accs]) (use grown [OF extended(1)] extended(6,7) in simp_all)
  next
    case (reorganised fc h bs L st x)
    show ?thesis by (rule durable_save [OF laws inv new accs]) (use grown [OF reorganised(1)] reorganised(7,8) in simp_all)
  qed
  then show ?thesis by (simp add: app)
qed

lemma durable_flush:
  assumes "crate_laws E" "lmdb_laws (env_lmdb E) V W" "durable E V n"
  shows "durable E V (fst (flush_to_storage E n))"
  by (rule durable_save [OF assms lasting_flush [OF assms(1,2) durable_lasting [OF assms(3)]],
        where r = "snd (save_ledger (env_core E) (env_lmdb E) (env_codecs E) (node_storage n) (node_ledger n))"])
    (simp_all add: flush_to_storage_def case_prod_beta)

interpretation durable_node: chain_predicate E "\<lambda>n. crate_laws E \<longrightarrow> lmdb_laws (env_lmdb E) V W \<longrightarrow> durable E V n" for E V W
  by unfold_locales (blast intro: durable_cong durable_apply durable_flush)+

lemma first_start_durable:
  assumes "crate_laws E" "lmdb_laws (env_lmdb E) V W" "codecs_ok (env_codecs E)" "\<forall>e. readable (env_lmdb E) e"
    and "empty_store E V st" "init_or_load E st = (st', Some (Ok n))" "pool_init m" "genesis_accounts n \<noteq> []"
  shows "durable E V (n\<lparr>node_mempool := m\<rparr>)"
  using first_start_lasting [OF assms] own_ledger_kept [OF first_start_lasting [OF assms]] first_start(3) [OF assms(1-7)]
  by (auto simp: durable_def)

section \<open>Killed at any time\<close>

lemma crashed_start:
  assumes "crate_laws E" "fork_accepts (env_core E) (env_fork E)" "lmdb_laws (env_lmdb E) V W" "codecs_ok (env_codecs E)"
    and "\<forall>e. readable (env_lmdb E) e" "durable E V n"
  shows "\<exists>r. init_or_load E (node_storage n) = (node_storage n, Some (Ok r)) \<and> node_storage r = node_storage n \<and>
    genesis_accounts r = genesis_accounts n \<and> kept_ledger E n (node_ledger r) \<and> part_of (env_fork E) (fork_choice r) (fork_choice n)"
proof -
  obtain L where L: "kept_ledger E n L" "holds_ledger (env_core E) (env_codecs E) (V (node_storage n)) L"
    using assms(6) by (auto simp: durable_def)
  from start_succeeds [OF assms(1-5) durable_lasting [OF assms(6)] L] L(1) show ?thesis by blast
qed

lemma durable_restart:
  assumes "life_ok E V W w" "lasting E V n" "restartable E V n" "init_or_load E (node_storage n) = (st, Some (Ok r))" "pool_init m"
  shows "durable E V (r\<lparr>node_mempool := m\<rparr>)"
proof -
  note laws = life_okD [OF assms(1)]
  have r: "lasting E V (r\<lparr>node_mempool := m\<rparr>)" by (rule restart_lasting [OF laws assms(2-5)])
  have holds: "holds_ledger (env_core E) (env_codecs E) (V (node_storage n)) (node_ledger n)"
    using assms(3) by (simp add: restartable_def)
  have "node_storage r = node_storage n" "node_ledger r = node_ledger n"
    using restartedE [OF laws(1,4-6) assms(2) holds assms(4)] by blast+
  then show ?thesis using r own_ledger_kept [OF r] holds by (auto simp: durable_def)
qed

interpretation durable_life: invariant_system "first_started E V" "life_step E V"
    "\<lambda>n. life_ok E V W w \<longrightarrow> durable E V n" for E V W w
proof
  show "first_started E V n \<Longrightarrow> life_ok E V W w \<longrightarrow> durable E V n" for n
    using first_start_durable by (fastforce simp: first_started_def life_ok_def)
  show "life_ok E V W w \<longrightarrow> durable E V n'" if "life_ok E V W w \<longrightarrow> durable E V n" "life_step E V n n'" for n n'
    using that(2)
  proof cases
    case handle
    then show ?thesis using durable_node.P_step [where V = V and W = W] life_okD [of E V W w] that(1) by blast
  next
    case (restart st r m)
    show ?thesis
    proof
      assume ok: "life_ok E V W w"
      then have "lasting E V n" using that(1) durable_lasting by blast
      from durable_restart [OF ok this restart(2-4)] show "durable E V n'" by (simp add: restart(1))
    qed
  qed
qed

text \<open>
  C5. A crash never leaves a store that cannot be started on. A node is first started on an empty store, with a genesis block that
  creates an account; it handles any blocks and transactions, with reorganisations and with writes that fail; it may have been restarted any
  number of times, when its store had its ledger and the parent of every stored block (\<open>restartable\<close>). It may be killed at any moment,
  also when writes have failed since. A start on the store it leaves succeeds and writes nothing, so that it can be repeated;
  it finds the same genesis accounts, and its ledger is one the node could have: the replay, from the genesis accounts, of a branch of
  blocks that the node had accepted. The started node knows no block that the node did not know.
\<close>

theorem crash_restarts:
  assumes "life_ok E V W w" "reach (first_started E V) (life_step E V) n"
  shows "\<exists>r h. init_or_load E (node_storage n) = (node_storage n, Some (Ok r)) \<and> node_storage r = node_storage n \<and>
    genesis_accounts r = genesis_accounts n \<and> branch (env_fork E) (fork_choice n) h (ledger_blocks (node_ledger r)) \<and>
    replay_branch (env_core E) (genesis_accounts n) (ledger_blocks (node_ledger r)) = Ok (node_ledger r) \<and>
    (\<forall>x nd. fc_get (env_fork E) (fork_choice r) x = Some nd \<longrightarrow> fc_get (env_fork E) (fork_choice n) x = Some nd)"
proof -
  have "durable E V n" using durable_life.reach_inv [OF assms(2)] assms(1) by blast
  from crashed_start [OF life_okD(1,3-6) [OF assms(1)] this] show ?thesis unfolding kept_ledger_def part_of_def by blast
qed

text \<open>
  A node at its genesis block, started twice, receives a block that the codec cannot encode: the block is adopted, its write
  fails, and the store still starts.
\<close>

definition lost_ledger :: ledger where
  "lost_ledger = \<lparr>ledger_accounts = [([1], stored_account)], ledger_chain = \<lparr>chain_blocks = [(0, genesis), (1, side1)]\<rparr>\<rparr>"

lemma lost_save: "\<exists>x. save_ledger linked_core mem_lmdb life_codecs e lost_ledger = (e, Err x)"
proof -
  have "encode (block_codec life_codecs) side1 \<noteq> Ok bs" for bs
    by (simp add: life_codecs_def sample_codecs_def encode_def table_codec_def map_err_def two_branches sample_block_def)
  moreover have "ledger_blocks lost_ledger = [genesis, side1]" by (simp add: lost_ledger_def)
  ultimately have "put_ledger linked_core mem_lmdb life_codecs lost_ledger e \<noteq> Ok t" for t
    by (auto simp: put_ledger_def res_bind_Ok_iff simp del: fun_upd_apply)
  then obtain x where "put_ledger linked_core mem_lmdb life_codecs lost_ledger e = Err x"
    by (cases "put_ledger linked_core mem_lmdb life_codecs lost_ledger e") auto
  then show ?thesis by (simp add: save_ledger_def then_env_def with_rw_def) (simp add: mem_lmdb_def)
qed

lemma life_lost:
  obtains st n0 n where "init_or_load life_env env0 = (st, Some (Ok n0))" "genesis_accounts n0 \<noteq> []" "node_ledger n = lost_ledger"
    "fst (apply_block life_env (n0\<lparr>node_mempool := mempool_new\<rparr>) side1 100) = n" "node_ledger n0 = genesis_ledger"
    "fork_choice n0 = [genesis]" "fork_choice n = [side1, genesis]" "node_storage n = node_storage n0" "genesis_accounts n = [([1], stored_account)]"
    "genesis_accounts n0 = [([1], stored_account)]" "orphan_blocks n = []" "orphan_children_by_parent n = []"
proof (rule life_start)
  fix st n0
  assume start: "init_or_load life_env env0 = (st, Some (Ok n0))" "node_ledger n0 = genesis_ledger"
    "genesis_accounts n0 = [([1], stored_account)]" "fork_choice n0 = [genesis]" "orphan_blocks n0 = []" "orphan_children_by_parent n0 = []"
  let ?n0 = "n0\<lparr>node_mempool := mempool_new\<rparr>"
  obtain x where x: "save_ledger linked_core mem_lmdb life_codecs (node_storage n0) lost_ledger = (node_storage n0, Err x)"
    using lost_save by blast
  define n where "n = ?n0\<lparr>fork_choice := [side1, genesis], node_ledger := lost_ledger, node_storage := node_storage n0,
     node_mempool := remove_confirmed linked_core mempool_new side1, node_cache := refresh_cache life_env lost_ledger side1 (node_cache n0)\<rparr>"
  have L: "ledger_apply_block linked_core genesis_ledger (sample_block 1 [3] [5] []) = Ok lost_ledger"
    by (simp add: linked_core_def linked_insert_def genesis_ledger_def lost_ledger_def two_branches sample_block_def linked_hash_def)
  have "apply_known_parent_block life_env ?n0 side1 100 = (n, Err (StorageError x))"
    unfolding n_def
    by (rule trans [OF extend_like [where e = "node_storage n0" and r = "Err x", OF life_env_simps(7) side1_def]])
      (use x L in \<open>simp_all add: map_err_def start tree_ledgers known_def tree_insert_def two_branches\<close>)
  moreover have "prune_expired_orphans life_env ?n0 100 = ?n0" using start(5) by (simp add: prune_expired_orphans_def)
  ultimately have "fst (apply_block life_env ?n0 side1 100) = n" by (simp add: apply_block_def)
  then show ?thesis by (intro that [OF start(1), of n]) (simp_all add: n_def start(2-6))
qed

theorem crash_restarts_witness:
  "\<exists>st n0 n st' r h. init_or_load life_env env0 = (st, Some (Ok n0)) \<and> node_ledger n = lost_ledger \<and>
     fst (apply_block life_env (n0\<lparr>node_mempool := mempool_new\<rparr>) side1 100) = n \<and>
     init_or_load life_env (node_storage n) = (st', Some (Ok r)) \<and>
     branch (tree_fork linked_core) (fork_choice n) h (ledger_blocks (node_ledger r))"
proof (rule life_lost)
  fix st and n0 n :: "(mem_env, block list) node"
  let ?n0 = "n0\<lparr>node_mempool := mempool_new\<rparr>"
  assume start: "init_or_load life_env env0 = (st, Some (Ok n0))" "genesis_accounts n0 \<noteq> []" "node_ledger n = lost_ledger"
    "fst (apply_block life_env ?n0 side1 100) = n"
  note live = first_start_lives [OF life_env_ok life_empty start(1) mempool_new_init start(2)]
  have "life_step life_env mem_view ?n0 n" unfolding start(4) [symmetric] by (rule life_step.handle) (rule node_step.block)
  from crash_restarts [OF life_env_ok reach.step [OF live this]] show ?thesis using start by auto
qed

section \<open>A start that is behind its index\<close>

text \<open>
  After a crash the ledger may be older than the stored side blocks. The node of the last example, whose first block was
  not written, receives another block on the genesis block, which is written as a side block. A start then finds the genesis
  ledger, indexes the side block, and does not move the ledger to the best tip.
\<close>

lemma stale_side_block:
  fixes n :: "(mem_env, block list) node"
  assumes n: "node_ledger n = lost_ledger" "fork_choice n = [side1, genesis]" "genesis_accounts n = [([1], stored_account)]"
  shows "\<exists>e. save_side_block linked_core mem_lmdb life_codecs (node_storage n) block1 = (e, Ok ()) \<and>
    apply_known_parent_block life_env n block1 100 = (n\<lparr>fork_choice := [block1, side1, genesis], node_storage := e\<rparr>, Ok ())"
proof -
  have "key_ok [4]" by (simp add: key_ok_def)
  then obtain e where e: "save_side_block linked_core mem_lmdb life_codecs (node_storage n) block1 = (e, Ok ())"
    using mem_with_rw [OF mem_put_bytes] by (auto simp: save_side_block_def life_encodes side_hashes)
  have "walk linked_core [side1, genesis] [3] = [genesis]" by (simp add: two_branches)
  then have "ledger_for_branch_tip life_env n [3] = Ok genesis_ledger"
    using side_replays(3) by (simp add: ledger_for_branch_tip_def n tree_fork_def replay_branch_def two_branches) (simp add: res_simps)
  moreover have tip: "ledger_tip_hash linked_core lost_ledger = Some [5]"
    by (simp add: lost_ledger_def linked_core_def sample_core_def linked_hash_def two_branches sample_block_def)
  then have "\<not> extends_active_tip life_env n block1"
    by (simp add: extends_active_tip_def n two_branches)
  moreover have "validate_block_for_known_parent life_env n block1 100 = Ok ()" "validate_canonical_state_root life_env genesis_ledger block1 = Ok ()"
    unfolding block1_def by (rule tree_valid tree_root; simp add: n known_def two_branches)+
  moreover have "tree_insert linked_core [side1, genesis] block1 = ([block1, side1, genesis], Ok [4])"
    by (simp add: tree_insert_def known_def two_branches)
  moreover have "best_block [block1, side1, genesis] = Some side1" "block_hash linked_core side1 = [5]" "previous_hash block1 = [3]"
    by (simp_all add: two_branches)
  ultimately have "apply_known_parent_block life_env n block1 100 = (n\<lparr>fork_choice := [block1, side1, genesis], node_storage := e\<rparr>, Ok ())"
    using e tree_ledgers(1) by (simp add: apply_known_parent_block_def validate_block_state_for_known_parent_def Let_def n)
  with e show ?thesis by blast
qed

lemma life_stale:
  obtains st n0 n n' where "init_or_load life_env env0 = (st, Some (Ok n0))"
    "fst (apply_block life_env (n0\<lparr>node_mempool := mempool_new\<rparr>) side1 100) = n" "apply_block life_env n block1 100 = (n', Ok ())"
    "fork_choice n' = [block1, side1, genesis]" "lasting life_env mem_view n'" "kept_ledger life_env n' genesis_ledger"
    "holds_ledger linked_core life_codecs (mem_view (node_storage n')) genesis_ledger"
    "mem_view (node_storage n') BLOCKS_BY_HASH [4] = Some [1]" "node_ledger n = lost_ledger" "fork_choice n = [side1, genesis]"
    "reach (first_started life_env mem_view) (life_step life_env mem_view) n" "node_ledger n' = lost_ledger"
    "reach (first_started life_env mem_view) (life_step life_env mem_view) n'"
proof (rule life_lost)
  fix st and n0 n :: "(mem_env, block list) node"
  let ?n0 = "n0\<lparr>node_mempool := mempool_new\<rparr>"
  assume start: "init_or_load life_env env0 = (st, Some (Ok n0))" "genesis_accounts n0 \<noteq> []"
    and lost: "node_ledger n = lost_ledger" "fst (apply_block life_env ?n0 side1 100) = n" "fork_choice n = [side1, genesis]"
      "node_storage n = node_storage n0" "genesis_accounts n = [([1], stored_account)]" "orphan_blocks n = []" "orphan_children_by_parent n = []"
    and n0: "node_ledger n0 = genesis_ledger" "fork_choice n0 = [genesis]" "genesis_accounts n0 = [([1], stored_account)]"
  note laws = life_okD [OF life_env_ok, unfolded life_env_simps]
  note live = first_start_lives [OF life_env_ok life_empty start(1) mempool_new_init start(2)]
  obtain e where e: "save_side_block linked_core mem_lmdb life_codecs (node_storage n) block1 = (e, Ok ())"
    "apply_known_parent_block life_env n block1 100 = (n\<lparr>fork_choice := [block1, side1, genesis], node_storage := e\<rparr>, Ok ())"
    using stale_side_block [OF lost(1,3,5)] by blast
  define n' where "n' = n\<lparr>fork_choice := [block1, side1, genesis], node_storage := e\<rparr>"
  have app: "apply_block life_env n block1 100 = (n', Ok ())"
    by (rule apply_block_alone [OF _ _ e(2) [folded n'_def]]) (simp_all add: lost(6,7) n'_def)
  have steps: "life_step life_env mem_view ?n0 n" "life_step life_env mem_view n n'"
    using node_step.block [of life_env ?n0 side1 100] node_step.block [of life_env n block1 100] lost(2) app
    by (auto intro: life_step.handle)
  note reach = reach.step [OF live steps(1)] reach.step [OF reach.step [OF live steps(1)] steps(2)]
  have n': "lasting life_env mem_view n'" by (rule life_lasting [OF life_env_ok reach(2)])
  have view: "mem_view e = (mem_view (node_storage n0))(BLOCKS_BY_HASH := (mem_view (node_storage n0) BLOCKS_BY_HASH)([4] \<mapsto> [1]))"
    using save_side_block_view [OF mem_lmdb_laws e(1)] lost(4) by (simp add: life_encodes side_hashes)
  have "holds_ledger linked_core life_codecs (mem_view (node_storage n0)) genesis_ledger"
    using first_start(3) [OF laws(1) _ _ _ life_empty start(1) mempool_new_init] laws n0(1) by simp
  then have holds: "holds_ledger linked_core life_codecs (mem_view e) genesis_ledger" by (rule holds_ledger_cong) (simp_all add: view)
  have "kept_ledger life_env ?n0 genesis_ledger"
    using own_ledger_kept [OF life_lasting [OF life_env_ok live]] n0(1) by simp
  then have kept: "kept_ledger life_env n' genesis_ledger"
    by (rule kept_ledger_mono) (auto simp: n'_def n0 lost(5) two_branches elim!: branch_mono)
  have "mem_view (node_storage n') BLOCKS_BY_HASH [4] = Some [1]" by (simp add: n'_def view)
  then show ?thesis by (intro that [OF start(1) lost(2) app _ n' kept _ _ lost(1,3) reach(1) _ reach(2)]) (simp_all add: n'_def holds lost(1))
qed

lemma stale_index:
  assumes n': "fork_choice n' = [block1, side1, genesis]" "lasting life_env mem_view n'" "kept_ledger life_env n' genesis_ledger"
      "holds_ledger linked_core life_codecs (mem_view (node_storage n')) genesis_ledger" "mem_view (node_storage n') BLOCKS_BY_HASH [4] = Some [1]"
    and r: "init_or_load life_env (node_storage n') = (st', Some (Ok r))" and part: "part_of (tree_fork linked_core) (fork_choice r) (fork_choice n')"
  shows "fc_get (tree_fork linked_core) (fork_choice r) [3] = Some (fork_node_of linked_core genesis)"
    "fc_get (tree_fork linked_core) (fork_choice r) [4] = Some (fork_node_of linked_core block1)"
proof -
  let ?F = "tree_fork linked_core"
  note laws = life_okD [OF life_env_ok] and fl = tree_fork_laws [of linked_core]
  have built: "fork_built ?F (fork_choice n')" using n'(2) chain_invD(1) by (fastforce simp: lasting_def)
  have known: "fc_get ?F (fork_choice n') [3] = Some (fork_node_of linked_core genesis)" "fc_get ?F (fork_choice n') [4] = Some (fork_node_of linked_core block1)"
    by (simp_all add: n'(1) two_branches)
  obtain L accs n1 where start: "load_or_create_ledger life_env (node_storage n') = (st', Some (Ok L))" "index_stored_blocks life_env n1 = (r, Ok ())"
    "with_genesis_accounts life_env L st' (case accs of Some a \<Rightarrow> a
       | None \<Rightarrow> if ledger_tip_height (env_core life_env) L = Some 0 then ledger_accounts L else []) = Some n1"
    by (rule init_or_loadE [OF r])
  have "(st', L) = (node_storage n', genesis_ledger)"
    using start(1) held_reload [OF laws(1,4-6) _ n'(3)] n'(2,4) by (simp add: lasting_def)
  then have n1: "node_storage n1 = node_storage n'" "index_chain ?F [genesis] (fc_new ?F) = Some (fork_choice n1)"
    using with_genesis_accountsD [OF start(3)] by (simp_all add: tree_ledgers)
  have genesis: "fc_get ?F (fork_choice n1) [3] \<noteq> None" using index_chain_knows [OF fl n1(2), of genesis] by (simp add: side_hashes)
  obtain bl where bl: "load_blocks_by_hash mem_lmdb life_codecs (node_storage n') = Ok bl"
    "\<forall>h. fc_get ?F (fork_choice n1) h \<noteq> None \<longrightarrow> fc_get ?F (fork_choice r) h \<noteq> None"
    "\<forall>b \<in> set bl. fc_get ?F (fork_choice r) (block_hash linked_core b) \<noteq> None \<or> snd (fc_insert ?F (fork_choice r) b) = Err MissingParent"
    using index_stored_blocks_complete [OF _ _ start(2)] fl index_chain_built [OF n1(2)] n1(1) by auto
  have block1: "block1 \<in> set bl"
    by (rule stored_blocks_loaded [OF mem_lmdb_laws mem_readable bl(1)])
      (rule n'(5), use encode_decode [OF _ life_encodes(2)] life_codecs_ok in \<open>simp add: codecs_ok_def\<close>)
  have parent: "fc_get ?F (fork_choice r) (previous_hash block1) \<noteq> None" using bl(2) genesis by (simp add: two_branches)
  then show "fc_get ?F (fork_choice r) [3] = Some (fork_node_of linked_core genesis)"
    using part_of_get [OF part] known(1) by (simp add: block1_def)
  have "fc_get ?F (fork_choice r) [4] \<noteq> None"
  proof
    assume "fc_get ?F (fork_choice r) [4] = None"
    then have new: "fc_get ?F (fork_choice r) (block_hash linked_core block1) = None" by (simp add: side_hashes)
    then have "snd (fc_insert ?F (fork_choice r) block1) = Err MissingParent" using bl(3) block1 by blast
    moreover have "\<exists>fc. fc_insert ?F (fork_choice r) block1 = (fc, Ok (block_hash linked_core block1))"
      by (rule fork_acceptsD(2) [OF tree_fork_accepts built part _ new _ parent]) (simp_all add: n'(1) two_branches)
    ultimately show False by auto
  qed
  then show "fc_get ?F (fork_choice r) [4] = Some (fork_node_of linked_core block1)" using part_of_get [OF part] known(2) by metis
qed

lemma stale_start:
  "\<exists>st n0 n n' st' r. init_or_load life_env env0 = (st, Some (Ok n0)) \<and>
     fst (apply_block life_env (n0\<lparr>node_mempool := mempool_new\<rparr>) side1 100) = n \<and> apply_block life_env n block1 100 = (n', Ok ()) \<and>
     init_or_load life_env (node_storage n') = (st', Some (Ok r)) \<and> node_ledger r = genesis_ledger \<and>
     map_option fn_hash (fc_best_tip (tree_fork linked_core) (fork_choice r)) \<noteq> ledger_tip_hash linked_core (node_ledger r)"
proof (rule life_stale)
  fix st and n0 n n' :: "(mem_env, block list) node"
  let ?F = "tree_fork linked_core"
  assume life: "init_or_load life_env env0 = (st, Some (Ok n0))" "fst (apply_block life_env (n0\<lparr>node_mempool := mempool_new\<rparr>) side1 100) = n"
      "apply_block life_env n block1 100 = (n', Ok ())"
    and n': "fork_choice n' = [block1, side1, genesis]" "lasting life_env mem_view n'" "kept_ledger life_env n' genesis_ledger"
      "holds_ledger linked_core life_codecs (mem_view (node_storage n')) genesis_ledger" "mem_view (node_storage n') BLOCKS_BY_HASH [4] = Some [1]"
  note laws = life_okD [OF life_env_ok] and fl = tree_fork_laws [of linked_core]
  obtain st' r where r: "init_or_load life_env (node_storage n') = (st', Some (Ok r))" "node_ledger r = genesis_ledger"
    and part: "part_of ?F (fork_choice r) (fork_choice n')"
    using start_succeeds [OF laws(1,3-6) n'(2,3)] n'(4) by auto
  note get = stale_index [OF n' r(1) part]
  have built: "fork_built ?F (fork_choice r)" using part by (simp add: part_of_def)
  then obtain ts bs where br: "branch ?F (fork_choice r) [3] ts" "branch ?F (fork_choice r) [4] bs"
    using fork_tree_known [OF fl _ get(1)] fork_tree_known [OF fl _ get(2)] by blast
  have "last ts = genesis" "last bs = block1"
    using branch_last [OF br(1)] branch_last [OF br(2)] get by (metis fork_node_of_simps(3) option.inject)+
  then have "\<not> unat (block_height (last bs)) \<le> unat (block_height (last ts))" by (simp add: two_branches)
  then have "map_option fn_hash (fc_best_tip ?F (fork_choice r)) \<noteq> Some [3]"
    using best_tip_heaviest [OF fl tree_fork_weighs built _ br] by blast
  then show ?thesis using life r tree_ledgers(2) by metis
qed

end
