(* ===== verification/Node_Cache.thy ===== *)
theory Node_Cache
  imports Node_Lifecycle
begin

text \<open>
  What a node is that was started by \<open>init_or_load\<close> on any store: its ledger is a linked chain from genesis, as it
  is loaded or created, and its cache (\<open>runtime/cache.rs\<close> as \<open>node.rs\<close> keeps it) agrees with the ledger, although after
  a block on the tip only the accounts that the block names are refreshed; after a reorganisation everything is rebuilt.
\<close>

text \<open>
  What the refreshment relies on of the crate: after the genesis block, \<open>Ledger::apply_block\<close> changes no
  account but those of the block's senders, receivers and miner, and removes none.
\<close>

definition touches :: "block \<Rightarrow> address set" where
  "touches b = insert (miner_address b) (\<Union>t \<in> set (block_transactions b). {tx_from (payload t), tx_to (payload t)})"

definition touch_laws :: "core \<Rightarrow> bool" where
  "touch_laws K \<longleftrightarrow> (\<forall>L b L' a. ledger_blocks L \<noteq> [] \<longrightarrow> ledger_apply_block K L b = Ok L' \<longrightarrow>
     (a \<notin> touches b \<longrightarrow> account_of K L' a = account_of K L a) \<and> (account_of K L' a = None \<longrightarrow> account_of K L a = None))"

definition blocks_agree :: "core \<Rightarrow> core_cache \<Rightarrow> ledger \<Rightarrow> bool" where
  "blocks_agree K c L \<longleftrightarrow> (\<forall>h. block_by_height c h = ledger_block K L h) \<and>
     (\<forall>x. block_by_hash c x = find (\<lambda>b. block_hash K b = x) (rev (ledger_blocks L))) \<and>
     cache_tip_height c = ledger_tip_height K L \<and> cache_tip_hash c = ledger_tip_hash K L"

definition accounts_agree :: "core \<Rightarrow> core_cache \<Rightarrow> ledger \<Rightarrow> bool" where
  "accounts_agree K c L \<longleftrightarrow> (\<forall>a. cache_account c a = account_of K L a)"

section \<open>Refreshing\<close>

text \<open>As maps: the accounts of the ledger at the named addresses override those of the cache.\<close>

lemma override_twice: "f ++ (g |` A) ++ (g |` B) = f ++ (g |` (A \<union> B))"
  by (auto simp: map_add_def restrict_map_def fun_eq_iff split: option.splits)

lemma refresh_account_simps:
  assumes "\<And>acc. account_of (env_core E) L a = Some acc \<Longrightarrow> acc_address acc = a"
  shows "cache_account (refresh_cached_account E L a c) = cache_account c ++ (account_of (env_core E) L |` {a})"
    "block_by_height (refresh_cached_account E L a c) = block_by_height c"
    "block_by_hash (refresh_cached_account E L a c) = block_by_hash c"
    "cache_tip_height (refresh_cached_account E L a c) = cache_tip_height c"
    "cache_tip_hash (refresh_cached_account E L a c) = cache_tip_hash c"
  using assms
  by (auto simp: refresh_cached_account_def cache_insert_account_def cache_account_def block_by_height_def block_by_hash_def fun_eq_iff
      map_add_def restrict_map_def split: option.split)

lemma refresh_transactions:
  assumes key: "\<And>a acc. account_of (env_core E) L a = Some acc \<Longrightarrow> acc_address acc = a"
  defines "f \<equiv> \<lambda>t c. refresh_cached_account E L (tx_to (payload t)) (refresh_cached_account E L (tx_from (payload t)) c)"
  shows "cache_account (fold f ts c) =
      cache_account c ++ (account_of (env_core E) L |` (\<Union>t \<in> set ts. {tx_from (payload t), tx_to (payload t)})) \<and>
    block_by_height (fold f ts c) = block_by_height c \<and> block_by_hash (fold f ts c) = block_by_hash c \<and>
    cache_tip_height (fold f ts c) = cache_tip_height c \<and> cache_tip_hash (fold f ts c) = cache_tip_hash c"
proof (induction ts arbitrary: c)
  case (Cons t ts)
  have "cache_account (f t c) = cache_account c ++ (account_of (env_core E) L |` {tx_from (payload t), tx_to (payload t)})"
    using override_twice [of "cache_account c" "account_of (env_core E) L" "{tx_from (payload t)}" "{tx_to (payload t)}"]
    by (simp add: f_def refresh_account_simps [OF key] insert_commute)
  moreover have "block_by_height (f t c) = block_by_height c" "block_by_hash (f t c) = block_by_hash c" "cache_tip_height (f t c) = cache_tip_height c"
    "cache_tip_hash (f t c) = cache_tip_hash c" by (simp_all add: f_def refresh_account_simps [OF key])
  ultimately show ?case using Cons.IH [of "f t c"] by (simp add: override_twice)
qed simp

lemma refresh_cache_simps:
  assumes key: "\<And>a acc. account_of (env_core E) L a = Some acc \<Longrightarrow> acc_address acc = a"
  shows "cache_account (refresh_cache E L b c) = cache_account c ++ (account_of (env_core E) L |` touches b)"
    "block_by_height (refresh_cache E L b c) = (block_by_height c)(block_height b \<mapsto> b)"
    "block_by_hash (refresh_cache E L b c) = (block_by_hash c)(block_hash (env_core E) b \<mapsto> b)"
    "cache_tip_height (refresh_cache E L b c) = Some (block_height b)"
    "cache_tip_hash (refresh_cache E L b c) = Some (block_hash (env_core E) b)"
proof -
  let ?c = "cache_insert_block (env_core E) b c"
  have c: "cache_account ?c = cache_account c" "block_by_height ?c = (block_by_height c)(block_height b \<mapsto> b)"
    "block_by_hash ?c = (block_by_hash c)(block_hash (env_core E) b \<mapsto> b)"
    "cache_tip_height ?c = Some (block_height b)" "cache_tip_hash ?c = Some (block_hash (env_core E) b)"
    by (simp_all add: cache_insert_block_def Let_def cache_account_def block_by_height_def block_by_hash_def fun_eq_iff)
  note fold = refresh_transactions [OF key, where ts = "block_transactions b" and c = ?c]
  show "cache_account (refresh_cache E L b c) = cache_account c ++ (account_of (env_core E) L |` touches b)"
    unfolding refresh_cache_def touches_def by (simp add: refresh_account_simps [OF key] fold c override_twice)
  show "block_by_height (refresh_cache E L b c) = (block_by_height c)(block_height b \<mapsto> b)"
    "block_by_hash (refresh_cache E L b c) = (block_by_hash c)(block_hash (env_core E) b \<mapsto> b)"
    "cache_tip_height (refresh_cache E L b c) = Some (block_height b)"
    "cache_tip_hash (refresh_cache E L b c) = Some (block_hash (env_core E) b)"
    unfolding refresh_cache_def by (simp_all add: refresh_account_simps [OF key] fold c)
qed

text \<open>The accounts of a ledger are keyed, and its chain is an ordered map from heights.\<close>

lemma ledger_typed_accounts:
  "ledger_laws K \<Longrightarrow> ledger_typed K L \<Longrightarrow> account_of K L a = Some acc \<Longrightarrow> acc_address acc = a"
  by (auto simp: ledger_laws_def ledger_typed_def accounts_ok_def dest!: map_of_SomeD)

lemma ledger_typed_chain:
  assumes "chain_laws K" "ledger_laws K" "ledger_typed K L"
  shows "bt_wf (chain_blocks (ledger_chain L))" "\<forall>(h, b) \<in> set (chain_blocks (ledger_chain L)). block_height b = h"
proof -
  let ?bs = "ledger_blocks L"
  have "build_chain K ?bs = Ok (ledger_chain L)" using assms(2,3) by (simp add: ledger_typed_def rebuilds_iff)
  note shape = build_chain_shape [OF assms(1,2) this]
  have "(of_nat i :: u64) < of_nat j" if "i < j" "j < length ?bs" for i j
    using that shape by (simp add: word_less_nat_alt unat_of_nat)
  then have "sorted_wrt (<) (map (of_nat :: nat \<Rightarrow> u64) [0..<length ?bs])"
    by (auto simp: sorted_wrt_iff_nth_less)
  moreover have "bt_keys (chain_blocks (ledger_chain L)) = map (of_nat :: nat \<Rightarrow> u64) [0..<length ?bs]"
    using shape by (metis (no_types, lifting) comp_def fst_conv map_eq_conv map_map)
  ultimately show "bt_wf (chain_blocks (ledger_chain L))" by (simp add: bt_wf_def)
  show "\<forall>(h, b) \<in> set (chain_blocks (ledger_chain L)). block_height b = h"
  proof (intro ballI)
    fix e
    assume "e \<in> set (chain_blocks (ledger_chain L))"
    then have "e \<in> set (map (\<lambda>i. (of_nat i, ?bs ! i)) [0..<length ?bs])" using shape by metis
    then show "case e of (h, b) \<Rightarrow> block_height b = h" using shape by auto
  qed
qed

section \<open>Agreement\<close>

lemma agrees_from_ledger:
  assumes "chain_laws K" "ledger_laws K" "ledger_typed K L"
  shows "blocks_agree K (from_ledger K L) L" "accounts_agree K (from_ledger K L) L"
proof -
  have accs: "bt_wf (ledger_accounts L)" "\<forall>(a, acc) \<in> set (ledger_accounts L). acc_address acc = a"
    using assms(3) by (simp_all add: ledger_typed_def accounts_ok_def)
  note agrees = from_ledger_agrees [OF accs ledger_typed_chain [OF assms]]
  have "block_by_hash (from_ledger K L) x = find (\<lambda>b. block_hash K b = x) (rev (ledger_blocks L))" for x
    by (simp add: from_ledger_def Let_def block_by_hash_def fold_insert_account fold_insert_block cache_new_def fold_insert_by_get
        split: option.split)
  then show "blocks_agree K (from_ledger K L) L" "accounts_agree K (from_ledger K L) L"
    using agrees assms(2) by (simp_all add: blocks_agree_def accounts_agree_def ledger_laws_def)
qed

lemma agrees_refresh:
  assumes laws: "chain_laws (env_core E)" "ledger_laws (env_core E)"
    and typed: "ledger_typed (env_core E) L" and app: "ledger_apply_block (env_core E) L b = Ok L'"
  shows "blocks_agree (env_core E) c L \<Longrightarrow> blocks_agree (env_core E) (refresh_cache E L' b c) L'"
    "touch_laws (env_core E) \<Longrightarrow> ledger_blocks L \<noteq> [] \<Longrightarrow> accounts_agree (env_core E) c L \<Longrightarrow>
     accounts_agree (env_core E) (refresh_cache E L' b c) L'"
proof -
  let ?K = "env_core E"
  have typed': "ledger_typed ?K L'" by (rule ledger_typed_apply [OF laws typed app])
  note refresh = refresh_cache_simps [of E L', OF ledger_typed_accounts [OF laws(2) typed']]
  have blocks: "chain_blocks (ledger_chain L') = chain_blocks (ledger_chain L) @ [(block_height b, b)]"
    using chain_insertD(1) [OF laws(1) ledger_applyD(1) [OF laws(1) app]] .
  have "distinct (bt_keys (chain_blocks (ledger_chain L')))"
    using bt_wf_distinct [OF ledger_typed_chain(1) [OF laws(1,2) typed']] .
  then have new: "bt_get (chain_blocks (ledger_chain L)) (block_height b) = None" by (simp add: blocks map_of_eq_None_iff)
  show "blocks_agree ?K (refresh_cache E L' b c) L'" if agrees: "blocks_agree ?K c L"
  proof -
    have "((block_by_height c)(block_height b \<mapsto> b)) h = ledger_block ?K L' h" for h
      using agrees laws(2) new by (auto simp: blocks_agree_def ledger_laws_def blocks map_add_def split: option.split)
    moreover have "ledger_tip_height ?K L' = Some (block_height b)" "ledger_tip_hash ?K L' = Some (block_hash ?K b)"
      using laws(2) by (simp_all add: ledger_laws_def blocks)
    ultimately show ?thesis using agrees by (simp add: blocks_agree_def refresh blocks)
  qed
  show "accounts_agree ?K (refresh_cache E L' b c) L'"
    if touch: "touch_laws ?K" "ledger_blocks L \<noteq> []" and agrees: "accounts_agree ?K c L"
  proof -
    have "(cache_account c ++ (account_of ?K L' |` touches b)) a = account_of ?K L' a" for a
      using touch app agrees
      by (cases "account_of ?K L' a") (auto simp: touch_laws_def accounts_agree_def map_add_def restrict_map_def split: option.splits)
    then show ?thesis by (simp add: accounts_agree_def refresh)
  qed
qed

definition coherent_node :: "('e, 't, 'f) node_env \<Rightarrow> ('e, 'f) node \<Rightarrow> bool" where
  "coherent_node E n \<longleftrightarrow> (chain_laws (env_core E) \<longrightarrow> ledger_laws (env_core E) \<longrightarrow> accounts_ok (genesis_accounts n) \<longrightarrow>
     ledger_blocks (node_ledger n) \<noteq> [] \<and> ledger_typed (env_core E) (node_ledger n) \<and>
     blocks_agree (env_core E) (node_cache n) (node_ledger n) \<and>
     (touch_laws (env_core E) \<longrightarrow> accounts_agree (env_core E) (node_cache n) (node_ledger n)))"

lemma coherent_apply:
  assumes "coherent_node E n"
  shows "coherent_node E (fst (apply_known_parent_block E n b now))"
proof -
  obtain n' r where app: "apply_known_parent_block E n b now = (n', r)" by fastforce
  have accs: "genesis_accounts n' = genesis_accounts n" using genesis_accounts_apply [of E n b now] by (simp add: app)
  have "coherent_node E n'"
    unfolding coherent_node_def accs
  proof (intro impI)
    assume laws: "chain_laws (env_core E)" "ledger_laws (env_core E)" and ok: "accounts_ok (genesis_accounts n)"
    have now: "ledger_blocks (node_ledger n) \<noteq> []" "ledger_typed (env_core E) (node_ledger n)"
      "blocks_agree (env_core E) (node_cache n) (node_ledger n)"
      "touch_laws (env_core E) \<longrightarrow> accounts_agree (env_core E) (node_cache n) (node_ledger n)"
      using assms laws ok by (simp_all add: coherent_node_def)
    have typed: "ledger_typed (env_core E) (node_ledger n')"
      using typed_node_apply [of E n b now] laws(1,2) ok now(2) accs by (simp add: typed_node_def app)
    from apply_known_parent_ledger [OF app] show "ledger_blocks (node_ledger n') \<noteq> [] \<and>
      ledger_typed (env_core E) (node_ledger n') \<and> blocks_agree (env_core E) (node_cache n') (node_ledger n') \<and>
      (touch_laws (env_core E) \<longrightarrow> accounts_agree (env_core E) (node_cache n') (node_ledger n'))"
      using typed now agrees_refresh [OF laws now(2)] agrees_from_ledger [OF laws typed]
        ledger_apply_blocks [OF laws(1), of "node_ledger n" b "node_ledger n'"] branch_ledger_nonempty [OF laws(1)] by auto
  qed
  then show ?thesis by (simp add: app)
qed

interpretation coherent: chain_predicate E "coherent_node E" for E
  by unfold_locales (simp add: coherent_node_def, rule coherent_apply, assumption, simp add: coherent_node_def)

section \<open>Started on any store\<close>

text \<open>
  The ledger that a start finds has a block: a store with a tip has the blocks up to the tip or is refused, and into a store
  without one the genesis block is written. What the version check writes does not touch the tip.
\<close>

lemma version_keeps_tip:
  assumes "lmdb_laws D V W" "\<forall>e. readable D e" "ensure_storage_version D C e = (e', Ok ())"
  shows "load_tip K D C e' = load_tip K D C e"
proof -
  consider "e' = e" | "save_storage_version D C e STORAGE_VERSION = (e', Ok ())"
    using assms(3) by (auto simp: ensure_storage_version_def then_env_def split: sum.splits option.splits bool.splits prod.splits)
  then show ?thesis
  proof cases
    case 2
    obtain t t' where t: "put_value D (version_codec C) META STORAGE_VERSION_KEY STORAGE_VERSION t = Ok t'" "W t = V e" "V e' = W t'"
      using with_rw_Ok [OF assms(1) 2 [unfolded save_storage_version_def]] by metis
    obtain bs where "W t' = (W t)(META := (W t META)(STORAGE_VERSION_KEY \<mapsto> bs))"
      by (rule put_value_view [OF assms(1) t(1)])
    then have "V e' META TIP_HEIGHT_KEY = V e META TIP_HEIGHT_KEY" "V e' META TIP_HASH_KEY = V e META TIP_HASH_KEY"
      using meta_keys(7,8) [symmetric] by (simp_all add: t(2,3))
    then show ?thesis using assms(2) by (simp add: load_tip_view [OF assms(1)])
  qed simp
qed

lemma started_ledger_nonempty:
  assumes laws: "chain_laws (env_core E)" "ledger_laws (env_core E)" and lmdb: "lmdb_laws (env_lmdb E) V W" "\<forall>e. readable (env_lmdb E) e"
    and start: "load_or_create_ledger E st = (st', Some (Ok L))"
  shows "ledger_blocks L \<noteq> []"
proof (cases "load_tip (env_core E) (env_lmdb E) (env_codecs E) st = Ok None")
  case True
  with start have "ledger_apply_block (env_core E) (ledger_new (env_core E)) (env_genesis_block E) = Ok L"
    by (rule create_ledgerE)
  then show ?thesis using first_ledger(1) [OF laws] by simp
next
  case False
  let ?K = "env_core E" and ?D = "env_lmdb E" and ?C = "env_codecs E"
  have load: "load_ledger ?K ?D ?C st = (st', Ok L)"
    using start False by (auto simp: load_or_create_ledger_def Let_def res_simps split: sum.splits option.splits if_splits prod.splits)
  then have ens: "ensure_storage_version ?D ?C st = (st', Ok ())"
    by (auto simp: load_ledger_def then_env_def split: prod.splits sum.splits)
  then have "load_tip ?K ?D ?C st' \<noteq> Ok None" using version_keeps_tip [OF lmdb] False by metis
  then obtain h x where tip: "load_tip ?K ?D ?C st' = Ok (Some (h, x))"
    using load by (auto simp: load_ledger_def then_env_def res_bind_Ok_iff Let_def split: prod.splits sum.splits option.splits)
  have new: "ledger_chain (ledger_new ?K) = chain_new ?K" using laws(2) by (simp add: ledger_laws_def)
  have "load_chain ?K ?D ?C st' h (chain_new ?K) = Ok (ledger_chain L)"
    using load by (auto simp: load_ledger_def then_env_def Let_def ens tip new res_bind_Ok_iff)
  from load_chain_build [OF laws(2) this] obtain bs where "bs \<noteq> []" "build_chain ?K bs = Ok (ledger_chain L)" by blast
  then show ?thesis using build_chain_values [OF laws] by metis
qed

text \<open>The genesis accounts are those of the start.\<close>

interpretation fixed_accounts: chain_predicate E "\<lambda>n. genesis_accounts n = accs" for E accs
  by unfold_locales simp_all

definition started :: "('e, 't, 'f) node_env \<Rightarrow> ('e, 'f) node \<Rightarrow> bool" where
  "started E n \<longleftrightarrow> (\<exists>st st' n0 m. init_or_load E st = (st', Some (Ok n0)) \<and> pool_init m \<and> n = n0\<lparr>node_mempool := m\<rparr>)"

lemma started_coherent:
  assumes "lmdb_laws (env_lmdb E) V W" "\<forall>e. readable (env_lmdb E) e" "started E n"
  shows "coherent_node E n"
proof -
  obtain st st' n0 m where n: "init_or_load E st = (st', Some (Ok n0))" "pool_init m" "n = n0\<lparr>node_mempool := m\<rparr>"
    using assms(3) by (auto simp: started_def)
  obtain L accs n1 where start: "load_or_create_ledger E st = (st', Some (Ok L))" "index_stored_blocks E n1 = (n0, Ok ())"
    "with_genesis_accounts E L st' (case accs of Some a \<Rightarrow> a
       | None \<Rightarrow> if ledger_tip_height (env_core E) L = Some 0 then ledger_accounts L else []) = Some n1"
    by (rule init_or_loadE [OF n(1)])
  have "node_ledger n0 = L"
    using index_stored_frame(1) [of E n1] with_genesis_accountsD(1) [OF start(3)] start(2) by simp
  moreover have "node_init E n" using init_or_load_init [OF n(1,2)] n(3) by simp
  ultimately show ?thesis
    using started_ledger_nonempty [OF _ _ assms(1,2) start(1)] n(3)
    by (auto simp: coherent_node_def genuine_ledger_def agrees_from_ledger elim!: node_initE)
qed

lemma started_reach:
  assumes "lmdb_laws (env_lmdb E) V W" "\<forall>e. readable (env_lmdb E) e" "reach (started E) (node_step E) n"
  shows "coherent_node E n"
  using coherent.P_reach [OF assms(3)] started_coherent [OF assms(1,2)] by blast

section \<open>Properties\<close>

text \<open>
  C10. The cache answers as the ledger does, in every node that was started on any store and has handled anything since: the
  block at every height, by hash the highest block of the chain with that hash, and the tip; and every account, when the
  crate's \<open>Ledger::apply_block\<close> changes no account but those that a block names (\<open>touch_laws\<close>). The storage engine keeps its
  laws and can be read, and the genesis accounts that the start found in the store are under their addresses.
\<close>

theorem reachable_cache_coherent:
  assumes "chain_laws (env_core E)" "ledger_laws (env_core E)" "lmdb_laws (env_lmdb E) V W" "\<forall>e. readable (env_lmdb E) e"
    and "reach (started E) (node_step E) n" "accounts_ok (genesis_accounts n)"
  shows "block_by_height (node_cache n) h = ledger_block (env_core E) (node_ledger n) h \<and>
    block_by_hash (node_cache n) x = find (\<lambda>b. block_hash (env_core E) b = x) (rev (ledger_blocks (node_ledger n))) \<and>
    cache_tip_height (node_cache n) = ledger_tip_height (env_core E) (node_ledger n) \<and>
    cache_tip_hash (node_cache n) = ledger_tip_hash (env_core E) (node_ledger n) \<and>
    (touch_laws (env_core E) \<longrightarrow> cache_account (node_cache n) a = account_of (env_core E) (node_ledger n) a)"
  using started_reach [OF assms(3-5)] assms(1,2,6) by (simp add: coherent_node_def blocks_agree_def accounts_agree_def)

text \<open>
  C11. The ledger is well-formed whatever the node has handled, on whatever store it was started and with any fork-choice
  index: the blocks at heights 0 to the tip, linked by their hashes, as the crate builds the chain block by block, and
  each account under its address. The crate's and the storage engine's laws hold, the store can be read, and
  the genesis accounts that the start found in it are under their addresses.
\<close>

theorem reachable_ledger_wf:
  assumes "chain_laws (env_core E)" "ledger_laws (env_core E)" "lmdb_laws (env_lmdb E) V W" "\<forall>e. readable (env_lmdb E) e"
    and "reach (started E) (node_step E) n" "accounts_ok (genesis_accounts n)"
  shows "ledger_wf (env_core E) (node_ledger n) \<and> rebuilds (env_core E) (node_ledger n)"
proof -
  have "ledger_blocks (node_ledger n) \<noteq> []" "ledger_typed (env_core E) (node_ledger n)"
    using started_reach [OF assms(3-5)] assms(1,2,6) by (simp_all add: coherent_node_def)
  then show ?thesis using ledger_typed_wf [OF assms(1,2)] by (simp add: ledger_typed_def)
qed

section \<open>Examples\<close>

theorem reachable_ledger_wf_witness:
  "\<exists>st n0. init_or_load life_env env0 = (st, Some (Ok n0)) \<and>
     ledger_wf linked_core (node_ledger (fst (apply_block life_env (n0\<lparr>node_mempool := mempool_new\<rparr>) block1 100)))"
proof (rule life_start)
  fix st n0
  assume start: "init_or_load life_env env0 = (st, Some (Ok n0))" "genesis_accounts n0 = [([1], stored_account)]"
  define n where "n = fst (apply_block life_env (n0\<lparr>node_mempool := mempool_new\<rparr>) block1 100)"
  have "started life_env (n0\<lparr>node_mempool := mempool_new\<rparr>)" using start(1) mempool_new_init unfolding started_def by blast
  then have "reach (started life_env) (node_step life_env) n" unfolding n_def by (rule reach.step [OF reach.start [of "started life_env"]]) (rule node_step.block)
  moreover have "genesis_accounts n = [([1], stored_account)]" unfolding n_def by (rule fixed_accounts.P_step [OF node_step.block]) (simp add: start(2))
  then have "accounts_ok (genesis_accounts n)" by (simp add: accounts_ok_def bt_wf_def stored_account_def)
  ultimately have "ledger_wf linked_core (node_ledger n)"
    using reachable_ledger_wf [of life_env, unfolded life_env_simps, OF linked_core_laws mem_lmdb_laws] by simp
  then show ?thesis using start(1) unfolding n_def by blast
qed

text \<open>A crate that credits the miner of a block, with the store and the index of \<open>Node_Lifecycle\<close>.\<close>

definition credited :: "block \<Rightarrow> (address, account) btreemap \<Rightarrow> (address, account) btreemap" where
  "credited b accs = bt_insert (miner_address b)
     \<lparr>acc_address = miner_address b,
      acc_balance = (case bt_get accs (miner_address b) of None \<Rightarrow> 50 | Some a \<Rightarrow> acc_balance a + 50),
      acc_nonce = 0, acc_credits = []\<rparr> accs"

definition credit_core :: core where
  "credit_core = linked_core\<lparr>ledger_apply_block := (\<lambda>L b. res_bind (linked_insert (ledger_chain L) b) (\<lambda>c.
     Ok \<lparr>ledger_accounts = (if block_height b = 0 then [([1], stored_account)] else credited b (ledger_accounts L)), ledger_chain = c\<rparr>))\<rparr>"

definition credit_env :: "(mem_env, mem_env, block list) node_env" where
  "credit_env = life_env\<lparr>env_core := credit_core\<rparr>"

lemma credit_core_simps [simp]:
  "block_hash credit_core = block_hash linked_core" "tx_hash credit_core = tx_hash linked_core" "HASH_SIZE credit_core = HASH_SIZE linked_core"
  "ledger_tip_height credit_core = ledger_tip_height linked_core" "ledger_tip_hash credit_core = ledger_tip_hash linked_core"
  "account_of credit_core = account_of linked_core" "ledger_block credit_core = ledger_block linked_core"
  "chain_new credit_core = chain_new linked_core" "ledger_new credit_core = ledger_new linked_core"
  "chain_insert_block credit_core = chain_insert_block linked_core" "is_snapshot_height credit_core = is_snapshot_height linked_core"
  "ledger_state_root credit_core = ledger_state_root linked_core" "state_root_after_block credit_core = state_root_after_block linked_core"
  by (simp_all add: credit_core_def)

lemma credit_core_laws: "chain_laws credit_core" "ledger_laws credit_core" "touch_laws credit_core"
proof -
  have ins: "chain_insert_block linked_core = linked_insert" "chain_new linked_core = \<lparr>chain_blocks = []\<rparr>" "HASH_SIZE linked_core = 1"
    by (simp_all add: linked_core_def sample_core_def)
  note linked = linked_core_laws(1) [unfolded chain_laws_def zero_hash_def]
  show "ledger_laws credit_core" using linked_core_laws(2) unfolding ledger_laws_def credit_core_simps .
  show "chain_laws credit_core"
    unfolding chain_laws_def credit_core_simps zero_hash_def
  proof (intro conjI)
    have "ledger_apply_block credit_core L b = Ok L' \<Longrightarrow> linked_insert (ledger_chain L) b = Ok (ledger_chain L') \<and>
        ledger_accounts L' = (if block_height b = 0 then [([1], stored_account)] else credited b (ledger_accounts L))" for L b L'
      by (auto simp: credit_core_def res_bind_Ok_iff)
    moreover have "accounts_ok accs \<Longrightarrow> accounts_ok (credited b accs)" for accs b
      by (auto simp: accounts_ok_def credited_def set_bt_insert)
    moreover have "accounts_ok [([1], stored_account)]" by (simp add: accounts_ok_def bt_wf_def stored_account_def)
    ultimately show "\<forall>L b L'. ledger_apply_block credit_core L b = Ok L' \<longrightarrow>
        chain_insert_block linked_core (ledger_chain L) b = Ok (ledger_chain L') \<and>
        (accounts_ok (ledger_accounts L) \<longrightarrow> accounts_ok (ledger_accounts L'))" by (simp add: ins)
  qed (rule conjunct1 [OF linked] conjunct2 [OF conjunct2 [OF linked]])+
  have "block_height b \<noteq> 0" if "ledger_blocks L \<noteq> []" "linked_insert (ledger_chain L) b = Ok c" for L b c
    using that chain_insertD(3) [OF linked_core_laws(1), of "ledger_chain L" b c] by (auto simp: ins)
  then show "touch_laws credit_core"
    by (auto simp: touch_laws_def credit_core_def linked_core_def sample_core_def res_simps credited_def touches_def split: if_splits)
qed

text \<open>It starts as the crate of \<open>Node_Lifecycle\<close> does.\<close>

lemma credit_env_simps [simp]:
  "env_core credit_env = credit_core" "env_lmdb credit_env = mem_lmdb" "env_codecs credit_env = life_codecs"
  "env_fork credit_env = tree_fork linked_core" "env_genesis_block credit_env = genesis" "env_GENESIS_HASH credit_env = [3]"
  by (simp_all add: credit_env_def)

lemma credit_save: "save_ledger credit_core D C e L = save_ledger linked_core D C e L"
  unfolding save_ledger_def put_ledger_def put_block_def index_block_transactions_def index_transaction_def put_tip_state_def
    snapshot_of_def credit_core_simps ..

lemma credit_start: "init_or_load credit_env env0 = init_or_load life_env env0"
proof -
  have "ledger_apply_block credit_core (ledger_new linked_core) genesis = ledger_apply_block linked_core (ledger_new linked_core) genesis"
    by (simp add: credit_core_def linked_core_def sample_core_def genesis_def)
  moreover have "load_tip credit_core mem_lmdb life_codecs env0 = load_tip linked_core mem_lmdb life_codecs env0"
    unfolding load_tip_def credit_core_simps ..
  moreover have "load_tip linked_core mem_lmdb life_codecs env0 = Ok None" using life_empty by (simp add: empty_store_def)
  ultimately have load: "load_or_create_ledger credit_env env0 = load_or_create_ledger life_env env0"
    by (simp add: load_or_create_ledger_def credit_save split: sum.split)
  have pass: "index_pass credit_env bs fc = index_pass life_env bs fc" for bs fc
    by (induction bs arbitrary: fc) (simp_all split: prod.split sum.split)
  have loop: "index_loop credit_env bs fc = index_loop life_env bs fc" for bs fc
  proof (induction life_env bs fc rule: index_loop.induct)
    case (1 bs fc)
    show ?case
      unfolding index_loop.simps [of credit_env bs] index_loop.simps [of life_env bs] pass
      by (auto split: prod.split sum.split simp: 1)
  qed
  have "cache_insert_block credit_core = cache_insert_block linked_core"
    by (simp add: cache_insert_block_def fun_eq_iff)
  then have "from_ledger credit_core L = from_ledger linked_core L" for L by (simp add: from_ledger_def)
  then have accs: "with_genesis_accounts credit_env L st accs = with_genesis_accounts life_env L st accs" for L st accs
    unfolding with_genesis_accounts_def by simp
  have stored: "index_stored_blocks credit_env n = index_stored_blocks life_env n" for n
    unfolding index_stored_blocks_def loop by simp
  show ?thesis unfolding init_or_load_def load accs stored credit_env_simps life_env_simps credit_core_simps ..
qed

definition credit_ledger :: ledger where
  "credit_ledger = \<lparr>ledger_accounts = [([1], stored_account), ([9], \<lparr>acc_address = [9], acc_balance = 50, acc_nonce = 0, acc_credits = []\<rparr>)],
     ledger_chain = \<lparr>chain_blocks = [(0, genesis), (1, block1)]\<rparr>\<rparr>"

lemma credit_apply:
  assumes n: "node_ledger n = genesis_ledger" "fork_choice n = [genesis]" "orphan_blocks n = []" "orphan_children_by_parent n = []"
  shows "node_ledger (fst (apply_block credit_env n block1 100)) = credit_ledger"
proof -
  have "find_block linked_core (fork_choice n) [3] = Some genesis" by (simp add: n(2) two_branches)
  then have "validate_block_for_known_parent credit_env n block1 100 = Ok ()"
    by (simp add: validate_block_for_known_parent_def block1_def) (simp add: credit_env_def life_env_def sample_env_def sample_consensus_def)
  moreover have "validate_canonical_state_root credit_env genesis_ledger block1 = Ok ()"
    by (simp add: validate_canonical_state_root_def zero_hash_def) (simp add: linked_core_def sample_core_def block1_def sample_block_def)
  moreover have "extends_active_tip credit_env (n\<lparr>fork_choice := f\<rparr>) block1" "extends_active_tip credit_env n block1" for f
    by (simp_all add: extends_active_tip_def n(1) tree_ledgers) (simp_all add: block1_def)
  moreover have "tree_insert linked_core (fork_choice n) block1 = ([block1, genesis], Ok [4])" "best_block [block1, genesis] = Some block1"
    by (simp_all add: n(2) tree_insert_def known_def two_branches)
  moreover have "ledger_apply_block credit_core genesis_ledger block1 = Ok credit_ledger"
    by (simp add: credit_core_def linked_insert_def genesis_ledger_def credited_def credit_ledger_def two_branches sample_block_def
        linked_hash_def)
  moreover obtain st r where "save_ledger credit_core mem_lmdb life_codecs (node_storage n) credit_ledger = (st, r)" by fastforce
  ultimately obtain n' where app: "apply_known_parent_block credit_env n block1 100 = (n', map_err StorageError r)"
    and L: "node_ledger n' = credit_ledger"
    using side_hashes(2) by (simp add: apply_known_parent_block_def validate_block_state_for_known_parent_def Let_def n(1))
  show ?thesis
  proof (cases r)
    case (Inl e)
    have "prune_expired_orphans credit_env n 100 = n" using n(3) by (simp add: prune_expired_orphans_def)
    then show ?thesis using app L Inl by (simp add: apply_block_def)
  next
    case (Inr u)
    then show ?thesis using apply_block_alone [OF n(3,4), of credit_env block1 100 n'] app L by simp
  qed
qed

theorem reachable_cache_coherent_witness:
  "\<exists>st n0 n. init_or_load credit_env env0 = (st, Some (Ok n0)) \<and>
     n = fst (apply_block credit_env (n0\<lparr>node_mempool := mempool_new\<rparr>) block1 100) \<and>
     map_option acc_balance (cache_account (node_cache n) [9]) = Some 50 \<and> block_by_hash (node_cache n) [4] = Some block1 \<and>
     block_by_height (node_cache n) 0 = Some genesis"
proof (rule life_start)
  fix st n0
  assume start: "init_or_load life_env env0 = (st, Some (Ok n0))" "node_ledger n0 = genesis_ledger"
    "genesis_accounts n0 = [([1], stored_account)]" "fork_choice n0 = [genesis]" "orphan_blocks n0 = []" "orphan_children_by_parent n0 = []"
  let ?n0 = "n0\<lparr>node_mempool := mempool_new\<rparr>"
  define n where "n = fst (apply_block credit_env ?n0 block1 100)"
  have "started credit_env ?n0" using start(1) mempool_new_init credit_start unfolding started_def by metis
  then have reach: "reach (started credit_env) (node_step credit_env) n"
    unfolding n_def by (rule reach.step [OF reach.start [of "started credit_env"]]) (rule node_step.block)
  have "genesis_accounts n = [([1], stored_account)]"
    unfolding n_def by (rule fixed_accounts.P_step [OF node_step.block]) (simp add: start(3))
  then have ok: "accounts_ok (genesis_accounts n)" by (simp add: accounts_ok_def bt_wf_def stored_account_def)
  have L: "node_ledger n = credit_ledger" unfolding n_def by (rule credit_apply) (simp_all add: start)
  note agrees = reachable_cache_coherent [of credit_env, unfolded credit_env_simps, OF credit_core_laws(1,2) mem_lmdb_laws _ reach ok]
  have "cache_account (node_cache n) [9] = account_of credit_core credit_ledger [9]"
    using agrees credit_core_laws(3) L by simp
  moreover have "block_by_hash (node_cache n) [4] = Some block1" "block_by_height (node_cache n) 0 = Some genesis"
    using agrees L side_hashes(1,2) by (simp_all add: credit_ledger_def) (simp_all add: linked_core_def sample_core_def)
  ultimately show ?thesis
    using start(1) credit_start unfolding n_def by (simp add: credit_ledger_def linked_core_def sample_core_def) 
qed

end
