(* ===== verification/Node_Agreement.thy ===== *)
theory Node_Agreement
  imports Node_Crash Node_Cache
begin

text \<open>
  What the nodes of a network agree on. A node follows the best tip of its index at any time of its life, and two nodes
  with the same crate and genesis block that have the same tip have the same ledger.
\<close>

section \<open>The genesis accounts\<close>

text \<open>Through calls and restarts the genesis accounts are those of the ledger that the genesis block gives.\<close>

definition genesis_state :: "('e, 't, 'f) node_env \<Rightarrow> ('e, 'f) node \<Rightarrow> bool" where
  "genesis_state E n \<longleftrightarrow> (\<exists>L. ledger_apply_block (env_core E) (ledger_new (env_core E)) (env_genesis_block E) = Ok L \<and>
     genesis_accounts n = ledger_accounts L)"

lemma first_started_genesis:
  assumes "life_ok E V W w" "first_started E V n"
  shows "genesis_state E n"
proof -
  note laws = life_okD [OF assms(1)]
  obtain st st' n0 m where n: "empty_store E V st" "init_or_load E st = (st', Some (Ok n0))" "pool_init m" "genesis_accounts n0 \<noteq> []"
    "n = n0\<lparr>node_mempool := m\<rparr>" using assms(2) by (auto simp: first_started_def)
  obtain L where L: "load_or_create_ledger E st = (st', Some (Ok L))" "node_ledger n0 = L"
  proof (rule init_or_loadE [OF n(2)])
    fix L accs n1
    assume "load_or_create_ledger E st = (st', Some (Ok L))" "index_stored_blocks E n1 = (n0, Ok ())"
      "with_genesis_accounts E L st' (case accs of Some a \<Rightarrow> a
         | None \<Rightarrow> if ledger_tip_height (env_core E) L = Some 0 then ledger_accounts L else []) = Some n1"
    then show thesis using that index_stored_frame(1) [of E n1] with_genesis_accountsD(1) by fastforce
  qed
  have created: "ledger_apply_block (env_core E) (ledger_new (env_core E)) (env_genesis_block E) = Ok L"
    by (rule create_ledgerE [OF L(1)]) (use n(1) in \<open>auto simp: empty_store_def\<close>)
  have cl: "chain_laws (env_core E)" and ll: "ledger_laws (env_core E)" using laws(1) by (simp_all add: crate_laws_def)
  have inv: "chain_inv E n" using first_start_lasting [OF laws(1,4-6) n(1-4)] by (simp add: lasting_def n(5))
  have "replay_branch (env_core E) (genesis_accounts n) [env_genesis_block E] = Ok L"
    using chain_invD(9) [OF inv] n(4,5) L(2) first_ledger(1) [OF cl ll created] by simp
  then have "ledger_accounts L = genesis_accounts n"
    by (auto simp: replay_branch_def res_bind_Ok_iff)
  with created show ?thesis by (auto simp: genesis_state_def)
qed

interpretation genesis_kept: chain_predicate E "genesis_state E" for E
  by unfold_locales (simp_all add: genesis_state_def)

lemma life_genesis_state:
  assumes "life_ok E V W w" "reach (first_started E V) (life_step E V) n"
  shows "genesis_state E n"
  using assms(2)
proof (induction rule: reach.induct)
  case (start n)
  then show ?case using first_started_genesis [OF assms(1)] by blast
next
  case (step n n')
  note laws = life_okD [OF assms(1)]
  from step.hyps(2) show ?case
  proof cases
    case handle
    then show ?thesis using genesis_kept.P_step step.IH by blast
  next
    case (restart st r m)
    then have "genesis_accounts r = genesis_accounts n"
      using restarted(2) [OF laws(1,4-6,2) life_lasting [OF assms(1) step.hyps(1)] _ restart(3,4)] by (simp add: restartable_def)
    then show ?thesis using step.IH restart(1) by (simp add: genesis_state_def)
  qed
qed

lemma lost_ledger_tip: "ledger_tip_hash linked_core lost_ledger = Some [5]" "ledger_blocks lost_ledger = [genesis, side1]"
  by (simp_all add: lost_ledger_def linked_core_def sample_core_def linked_hash_def two_branches sample_block_def)

section \<open>Properties\<close>

text \<open>
  C6. A node follows the best tip. It is first started on an empty store, with a genesis block that creates an account, handles
  anything, with writes that fail or not, and may be restarted when its store has its ledger and the parent of every stored block
  (\<open>restartable\<close>): its ledger ends in the best tip of the fork-choice index, its chain is the branch of that tip, and its ledger is
  what replaying this branch from the genesis accounts gives.
\<close>

theorem reachable_follows_best_tip:
  assumes "life_ok E V W w" "reach (first_started E V) (life_step E V) n"
  shows "\<exists>tip. ledger_tip_hash (env_core E) (node_ledger n) = Some tip \<and>
    map_option fn_hash (fc_best_tip (env_fork E) (fork_choice n)) = Some tip \<and>
    branch (env_fork E) (fork_choice n) tip (ledger_blocks (node_ledger n)) \<and>
    ledger_for_branch_tip E n tip = Ok (node_ledger n)"
  using follows_best_tip [OF life_okD(1) [OF assms(1)]] life_lasting [OF assms] unfolding lasting_def by blast

theorem reachable_follows_best_tip_witness:
  "\<exists>st n0 n n'. init_or_load life_env env0 = (st, Some (Ok n0)) \<and>
     fst (apply_block life_env (n0\<lparr>node_mempool := mempool_new\<rparr>) side1 100) = n \<and> apply_block life_env n block1 100 = (n', Ok ()) \<and>
     fork_choice n' = [block1, side1, genesis] \<and> branch (tree_fork linked_core) (fork_choice n') [5] [genesis, side1] \<and>
     ledger_for_branch_tip life_env n' [5] = Ok lost_ledger"
proof (rule life_stale)
  fix st and n0 n n' :: "(mem_env, block list) node"
  assume n': "init_or_load life_env env0 = (st, Some (Ok n0))" "fst (apply_block life_env (n0\<lparr>node_mempool := mempool_new\<rparr>) side1 100) = n"
    "apply_block life_env n block1 100 = (n', Ok ())" "fork_choice n' = [block1, side1, genesis]" "node_ledger n' = lost_ledger"
    "reach (first_started life_env mem_view) (life_step life_env mem_view) n'"
  then show ?thesis using reachable_follows_best_tip [OF life_env_ok n'(6)] lost_ledger_tip by auto
qed

text \<open>
  C7. Nodes converge. Two nodes have the same crate and the same genesis block, which creates an account; each was first
  started on an empty store of its own, has handled anything, with writes that fail or not, and may have been restarted when its
  store had its ledger and the parent of every stored block. When they have the same tip they have the same ledger,
  accounts and chain, in whatever order they received blocks, through whatever reorganisations, and even if their
  stores and fork-choice indices are implemented differently, as long as no two blocks of their chains share a hash.
\<close>

theorem same_tip_same_ledger:
  assumes "life_ok E V W w" "life_ok E' V' W' w'" "env_core E' = env_core E" "env_genesis_block E' = env_genesis_block E"
    and "reach (first_started E V) (life_step E V) n" "reach (first_started E' V') (life_step E' V') n'"
    and "ledger_tip_hash (env_core E) (node_ledger n') = ledger_tip_hash (env_core E) (node_ledger n)"
    and "inj_on (block_hash (env_core E)) (set (ledger_blocks (node_ledger n)) \<union> set (ledger_blocks (node_ledger n')))"
  shows "node_ledger n' = node_ledger n"
proof -
  let ?K = "env_core E"
  have cl: "chain_laws ?K" and ll: "ledger_laws ?K" using life_okD(1) [OF assms(1)] by (simp_all add: crate_laws_def)
  have lasts: "lasting E V n" "lasting E' V' n'" using life_lasting assms(1,2,5,6) by blast+
  have accs: "genesis_accounts n' = genesis_accounts n"
    using life_genesis_state [OF assms(1,5)] life_genesis_state [OF assms(2,6)] assms(3,4) by (auto simp: genesis_state_def)
  have inv: "chain_inv E n" "chain_inv E' n'" "genesis_accounts n \<noteq> []" using lasts by (simp_all add: lasting_def)
  note I = chain_invD [OF inv(1)] and I' = chain_invD [OF inv(2), unfolded assms(3) accs]
  have "block_hash ?K (last (ledger_blocks (node_ledger n))) = block_hash ?K (last (ledger_blocks (node_ledger n')))"
    using assms(7) I(3) I'(3) by (simp add: ledger_tip_blocks [OF ll])
  then have "ledger_blocks (node_ledger n) = ledger_blocks (node_ledger n')"
    using linked_chains_equal [OF cl ll I(2) [unfolded rebuilds_iff [OF ll]] I'(2) [unfolded rebuilds_iff [OF ll]] I(3) I'(3)]
      assms(8) by blast
  moreover have "replay_branch ?K (genesis_accounts n) (ledger_blocks (node_ledger n)) = Ok (node_ledger n)"
    "replay_branch ?K (genesis_accounts n) (ledger_blocks (node_ledger n')) = Ok (node_ledger n')"
    using I(9) I'(9) inv(3) by blast+
  ultimately show ?thesis by (metis sum.inject(2))
qed

theorem same_tip_same_ledger_witness:
  "\<exists>st n0 n n'. init_or_load life_env env0 = (st, Some (Ok n0)) \<and>
     fst (apply_block life_env (n0\<lparr>node_mempool := mempool_new\<rparr>) side1 100) = n \<and> apply_block life_env n block1 100 = (n', Ok ()) \<and>
     fork_choice n' \<noteq> fork_choice n \<and> node_ledger n' = node_ledger n"
proof (rule life_stale)
  fix st and n0 n n' :: "(mem_env, block list) node"
  assume n: "init_or_load life_env env0 = (st, Some (Ok n0))" "fst (apply_block life_env (n0\<lparr>node_mempool := mempool_new\<rparr>) side1 100) = n"
    "apply_block life_env n block1 100 = (n', Ok ())" "fork_choice n' = [block1, side1, genesis]" "fork_choice n = [side1, genesis]"
    and L: "node_ledger n = lost_ledger" "node_ledger n' = lost_ledger"
    and reach: "reach (first_started life_env mem_view) (life_step life_env mem_view) n"
      "reach (first_started life_env mem_view) (life_step life_env mem_view) n'"
  have "inj_on (block_hash linked_core) {genesis, side1}" by (simp add: inj_on_def side_hashes)
  then have "node_ledger n' = node_ledger n"
    using same_tip_same_ledger [OF life_env_ok life_env_ok refl refl reach] by (simp add: L lost_ledger_tip)
  with n show ?thesis by auto
qed

end
