(* ===== verification/P2p.thy ===== *)
theory P2p
  imports Network
begin

text \<open>
  Peer synchronisation (\<open>src/p2p.rs\<close>, and \<open>request_on_stream\<close> of \<open>src/network.rs\<close>): the retry state of
  a peer, the deduplication of peer lists, and the client that polls a peer for blocks. A connection
  is a stream of type \<open>'s\<close>, the state of the outside world as the client sees it, with the socket's
  \<open>write_all\<close> and \<open>read_exact\<close> and the system clock as operations. The node's mutex is not modelled: a
  lock is never poisoned, so that the calls on the node are the locked sections of the code.
\<close>

section \<open>Peer state\<close>

record peer_state =
  ps_addr :: string
  failures :: u32
  next_attempt :: nat
  last_tip :: "u64 option"

definition DEFAULT_SYNC_INTERVAL :: nat where "DEFAULT_SYNC_INTERVAL = 5"
definition PEER_RETRY_BASE :: u64 where "PEER_RETRY_BASE = 2"
definition PEER_RETRY_MAX :: u64 where "PEER_RETRY_MAX = 60"
definition MAX_BLOCKS_PER_SYNC :: u64 where "MAX_BLOCKS_PER_SYNC = 64"

definition saturating_mul :: "u64 \<Rightarrow> u64 \<Rightarrow> u64" where
  "saturating_mul a b = (if unat a * unat b < 2 ^ 64 then a * b else - 1)"

text \<open>Instants are seconds of the monotonic clock, \<open>now\<close> its reading.\<close>

definition peer_state_new :: "string \<Rightarrow> nat \<Rightarrow> peer_state" where
  "peer_state_new a now = \<lparr>ps_addr = a, failures = 0, next_attempt = now, last_tip = None\<rparr>"

definition mark_ok :: "nat \<Rightarrow> u64 option \<Rightarrow> peer_state \<Rightarrow> peer_state" where
  "mark_ok now tip p = p\<lparr>failures := 0, last_tip := tip, next_attempt := now + DEFAULT_SYNC_INTERVAL\<rparr>"

definition mark_failed :: "nat \<Rightarrow> peer_state \<Rightarrow> peer_state" where
  "mark_failed now p =
     (let f = saturating_add (failures p) 1;
          shift = min (saturating_sub f 1) 5;
          secs = min (saturating_mul PEER_RETRY_BASE (push_bit (unat shift) 1)) PEER_RETRY_MAX
      in p\<lparr>failures := f, next_attempt := now + unat secs\<rparr>)"

text \<open>The retention with a set of the peers seen so far.\<close>

fun dedupe_loop :: "'a set \<Rightarrow> 'a list \<Rightarrow> 'a list" where
  "dedupe_loop seen [] = []"
| "dedupe_loop seen (p # ps) = (if p \<in> seen then dedupe_loop seen ps else p # dedupe_loop (insert p seen) ps)"

definition dedupe_peers :: "'a list \<Rightarrow> 'a list" where
  "dedupe_peers ps = dedupe_loop {} ps"

section \<open>Requests\<close>

datatype peer_error =
    SendFailed network_error
  | ReadFailed network_error
  | IncompatibleVersion reject_reason
  | HandshakeRejected reject_reason string
  | UnexpectedHandshakeResponse
  | UnexpectedTipResponse
  | UnexpectedPeersResponse
  | NoBlockAtHeight u64
  | NoBlockWithHash hash
  | ApplyBlockFailed u64 node_error
  | FlushBlockFailed node_error
  | ApplyParentFailed node_error
  | FlushParentFailed node_error

datatype peer_poll = Idle u64 | Synced u64

record 's stream_ops =
  stream_write_all :: "'s \<Rightarrow> bytes \<Rightarrow> 's \<times> (io_error + unit)"
  stream_read_exact :: "'s \<Rightarrow> nat \<Rightarrow> 's \<times> (io_error + bytes)"
  stream_clock :: "'s \<Rightarrow> u64"

text \<open>What a client is given: the stream's operations, the chain's parameters and the envelope's encoding.\<close>

record 's client =
  cl_ops :: "'s stream_ops"
  cl_params :: chain_params
  cl_codec :: "network_envelope codec"

definition request_on_stream :: "'s client \<Rightarrow> 's \<Rightarrow> network_message \<Rightarrow> 's \<times> (peer_error + network_message)" where
  "request_on_stream X s m =
     (case write_message (stream_write_all (cl_ops X)) (cl_codec X) s (to_envelope (cl_params X) m) of
        (s', Inl e) \<Rightarrow> (s', Err (SendFailed e))
      | (s', Inr _) \<Rightarrow>
          (case read_message (stream_read_exact (cl_ops X)) (cl_params X) (cl_codec X) s' of
             (s'', r) \<Rightarrow> (s'', res_bind (map_err ReadFailed r) (\<lambda>v. Ok (message v)))))"

definition connection_send :: "'s client \<Rightarrow> 's \<Rightarrow> network_message \<Rightarrow> 's \<times> (peer_error + unit)" where
  "connection_send X s m =
     (case write_message (stream_write_all (cl_ops X)) (cl_codec X) s (to_envelope (cl_params X) m) of
        (s', r) \<Rightarrow> (s', map_err SendFailed r))"

definition request_peers_connection :: "'s client \<Rightarrow> 's \<Rightarrow> 's \<times> (peer_error + peer_info list)" where
  "request_peers_connection X s =
     (case request_on_stream X s GetPeers of
        (s', Inl e) \<Rightarrow> (s', Err e)
      | (s', Inr (Peers ps)) \<Rightarrow> (s', Ok ps)
      | (s', Inr _) \<Rightarrow> (s', Err UnexpectedPeersResponse))"

definition handshake_peer ::
  "('e, 't, 'f) node_env \<Rightarrow> 's client \<Rightarrow> string list \<Rightarrow> ('e, 'f) node \<Rightarrow> 's \<Rightarrow> 's \<times> (peer_error + unit)" where
  "handshake_peer E X public_addrs n s =
     (case request_on_stream X s (Version (version_local (cl_params X) (node_tip E n))) of
        (s', Inl e) \<Rightarrow> (s', Err e)
      | (s', Inr (VerAck remote)) \<Rightarrow>
          (case validate_compatibility (cl_params X) remote of
             Inl reason \<Rightarrow> (s', Err (IncompatibleVersion reason))
           | Inr _ \<Rightarrow>
               if public_addrs \<noteq> []
               then connection_send X s' (Peers (map (\<lambda>a. \<lparr>peer_address = a\<rparr>) public_addrs))
               else (s', Ok ()))
      | (s', Inr (Reject reason msg)) \<Rightarrow> (s', Err (HandshakeRejected reason msg))
      | (s', Inr _) \<Rightarrow> (s', Err UnexpectedHandshakeResponse))"

definition request_tip :: "'s client \<Rightarrow> 's \<Rightarrow> 's \<times> (peer_error + u64)" where
  "request_tip X s =
     (case request_on_stream X s GetTip of
        (s', Inl e) \<Rightarrow> (s', Err e)
      | (s', Inr (Tip tip)) \<Rightarrow> (s', Ok (ti_height tip))
      | (s', Inr _) \<Rightarrow> (s', Err UnexpectedTipResponse))"

text \<open>The locked section shared by both block requests: apply the block, then flush.\<close>

definition apply_and_flush ::
  "('e, 't, 'f) node_env \<Rightarrow> (node_error \<Rightarrow> peer_error) \<Rightarrow> (node_error \<Rightarrow> peer_error) \<Rightarrow>
   ('e, 'f) node \<Rightarrow> block \<Rightarrow> u64 \<Rightarrow> ('e, 'f) node \<times> (peer_error + unit)" where
  "apply_and_flush E apply_err flush_err n b now =
     (case apply_block E n b now of
        (n', Inl e) \<Rightarrow> (n', Err (apply_err e))
      | (n', Inr _) \<Rightarrow> (case flush_to_storage E n' of (n'', r) \<Rightarrow> (n'', map_err flush_err r)))"

definition request_block ::
  "('e, 't, 'f) node_env \<Rightarrow> 's client \<Rightarrow> u64 \<Rightarrow> 's \<times> ('e, 'f) node \<Rightarrow> ('s \<times> ('e, 'f) node) \<times> (peer_error + unit)" where
  "request_block E X h = (\<lambda>(s, n).
     case request_on_stream X s (GetBlockByHeight h) of
       (s', Inl e) \<Rightarrow> ((s', n), Err e)
     | (s', Inr (Block b)) \<Rightarrow>
         (case apply_and_flush E (ApplyBlockFailed h) FlushBlockFailed n b (stream_clock (cl_ops X) s') of
            (n', r) \<Rightarrow> ((s', n'), r))
     | (s', Inr _) \<Rightarrow> ((s', n), Err (NoBlockAtHeight h)))"

definition request_block_by_hash ::
  "('e, 't, 'f) node_env \<Rightarrow> 's client \<Rightarrow> hash \<Rightarrow> 's \<times> ('e, 'f) node \<Rightarrow> ('s \<times> ('e, 'f) node) \<times> (peer_error + unit)" where
  "request_block_by_hash E X h = (\<lambda>(s, n).
     case request_on_stream X s (GetBlockByHash h) of
       (s', Inl e) \<Rightarrow> ((s', n), Err e)
     | (s', Inr (Block b)) \<Rightarrow>
         (case apply_and_flush E ApplyParentFailed FlushParentFailed n b (stream_clock (cl_ops X) s') of
            (n', r) \<Rightarrow> ((s', n'), r))
     | (s', Inr _) \<Rightarrow> ((s', n), Err (NoBlockWithHash h)))"

fun request_blocks ::
  "('e, 't, 'f) node_env \<Rightarrow> 's client \<Rightarrow> u64 list \<Rightarrow> 's \<times> ('e, 'f) node \<Rightarrow>
   ('s \<times> ('e, 'f) node) \<times> (peer_error + unit)" where
  "request_blocks E X [] w = (w, Ok ())"
| "request_blocks E X (h # hs) w =
     (case request_block E X h w of (w', Inl e) \<Rightarrow> (w', Err e) | (w', Inr _) \<Rightarrow> request_blocks E X hs w')"

fun request_parents ::
  "('e, 't, 'f) node_env \<Rightarrow> 's client \<Rightarrow> hash list \<Rightarrow> bool \<Rightarrow> 's \<times> ('e, 'f) node \<Rightarrow>
   ('s \<times> ('e, 'f) node) \<times> (peer_error + bool)" where
  "request_parents E X [] requested w = (w, Ok requested)"
| "request_parents E X (h # hs) requested w =
     (case request_block_by_hash E X h w of
        ((s, n), Inl e) \<Rightarrow> ((s, retry_missing_parent_request E n h (stream_clock (cl_ops X) s)), Err e)
      | (w', Inr _) \<Rightarrow> request_parents E X hs True w')"

definition request_missing_parent_blocks ::
  "('e, 't, 'f) node_env \<Rightarrow> 's client \<Rightarrow> 's \<times> ('e, 'f) node \<Rightarrow> ('s \<times> ('e, 'f) node) \<times> (peer_error + bool)" where
  "request_missing_parent_blocks E X = (\<lambda>(s, n).
     case drain_missing_parent_requests_at n (stream_clock (cl_ops X) s) of
       (n', hashes) \<Rightarrow> request_parents E X hashes False (s, n'))"

text \<open>The inclusive range of heights that one poll asks for.\<close>

definition sync_heights :: "u64 \<Rightarrow> u64 \<Rightarrow> u64 list" where
  "sync_heights local_height tip =
     (let target = min tip (saturating_add local_height MAX_BLOCKS_PER_SYNC)
      in map of_nat [unat (saturating_add local_height 1)..<Suc (unat target)])"

definition poll_peer_connection ::
  "('e, 't, 'f) node_env \<Rightarrow> 's client \<Rightarrow> string list \<Rightarrow> 's \<times> ('e, 'f) node \<Rightarrow>
   ('s \<times> ('e, 'f) node) \<times> (peer_error + peer_poll)" where
  "poll_peer_connection E X public_addrs = (\<lambda>(s, n).
     case handshake_peer E X public_addrs n s of
       (s, Inl e) \<Rightarrow> ((s, n), Err e)
     | (s, Inr _) \<Rightarrow> (case request_tip X s of
         (s, Inl e) \<Rightarrow> ((s, n), Err e)
       | (s, Inr tip) \<Rightarrow>
           let local_height = (case ledger_tip_height (env_core E) (node_ledger n) of None \<Rightarrow> 0 | Some h \<Rightarrow> h) in
           if tip \<le> local_height
           then (case request_missing_parent_blocks E X (s, n) of
              (w, r) \<Rightarrow> (w, res_bind r (\<lambda>requested. Ok (if requested then Synced tip else Idle tip))))
           else (case request_blocks E X (sync_heights local_height tip) (s, n) of
              (w, Inl e) \<Rightarrow> (w, Err e)
            | (w, Inr _) \<Rightarrow> (case request_missing_parent_blocks E X w of
                (w', r) \<Rightarrow> (w', res_bind r (\<lambda>_. Ok (Synced tip)))))))"

section \<open>The client keeps the node's contract\<close>

context node_provider begin

lemma apply_and_flush_good: "good n \<Longrightarrow> good (fst (apply_and_flush E f g n b now))"
  using apply_good [of n b now] flush_good [of "fst (apply_block E n b now)"]
  by (auto simp: apply_and_flush_def case_prod_beta split: prod.split sum.split)

lemma request_block_good: "good (snd w) \<Longrightarrow> good (snd (fst (request_block E X h w)))"
  by (cases w) (auto simp: request_block_def case_prod_beta apply_and_flush_good
      split: sum.split network_message.split)

lemma request_block_by_hash_good: "good (snd w) \<Longrightarrow> good (snd (fst (request_block_by_hash E X h w)))"
  by (cases w) (auto simp: request_block_by_hash_def case_prod_beta apply_and_flush_good
      split: sum.split network_message.split)

lemma request_blocks_good: "good (snd w) \<Longrightarrow> good (snd (fst (request_blocks E X hs w)))"
proof (induction hs arbitrary: w)
  case (Cons h hs)
  then show ?case
    using request_block_good [of w X h] by (auto split: prod.split sum.split)
qed simp

lemma request_parents_good: "good (snd w) \<Longrightarrow> good (snd (fst (request_parents E X hs b w)))"
proof (induction hs arbitrary: w b)
  case (Cons h hs)
  then show ?case
    using request_block_by_hash_good [of w X h] by (auto intro: retry_good split: prod.split sum.split)
qed simp

lemma request_missing_good: "good (snd w) \<Longrightarrow> good (snd (fst (request_missing_parent_blocks E X w)))"
  using drain_good
  by (cases w) (auto simp: request_missing_parent_blocks_def case_prod_beta intro!: request_parents_good)

lemma poll_good: "good (snd w) \<Longrightarrow> good (snd (fst (poll_peer_connection E X addrs w)))"
  by (cases w) (auto simp: poll_peer_connection_def Let_def case_prod_beta request_missing_good request_blocks_good
      split: prod.split sum.split)

end

section \<open>Properties\<close>

text \<open>
  Polling any peer, honest or not, over any connection: the node stays in a state it can reach by
  itself, so its bounds and indices hold, and a peer that fails the handshake changes nothing.
\<close>

lemma poll_peer_safe:
  assumes "reach (node_init E) (node_step E) n" "poll_peer_connection E X addrs (s, n) = ((s', n'), r)"
  shows "reach (node_init E) (node_step E) n' \<and> node_inv E n' \<and>
    (\<forall>e. snd (handshake_peer E X addrs n s) = Err e \<longrightarrow> n' = n \<and> r = Err e)"
proof -
  have "reach (node_init E) (node_step E) n'"
    using reached.poll_good [of E "(s, n)" X addrs] assms by simp
  moreover have "node_inv E n'"
    using intact.poll_good [of E "(s, n)" X addrs] running_node.reach_inv [OF assms(1)] assms(2) by simp
  moreover have "n' = n \<and> r = Err e" if "snd (handshake_peer E X addrs n s) = Err e" for e
    using that assms(2) by (auto simp: poll_peer_connection_def split: prod.splits)
  ultimately show ?thesis by blast
qed

text \<open>A connection whose peer has closed it: nothing can be written.\<close>

definition closed_client :: "unit client" where
  "closed_client = \<lparr>cl_ops = \<lparr>stream_write_all = (\<lambda>s _. (s, Err (OtherIoError 1))),
       stream_read_exact = (\<lambda>s _. (s, Err (OtherIoError 1))), stream_clock = (\<lambda>_. 100)\<rparr>,
     cl_params = sample_params, cl_codec = table_codec []\<rparr>"

lemma closed_client_request:
  "request_on_stream closed_client s m = (s, Err (SendFailed (NetworkSerialization (OtherIoError 0))))"
  by (simp add: request_on_stream_def closed_client_def write_message_def to_bytes_def table_codec_def)

text \<open>
  One poll asks for at most 64 blocks: the consecutive heights above the local tip, up to the
  peer's tip, in increasing order and without wrap-around at the top of the range.
\<close>

lemma sync_heights_window:
  assumes "local_height < tip"
  shows "map unat (sync_heights local_height tip) =
      [Suc (unat local_height)..<Suc (min (unat tip) (unat local_height + 64))] \<and>
    length (sync_heights local_height tip) \<le> 64 \<and> sync_heights local_height tip \<noteq> []"
proof -
  let ?l = "unat local_height" and ?t = "unat tip"
  have lt: "?l < ?t" using assms by (simp add: word_less_nat_alt)
  have t: "?t < 2 ^ 64" using unat_bound [of tip] by simp
  have l: "unat (saturating_add local_height 1) = Suc ?l"
    using lt t by (simp add: unat_saturating_add)
  have "unat (min tip (saturating_add local_height MAX_BLOCKS_PER_SYNC)) =
      min ?t (unat (saturating_add local_height MAX_BLOCKS_PER_SYNC))"
    by (simp add: min_def word_le_nat_alt)
  also have "\<dots> = min ?t (?l + 64)"
    using t by (simp add: unat_saturating_add MAX_BLOCKS_PER_SYNC_def)
  finally have h: "sync_heights local_height tip = map of_nat [Suc ?l..<Suc (min ?t (?l + 64))]"
    by (simp add: sync_heights_def l del: upt_Suc)
  have "map unat (map of_nat [Suc ?l..<Suc (min ?t (?l + 64))] :: u64 list) = [Suc ?l..<Suc (min ?t (?l + 64))]"
    using t by (auto intro!: map_idI simp: unat_of_nat simp del: upt_Suc)
  then show ?thesis unfolding h using lt by simp
qed

text \<open>
  Back-off: after \<open>k\<close> failures in a row a peer is retried \<open>2 ^ k\<close> seconds later, from two seconds
  and never more than sixty, and one success brings the peer back to the regular interval.
\<close>

lemma peer_backoff:
  assumes "0 < k" "k < 2 ^ 32" "failures p = 0"
  shows "next_attempt ((mark_failed now ^^ k) p) = now + min 60 (2 ^ min k 6) \<and>
    next_attempt (mark_ok now tip ((mark_failed now ^^ k) p)) = now + 5 \<and>
    failures (mark_ok now tip ((mark_failed now ^^ k) p)) = 0"
proof -
  have count: "unat (failures ((mark_failed now ^^ i) p)) = i" if "i < 2 ^ 32" for i
    using that
  proof (induction i)
    case (Suc i)
    then show ?case by (simp add: mark_failed_def Let_def unat_saturating_add)
  qed (simp add: assms(3))
  obtain i where k: "k = Suc i" using assms(1) by (cases k) auto
  define q where "q = (mark_failed now ^^ i) p"
  have "unat (failures q) = i" using count [of i] assms(2) k by (simp add: q_def)
  then have "unat (saturating_sub (saturating_add (failures q) 1) 1) = i"
    using assms(2) k by (simp add: unat_saturating_add unat_saturating_sub)
  then have shift: "unat (min (saturating_sub (saturating_add (failures q) 1) 1) 5) = min i 5"
    by (simp add: min_def word_le_nat_alt)
  have "unat (min (saturating_mul PEER_RETRY_BASE (push_bit j 1)) PEER_RETRY_MAX) = min 60 (2 ^ Suc j)" if "j \<le> 5" for j
  proof -
    have "j \<in> {0, 1, 2, 3, 4, 5}" using that by auto
    then show ?thesis by (auto simp: saturating_mul_def PEER_RETRY_BASE_def PEER_RETRY_MAX_def)
  qed
  from this [of "min i 5"] have "next_attempt (mark_failed now q) = now + min 60 (2 ^ min k 6)"
    by (simp add: mark_failed_def Let_def shift k)
  then show ?thesis by (simp add: k q_def mark_ok_def DEFAULT_SYNC_INTERVAL_def)
qed

text \<open>Deduplication keeps the first occurrence of every peer, in order.\<close>

lemma dedupe_loop_filter: "dedupe_loop seen ps = filter (\<lambda>p. p \<notin> seen) (dedupe_loop {} ps)"
proof (induction ps arbitrary: seen)
  case (Cons p ps)
  show ?case
    using Cons [of seen] Cons [of "insert p seen"] Cons [of "{p}"] by (auto intro!: filter_cong)
qed simp

lemma dedupe_peers_correct:
  "distinct (dedupe_peers ps) \<and> set (dedupe_peers ps) = set ps \<and>
   dedupe_peers (p # ps) = p # filter (\<lambda>q. q \<noteq> p) (dedupe_peers ps)"
proof -
  have "distinct (dedupe_loop seen ps) \<and> set (dedupe_loop seen ps) = set ps - seen" for seen
    by (induction ps arbitrary: seen) auto
  then show ?thesis using dedupe_loop_filter [of "{p}" ps] by (simp add: dedupe_peers_def)
qed

text \<open>
  C40. A round of missing-parent requests whose first request gets no answer: the hash that failed is
  queued again, the other hashes that were due are dropped from the queue and from the retry times.
\<close>

theorem failed_round_drops_requests:
  assumes "requests_ok n" "request_on_stream X s (GetBlockByHash h) = (s', Err e)"
    and "filter (due (missing_parent_retry_at n) (stream_clock (cl_ops X) s)) (missing_parent_requests n) = h # hs"
    and "\<not> fc_contains (env_fork E) (fork_choice n) h"
    and "request_missing_parent_blocks E X (s, n) = ((s'', n'), r)"
  shows "r = Err e \<and> set (missing_parent_requests n') = set (missing_parent_requests n) - set hs \<and>
    (\<forall>x \<in> set hs. x \<notin> missing_parent_request_set n' \<and> bt_get (missing_parent_retry_at n') x = None)"
proof -
  let ?now = "stream_clock (cl_ops X) s"
  let ?r = "missing_parent_retry_at n" and ?q = "missing_parent_requests n"
  have ok: "distinct ?q" "set ?q = missing_parent_request_set n" "bt_wf ?r"
    using assms(1) by (simp_all add: requests_ok_def)
  define n1 where "n1 = n\<lparr>missing_parent_requests := filter (\<lambda>x. \<not> due ?r ?now x) ?q,
    missing_parent_request_set := missing_parent_request_set n - set (h # hs),
    missing_parent_retry_at := filter (\<lambda>e. fst e \<notin> set (h # hs)) ?r\<rparr>"
  have "drain_missing_parent_requests_at n ?now = (n1, h # hs)"
    by (simp add: drain_missing_parent_requests_at_def drain_loop_spec [OF ok(1)] assms(3) n1_def)
  then have n': "r = Err e" "n' = retry_missing_parent_request E n1 h (stream_clock (cl_ops X) s')"
    using assms(5) by (auto simp: request_missing_parent_blocks_def request_block_by_hash_def assms(2))
  have due: "set (h # hs) = {x \<in> set ?q. due ?r ?now x}" unfolding assms(3) [symmetric] by simp
  have dis: "h \<notin> set hs" using distinct_filter [OF ok(1), of "due ?r ?now"] by (simp add: assms(3))
  have "bt_get (filter (\<lambda>e. fst e \<notin> set (h # hs)) ?r) x = None" if "x \<in> set hs" for x
    using bt_get_retain [OF ok(3), of "\<lambda>k _. k \<notin> set (h # hs)" x] that
    by (simp add: bt_retain_def split: option.splits)
  then have get: "bt_get (missing_parent_retry_at n') x = None" if "x \<in> set hs" for x
    using that dis
    by (auto simp: n' retry_missing_parent_request_def queue_missing_parent_request_at_def Let_def n1_def)
  have "set (missing_parent_requests n') = insert h {x \<in> set ?q. \<not> due ?r ?now x}"
    "missing_parent_request_set n' = insert h (missing_parent_request_set n - set (h # hs))"
    using assms(4)
    by (auto simp: n' retry_missing_parent_request_def queue_missing_parent_request_at_def Let_def n1_def)
  with get due dis n'(1) ok(2) show ?thesis by auto
qed

theorem failed_round_drops_requests_witness:
  "set (missing_parent_requests (snd (fst (request_missing_parent_blocks sample_env closed_client
     ((), sample_node\<lparr>missing_parent_requests := [[7], [8]], missing_parent_request_set := {[7], [8]},
        missing_parent_retry_at := [([7], 50), ([8], 60)]\<rparr>))))) = {[7]}"
proof -
  let ?n = "sample_node\<lparr>missing_parent_requests := [[7], [8]], missing_parent_request_set := {[7], [8]},
        missing_parent_retry_at := [([7], 50), ([8], 60)]\<rparr>"
  obtain s' n' r where run: "request_missing_parent_blocks sample_env closed_client ((), ?n) = ((s', n'), r)"
    by (metis prod.collapse)
  have ok: "requests_ok ?n" by (auto simp: requests_ok_def bt_wf_def)
  have due: "filter (due (missing_parent_retry_at ?n) (stream_clock (cl_ops closed_client) ())) (missing_parent_requests ?n)
      = [[7], [8]]"
    by (simp add: due_def closed_client_def)
  have new: "\<not> fc_contains (env_fork sample_env) (fork_choice ?n) [7]"
    by (simp add: list_fork_def known_def sample_node_def genesis_def sample_block_def sample_core_def)
  have "set (missing_parent_requests n') = set (missing_parent_requests ?n) - set [[8]]"
    using failed_round_drops_requests [OF ok closed_client_request due new run] by (elim conjE)
  also have "\<dots> = {[7]}" by (simp add: insert_Diff_if)
  finally have "set (missing_parent_requests n') = {[7]}" .
  then show ?thesis by (simp add: run)
qed

end
