(* ===== verification/Wallet.thy ===== *)
theory Wallet
  imports Core
begin

text \<open>
  The wallet (\<open>src/runtime/wallet/wallet.rs\<close>, \<open>error.rs\<close>) and the choice of the next nonce for a
  wallet's transaction (\<open>src/mempool.rs\<close>). Key generation, derivation and signatures come from the
  protocol crate (record \<open>crypto\<close>); the JSON-RPC calls of \<open>resolve_wallet_nonce\<close> and the parsing of
  their answers are parameters that give the parsed responses or an error.
\<close>

section \<open>Keys and signatures\<close>

record crypto =
  generate_keypair :: "bytes \<times> bytes"
  derive_public_key :: "bytes \<Rightarrow> bytes"
  address_from_public_key :: "bytes \<Rightarrow> address"
  address_to_string :: "address \<Rightarrow> string"
  sign :: "bytes \<Rightarrow> bytes \<Rightarrow> bytes"
  signing_bytes :: "transaction \<Rightarrow> bytes"

datatype wallet_error = SenderAddressMismatch

record wallet =
  wallet_public_key :: bytes
  wallet_secret_key :: bytes
  wallet_address_field :: address

definition from_keypair :: "crypto \<Rightarrow> bytes \<Rightarrow> bytes \<Rightarrow> wallet" where
  "from_keypair Y pk sk = \<lparr>wallet_public_key = pk, wallet_secret_key = sk,
     wallet_address_field = address_from_public_key Y pk\<rparr>"

definition wallet_generate :: "crypto \<Rightarrow> wallet" where
  "wallet_generate Y = from_keypair Y (fst (generate_keypair Y)) (snd (generate_keypair Y))"

definition from_secret_key :: "crypto \<Rightarrow> bytes \<Rightarrow> wallet" where
  "from_secret_key Y sk = from_keypair Y (derive_public_key Y sk) sk"

definition wallet_address :: "crypto \<Rightarrow> wallet \<Rightarrow> string" where
  "wallet_address Y w = address_to_string Y (wallet_address_field w)"

definition sign_transaction :: "crypto \<Rightarrow> wallet \<Rightarrow> transaction \<Rightarrow> wallet_error + signed_transaction" where
  "sign_transaction Y w t =
     (if tx_from t \<noteq> wallet_address_field w then Err SenderAddressMismatch
      else Ok \<lparr>payload = t, public_key = wallet_public_key w,
        signature = sign Y (wallet_secret_key w) (signing_bytes Y t)\<rparr>)"

section \<open>The next nonce\<close>

record mempool_tx_rpc_response =
  rpc_from :: string
  rpc_nonce :: u64

text \<open>\<open>dedup\<close> on a sorted list, and the loop over the pending nonces with its \<open>break\<close>.\<close>

fun next_free :: "u64 list \<Rightarrow> u64 \<Rightarrow> u64" where
  "next_free [] next = next"
| "next_free (n # ns) next =
     (if n = next then next_free ns (saturating_add next 1)
      else if next < n then next
      else next_free ns next)"

definition pending_nonces :: "string \<Rightarrow> mempool_tx_rpc_response list \<Rightarrow> u64 list" where
  "pending_nonces a txs = remdups_adj (sort (map rpc_nonce (filter (\<lambda>t. rpc_from t = a) txs)))"

definition resolve_wallet_nonce ::
  "crypto \<Rightarrow> (string \<Rightarrow> 'x + u64 option) \<Rightarrow> ('x + mempool_tx_rpc_response list) \<Rightarrow> address \<Rightarrow> 'x + u64" where
  "resolve_wallet_nonce Y get_balance get_mempool a =
     (let address_hex = address_to_string Y a in
      res_bind (get_balance address_hex) (\<lambda>nonce.
      res_bind get_mempool (\<lambda>txs.
      Ok (next_free (pending_nonces address_hex txs) (case nonce of None \<Rightarrow> 0 | Some n \<Rightarrow> n)))))"

section \<open>Properties\<close>

lemma distinct_adj_remdups_sorted: "sorted xs \<Longrightarrow> distinct (remdups_adj (xs :: 'a::linorder list))"
  by (induction xs rule: remdups_adj.induct) (auto simp: less_le)

lemma next_free_correct:
  assumes "sorted ns" "distinct ns" "\<forall>n \<in> set ns. n \<noteq> - 1"
  shows "next \<le> next_free ns next \<and> next_free ns next \<notin> set ns \<and> (\<forall>n. next \<le> n \<and> n < next_free ns next \<longrightarrow> n \<in> set ns)"
  using assms
proof (induction ns arbitrary: "next")
  case (Cons x ns)
  show ?case
  proof (cases "x = next")
    case True
    have lt: "unat x + 1 < 2 ^ 64"
    proof -
      have "x \<noteq> - 1" using Cons.prems(3) by simp
      then have "unat x \<noteq> unat (- 1 :: u64)" by (simp add: word_unat_eq_iff)
      then have "unat x \<noteq> 2 ^ 64 - 1" by (simp add: unat_minus_one_word_max)
      then show ?thesis using unat_bound [of x] by simp
    qed
    then have s: "unat (saturating_add x 1) = unat x + 1" by (simp add: unat_saturating_add)
    have IH: "saturating_add x 1 \<le> next_free ns (saturating_add x 1) \<and>
        next_free ns (saturating_add x 1) \<notin> set ns \<and>
        (\<forall>n. saturating_add x 1 \<le> n \<and> n < next_free ns (saturating_add x 1) \<longrightarrow> n \<in> set ns)"
      using Cons.prems by (intro Cons.IH) auto
    have split: "x \<le> n \<longleftrightarrow> n = x \<or> saturating_add x 1 \<le> n" for n
      using s by (auto simp: word_le_nat_alt word_unat_eq_iff)
    have "x < next_free ns (saturating_add x 1)"
      using IH s by (auto simp: word_le_nat_alt word_less_nat_alt)
    then show ?thesis using True IH split by auto
  next
    case False
    show ?thesis
    proof (cases "next < x")
      case True
      then have "next \<notin> set ns" using Cons.prems(1) by auto
      then show ?thesis using True False by auto
    next
      case ge: False
      then show ?thesis using False Cons.IH [of "next"] Cons.prems by fastforce
    qed
  qed
qed auto

text \<open>
  The nonce chosen for a wallet is the least one from the account's nonce on that none of the
  wallet's pending transactions uses, provided no pending nonce is the largest \<open>u64\<close>.
\<close>

lemma resolve_wallet_nonce_least:
  assumes "get_balance (address_to_string Y a) = Ok start" "get_mempool = Ok txs"
    and "\<forall>t \<in> set txs. rpc_nonce t \<noteq> - 1"
  shows "\<exists>n. resolve_wallet_nonce Y get_balance get_mempool a = Ok n \<and>
    (case start of None \<Rightarrow> 0 | Some s \<Rightarrow> s) \<le> n \<and>
    (\<forall>t \<in> set txs. rpc_from t = address_to_string Y a \<longrightarrow> rpc_nonce t \<noteq> n) \<and>
    (\<forall>k. (case start of None \<Rightarrow> 0 | Some s \<Rightarrow> s) \<le> k \<and> k < n \<longrightarrow>
       (\<exists>t \<in> set txs. rpc_from t = address_to_string Y a \<and> rpc_nonce t = k))"
proof -
  let ?ns = "pending_nonces (address_to_string Y a) txs"
  have set: "set ?ns = rpc_nonce ` {t \<in> set txs. rpc_from t = address_to_string Y a}"
    by (simp add: pending_nonces_def)
  have sorted: "sorted ?ns" "distinct ?ns"
    by (simp_all add: pending_nonces_def distinct_adj_remdups_sorted)
  show ?thesis
    using next_free_correct [OF sorted, of "case start of None \<Rightarrow> 0 | Some s \<Rightarrow> s"] assms set
    by (auto simp: resolve_wallet_nonce_def Let_def image_iff)
qed

definition sample_crypto :: crypto where
  "sample_crypto = \<lparr>generate_keypair = ([1], [2]), derive_public_key = (\<lambda>sk. sk),
     address_from_public_key = (\<lambda>pk. pk), address_to_string = (\<lambda>_. ''a''),
     sign = (\<lambda>sk m. sk @ m), signing_bytes = (\<lambda>t. tx_from t)\<rparr>"

text \<open>
  A wallet signs only its own transactions, and what it signs carries the transaction unchanged,
  the wallet's public key and a signature of the transaction's signing bytes.
\<close>

lemma sign_transaction_correct:
  "sign_transaction Y w t = Ok s \<longleftrightarrow>
     tx_from t = wallet_address_field w \<and> payload s = t \<and> public_key s = wallet_public_key w \<and>
     signature s = sign Y (wallet_secret_key w) (signing_bytes Y t)"
  by (cases s) (auto simp: sign_transaction_def)

end
