(* ===== verification/Text.thy ===== *)
theory Text
  imports Prelude
begin

text \<open>
  The parts of Rust's standard library on text that the program uses: trimming, splitting, lines,
  comparison without case, and decimal numbers. A string is the list of the bytes of its UTF-8
  encoding, each as a character; white space is ASCII white space. The round trip of decimal numbers
  is shared by the HTTP client and the RPC responses.
\<close>

section \<open>Splitting and trimming\<close>

definition is_whitespace :: "char \<Rightarrow> bool" where
  "is_whitespace c \<longleftrightarrow> (of_char c :: nat) \<in> {9, 10, 11, 12, 13, 32}"

definition trim_start :: "string \<Rightarrow> string" where
  "trim_start s = dropWhile is_whitespace s"

definition trim_end_matches :: "(char \<Rightarrow> bool) \<Rightarrow> string \<Rightarrow> string" where
  "trim_end_matches p s = rev (dropWhile p (rev s))"

definition trim :: "string \<Rightarrow> string" where
  "trim s = trim_end_matches is_whitespace (trim_start s)"

definition starts_with :: "string \<Rightarrow> string \<Rightarrow> bool" where
  "starts_with p s \<longleftrightarrow> take (length p) s = p"

definition strip_prefix :: "string \<Rightarrow> string \<Rightarrow> string option" where
  "strip_prefix p s = (if starts_with p s then Some (drop (length p) s) else None)"

text \<open>The position of the first occurrence of a pattern, and \<open>split_once\<close>.\<close>

fun find_sub :: "'a list \<Rightarrow> 'a list \<Rightarrow> nat option" where
  "find_sub p [] = (if p = [] then Some 0 else None)"
| "find_sub p (x # xs) = (if take (length p) (x # xs) = p then Some 0 else map_option Suc (find_sub p xs))"

definition split_once :: "string \<Rightarrow> string \<Rightarrow> (string \<times> string) option" where
  "split_once p s = map_option (\<lambda>i. (take i s, drop (i + length p) s)) (find_sub p s)"

text \<open>\<open>lines\<close>: split at newlines, without a carriage return before them and without an empty last line.\<close>

fun split_lines :: "string \<Rightarrow> string list" where
  "split_lines [] = [[]]"
| "split_lines (c # cs) =
     (if of_char c = (10 :: nat) then [] # split_lines cs
      else case split_lines cs of [] \<Rightarrow> [[c]] | l # ls \<Rightarrow> (c # l) # ls)"

definition strip_cr :: "string \<Rightarrow> string" where
  "strip_cr l = (if l \<noteq> [] \<and> of_char (last l) = (13 :: nat) then butlast l else l)"

definition text_lines :: "string \<Rightarrow> string list" where
  "text_lines s =
     (let ls = split_lines s;
          ended = (if last ls = [] then map strip_cr (butlast ls) else map strip_cr (butlast ls) @ [last ls])
      in ended)"

definition ascii_lower :: "char \<Rightarrow> char" where
  "ascii_lower c = (if 65 \<le> (of_char c :: nat) \<and> (of_char c :: nat) \<le> 90 then char_of (of_char c + 32 :: nat) else c)"

definition eq_ignore_ascii_case :: "string \<Rightarrow> string \<Rightarrow> bool" where
  "eq_ignore_ascii_case a b \<longleftrightarrow> map ascii_lower a = map ascii_lower b"

section \<open>Decimal numbers\<close>

text \<open>\<open>from_str\<close> of the unsigned integers below \<open>bound\<close>: an optional plus sign, then digits.\<close>

definition is_digit :: "char \<Rightarrow> bool" where
  "is_digit c \<longleftrightarrow> 48 \<le> (of_char c :: nat) \<and> (of_char c :: nat) \<le> 57"

definition parse_uint :: "nat \<Rightarrow> string \<Rightarrow> nat option" where
  "parse_uint bound s =
     (let ds = (if s \<noteq> [] \<and> hd s = CHR ''+'' then tl s else s);
          v = foldl (\<lambda>acc c. 10 * acc + (of_char c - 48)) 0 ds
      in if ds = [] \<or> \<not> list_all is_digit ds \<or> bound \<le> v then None else Some v)"

definition parse_word :: "string \<Rightarrow> 'w::len word option" where
  "parse_word s = map_option of_nat (parse_uint (2 ^ LENGTH('w)) s)"

text \<open>\<open>to_string\<close> of an unsigned integer.\<close>

fun show_uint :: "nat \<Rightarrow> string" where
  "show_uint n = (if n < 10 then [] else show_uint (n div 10)) @ [char_of (48 + n mod 10)]"

definition show_word :: "'w::len word \<Rightarrow> string" where
  "show_word w = show_uint (unat w)"

declare show_uint.simps [simp del]

lemma digit_char: "d < 10 \<Longrightarrow> of_char (char_of (48 + d :: nat)) = (48 + d :: nat)"
  by (simp add: of_char_of)

lemma is_digit_show: "list_all is_digit (show_uint n)"
proof (induction n rule: show_uint.induct)
  case (1 n)
  have "is_digit (char_of (48 + n mod 10))" using digit_char [of "n mod 10"] by (simp add: is_digit_def)
  then show ?case using 1 by (subst show_uint.simps) simp
qed

lemma show_uint_nonempty: "show_uint n \<noteq> []"
  by (subst show_uint.simps) simp

lemma show_uint_value: "foldl (\<lambda>acc c. 10 * acc + (of_char c - 48)) 0 (show_uint n) = n"
proof (induction n rule: show_uint.induct)
  case (1 n)
  show ?case
  proof (cases "n < 10")
    case False
    then show ?thesis using 1 digit_char [of "n mod 10"] by (subst show_uint.simps) simp
  qed (use digit_char [of "n mod 10"] in \<open>subst show_uint.simps, simp\<close>)
qed

lemma show_uint_no_plus: "hd (show_uint n) \<noteq> CHR ''+''"
proof
  assume "hd (show_uint n) = CHR ''+''"
  moreover have "is_digit (hd (show_uint n))"
    using is_digit_show [of n] show_uint_nonempty [of n] by (cases "show_uint n") auto
  ultimately show False by (simp add: is_digit_def)
qed

lemma parse_show_uint: "n < bound \<Longrightarrow> parse_uint bound (show_uint n) = Some n"
  using show_uint_nonempty [of n] show_uint_no_plus [of n] is_digit_show [of n] show_uint_value [of n]
  by (simp add: parse_uint_def Let_def)

lemma parse_show_word: "parse_word (show_word w) = Some (w :: 'w::len word)"
  using unat_bound [of w] by (simp add: parse_word_def show_word_def parse_show_uint)

section \<open>Occurrences\<close>

lemma find_sub_Some: "find_sub p xs = Some i \<Longrightarrow> i + length p \<le> length xs \<and> take (length p) (drop i xs) = p"
proof (induction xs arbitrary: i)
  case (Cons x xs)
  show ?case
  proof (cases "take (length p) (x # xs) = p")
    case True
    then have "length p \<le> length (x # xs)" by (metis length_take min.cobounded1)
    then show ?thesis using Cons.prems True by auto
  qed (use Cons in auto)
qed (auto split: if_splits)

text \<open>What is appended after the first occurrence does not move it, and a prefix that ends before it has none.\<close>

lemma find_sub_append: "find_sub p xs = Some i \<Longrightarrow> find_sub p (xs @ ys) = Some i"
proof (induction xs arbitrary: i)
  case Nil
  then show ?case by (cases ys) (auto split: if_splits)
next
  case (Cons x xs)
  show ?case
  proof (cases "take (length p) (x # xs) = p")
    case True
    then have "length p \<le> length (x # xs)" by (metis length_take min.cobounded1)
    then have "take (length p) (x # xs @ ys) = p" using True by (metis append_Cons take_append append_Nil2 diff_is_0_eq take_0)
    then show ?thesis using Cons.prems True by auto
  next
    case False
    then have ne: "find_sub p xs \<noteq> None" using Cons.prems by auto
    then obtain j where j: "find_sub p xs = Some j" by auto
    have "take (length p) (x # xs @ ys) \<noteq> p"
    proof
      assume eq: "take (length p) (x # xs @ ys) = p"
      from find_sub_Some [OF j] have "length p \<le> length (x # xs)" by simp
      then have "take (length p) (x # xs @ ys) = take (length p) (x # xs)" by (simp add: take_Cons')
      with eq False show False by simp
    qed
    then show ?thesis using Cons False j by auto
  qed
qed

lemma find_sub_prefix: "find_sub p (xs @ ys) = Some i \<Longrightarrow> find_sub p xs = Some j \<Longrightarrow> j = i"
  using find_sub_append [of p xs j ys] by simp

end
