(* ===== verification/Config.thy ===== *)
theory Config
  imports P2p Wallet Text
begin

text \<open>
  The configuration of a running node (\<open>src/main.rs\<close>: \<open>RunConfig\<close>, \<open>RunConfigFile\<close>,
  \<open>parse_run_config\<close> and its helpers, and the part of \<open>run_node\<close> that turns the configuration into the
  initial peers and the transaction pool). Socket addresses are an abstract type \<open>'a\<close> with their parser;
  the file system, JSON decoding, hex decoding and key derivation are fields of \<open>config_env\<close>. Strings
  are ASCII. Durations are whole seconds, as every duration of the configuration is. An error is a
  constructor of \<open>config_error\<close> in place of the message that the code formats.
\<close>

section \<open>Data\<close>

record 'a run_config =
  db_path :: string
  listen_addrs :: "'a list"
  rpc_addr :: 'a
  cfg_peers :: "'a list"
  peers_file :: "string option"
  gateway_url :: "string option"
  public_addrs :: "'a list"
  gateway_heartbeat :: u64
  shutdown_file :: string
  max_peers :: usize
  cfg_min_relay_fee :: u32
  cfg_market_fee :: u32
  low_fee_expiry :: u64
  mempool_expiry :: u64
  cfg_miner_address :: address
  miner_secret_key :: "bytes option"
  mine :: bool
  mine_interval :: u64
  mine_attempts :: u64

datatype 'b one_or_many = One 'b | Many "'b list"

primrec into_vec :: "'b one_or_many \<Rightarrow> 'b list" where
  "into_vec (One v) = [v]"
| "into_vec (Many vs) = vs"

record run_config_file =
  f_db_path :: string
  f_listen_addr :: "string one_or_many"
  f_rpc_addr :: string
  f_peers :: "string list"
  f_peers_file :: "string option"
  f_gateway_url :: "string option"
  f_public_addr :: "string one_or_many option"
  f_gateway_heartbeat_secs :: u64
  f_shutdown_file :: string
  f_max_peers :: usize
  f_min_relay_fee :: "u32 option"
  f_market_fee :: "u32 option"
  f_low_fee_expiry_secs :: "u64 option"
  f_mempool_expiry_secs :: "u64 option"
  f_wallet :: "string option"
  f_miner_address :: "string option"
  f_miner_secret_key :: "string option"
  f_mine :: bool
  f_mine_interval_secs :: u64
  f_mine_attempts :: u64

record wallet_file =
  wf_address :: string
  wf_secret_key :: string

datatype config_error =
    MissingValue string
  | InvalidSocket string
  | InvalidNumber string
  | MissingSecretKey
  | InvalidSecretKeyHex
  | SecretKeyLength
  | MissingAddress
  | InvalidAddressHex
  | AddressLength
  | ReadFailedAt string
  | ParseFailedAt string
  | WalletMismatch
  | PremineFixed
  | UnknownOption string

text \<open>What reading a file gives.\<close>

datatype file_read = Contents string | FileNotFound | FileUnreadable

record 'a config_env =
  parse_addr :: "string \<Rightarrow> 'a option"
  read_to_string :: "string \<Rightarrow> file_read"
  json_run_config :: "string \<Rightarrow> run_config_file option"
  json_wallet :: "string \<Rightarrow> wallet_file option"
  hex_decode :: "string \<Rightarrow> bytes option"
  config_crypto :: crypto
  config_ADDRESS_SIZE :: nat
  config_SECRET_KEY_SIZE :: nat
  config_BLOCK_TIME :: u64

definition DEFAULT_NODE_DB :: string where "DEFAULT_NODE_DB = ''./data/paqus''"
definition DEFAULT_LISTEN_ADDR :: string where "DEFAULT_LISTEN_ADDR = ''0.0.0.0:5555''"
definition DEFAULT_RPC_ADDR :: string where "DEFAULT_RPC_ADDR = ''127.0.0.1:6666''"
definition DEFAULT_CONFIG_FILE :: string where "DEFAULT_CONFIG_FILE = ''./data/paqus/node.json''"
definition DEFAULT_PEERS_FILE :: string where "DEFAULT_PEERS_FILE = ''./data/paqus/peers.json''"
definition DEFAULT_MAX_PEERS :: usize where "DEFAULT_MAX_PEERS = 128"
definition DEFAULT_SHUTDOWN_FILE :: string where "DEFAULT_SHUTDOWN_FILE = ''./data/paqus/STOP''"
definition DEFAULT_GATEWAY_HEARTBEAT :: u64 where "DEFAULT_GATEWAY_HEARTBEAT = 60"

text \<open>\<open>None\<close> is the panic of \<open>expect\<close> on a default address that does not parse.\<close>

definition default_run_config :: "'a config_env \<Rightarrow> 'a run_config option" where
  "default_run_config E =
     (case (parse_addr E DEFAULT_LISTEN_ADDR, parse_addr E DEFAULT_RPC_ADDR) of
        (Some l, Some r) \<Rightarrow> Some \<lparr>
          db_path = DEFAULT_NODE_DB, listen_addrs = [l], rpc_addr = r, cfg_peers = [],
          peers_file = Some DEFAULT_PEERS_FILE, gateway_url = None, public_addrs = [],
          gateway_heartbeat = DEFAULT_GATEWAY_HEARTBEAT, shutdown_file = DEFAULT_SHUTDOWN_FILE,
          max_peers = DEFAULT_MAX_PEERS, cfg_min_relay_fee = DEFAULT_MIN_RELAY_FEE,
          cfg_market_fee = DEFAULT_MARKET_FEE, low_fee_expiry = LOW_FEE_EXPIRY_SECS,
          mempool_expiry = MEMPOOL_EXPIRY_SECS, cfg_miner_address = replicate 20 9,
          miner_secret_key = None, mine = False, mine_interval = config_BLOCK_TIME E,
          mine_attempts = 10000\<rparr>
      | _ \<Rightarrow> None)"

text \<open>The default of the configuration file, with the text of an address.\<close>

definition default_run_config_file :: "('a \<Rightarrow> string) \<Rightarrow> 'a config_env \<Rightarrow> run_config_file option" where
  "default_run_config_file shw E =
     map_option (\<lambda>d. \<lparr>
       f_db_path = db_path d, f_listen_addr = Many (map shw (listen_addrs d)), f_rpc_addr = shw (rpc_addr d),
       f_peers = [], f_peers_file = Some DEFAULT_PEERS_FILE, f_gateway_url = None, f_public_addr = None,
       f_gateway_heartbeat_secs = gateway_heartbeat d, f_shutdown_file = shutdown_file d, f_max_peers = max_peers d,
       f_min_relay_fee = Some (cfg_min_relay_fee d), f_market_fee = Some (cfg_market_fee d),
       f_low_fee_expiry_secs = Some (low_fee_expiry d), f_mempool_expiry_secs = Some (mempool_expiry d),
       f_wallet = None, f_miner_address = None, f_miner_secret_key = None, f_mine = False,
       f_mine_interval_secs = mine_interval d, f_mine_attempts = mine_attempts d\<rparr>)
     (default_run_config E)"

section \<open>Values of options\<close>

definition parse_socket :: "'a config_env \<Rightarrow> string option \<Rightarrow> string \<Rightarrow> config_error + 'a" where
  "parse_socket E value flag =
     res_bind (ok_or value (MissingValue flag)) (\<lambda>s. ok_or (parse_addr E s) (InvalidSocket flag))"

definition parse_number :: "string option \<Rightarrow> string \<Rightarrow> config_error + 'w::len word" where
  "parse_number value flag =
     res_bind (ok_or value (MissingValue flag)) (\<lambda>s. ok_or (parse_word s) (InvalidNumber flag))"

definition parse_secret_key :: "'a config_env \<Rightarrow> string option \<Rightarrow> config_error + bytes" where
  "parse_secret_key E value =
     res_bind (ok_or value MissingSecretKey) (\<lambda>s.
     res_bind (ok_or (hex_decode E s) InvalidSecretKeyHex) (\<lambda>bs.
     if length bs = config_SECRET_KEY_SIZE E then Ok bs else Err SecretKeyLength))"

definition parse_address_hex :: "'a config_env \<Rightarrow> string \<Rightarrow> config_error + address" where
  "parse_address_hex E s =
     res_bind (ok_or (hex_decode E s) InvalidAddressHex) (\<lambda>bs.
     if length bs = config_ADDRESS_SIZE E then Ok bs else Err AddressLength)"

definition parse_address :: "'a config_env \<Rightarrow> string option \<Rightarrow> config_error + address" where
  "parse_address E value = res_bind (ok_or value MissingAddress) (parse_address_hex E)"

definition load_wallet :: "'a config_env \<Rightarrow> string \<Rightarrow> config_error + wallet" where
  "load_wallet E path =
     res_bind (case read_to_string E path of Contents s \<Rightarrow> Ok s | _ \<Rightarrow> Err (ReadFailedAt path)) (\<lambda>contents.
     res_bind (ok_or (json_wallet E contents) (ParseFailedAt path)) (\<lambda>file.
     res_bind (parse_address E (Some (wf_address file))) (\<lambda>address.
     res_bind (parse_secret_key E (Some (wf_secret_key file))) (\<lambda>secret_key.
     let w = from_secret_key (config_crypto E) secret_key in
     if wallet_address_field w \<noteq> address then Err WalletMismatch else Ok w))))"

definition apply_wallet_file ::
  "'a config_env \<Rightarrow> string option \<Rightarrow> 'a run_config \<Rightarrow> config_error + 'a run_config" where
  "apply_wallet_file E path c =
     res_bind (ok_or path (MissingValue ''--wallet'')) (\<lambda>p.
     res_bind (load_wallet E p) (\<lambda>w.
     Ok (c\<lparr>cfg_miner_address := wallet_address_field w, miner_secret_key := Some (wallet_secret_key w)\<rparr>)))"

section \<open>The configuration file\<close>

definition load_run_config_file_if_exists ::
  "'a config_env \<Rightarrow> string \<Rightarrow> config_error + run_config_file option" where
  "load_run_config_file_if_exists E path =
     (case read_to_string E path of
        FileNotFound \<Rightarrow> Ok None
      | FileUnreadable \<Rightarrow> Err (ReadFailedAt path)
      | Contents s \<Rightarrow> res_bind (ok_or (json_run_config E s) (ParseFailedAt path)) (\<lambda>f. Ok (Some f)))"

definition parse_addrs :: "'a config_env \<Rightarrow> string \<Rightarrow> string list \<Rightarrow> config_error + 'a list" where
  "parse_addrs E field ss =
     try_fold (\<lambda>s acc. res_bind (ok_or (parse_addr E s) (InvalidSocket field)) (\<lambda>a. Ok (acc @ [a]))) ss []"

text \<open>The optional miner identity at the end of the file's application.\<close>

definition apply_identity ::
  "'a config_env \<Rightarrow> run_config_file \<Rightarrow> 'a run_config \<Rightarrow> config_error + 'a run_config" where
  "apply_identity E f c =
     res_bind (case f_wallet f of None \<Rightarrow> Ok c | Some p \<Rightarrow> apply_wallet_file E (Some p) c) (\<lambda>c.
     res_bind (case f_miner_address f of None \<Rightarrow> Ok c
       | Some s \<Rightarrow> res_bind (parse_address E (Some s)) (\<lambda>a. Ok (c\<lparr>cfg_miner_address := a\<rparr>))) (\<lambda>c.
     case f_miner_secret_key f of None \<Rightarrow> Ok c
       | Some s \<Rightarrow> res_bind (parse_secret_key E (Some s)) (\<lambda>k. Ok (c\<lparr>miner_secret_key := Some k\<rparr>))))"

definition apply_run_config_file ::
  "'a config_env \<Rightarrow> run_config_file \<Rightarrow> 'a run_config \<Rightarrow> config_error + 'a run_config" where
  "apply_run_config_file E f c =
     res_bind (parse_addrs E ''listen_addr'' (into_vec (f_listen_addr f))) (\<lambda>listen.
     res_bind (ok_or (parse_addr E (f_rpc_addr f)) (InvalidSocket ''rpc_addr'')) (\<lambda>rpc.
     res_bind (parse_addrs E ''peers'' (f_peers f)) (\<lambda>peers.
     res_bind (parse_addrs E ''public_addr''
       (case f_public_addr f of None \<Rightarrow> [] | Some x \<Rightarrow> into_vec x)) (\<lambda>public.
     apply_identity E f (c\<lparr>
       db_path := f_db_path f, listen_addrs := listen, rpc_addr := rpc, cfg_peers := peers,
       peers_file := f_peers_file f, gateway_url := f_gateway_url f, public_addrs := public,
       gateway_heartbeat := max (f_gateway_heartbeat_secs f) 1, shutdown_file := f_shutdown_file f,
       max_peers := max (f_max_peers f) 1,
       cfg_min_relay_fee := max (case f_min_relay_fee f of None \<Rightarrow> cfg_min_relay_fee c | Some x \<Rightarrow> x) MIN_RELAY_FEE_FLOOR,
       cfg_market_fee := (case f_market_fee f of None \<Rightarrow> cfg_market_fee c | Some x \<Rightarrow> x),
       low_fee_expiry := (case f_low_fee_expiry_secs f of None \<Rightarrow> low_fee_expiry c | Some x \<Rightarrow> max x 1),
       mempool_expiry := (case f_mempool_expiry_secs f of None \<Rightarrow> mempool_expiry c | Some x \<Rightarrow> max x 1),
       mine := f_mine f, mine_interval := f_mine_interval_secs f, mine_attempts := f_mine_attempts f\<rparr>)))))"

section \<open>Command-line options\<close>

text \<open>The state of the loop: the configuration and whether listen and public addresses were overridden.\<close>

record 'a parse_state =
  pst_config :: "'a run_config"
  listen_overridden :: bool
  public_overridden :: bool

definition set_config ::
  "('a run_config \<Rightarrow> 'a run_config) \<Rightarrow> 'a parse_state \<Rightarrow> config_error + 'a parse_state" where
  "set_config f s = Ok (s\<lparr>pst_config := f (pst_config s)\<rparr>)"

text \<open>One iteration: the new state and whether the option took the following argument.\<close>

definition apply_option ::
  "'a config_env \<Rightarrow> string \<Rightarrow> string option \<Rightarrow> 'a parse_state \<Rightarrow> config_error + 'a parse_state \<times> bool" where
  "apply_option E a v s =
     (let took = (\<lambda>r. res_bind r (\<lambda>s. Ok (s, True)));
          text = (\<lambda>flag. ok_or v (MissingValue flag))
      in
      if a = ''--config'' then took (res_bind (text a) (\<lambda>_. Ok s))
      else if a = ''--db'' \<or> a = ''--db-path'' then
        took (res_bind (text ''--db'') (\<lambda>x. set_config (\<lambda>c. c\<lparr>db_path := x\<rparr>) s))
      else if a = ''--listen'' then
        took (let s' = (if listen_overridden s then s
                else s\<lparr>pst_config := (pst_config s)\<lparr>listen_addrs := []\<rparr>, listen_overridden := True\<rparr>)
              in res_bind (parse_socket E v a) (\<lambda>x. set_config (\<lambda>c. c\<lparr>listen_addrs := listen_addrs c @ [x]\<rparr>) s'))
      else if a = ''--rpc-listen'' then
        took (res_bind (parse_socket E v a) (\<lambda>x. set_config (\<lambda>c. c\<lparr>rpc_addr := x\<rparr>) s))
      else if a = ''--peer'' then
        took (res_bind (parse_socket E v a) (\<lambda>x. set_config (\<lambda>c. c\<lparr>cfg_peers := cfg_peers c @ [x]\<rparr>) s))
      else if a = ''--peers-file'' then
        took (res_bind (text a) (\<lambda>x. set_config (\<lambda>c. c\<lparr>peers_file := Some x\<rparr>) s))
      else if a = ''--gateway'' \<or> a = ''--gateway-url'' then
        took (res_bind (text ''--gateway'') (\<lambda>x. set_config (\<lambda>c. c\<lparr>gateway_url := Some x\<rparr>) s))
      else if a = ''--public-addr'' then
        took (let s' = (if public_overridden s then s
                else s\<lparr>pst_config := (pst_config s)\<lparr>public_addrs := []\<rparr>, public_overridden := True\<rparr>)
              in res_bind (parse_socket E v a) (\<lambda>x. set_config (\<lambda>c. c\<lparr>public_addrs := public_addrs c @ [x]\<rparr>) s'))
      else if a = ''--gateway-heartbeat-secs'' then
        took (res_bind (parse_number v a) (\<lambda>x. set_config (\<lambda>c. c\<lparr>gateway_heartbeat := max x 1\<rparr>) s))
      else if a = ''--shutdown-file'' then
        took (res_bind (text a) (\<lambda>x. set_config (\<lambda>c. c\<lparr>shutdown_file := x\<rparr>) s))
      else if a = ''--max-peers'' then
        took (res_bind (parse_number v a) (\<lambda>x. set_config (\<lambda>c. c\<lparr>max_peers := max x 1\<rparr>) s))
      else if a = ''--min-relay-fee'' then
        took (res_bind (parse_number v a)
          (\<lambda>x. set_config (\<lambda>c. c\<lparr>cfg_min_relay_fee := max x MIN_RELAY_FEE_FLOOR\<rparr>) s))
      else if a = ''--market-fee'' then
        took (res_bind (parse_number v a) (\<lambda>x. set_config (\<lambda>c. c\<lparr>cfg_market_fee := x\<rparr>) s))
      else if a = ''--low-fee-expiry-secs'' then
        took (res_bind (parse_number v a) (\<lambda>x. set_config (\<lambda>c. c\<lparr>low_fee_expiry := max x 1\<rparr>) s))
      else if a = ''--mempool-expiry-secs'' then
        took (res_bind (parse_number v a) (\<lambda>x. set_config (\<lambda>c. c\<lparr>mempool_expiry := max x 1\<rparr>) s))
      else if a = ''--miner'' then
        took (res_bind (parse_address E v) (\<lambda>x. set_config (\<lambda>c. c\<lparr>cfg_miner_address := x\<rparr>) s))
      else if a = ''--wallet'' then
        took (res_bind (apply_wallet_file E v (pst_config s)) (\<lambda>c. Ok (s\<lparr>pst_config := c\<rparr>)))
      else if a = ''--miner-secret-key'' then
        took (res_bind (parse_secret_key E v) (\<lambda>x. set_config (\<lambda>c. c\<lparr>miner_secret_key := Some x\<rparr>) s))
      else if a = ''--premine'' then Err PremineFixed
      else if a = ''--mine'' then res_bind (set_config (\<lambda>c. c\<lparr>mine := True\<rparr>) s) (\<lambda>s. Ok (s, False))
      else if a = ''--mine-interval-secs'' then
        took (res_bind (parse_number v a) (\<lambda>x. set_config (\<lambda>c. c\<lparr>mine_interval := x\<rparr>) s))
      else if a = ''--mine-attempts'' then
        took (res_bind (parse_number v a) (\<lambda>x. set_config (\<lambda>c. c\<lparr>mine_attempts := x\<rparr>) s))
      else if (a = [] \<or> hd a \<noteq> CHR ''-'') \<and> db_path (pst_config s) = DEFAULT_NODE_DB then
        res_bind (set_config (\<lambda>c. c\<lparr>db_path := a\<rparr>) s) (\<lambda>s. Ok (s, False))
      else Err (UnknownOption a))"

function parse_options ::
  "'a config_env \<Rightarrow> string list \<Rightarrow> 'a parse_state \<Rightarrow> config_error + 'a parse_state" where
  "parse_options E [] s = Ok s"
| "parse_options E (a # rest) s =
     (case apply_option E a (if rest = [] then None else Some (hd rest)) s of
        Inl e \<Rightarrow> Err e
      | Inr (s', took) \<Rightarrow> parse_options E (if took then tl rest else rest) s')"
  by pat_completeness auto

termination parse_options
  by (relation "measure (\<lambda>(E, args, s). length args)") (auto split: if_splits)

fun config_path_arg :: "string list \<Rightarrow> string option" where
  "config_path_arg (a # b # args) = (if a = ''--config'' then Some b else config_path_arg (b # args))"
| "config_path_arg _ = None"

definition dedupe_socket_addrs :: "'a list \<Rightarrow> 'a list" where
  "dedupe_socket_addrs xs = dedupe_loop {} xs"

definition normalize_mempool_policy :: "'a run_config \<Rightarrow> 'a run_config" where
  "normalize_mempool_policy c =
     (let c = c\<lparr>cfg_min_relay_fee := max (cfg_min_relay_fee c) MIN_RELAY_FEE_FLOOR\<rparr>;
          c = c\<lparr>cfg_market_fee := max (cfg_market_fee c) (cfg_min_relay_fee c)\<rparr>
      in if mempool_expiry c < low_fee_expiry c then c\<lparr>low_fee_expiry := mempool_expiry c\<rparr> else c)"

definition parse_run_config :: "'a config_env \<Rightarrow> string list \<Rightarrow> (config_error + 'a run_config) option" where
  "parse_run_config E raw =
     map_option (\<lambda>c.
       let args = map trim raw;
           path = (case config_path_arg args of None \<Rightarrow> DEFAULT_CONFIG_FILE | Some p \<Rightarrow> p)
       in res_bind (load_run_config_file_if_exists E path) (\<lambda>file.
          res_bind (case file of None \<Rightarrow> Ok c | Some f \<Rightarrow> apply_run_config_file E f c) (\<lambda>c.
          res_bind (parse_options E args \<lparr>pst_config = c, listen_overridden = False, public_overridden = False\<rparr>) (\<lambda>s.
          let c = pst_config s;
              c = c\<lparr>listen_addrs := dedupe_socket_addrs (listen_addrs c)\<rparr>;
              c = c\<lparr>public_addrs := dedupe_socket_addrs (public_addrs c)\<rparr>
          in Ok (normalize_mempool_policy c)))))
     (default_run_config E)"

section \<open>From the configuration to the node\<close>

text \<open>The peers \<open>run_node\<close> starts with, given those of the peers file, and the pool it installs.\<close>

definition run_node_peers :: "'a run_config \<Rightarrow> 'a list \<Rightarrow> 'a list" where
  "run_node_peers c file_peers =
     (let ps = dedupe_peers (cfg_peers c @ file_peers)
      in if unat (max_peers c) < length ps then take (unat (max_peers c)) ps else ps)"

definition run_node_mempool :: "'a run_config \<Rightarrow> mempool" where
  "run_node_mempool c = with_config (default_mempool_config\<lparr>
     min_relay_fee := cfg_min_relay_fee c, market_fee := cfg_market_fee c,
     low_fee_ttl_secs := low_fee_expiry c, transaction_ttl_secs := mempool_expiry c\<rparr>)"

section \<open>Properties\<close>

lemma run_node_peers_ok: "distinct (run_node_peers c ps)" "length (run_node_peers c ps) \<le> unat (max_peers c)"
  using dedupe_peers_correct [of "cfg_peers c @ ps"] by (auto simp: run_node_peers_def Let_def)

lemma run_node_mempool_init: "pool_init (run_node_mempool c)"
  unfolding pool_init_def run_node_mempool_def
  by (rule exI, rule conjI [OF _ refl]) (use default_config_ok in \<open>simp add: config_ok_def\<close>)

definition limits_ok :: "'a run_config \<Rightarrow> bool" where
  "limits_ok c \<longleftrightarrow> 1 \<le> max_peers c \<and> 1 \<le> gateway_heartbeat c \<and> 1 \<le> low_fee_expiry c \<and> 1 \<le> mempool_expiry c"

lemma default_limits: "default_run_config E = Some c \<Longrightarrow> limits_ok c"
  by (auto simp: default_run_config_def limits_ok_def DEFAULT_MAX_PEERS_def DEFAULT_GATEWAY_HEARTBEAT_def
      param_defs split: option.splits)

lemma apply_wallet_limits: "apply_wallet_file E p c = Ok c' \<Longrightarrow> limits_ok c' = limits_ok c"
  by (auto simp: apply_wallet_file_def limits_ok_def res_bind_Ok_iff)

lemma apply_identity_limits: "apply_identity E f c = Ok c' \<Longrightarrow> limits_ok c' = limits_ok c"
  by (auto simp: apply_identity_def res_bind_Ok_iff split: option.splits dest!: apply_wallet_limits)
    (auto simp: limits_ok_def)

lemma config_file_limits: "apply_run_config_file E f c = Ok c' \<Longrightarrow> limits_ok c \<Longrightarrow> limits_ok c'"
  unfolding apply_run_config_file_def res_bind_Ok_iff
  by (elim exE conjE, drule apply_identity_limits) (simp add: limits_ok_def split: option.split)

lemma set_config_Ok_iff: "set_config f s = Ok s' \<longleftrightarrow> s' = s\<lparr>pst_config := f (pst_config s)\<rparr>"
  by (auto simp: set_config_def)

text \<open>Updates the limits do not see, and those that set one of them.\<close>

lemma limits_updates [simp]:
  "limits_ok (c\<lparr>db_path := a1\<rparr>) = limits_ok c" "limits_ok (c\<lparr>listen_addrs := a2\<rparr>) = limits_ok c"
  "limits_ok (c\<lparr>rpc_addr := a3\<rparr>) = limits_ok c" "limits_ok (c\<lparr>cfg_peers := a2\<rparr>) = limits_ok c"
  "limits_ok (c\<lparr>peers_file := a4\<rparr>) = limits_ok c" "limits_ok (c\<lparr>gateway_url := a4\<rparr>) = limits_ok c"
  "limits_ok (c\<lparr>public_addrs := a2\<rparr>) = limits_ok c" "limits_ok (c\<lparr>shutdown_file := a1\<rparr>) = limits_ok c"
  "limits_ok (c\<lparr>cfg_min_relay_fee := a5\<rparr>) = limits_ok c" "limits_ok (c\<lparr>cfg_market_fee := a5\<rparr>) = limits_ok c"
  "limits_ok (c\<lparr>cfg_miner_address := a6\<rparr>) = limits_ok c" "limits_ok (c\<lparr>miner_secret_key := a7\<rparr>) = limits_ok c"
  "limits_ok (c\<lparr>mine := a8\<rparr>) = limits_ok c" "limits_ok (c\<lparr>mine_interval := a9\<rparr>) = limits_ok c"
  "limits_ok (c\<lparr>mine_attempts := a9\<rparr>) = limits_ok c"
  "limits_ok c \<Longrightarrow> limits_ok (c\<lparr>gateway_heartbeat := max x 1\<rparr>)" "limits_ok c \<Longrightarrow> limits_ok (c\<lparr>max_peers := max y 1\<rparr>)"
  "limits_ok c \<Longrightarrow> limits_ok (c\<lparr>low_fee_expiry := max x 1\<rparr>)" "limits_ok c \<Longrightarrow> limits_ok (c\<lparr>mempool_expiry := max x 1\<rparr>)"
  by (simp_all add: limits_ok_def)

text \<open>What one option leaves: rules that follow the chain of conditionals.\<close>

definition keeps :: "config_error + 'a parse_state \<times> bool \<Rightarrow> bool" where
  "keeps r \<longleftrightarrow> (\<forall>s t. r = Ok (s, t) \<longrightarrow> limits_ok (pst_config s))"

lemma keeps_if: "keeps x \<Longrightarrow> keeps y \<Longrightarrow> keeps (if b then x else y)"
  by simp

lemma keeps_value: "(\<And>x. limits_ok (f x (pst_config s))) \<Longrightarrow>
    keeps (res_bind (res_bind v (\<lambda>x. set_config (f x) s)) (\<lambda>s. Ok (s, True)))"
  by (auto simp: keeps_def res_bind_Ok_iff set_config_Ok_iff)

lemma keeps_set: "limits_ok (f (pst_config s)) \<Longrightarrow> keeps (res_bind (set_config f s) (\<lambda>s. Ok (s, False)))"
  by (auto simp: keeps_def res_bind_Ok_iff set_config_Ok_iff)

lemma keeps_other:
  "keeps (Err e)"
  "limits_ok (pst_config s) \<Longrightarrow> keeps (res_bind (res_bind v (\<lambda>_. Ok s)) (\<lambda>s. Ok (s, True)))"
  "limits_ok (pst_config s) \<Longrightarrow>
   keeps (res_bind (res_bind (apply_wallet_file E p (pst_config s)) (\<lambda>c. Ok (s\<lparr>pst_config := c\<rparr>))) (\<lambda>s. Ok (s, True)))"
  by (auto simp: keeps_def res_bind_Ok_iff dest: apply_wallet_limits)

lemma apply_option_keeps: "limits_ok (pst_config s) \<Longrightarrow> keeps (apply_option E a v s)"
  unfolding apply_option_def Let_def
  by (intro keeps_if keeps_value keeps_set keeps_other) simp_all

lemma apply_option_limits:
  "apply_option E a v s = Ok (s', took) \<Longrightarrow> limits_ok (pst_config s) \<Longrightarrow> limits_ok (pst_config s')"
  using apply_option_keeps unfolding keeps_def by blast

lemma parse_options_limits:
  "parse_options E args s = Ok s' \<Longrightarrow> limits_ok (pst_config s) \<Longrightarrow> limits_ok (pst_config s')"
proof (induction E args s rule: parse_options.induct)
  case (2 E a rest s)
  obtain s1 took where o: "apply_option E a (if rest = [] then None else Some (hd rest)) s = Ok (s1, took)"
    using 2(2) by (auto split: sum.splits)
  then show ?case using 2 apply_option_limits [OF o] by simp
qed simp

text \<open>The default file says what the defaults say.\<close>

lemma default_file_neutral:
  assumes "default_run_config E = Some c" "default_run_config_file shw E = Some f"
    and "\<And>s a. parse_addr E s = Some a \<Longrightarrow> parse_addr E (shw a) = Some a"
  shows "apply_run_config_file E f c = Ok c"
  using assms
  by (auto simp: default_run_config_file_def default_run_config_def apply_run_config_file_def apply_identity_def parse_addrs_def
      param_defs DEFAULT_MAX_PEERS_def DEFAULT_GATEWAY_HEARTBEAT_def split: option.splits)

lemma default_config_normal:
  assumes "default_run_config E = Some c"
  shows "dedupe_socket_addrs (listen_addrs c) = listen_addrs c" "dedupe_socket_addrs (public_addrs c) = public_addrs c"
    "normalize_mempool_policy c = c"
  using assms by (auto simp: default_run_config_def dedupe_socket_addrs_def normalize_mempool_policy_def param_defs split: option.splits)

text \<open>
  C39. Whatever the configuration file and the command line say, a configuration that is accepted has a
  relay fee of at least the floor, a market fee of at least the relay fee, a low-fee expiry between
  one second and the pool's expiry, room for at least one peer, and no address twice; the pool it
  configures is a valid initial pool, and the node starts with distinct peers within the limit.
\<close>

theorem parse_run_config_policy:
  assumes "parse_run_config E args = Some (Ok c)"
  shows "MIN_RELAY_FEE_FLOOR \<le> cfg_min_relay_fee c \<and> cfg_min_relay_fee c \<le> cfg_market_fee c \<and>
    1 \<le> low_fee_expiry c \<and> low_fee_expiry c \<le> mempool_expiry c \<and>
    1 \<le> max_peers c \<and> 1 \<le> gateway_heartbeat c \<and> distinct (listen_addrs c) \<and> distinct (public_addrs c) \<and>
    pool_init (run_node_mempool c) \<and>
    distinct (run_node_peers c ps) \<and> length (run_node_peers c ps) \<le> unat (max_peers c)"
proof -
  obtain c0 f c1 s where run: "default_run_config E = Some c0"
    "(case f of None \<Rightarrow> Ok c0 | Some f \<Rightarrow> apply_run_config_file E f c0) = Ok c1"
    "parse_options E (map trim args) \<lparr>pst_config = c1, listen_overridden = False, public_overridden = False\<rparr> = Ok s"
    "c = normalize_mempool_policy ((pst_config s)\<lparr>listen_addrs := dedupe_socket_addrs (listen_addrs (pst_config s)),
       public_addrs := dedupe_socket_addrs (public_addrs (pst_config s))\<rparr>)"
    using assms by (fastforce simp: parse_run_config_def Let_def res_bind_Ok_iff)
  have "limits_ok c1" using run(2) default_limits [OF run(1)] by (auto split: option.splits intro: config_file_limits)
  then have lim: "limits_ok (pst_config s)" using parse_options_limits [OF run(3)] by simp
  have dist: "distinct (dedupe_socket_addrs xs)" for xs :: "'a list"
    using dedupe_peers_correct [of xs] by (simp add: dedupe_socket_addrs_def dedupe_peers_def)
  show ?thesis
    using lim dist run_node_peers_ok [of c ps] run_node_mempool_init [of c] unfolding run(4)
    by (auto simp: normalize_mempool_policy_def Let_def limits_ok_def max_def)
qed

definition sample_config_env :: "string config_env" where
  "sample_config_env = \<lparr>parse_addr = Some, read_to_string = (\<lambda>_. FileNotFound), json_run_config = (\<lambda>_. None),
     json_wallet = (\<lambda>_. None), hex_decode = (\<lambda>_. None), config_crypto = sample_crypto,
     config_ADDRESS_SIZE = 20, config_SECRET_KEY_SIZE = 32, config_BLOCK_TIME = 60\<rparr>"

theorem parse_run_config_policy_witness:
  "\<exists>c. parse_run_config sample_config_env
      ['' --min-relay-fee'', ''0'', ''--market-fee'', ''0'', ''--max-peers'', ''0'', ''--mempool-expiry-secs'', ''60''] = Some (Ok c) \<and>
     1 \<le> cfg_market_fee c \<and> low_fee_expiry c \<le> mempool_expiry c \<and> length (run_node_peers c [''p'', ''q'', ''p'']) \<le> unat (max_peers c)"
proof -
  let ?args = "['' --min-relay-fee'', ''0'', ''--market-fee'', ''0'', ''--max-peers'', ''0'', ''--mempool-expiry-secs'', ''60'']"
  have "\<exists>c. parse_run_config sample_config_env ?args = Some (Ok c)"
    by (simp add: parse_run_config_def default_run_config_def sample_config_env_def Let_def trim_def trim_start_def trim_end_matches_def is_whitespace_def
        load_run_config_file_if_exists_def apply_option_def parse_number_def parse_word_def parse_uint_def is_digit_def set_config_def)
  then obtain c where c: "parse_run_config sample_config_env ?args = Some (Ok c)" ..
  have "MIN_RELAY_FEE_FLOOR \<le> cfg_min_relay_fee c \<and> cfg_min_relay_fee c \<le> cfg_market_fee c" "low_fee_expiry c \<le> mempool_expiry c"
    "length (run_node_peers c [''p'', ''q'', ''p'']) \<le> unat (max_peers c)"
    using parse_run_config_policy [OF c, of "[''p'', ''q'', ''p'']"] by simp_all
  with c show ?thesis by (intro exI [of _ c]) (auto simp: MIN_RELAY_FEE_FLOOR_def intro: order_trans)
qed

end
