(* ===== verification/Peers_File.thy ===== *)
theory Peers_File
  imports Config
begin

text \<open>
  The file of known peers (\<open>src/p2p.rs\<close>, \<open>load_peers_file\<close> and \<open>save_peers_file\<close>; \<open>src/main.rs\<close>,
  \<open>save_peers_from\<close>): written as a JSON object, read as one or as text with one address per line and
  comments. The file system is a state \<open>'w\<close> with its operations; JSON and the parsing and printing of
  socket addresses (type \<open>'a\<close>) are parameters, as is the key of the order of addresses.
\<close>

record ('w, 'a) peers_env =
  pf_read :: "'w \<Rightarrow> string \<Rightarrow> file_read"
  pf_write :: "'w \<Rightarrow> string \<Rightarrow> string \<Rightarrow> 'w \<times> bool"
  pf_create_parent :: "'w \<Rightarrow> string \<Rightarrow> 'w \<times> bool"
  pf_decode :: "string \<Rightarrow> string list option"
  pf_encode :: "string list \<Rightarrow> string option"
  pf_parse :: "string \<Rightarrow> 'a option"
  pf_show :: "'a \<Rightarrow> string"
  pf_key :: "'a \<Rightarrow> bytes"

datatype peers_error =
    ReadPeersFailed string
  | ParseCacheFailed string
  | InvalidPeer string
  | InvalidPeerLine nat
  | EncodeCacheFailed
  | WritePeersFailed string
  | CreateParentFailed

text \<open>The addresses of a cache, and the lines of a text file from line \<open>i\<close> on.\<close>

fun parse_cache :: "(string \<Rightarrow> 'a option) \<Rightarrow> string list \<Rightarrow> peers_error + 'a list" where
  "parse_cache parse [] = Ok []"
| "parse_cache parse (p # ps) =
     res_bind (ok_or (parse p) (InvalidPeer p)) (\<lambda>a. res_bind (parse_cache parse ps) (\<lambda>as. Ok (a # as)))"

fun parse_lines :: "(string \<Rightarrow> 'a option) \<Rightarrow> nat \<Rightarrow> string list \<Rightarrow> peers_error + 'a list" where
  "parse_lines parse i [] = Ok []"
| "parse_lines parse i (l # ls) =
     (let line = trim (takeWhile (\<lambda>c. c \<noteq> CHR ''#'') l) in
      if line = [] then parse_lines parse (Suc i) ls
      else res_bind (ok_or (parse line) (InvalidPeerLine i)) (\<lambda>a.
           res_bind (parse_lines parse (Suc i) ls) (\<lambda>as. Ok (a # as))))"

definition load_peers_file :: "('w, 'a) peers_env \<Rightarrow> 'w \<Rightarrow> string \<Rightarrow> peers_error + 'a list" where
  "load_peers_file P w path =
     (case pf_read P w path of
        FileNotFound \<Rightarrow> Ok []
      | FileUnreadable \<Rightarrow> Err (ReadPeersFailed path)
      | Contents contents \<Rightarrow>
          if starts_with ''{'' (trim_start contents)
          then res_bind (ok_or (pf_decode P contents) (ParseCacheFailed path)) (parse_cache (pf_parse P))
          else parse_lines (pf_parse P) 1 (text_lines contents))"

definition save_peers_file :: "('w, 'a) peers_env \<Rightarrow> string \<Rightarrow> 'a list \<Rightarrow> 'w \<Rightarrow> 'w \<times> (peers_error + unit)" where
  "save_peers_file P path peers w =
     (case pf_encode P (map (pf_show P) peers) of
        None \<Rightarrow> (w, Err EncodeCacheFailed)
      | Some contents \<Rightarrow>
          (case pf_write P w path contents of
             (w', True) \<Rightarrow> (w', Ok ())
           | (w', False) \<Rightarrow> (w', Err (WritePeersFailed path))))"

definition save_peers_from :: "('w, 'a) peers_env \<Rightarrow> string option \<Rightarrow> 'a list \<Rightarrow> 'w \<Rightarrow> 'w \<times> (peers_error + unit)" where
  "save_peers_from P file peers w =
     (case file of
        None \<Rightarrow> (w, Ok ())
      | Some path \<Rightarrow>
          (case pf_create_parent P w path of
             (w', False) \<Rightarrow> (w', Err CreateParentFailed)
           | (w', True) \<Rightarrow> save_peers_file P path (sort_key (pf_key P) peers) w'))"

section \<open>Properties\<close>

text \<open>
  What the file system, the JSON encoding of a struct and the text of an address promise: a write that
  succeeds is read back, decoding inverts encoding, an object starts with a brace, and an address is
  parsed from the text it prints.
\<close>

definition peers_file_laws :: "('w, 'a) peers_env \<Rightarrow> bool" where
  "peers_file_laws P \<longleftrightarrow>
     (\<forall>w w' path s. pf_write P w path s = (w', True) \<longrightarrow> pf_read P w' path = Contents s) \<and>
     (\<forall>ps s. pf_encode P ps = Some s \<longrightarrow> pf_decode P s = Some ps \<and> starts_with ''{'' s) \<and>
     (\<forall>a. pf_parse P (pf_show P a) = Some a)"

lemma parse_cache_map: "(\<And>a. parse (shw a) = Some a) \<Longrightarrow> parse_cache parse (map shw ps) = Ok ps"
  by (induction ps) auto

lemma trim_start_brace: "starts_with ''{'' s \<Longrightarrow> trim_start s = s"
  by (cases s) (auto simp: starts_with_def trim_start_def is_whitespace_def)

text \<open>A comment, blank space and an unreadable line: what the text form means.\<close>

lemma parse_lines_text:
  assumes "\<And>a. parse (shw a) = Some a" "\<And>a. shw a \<noteq> []"
    and "\<And>a. trim (takeWhile (\<lambda>c. c \<noteq> CHR ''#'') (pad a)) = (shw a)"
  shows "parse_lines parse i (map pad ps) = Ok ps"
  using assms by (induction ps arbitrary: i) (auto simp: Let_def)

lemma saved_peers_load:
  assumes "peers_file_laws P" "save_peers_from P (Some path) peers w = (w', Ok ())"
  shows "load_peers_file P w' path = Ok (sort_key (pf_key P) peers)"
proof -
  obtain w1 s where s: "pf_encode P (map (pf_show P) (sort_key (pf_key P) peers)) = Some s" "pf_write P w1 path s = (w', True)"
    using assms(2) by (auto simp: save_peers_from_def save_peers_file_def split: prod.splits bool.splits option.splits)
  have laws: "pf_read P w' path = Contents s"
    "pf_decode P s = Some (map (pf_show P) (sort_key (pf_key P) peers))" "starts_with ''{'' s"
    "pf_parse P (pf_show P a) = Some a" for a
    using assms(1) s unfolding peers_file_laws_def by blast+
  then show ?thesis
    using parse_cache_map [of "pf_parse P" "pf_show P"] by (simp add: load_peers_file_def trim_start_brace)
qed

text \<open>A file system of one map, addresses that print as themselves, and an encoding of lists of short words.\<close>

definition sample_peers_env :: "(string \<rightharpoonup> string, string) peers_env" where
  "sample_peers_env = \<lparr>
     pf_read = (\<lambda>w p. case w p of None \<Rightarrow> FileNotFound | Some s \<Rightarrow> Contents s),
     pf_write = (\<lambda>w p s. (w(p \<mapsto> s), True)),
     pf_create_parent = (\<lambda>w _. (w, True)),
     pf_decode = (\<lambda>s. if s = ''{ab}'' then Some [''a'', ''b''] else None),
     pf_encode = (\<lambda>ps. if ps = [''a'', ''b''] then Some ''{ab}'' else None),
     pf_parse = Some, pf_show = id, pf_key = map (\<lambda>c. of_nat (of_char c))\<rparr>"

lemma sample_peers_laws: "peers_file_laws sample_peers_env"
  by (auto simp: peers_file_laws_def sample_peers_env_def starts_with_def)

lemma sample_peers_sort: "sort_key (pf_key sample_peers_env) [''b'', ''a''] = [''a'', ''b'']"
  by (simp add: sample_peers_env_def)

end
