(* ===== verification/Http.thy ===== *)
theory Http
  imports Text
begin

text \<open>
  The HTTP client of the wallet commands (\<open>src/network.rs\<close>) and of the gateway (\<open>src/gateway.rs\<close>), which
  both frame a response by its \<open>Content-Length\<close>. A connection is what its reads return, one after the
  other: bytes (none at the end of the stream), a time-out, or an error; opening a connection and writing
  the request are functions of a \<open>transport\<close>; \<open>Sockets\<close> has how the connection is opened. Lengths are \<open>usize\<close>, so that the sum of the header's
  length and a huge \<open>Content-Length\<close> wraps.
\<close>

section \<open>UTF-8\<close>

text \<open>\<open>from_utf8\<close>: the well-formed sequences of the Unicode standard.\<close>

definition is_cont :: "u8 \<Rightarrow> bool" where
  "is_cont b \<longleftrightarrow> 128 \<le> unat b \<and> unat b \<le> 191"

fun utf8_ok :: "bytes \<Rightarrow> bool" where
  "utf8_ok [] = True"
| "utf8_ok (a # bs) =
     (let x = unat a in
      if x < 128 then utf8_ok bs
      else if 194 \<le> x \<and> x \<le> 223 then
        (case bs of b # r \<Rightarrow> is_cont b \<and> utf8_ok r | _ \<Rightarrow> False)
      else if 224 \<le> x \<and> x \<le> 239 then
        (case bs of b # c # r \<Rightarrow>
           is_cont b \<and> is_cont c \<and> (x = 224 \<longrightarrow> 160 \<le> unat b) \<and> (x = 237 \<longrightarrow> unat b \<le> 159) \<and> utf8_ok r
         | _ \<Rightarrow> False)
      else if 240 \<le> x \<and> x \<le> 244 then
        (case bs of b # c # d # r \<Rightarrow>
           is_cont b \<and> is_cont c \<and> is_cont d \<and> (x = 240 \<longrightarrow> 144 \<le> unat b) \<and> (x = 244 \<longrightarrow> unat b \<le> 143) \<and> utf8_ok r
         | _ \<Rightarrow> False)
      else False)"

definition byte_char :: "u8 \<Rightarrow> char" where
  "byte_char b = char_of (unat b)"

definition as_bytes :: "string \<Rightarrow> bytes" where
  "as_bytes s = map (\<lambda>c. of_nat (of_char c)) s"

definition from_utf8 :: "bytes \<Rightarrow> string option" where
  "from_utf8 bs = (if utf8_ok bs then Some (map byte_char bs) else None)"

section \<open>Framing\<close>

datatype http_error =
    HeadersNotUtf8
  | ResponseNotUtf8
  | ReadTimedOut
  | StreamFailed string
  | InvalidAddress
  | ConnectError string
  | WriteError string
  | PathNotSupported
  | InvalidResponse
  | GatewayRefused string
  | EncodeFailed
  | ParseResponseFailed

definition crlf2 :: bytes where "crlf2 = [13, 10, 13, 10]"

definition content_length :: "string \<Rightarrow> usize option" where
  "content_length line =
     (case split_once '':'' line of
        None \<Rightarrow> None
      | Some (name, val) \<Rightarrow> if eq_ignore_ascii_case name ''content-length'' then parse_word (trim val) else None)"

text \<open>\<open>find_map\<close>: the first line that gives a length.\<close>

fun find_map :: "('a \<Rightarrow> 'b option) \<Rightarrow> 'a list \<Rightarrow> 'b option" where
  "find_map f [] = None"
| "find_map f (x # xs) = (case f x of None \<Rightarrow> find_map f xs | Some y \<Rightarrow> Some y)"

definition response_body_complete :: "bytes \<Rightarrow> http_error + bool" where
  "response_body_complete response =
     (case find_sub crlf2 response of
        None \<Rightarrow> Ok False
      | Some header_end \<Rightarrow>
          res_bind (ok_or (from_utf8 (take header_end response)) HeadersNotUtf8) (\<lambda>headers.
          case find_map content_length (text_lines headers) of
            None \<Rightarrow> Ok False
          | Some len \<Rightarrow> Ok ((of_nat header_end + 4 + len :: usize) \<le> of_nat (length response))))"

text \<open>The reads of a connection, and the loop over them; when the reads are used up the stream has ended.\<close>

datatype read_result = Chunk bytes | TimedOut | ReadError string

fun read_loop :: "bytes \<Rightarrow> read_result list \<Rightarrow> http_error + bytes" where
  "read_loop response [] = Ok response"
| "read_loop response (Chunk bs # rs) =
     (if bs = [] then Ok response
      else case response_body_complete (response @ bs) of
        Inl e \<Rightarrow> Err e
      | Inr True \<Rightarrow> Ok (response @ bs)
      | Inr False \<Rightarrow> read_loop (response @ bs) rs)"
| "read_loop response (TimedOut # rs) =
     (case response_body_complete response of
        Inl e \<Rightarrow> Err e
      | Inr True \<Rightarrow> Ok response
      | Inr False \<Rightarrow> Err ReadTimedOut)"
| "read_loop response (ReadError e # rs) = Err (StreamFailed e)"

definition header_separator :: string where "header_separator = map char_of [13, 10, 13, 10 :: nat]"

definition read_http_response :: "read_result list \<Rightarrow> http_error + string" where
  "read_http_response stream =
     res_bind (read_loop [] stream) (\<lambda>response.
     res_bind (ok_or (from_utf8 response) ResponseNotUtf8) (\<lambda>response.
     Ok (case split_once header_separator response of Some (_, body) \<Rightarrow> body | None \<Rightarrow> response)))"

text \<open>The gateway client has its own copy of the framing.\<close>

definition gateway_content_length :: "string \<Rightarrow> usize option" where
  "gateway_content_length line =
     (case split_once '':'' line of
        None \<Rightarrow> None
      | Some (name, val) \<Rightarrow> if eq_ignore_ascii_case name ''content-length'' then parse_word (trim val) else None)"

definition gateway_response_body_complete :: "bytes \<Rightarrow> http_error + bool" where
  "gateway_response_body_complete response =
     (case find_sub crlf2 response of
        None \<Rightarrow> Ok False
      | Some header_end \<Rightarrow>
          res_bind (ok_or (from_utf8 (take header_end response)) HeadersNotUtf8) (\<lambda>headers.
          case find_map gateway_content_length (text_lines headers) of
            None \<Rightarrow> Ok False
          | Some len \<Rightarrow> Ok ((of_nat header_end + 4 + len :: usize) \<le> of_nat (length response))))"

fun gateway_read_loop :: "bytes \<Rightarrow> read_result list \<Rightarrow> http_error + bytes" where
  "gateway_read_loop response [] = Ok response"
| "gateway_read_loop response (Chunk bs # rs) =
     (if bs = [] then Ok response
      else case gateway_response_body_complete (response @ bs) of
        Inl e \<Rightarrow> Err e
      | Inr True \<Rightarrow> Ok (response @ bs)
      | Inr False \<Rightarrow> gateway_read_loop (response @ bs) rs)"
| "gateway_read_loop response (TimedOut # rs) =
     (case gateway_response_body_complete response of
        Inl e \<Rightarrow> Err e
      | Inr True \<Rightarrow> Ok response
      | Inr False \<Rightarrow> Err ReadTimedOut)"
| "gateway_read_loop response (ReadError e # rs) = Err (StreamFailed e)"

definition read_gateway_response :: "read_result list \<Rightarrow> http_error + string" where
  "read_gateway_response stream =
     res_bind (gateway_read_loop [] stream) (\<lambda>response.
     res_bind (ok_or (from_utf8 response) ResponseNotUtf8) (\<lambda>response.
     res_bind (ok_or (split_once header_separator response) InvalidResponse) (\<lambda>(head, body).
     if \<not> starts_with ''HTTP/1.1 200'' head \<and> \<not> starts_with ''HTTP/1.1 201'' head
     then Err (GatewayRefused body) else Ok body)))"

section \<open>Requests\<close>

record 'a transport =
  tp_parse :: "string \<Rightarrow> 'a option"
  tp_show :: "'a \<Rightarrow> string"
  tp_connect :: "'a \<Rightarrow> string option" \<comment> \<open>the error of a failed connection\<close>
  tp_exchange :: "'a \<Rightarrow> string \<Rightarrow> string + read_result list" \<comment> \<open>write the request; what the reads return\<close>

definition crlf :: string where "crlf = map char_of [13, 10 :: nat]"

definition post_request :: "string \<Rightarrow> string \<Rightarrow> string \<Rightarrow> string" where
  "post_request path host body =
     ''POST '' @ path @ '' HTTP/1.1'' @ crlf @ ''host: '' @ host @ crlf @ ''content-type: application/json'' @ crlf @
     ''content-length: '' @ show_uint (length body) @ crlf @ ''connection: close'' @ crlf @ crlf @ body"

definition get_request :: "string \<Rightarrow> string \<Rightarrow> string" where
  "get_request path host =
     ''GET '' @ path @ '' HTTP/1.1'' @ crlf @ ''host: '' @ host @ crlf @ ''connection: close'' @ crlf @ crlf"

text \<open>Connect, write the request, read the answer.\<close>

definition exchange ::
  "'a transport \<Rightarrow> (read_result list \<Rightarrow> http_error + string) \<Rightarrow> 'a \<Rightarrow> string \<Rightarrow> http_error + string" where
  "exchange T rd addr request =
     (case tp_connect T addr of
        Some e \<Rightarrow> Err (ConnectError e)
      | None \<Rightarrow> res_bind (map_err WriteError (tp_exchange T addr request)) rd)"

definition http_post_json :: "'a transport \<Rightarrow> string \<Rightarrow> string \<Rightarrow> string \<Rightarrow> http_error + string" where
  "http_post_json T addr path body =
     res_bind (ok_or (tp_parse T addr) InvalidAddress) (\<lambda>a.
     exchange T read_http_response a (post_request path (tp_show T a) body))"

definition http_get :: "'a transport \<Rightarrow> string \<Rightarrow> string \<Rightarrow> http_error + string" where
  "http_get T addr path =
     res_bind (ok_or (tp_parse T addr) InvalidAddress) (\<lambda>a.
     exchange T read_http_response a (get_request path (tp_show T a)))"

section \<open>A response read in pieces\<close>

text \<open>Both clients frame a response alike.\<close>

lemma gateway_complete: "gateway_response_body_complete = response_body_complete"
proof -
  have "gateway_content_length = content_length" by (simp add: fun_eq_iff gateway_content_length_def content_length_def)
  then show ?thesis by (intro ext) (simp only: gateway_response_body_complete_def response_body_complete_def)
qed

lemma gateway_framing: "gateway_read_loop response rs = read_loop response rs"
  by (induction response rs rule: gateway_read_loop.induct) (auto simp: gateway_complete split: sum.splits bool.splits)

lemma byte_char_as_bytes [simp]: "map byte_char (as_bytes s) = s"
proof -
  have "char_of (unat (of_nat (of_char c) :: u8)) = c" for c by (simp add: unat_of_nat)
  then show ?thesis by (simp add: as_bytes_def byte_char_def comp_def)
qed

lemma header_separator_crlf2: "header_separator = map byte_char crlf2"
  by (simp add: header_separator_def crlf2_def byte_char_def)

lemma byte_char_inj: "byte_char a = byte_char b \<longleftrightarrow> a = b"
proof -
  have "of_char (byte_char a) = unat a" for a using unat_bound [of a] by (simp add: byte_char_def of_char_of)
  then show ?thesis by (metis word_unat_eq_iff)
qed

lemma as_bytes_byte_char: "as_bytes (map byte_char bs) = bs"
proof -
  have "of_nat (of_char (char_of (unat b) :: char)) = b" for b :: u8
    using unat_bound [of b] by (simp add: of_char_of)
  then show ?thesis by (simp add: as_bytes_def byte_char_def comp_def)
qed

lemma find_sub_map: "(\<And>x y. f x = f y \<longleftrightarrow> x = y) \<Longrightarrow> find_sub (map f p) (map f xs) = find_sub p xs"
proof (induction xs)
  case (Cons x xs)
  have "take (length p) (map f (x # xs)) = map f p \<longleftrightarrow> take (length p) (x # xs) = p"
    using Cons.prems by (metis (no_types, opaque_lifting) inj_map_eq_map injI take_map)
  then show ?case using Cons by simp
qed simp

lemma split_body:
  "find_sub crlf2 (head @ crlf2 @ body) = Some (length head) \<Longrightarrow>
   split_once header_separator (map byte_char (head @ crlf2 @ body)) = Some (map byte_char head, map byte_char body)"
  unfolding split_once_def header_separator_crlf2 find_sub_map [OF byte_char_inj] by simp

text \<open>
  The shape of an exact response: a header in UTF-8 whose first separator ends it and whose content
  length is that of the body.
\<close>

definition exact_response :: "bytes \<Rightarrow> bytes \<Rightarrow> bool" where
  "exact_response head body \<longleftrightarrow>
     find_sub crlf2 (head @ crlf2 @ body) = Some (length head) \<and>
     utf8_ok head \<and> utf8_ok (head @ crlf2 @ body) \<and>
     find_map content_length (text_lines (map byte_char head)) = Some (of_nat (length body)) \<and>
     length head + 4 + length body < 2 ^ 64"

lemma complete_prefix:
  assumes "exact_response head body" "head @ crlf2 @ body = xs @ ys"
  shows "response_body_complete xs = Ok (ys = [])"
proof (cases "find_sub crlf2 xs")
  case None
  then have "ys \<noteq> []" using assms by (auto simp: exact_response_def)
  then show ?thesis using None by (simp add: response_body_complete_def)
next
  case (Some i)
  then have i: "i = length head" using assms find_sub_prefix [of crlf2 xs ys "length head"] by (simp add: exact_response_def)
  have len: "length xs + length ys = length head + 4 + length body"
    using arg_cong [OF assms(2), of length] by (simp add: crlf2_def)
  have "length head + 4 \<le> length xs" using find_sub_Some [OF Some] i by (simp add: crlf2_def)
  then have "take (length head) xs = head"
    using assms(2) by (metis append_eq_append_conv_if append_eq_conv_conj append_take_drop_id le_add1 le_trans take_append take_all_iff diff_is_0_eq' append_Nil2 take0)
  moreover have "(of_nat (length head) + 4 + of_nat (length body) \<le> (of_nat (length xs) :: usize)) \<longleftrightarrow> ys = []"
  proof -
    have sum: "(of_nat (length head) + 4 + of_nat (length body) :: usize) = of_nat (length head + 4 + length body)" by simp
    have "length head + 4 + length body < 2 ^ 64" using assms(1) by (simp add: exact_response_def)
    then have "unat (of_nat (length head + 4 + length body) :: usize) = length head + 4 + length body"
      "unat (of_nat (length xs) :: usize) = length xs"
      using len by (simp_all add: unat_of_nat del: of_nat_add)
    then show ?thesis unfolding sum word_le_nat_alt length_0_conv [symmetric, of ys] using len by linarith
  qed
  ultimately show ?thesis
    using Some i assms(1) by (simp add: response_body_complete_def exact_response_def from_utf8_def)
qed

lemma read_loop_exact:
  "exact_response head body \<Longrightarrow> head @ crlf2 @ body = got @ concat chunks \<Longrightarrow> [] \<notin> set chunks \<Longrightarrow> chunks \<noteq> [] \<Longrightarrow>
   read_loop got (map Chunk chunks @ rest) = Ok (head @ crlf2 @ body)"
proof (induction chunks arbitrary: got)
  case (Cons c cs)
  have split: "head @ crlf2 @ body = (got @ c) @ concat cs" using Cons.prems(2) by simp
  have ne: "(concat cs = []) = (cs = [])" using Cons.prems(3) by (cases cs) auto
  from complete_prefix [OF Cons.prems(1) split] have comp: "response_body_complete (got @ c) = Ok (cs = [])"
    by (simp only: ne)
  show ?case
  proof (cases "cs = []")
    case True
    then show ?thesis using comp Cons.prems(3) split by auto
  next
    case False
    then show ?thesis using comp Cons.prems Cons.IH [OF Cons.prems(1) split] by auto
  qed
qed simp

text \<open>
  C38. A response with an exact \<open>Content-Length\<close> is read the same however the network cuts it into pieces
  and whatever would come after it (a connection kept open included): the client stops at its last
  byte and returns its body. The gateway client does so too, when the status is 200 or 201, and reports
  the body as an error otherwise.
\<close>

theorem response_chunking_irrelevant:
  assumes "exact_response head body" "concat chunks = head @ crlf2 @ body" "[] \<notin> set chunks"
  shows "read_http_response (map Chunk chunks @ rest) = Ok (map byte_char body) \<and>
    read_gateway_response (map Chunk chunks @ rest) =
      (if starts_with ''HTTP/1.1 200'' (map byte_char head) \<or> starts_with ''HTTP/1.1 201'' (map byte_char head)
       then Ok (map byte_char body) else Err (GatewayRefused (map byte_char body)))"
proof -
  have "chunks \<noteq> []" using assms(2) by (auto simp: crlf2_def)
  then have loop: "read_loop [] (map Chunk chunks @ rest) = Ok (head @ crlf2 @ body)"
    using read_loop_exact [OF assms(1), of "[]" chunks] assms(2,3) by simp
  have sp: "split_once header_separator (map byte_char (head @ crlf2 @ body)) = Some (map byte_char head, map byte_char body)"
    using assms(1) by (intro split_body) (simp add: exact_response_def)
  have "utf8_ok (head @ crlf2 @ body)" using assms(1) by (simp add: exact_response_def)
  then show ?thesis using sp by (auto simp: read_http_response_def read_gateway_response_def gateway_framing loop from_utf8_def)
qed

definition sample_head :: bytes where
  "sample_head = as_bytes (''HTTP/1.1 200 OK'' @ crlf @ ''Content-Length: 2'')"

theorem response_chunking_irrelevant_witness:
  "read_http_response [Chunk (take 20 sample_head), Chunk (drop 20 sample_head @ [13, 10]), Chunk [13, 10, 123], Chunk [125], TimedOut] =
     Ok ''{}''"
proof -
  have head: "sample_head = [72, 84, 84, 80, 47, 49, 46, 49, 32, 50, 48, 48, 32, 79, 75, 13, 10,
      67, 111, 110, 116, 101, 110, 116, 45, 76, 101, 110, 103, 116, 104, 58, 32, 50]"
    by (simp add: sample_head_def as_bytes_def crlf_def)
  have "text_lines (''HTTP/1.1 200 OK'' @ crlf @ ''Content-Length: 2'') = [''HTTP/1.1 200 OK'', ''Content-Length: 2'']"
    "split_once '':'' ''Content-Length: 2'' = Some (''Content-Length'', '' 2'')"
    "split_once '':'' ''HTTP/1.1 200 OK'' = None"
    "eq_ignore_ascii_case ''Content-Length'' ''content-length''" "trim '' 2'' = ''2''"
    by code_simp+
  then have "find_map content_length (text_lines (map byte_char sample_head)) = Some 2"
    by (simp add: sample_head_def content_length_def) (simp add: parse_word_def parse_uint_def is_digit_def)
  then have "exact_response sample_head [123, 125]"
    by (simp add: exact_response_def head crlf2_def)
  moreover have "concat [take 20 sample_head, drop 20 sample_head @ [13, 10], [13, 10, 123], [125]] = sample_head @ crlf2 @ [123, 125]"
    by (simp add: crlf2_def)
  moreover have "[] \<notin> set [take 20 sample_head, drop 20 sample_head @ [13, 10], [13, 10, 123], [125]]"
    by (simp add: sample_head_def as_bytes_def crlf_def)
  ultimately have "read_http_response (map Chunk [take 20 sample_head, drop 20 sample_head @ [13, 10], [13, 10, 123], [125]] @ [TimedOut]) =
      Ok (map byte_char [123, 125])"
    using response_chunking_irrelevant [of sample_head "[123, 125]" "[take 20 sample_head, drop 20 sample_head @ [13, 10], [13, 10, 123], [125]]" "[TimedOut]"]
    by blast
  moreover have "as_bytes ''{}'' = [123, 125]" by (simp add: as_bytes_def)
  ultimately show ?thesis using byte_char_as_bytes [of "''{}''"] by simp
qed

end
