(* ===== verification/Gateway.thy ===== *)
theory Gateway
  imports Http Network
begin

text \<open>
  The client of a discovery gateway (\<open>src/gateway.rs\<close>): registration, heartbeats and the query for
  peers, over the HTTP client of \<open>Http\<close>. JSON and hex encoding are parameters. Errors are values of
  \<open>http_error\<close>.
\<close>

record register_request =
  reg_peer_id :: "string option"
  reg_address :: string
  reg_chain_id :: u16
  reg_chain_name :: string
  reg_protocol_stage :: string
  reg_protocol_version :: u8
  reg_network_magic :: string
  reg_best_height :: "u64 option"
  reg_tip_hash :: "string option"

record heartbeat_request =
  hb_peer_id :: "string option"
  hb_address :: string
  hb_best_height :: "u64 option"
  hb_tip_hash :: "string option"

record gateway_peer =
  gp_address :: string

record 'a gateway_env =
  gw_transport :: "'a transport"
  gw_params :: chain_params
  gw_hex_encode :: "bytes \<Rightarrow> string"
  gw_json_register :: "register_request \<Rightarrow> string option"
  gw_json_heartbeat :: "heartbeat_request \<Rightarrow> string option"
  gw_json_peers :: "string \<Rightarrow> gateway_peer list option"

definition endpoint_parse :: "'a transport \<Rightarrow> string \<Rightarrow> http_error + 'a" where
  "endpoint_parse T url =
     (let value = trim_end_matches (\<lambda>c. c = CHR ''/'')
            (case strip_prefix ''http://'' url of
               Some v \<Rightarrow> v
             | None \<Rightarrow> (case strip_prefix ''https://'' url of Some v \<Rightarrow> v | None \<Rightarrow> url))
      in if CHR ''/'' \<in> set value then Err PathNotSupported
         else ok_or (tp_parse T value) InvalidAddress)"

definition gateway_get :: "'a gateway_env \<Rightarrow> string \<Rightarrow> string \<Rightarrow> http_error + string" where
  "gateway_get G url path =
     res_bind (endpoint_parse (gw_transport G) url) (\<lambda>a.
     exchange (gw_transport G) read_gateway_response a (get_request path (tp_show (gw_transport G) a)))"

text \<open>\<open>body\<close> is the encoded request, if it can be encoded.\<close>

definition gateway_post_json :: "'a gateway_env \<Rightarrow> string \<Rightarrow> string \<Rightarrow> string option \<Rightarrow> http_error + string" where
  "gateway_post_json G url path body =
     res_bind (endpoint_parse (gw_transport G) url) (\<lambda>a.
     res_bind (ok_or body EncodeFailed) (\<lambda>body.
     exchange (gw_transport G) read_gateway_response a (post_request path (tp_show (gw_transport G) a) body)))"

definition network_magic_hex :: "'a gateway_env \<Rightarrow> string" where
  "network_magic_hex G = gw_hex_encode G (network_magic (gw_params G))"

definition register_peer ::
  "'a gateway_env \<Rightarrow> string \<Rightarrow> 'a \<Rightarrow> u64 option \<Rightarrow> string option \<Rightarrow> http_error + unit" where
  "register_peer G url addr best_height tip_hash =
     (let Q = gw_params G in
      res_bind (gateway_post_json G url ''/v1/node/register'' (gw_json_register G
        \<lparr>reg_peer_id = None, reg_address = tp_show (gw_transport G) addr, reg_chain_id = chain_id Q,
         reg_chain_name = chain_name Q, reg_protocol_stage = protocol_stage Q,
         reg_protocol_version = protocol_version Q, reg_network_magic = network_magic_hex G,
         reg_best_height = best_height, reg_tip_hash = tip_hash\<rparr>)) (\<lambda>_. Ok ()))"

definition heartbeat_peer ::
  "'a gateway_env \<Rightarrow> string \<Rightarrow> 'a \<Rightarrow> u64 option \<Rightarrow> string option \<Rightarrow> http_error + unit" where
  "heartbeat_peer G url addr best_height tip_hash =
     res_bind (gateway_post_json G url ''/v1/node/heartbeat'' (gw_json_heartbeat G
       \<lparr>hb_peer_id = None, hb_address = tp_show (gw_transport G) addr, hb_best_height = best_height,
        hb_tip_hash = tip_hash\<rparr>)) (\<lambda>_. Ok ())"

definition peers_path :: "'a gateway_env \<Rightarrow> nat \<Rightarrow> 'a option \<Rightarrow> string" where
  "peers_path G limit exclude =
     (let Q = gw_params G in
      ''/v1/peers?chain_id='' @ show_word (chain_id Q) @ ''&chain_name='' @ chain_name Q @
      ''&protocol_stage='' @ protocol_stage Q @ ''&protocol_version='' @ show_word (protocol_version Q) @
      ''&network_magic='' @ network_magic_hex G @ ''&limit='' @ show_uint limit @
      (case exclude of None \<Rightarrow> [] | Some a \<Rightarrow> ''&exclude='' @ tp_show (gw_transport G) a))"

definition request_gateway_peers :: "'a gateway_env \<Rightarrow> string \<Rightarrow> nat \<Rightarrow> 'a option \<Rightarrow> http_error + peer_info list" where
  "request_gateway_peers G url limit exclude =
     res_bind (gateway_get G url (peers_path G limit exclude)) (\<lambda>body.
     res_bind (ok_or (gw_json_peers G body) ParseResponseFailed) (\<lambda>peers.
     Ok (map (\<lambda>p. \<lparr>peer_address = gp_address p\<rparr>) peers)))"

section \<open>Endpoints\<close>

lemma trim_end_slash: "CHR ''/'' \<notin> set host \<Longrightarrow> trim_end_matches (\<lambda>c. c = CHR ''/'') (host @ replicate k CHR ''/'') = host"
proof -
  assume "CHR ''/'' \<notin> set host"
  then have "dropWhile (\<lambda>c. c = CHR ''/'') (rev host) = rev host" by (cases "rev host") auto
  moreover have "dropWhile (\<lambda>c. c = CHR ''/'') (replicate k CHR ''/'' @ rev host) = dropWhile (\<lambda>c. c = CHR ''/'') (rev host)"
    by (rule dropWhile_append2) auto
  ultimately show ?thesis by (simp add: trim_end_matches_def)
qed

text \<open>The scheme and trailing slashes do not matter; a path is refused.\<close>

lemma endpoint_parse_scheme:
  assumes "CHR ''/'' \<notin> set host"
  shows "endpoint_parse T (''http://'' @ host @ replicate k CHR ''/'') = ok_or (tp_parse T host) InvalidAddress"
    "endpoint_parse T (''https://'' @ host @ replicate k CHR ''/'') = ok_or (tp_parse T host) InvalidAddress"
  using assms by (simp_all add: endpoint_parse_def strip_prefix_def starts_with_def trim_end_slash Let_def)

end
