(* ===== verification/Sockets.thy ===== *)
theory Sockets
  imports Storage
begin

text \<open>
  Opening and configuring sockets (\<open>src/network.rs\<close>, \<open>PeerConnection\<close> of \<open>src/p2p.rs\<close>, \<open>configure_stream\<close> of
  \<open>src/gateway.rs\<close>). The calls of the operating system are the record \<open>sockets\<close>; a socket is a value of type \<open>'s\<close>
  that holds its options, so that a call which changes an option returns the socket. Durations are
  seconds. A \<open>PeerConnection\<close> is its stream: its address is the key under which the program keeps it. Errors are the texts
  the program makes of them.
\<close>

section \<open>The operating system\<close>

record 's sockets =
  so_is_ipv6 :: "string \<Rightarrow> bool"
  so_new_v6 :: "io_error + 's" \<comment> \<open>\<open>Socket::new\<close> for IPv6, a TCP stream\<close>
  so_set_only_v6 :: "'s \<Rightarrow> bool \<Rightarrow> io_error + 's"
  so_bind :: "'s \<Rightarrow> string \<Rightarrow> io_error + 's"
  so_listen :: "'s \<Rightarrow> nat \<Rightarrow> io_error + 's"
  so_tcp_bind :: "string \<Rightarrow> io_error + 's" \<comment> \<open>\<open>TcpListener::bind\<close>\<close>
  so_local_addr :: "'s \<Rightarrow> io_error + string"
  so_connect_timeout :: "string \<Rightarrow> nat \<Rightarrow> io_error + 's"
  so_set_nonblocking :: "'s \<Rightarrow> bool \<Rightarrow> io_error + 's"
  so_set_read_timeout :: "'s \<Rightarrow> nat option \<Rightarrow> io_error + 's"
  so_set_write_timeout :: "'s \<Rightarrow> nat option \<Rightarrow> io_error + 's"
  so_show_error :: "io_error \<Rightarrow> string"

text \<open>\<open>map_err\<close> with \<open>format!\<close>: what failed, a colon and the error.\<close>

definition describe :: "'s sockets \<Rightarrow> string \<Rightarrow> io_error + 'a \<Rightarrow> string + 'a" where
  "describe Z what r = map_err (\<lambda>e. what @ '': '' @ so_show_error Z e) r"

section \<open>Listeners and streams\<close>

definition RPC_HTTP_TIMEOUT :: nat where "RPC_HTTP_TIMEOUT = 60"
definition GATEWAY_HTTP_TIMEOUT :: nat where "GATEWAY_HTTP_TIMEOUT = 60"
definition PERSISTENT_PEER_TIMEOUT :: nat where "PERSISTENT_PEER_TIMEOUT = 30"

definition bind_nonblocking :: "'s sockets \<Rightarrow> string \<Rightarrow> string \<Rightarrow> string + 's" where
  "bind_nonblocking Z addr label =
     res_bind
       (if so_is_ipv6 Z addr then
          res_bind (describe Z (''failed to create '' @ label @ '' IPv6 socket'') (so_new_v6 Z)) (\<lambda>socket.
          res_bind (describe Z (''failed to set '' @ label @ '' IPv6-only mode'') (so_set_only_v6 Z socket True)) (\<lambda>socket.
          res_bind (describe Z (''failed to bind '' @ label @ '' '' @ addr) (so_bind Z socket addr)) (\<lambda>socket.
          describe Z (''failed to listen on '' @ label @ '' '' @ addr) (so_listen Z socket 1024))))
        else describe Z (''failed to bind '' @ label @ '' '' @ addr) (so_tcp_bind Z addr))
       (\<lambda>listener. describe Z (''failed to set '' @ label @ '' listener nonblocking'') (so_set_nonblocking Z listener True))"

definition configure_stream :: "'s sockets \<Rightarrow> 's \<Rightarrow> nat \<Rightarrow> string + 's" where
  "configure_stream Z stream timeout =
     res_bind (describe Z ''failed to set stream blocking mode'' (so_set_nonblocking Z stream False)) (\<lambda>stream.
     res_bind (describe Z ''failed to set read timeout'' (so_set_read_timeout Z stream (Some timeout))) (\<lambda>stream.
     describe Z ''failed to set write timeout'' (so_set_write_timeout Z stream (Some timeout))))"

definition connect_peer :: "'s sockets \<Rightarrow> string \<Rightarrow> string + 's" where
  "connect_peer Z peer =
     res_bind (describe Z ''connect failed'' (so_connect_timeout Z peer 2)) (\<lambda>stream. configure_stream Z stream 5)"

definition connection_connect :: "'s sockets \<Rightarrow> string \<Rightarrow> string + 's" where
  "connection_connect Z addr =
     res_bind (connect_peer Z addr) (\<lambda>stream. configure_stream Z stream PERSISTENT_PEER_TIMEOUT)"

definition connection_from_stream :: "'s sockets \<Rightarrow> 's \<Rightarrow> string + 's" where
  "connection_from_stream Z stream = configure_stream Z stream PERSISTENT_PEER_TIMEOUT"

text \<open>The connections of the two HTTP clients, up to their request.\<close>

definition gateway_configure_stream :: "'s sockets \<Rightarrow> 's \<Rightarrow> string + 's" where
  "gateway_configure_stream Z stream =
     res_bind (describe Z ''failed to set gateway read timeout''
       (so_set_read_timeout Z stream (Some GATEWAY_HTTP_TIMEOUT))) (\<lambda>stream.
     describe Z ''failed to set gateway write timeout'' (so_set_write_timeout Z stream (Some GATEWAY_HTTP_TIMEOUT)))"

definition rpc_connect :: "'s sockets \<Rightarrow> string \<Rightarrow> string + 's" where
  "rpc_connect Z addr =
     res_bind (describe Z ''failed to connect rpc'' (so_connect_timeout Z addr 3)) (\<lambda>stream.
     configure_stream Z stream RPC_HTTP_TIMEOUT)"

definition gateway_connect :: "'s sockets \<Rightarrow> string \<Rightarrow> string + 's" where
  "gateway_connect Z addr =
     res_bind (describe Z ''failed to connect gateway'' (so_connect_timeout Z addr 3)) (gateway_configure_stream Z)"

text \<open>Sockets for which every call succeeds, but no peer answers.\<close>

definition refusing_sockets :: "'s \<Rightarrow> 's sockets" where
  "refusing_sockets s0 = \<lparr>so_is_ipv6 = (\<lambda>_. False), so_new_v6 = Ok s0, so_set_only_v6 = (\<lambda>s _. Ok s), so_bind = (\<lambda>s _. Ok s),
     so_listen = (\<lambda>s _. Ok s), so_tcp_bind = (\<lambda>_. Ok s0), so_local_addr = (\<lambda>_. Ok []),
     so_connect_timeout = (\<lambda>_ _. Err (OtherIoError 0)), so_set_nonblocking = (\<lambda>s _. Ok s),
     so_set_read_timeout = (\<lambda>s _. Ok s), so_set_write_timeout = (\<lambda>s _. Ok s), so_show_error = (\<lambda>_. ''refused'')\<rparr>"

lemma refusing_sockets [simp]:
  "connection_connect (refusing_sockets s0) a = Err ''connect failed: refused''"
  "connection_from_stream (refusing_sockets s0) s = Ok s"
  "bind_nonblocking (refusing_sockets s0) a label = Ok s0"
  "describe (refusing_sockets s0) what (so_local_addr (refusing_sockets s0) s) = Ok []"
  by (simp_all add: connection_connect_def connect_peer_def connection_from_stream_def configure_stream_def bind_nonblocking_def
      describe_def refusing_sockets_def map_err_def)

section \<open>Options\<close>

text \<open>
  The options of a socket. \<open>socket_laws\<close> is the documented behaviour of the calls: a setter sets its option and no
  other, and a new connection blocks.
\<close>

record socket_options =
  opt_nonblocking :: bool
  opt_read_timeout :: "nat option"
  opt_write_timeout :: "nat option"

definition socket_laws :: "'s sockets \<Rightarrow> ('s \<Rightarrow> socket_options) \<Rightarrow> bool" where
  "socket_laws Z opt \<longleftrightarrow>
     (\<forall>s b s'. so_set_nonblocking Z s b = Ok s' \<longrightarrow> opt s' = (opt s)\<lparr>opt_nonblocking := b\<rparr>) \<and>
     (\<forall>s d s'. so_set_read_timeout Z s d = Ok s' \<longrightarrow> opt s' = (opt s)\<lparr>opt_read_timeout := d\<rparr>) \<and>
     (\<forall>s d s'. so_set_write_timeout Z s d = Ok s' \<longrightarrow> opt s' = (opt s)\<lparr>opt_write_timeout := d\<rparr>) \<and>
     (\<forall>a d s. so_connect_timeout Z a d = Ok s \<longrightarrow> \<not> opt_nonblocking (opt s))"

text \<open>A stream whose reads and writes block, but not for longer than the given time.\<close>

definition timed :: "nat \<Rightarrow> socket_options \<Rightarrow> bool" where
  "timed d p \<longleftrightarrow> p = \<lparr>opt_nonblocking = False, opt_read_timeout = Some d, opt_write_timeout = Some d\<rparr>"

lemma describe_Ok_iff: "describe Z what r = Ok x \<longleftrightarrow> r = Ok x"
  by (simp add: describe_def map_err_Ok_iff)

lemma configure_stream_timed:
  assumes "socket_laws Z opt" "configure_stream Z s d = Ok s'"
  shows "timed d (opt s')"
  using assms unfolding configure_stream_def socket_laws_def timed_def
  by (auto simp: res_bind_Ok_iff describe_Ok_iff)

lemma gateway_connect_timed:
  assumes "socket_laws Z opt" "gateway_connect Z a = Ok s"
  shows "timed GATEWAY_HTTP_TIMEOUT (opt s)"
  using assms unfolding gateway_connect_def gateway_configure_stream_def socket_laws_def timed_def
  by (auto simp: res_bind_Ok_iff describe_Ok_iff)

lemma connections_timed:
  assumes "socket_laws Z opt"
  shows "connection_connect Z a = Ok s \<Longrightarrow> timed PERSISTENT_PEER_TIMEOUT (opt s)"
    "connection_from_stream Z s0 = Ok s \<Longrightarrow> timed PERSISTENT_PEER_TIMEOUT (opt s)"
    "rpc_connect Z a = Ok s \<Longrightarrow> timed RPC_HTTP_TIMEOUT (opt s)"
  using configure_stream_timed [OF assms]
  by (auto simp: connection_connect_def connection_from_stream_def rpc_connect_def res_bind_Ok_iff)

lemma bind_nonblocking_option:
  assumes "socket_laws Z opt" "bind_nonblocking Z a label = Ok s"
  shows "opt_nonblocking (opt s)"
  using assms unfolding bind_nonblocking_def socket_laws_def
  by (auto simp: res_bind_Ok_iff describe_Ok_iff)

end
