(* ===== verification/Service.thy ===== *)
theory Service
  imports Peers_File Gateway Gossip Sockets "HOL-Library.Char_ord" "HOL-Library.AList"
begin

text \<open>
  The node service (\<open>src/main.rs\<close>, \<open>NodeService\<close> and the functions around it): its construction and
  preflight, the table of peers and its file, the synchronisation round, the gateway refresh, the task
  that serves one inbound connection, broadcasts, the decision whether to mine, and the mining round.
  Peers and connections are association lists, in the order in which the hash maps iterate; a socket
  address is the string it prints as. Locks are never poisoned. Log lines and the counters that only
  the log reads are left out.
\<close>

section \<open>Data\<close>

definition MAX_PEER_FAILURES :: u32 where "MAX_PEER_FAILURES = 3"

type_synonym peer_table = "(string \<times> peer_state) list"

datatype service_error =
    ConnectFailed string
  | PollFailed peer_error
  | DifficultyFailed node_error
  | PrepareFailed consensus_error
  | MiningFailed consensus_error
  | ApplyMinedFailed node_error
  | FlushMinedFailed node_error
  | ConfigureFailed string
  | HandleFailed network_error
  | RespondFailed network_error
  | ShutdownFileExists string
  | MinerKeyMissing
  | MinerKeyMismatch
  | SavePeersFailed peers_error
  | FlushOnShutdownFailed node_error
  | SubmitFailed node_error
  | FlushTransactionFailed node_error

record ('s, 'e, 'f, 'w) service =
  svc_node :: "('e, 'f) node"
  svc_peers :: peer_table
  peer_connections :: "(string \<times> 's) list"
  inbound_connections :: "(string \<times> 's) list"
  requires_peer_sync_before_mining :: bool
  svc_files :: 'w

text \<open>
  What the service calls: the operating system's sockets, the client over a connection, the parser of addresses, the peers
  file, whether a file exists, the gateway, and key derivation.
\<close>

record ('s, 'w) service_env =
  svc_sockets :: "'s sockets"
  svc_client :: "'s client"
  svc_parse :: "string \<Rightarrow> string option"
  svc_peers_env :: "('w, string) peers_env"
  svc_exists :: "'w \<Rightarrow> string \<Rightarrow> bool"
  svc_gateway :: "string gateway_env"
  svc_crypto :: crypto

abbreviation open_connection :: "('s, 'w) service_env \<Rightarrow> string \<Rightarrow> string + 's" where
  "open_connection V a \<equiv> connection_connect (svc_sockets V) a"

section \<open>The table of peers\<close>

text \<open>\<open>get_mut\<close> followed by a change of the state found.\<close>

definition update_peer :: "string \<Rightarrow> (peer_state \<Rightarrow> peer_state) \<Rightarrow> peer_table \<Rightarrow> peer_table" where
  "update_peer a f ps = map (\<lambda>e. if fst e = a then (a, f (snd e)) else e) ps"

definition remove_peer :: "string \<Rightarrow> peer_table \<Rightarrow> peer_table" where
  "remove_peer a ps = filter (\<lambda>e. fst e \<noteq> a) ps"

fun add_infos_loop ::
  "(string \<Rightarrow> string option) \<Rightarrow> string list \<Rightarrow> string list \<Rightarrow> nat \<Rightarrow> nat \<Rightarrow> string set \<Rightarrow> peer_info list \<Rightarrow>
   peer_table \<Rightarrow> bool \<Rightarrow> peer_table \<times> bool" where
  "add_infos_loop parse public listen limit now known_addrs [] current changed = (current, changed)"
| "add_infos_loop parse public listen limit now known_addrs (info # infos) current changed =
     (if limit \<le> length current then (current, changed)
      else case parse (peer_address info) of
        None \<Rightarrow> add_infos_loop parse public listen limit now known_addrs infos current changed
      | Some a \<Rightarrow>
          if a \<in> set public \<or> a \<in> set listen
          then add_infos_loop parse public listen limit now known_addrs infos current changed
          else if a \<in> known_addrs
          then add_infos_loop parse public listen limit now known_addrs infos current changed
          else if a \<notin> fst ` set current
          then add_infos_loop parse public listen limit now known_addrs infos (current @ [(a, peer_state_new a now)]) True
          else add_infos_loop parse public listen limit now known_addrs infos current changed)"

definition add_peer_infos_to ::
  "('s, 'w) service_env \<Rightarrow> string run_config \<Rightarrow> nat \<Rightarrow> peer_info list \<Rightarrow> peer_table \<Rightarrow> peer_table \<times> bool" where
  "add_peer_infos_to V c now infos current =
     add_infos_loop (svc_parse V) (public_addrs c) (listen_addrs c) (unat (max_peers c)) now
       (fst ` set current) infos current False"

definition peer_infos_from :: "string run_config \<Rightarrow> peer_table \<Rightarrow> peer_info list" where
  "peer_infos_from c ps =
     map (\<lambda>a. \<lparr>peer_address = a\<rparr>) (remdups_adj (sort (map fst ps @ public_addrs c)))"

definition save_peers ::
  "('s, 'w) service_env \<Rightarrow> string run_config \<Rightarrow> ('s, 'e, 'f, 'w) service \<Rightarrow> ('s, 'e, 'f, 'w) service \<times> (service_error + unit)" where
  "save_peers V c S =
     (case save_peers_from (svc_peers_env V) (peers_file c) (map fst (svc_peers S)) (svc_files S) of
        (w, r) \<Rightarrow> (S\<lparr>svc_files := w\<rparr>, map_err SavePeersFailed r))"

text \<open>\<open>add_peer_infos\<close>, with the save that follows a change.\<close>

definition add_peer_infos ::
  "('s, 'w) service_env \<Rightarrow> string run_config \<Rightarrow> nat \<Rightarrow> peer_info list \<Rightarrow> ('s, 'e, 'f, 'w) service \<Rightarrow> ('s, 'e, 'f, 'w) service" where
  "add_peer_infos V c now infos S =
     (case add_peer_infos_to V c now infos (svc_peers S) of
        (ps, changed) \<Rightarrow>
          let S = S\<lparr>svc_peers := ps\<rparr> in if changed then fst (save_peers V c S) else S)"

section \<open>Synchronisation\<close>

definition poll_persistent_peer ::
  "('e, 't, 'f) node_env \<Rightarrow> ('s, 'w) service_env \<Rightarrow> string run_config \<Rightarrow> string \<Rightarrow> ('s, 'e, 'f, 'w) service \<Rightarrow>
   ('s, 'e, 'f, 'w) service \<times> (service_error + peer_poll)" where
  "poll_persistent_peer E V c a S =
     (case (case map_of (peer_connections S) a of Some s \<Rightarrow> Ok s | None \<Rightarrow> open_connection V a) of
        Inl e \<Rightarrow> (S, Err (ConnectFailed e))
      | Inr s \<Rightarrow>
          (case poll_peer_connection E (svc_client V) (public_addrs c) (s, svc_node S) of
             ((s', n'), r) \<Rightarrow>
               (S\<lparr>svc_node := n', peer_connections := AList.update a s' (peer_connections S)\<rparr>,
                map_err PollFailed r)))"

text \<open>The two outcomes of a poll, then one round of the loop and the loop over the peers that are due.\<close>

definition peer_polled ::
  "('s, 'w) service_env \<Rightarrow> string run_config \<Rightarrow> nat \<Rightarrow> string \<Rightarrow> u64 \<Rightarrow> ('s, 'e, 'f, 'w) service \<Rightarrow> ('s, 'e, 'f, 'w) service" where
  "peer_polled V c now a remote_tip S =
     (let S = S\<lparr>svc_peers := update_peer a (mark_ok now (Some remote_tip)) (svc_peers S)\<rparr> in
      case map_of (peer_connections S) a of
        None \<Rightarrow> S
      | Some s \<Rightarrow>
          (case request_peers_connection (svc_client V) s of
             (s', r) \<Rightarrow>
               let S = S\<lparr>peer_connections := AList.update a s' (peer_connections S)\<rparr> in
               (case r of
                  Inl _ \<Rightarrow> S
                | Inr infos \<Rightarrow> add_peer_infos V c now infos S)))"

definition peer_failed ::
  "('s, 'w) service_env \<Rightarrow> string run_config \<Rightarrow> nat \<Rightarrow> string \<Rightarrow> ('s, 'e, 'f, 'w) service \<Rightarrow> ('s, 'e, 'f, 'w) service" where
  "peer_failed V c now a S =
     (let ps = update_peer a (mark_failed now) (svc_peers S);
          drop_it = (case map_of ps a of None \<Rightarrow> False | Some p \<Rightarrow> MAX_PEER_FAILURES \<le> failures p);
          S = S\<lparr>svc_peers := (if drop_it then remove_peer a ps else ps),
                peer_connections := AList.delete a (peer_connections S)\<rparr>
      in if drop_it then fst (save_peers V c S) else S)"

definition sync_peer ::
  "('e, 't, 'f) node_env \<Rightarrow> ('s, 'w) service_env \<Rightarrow> string run_config \<Rightarrow> nat \<Rightarrow> string \<Rightarrow>
   ('s, 'e, 'f, 'w) service \<Rightarrow> ('s, 'e, 'f, 'w) service" where
  "sync_peer E V c now a S =
     (case poll_persistent_peer E V c a S of
        (S', Inl _) \<Rightarrow> peer_failed V c now a S'
      | (S', Inr (Idle tip)) \<Rightarrow> peer_polled V c now a tip S'
      | (S', Inr (Synced tip)) \<Rightarrow> peer_polled V c now a tip S')"

definition sync_peers ::
  "('e, 't, 'f) node_env \<Rightarrow> ('s, 'w) service_env \<Rightarrow> string run_config \<Rightarrow> nat \<Rightarrow> ('s, 'e, 'f, 'w) service \<Rightarrow> ('s, 'e, 'f, 'w) service" where
  "sync_peers E V c now S =
     fold (sync_peer E V c now) (map fst (filter (\<lambda>(_, p). next_attempt p \<le> now) (svc_peers S))) S"

section \<open>Serving an inbound connection\<close>

datatype 'a served = Served 'a | Closed 'a | Failed 'a service_error

text \<open>
  The answer to one message, with the peers, their file and the node it leaves, then one iteration of
  \<open>handle_p2p_stream_task\<close> on the stream, the peers, the file and the node.
\<close>

fun respond ::
  "('e, 't, 'f) node_env \<Rightarrow> ('s, 'w) service_env \<Rightarrow> string run_config \<Rightarrow> nat \<Rightarrow> u64 \<Rightarrow> peer_table \<times> 'w \<Rightarrow> ('e, 'f) node \<Rightarrow>
   network_message \<Rightarrow> (peer_table \<times> 'w) \<times> ('e, 'f) node \<times> (network_error + network_message option)" where
  "respond E V c now clock (ps, w) n GetPeers = ((ps, w), n, Ok (Some (Peers (peer_infos_from c ps))))"
| "respond E V c now clock (ps, w) n (Peers infos) =
     (case add_peer_infos_to V c now infos ps of
        (ps', changed) \<Rightarrow>
          ((ps', if changed then fst (save_peers_from (svc_peers_env V) (peers_file c) (map fst ps') w) else w), n, Ok None))"
| "respond E V c now clock (ps, w) n m =
     (case handle_message (cl_params (svc_client V)) E clock n m of (n', r) \<Rightarrow> ((ps, w), n', r))"

definition serve_message ::
  "('e, 't, 'f) node_env \<Rightarrow> ('s, 'w) service_env \<Rightarrow> string run_config \<Rightarrow> nat \<Rightarrow>
   's \<times> (peer_table \<times> 'w) \<times> ('e, 'f) node \<Rightarrow> ('s \<times> (peer_table \<times> 'w) \<times> ('e, 'f) node) served" where
  "serve_message E V c now = (\<lambda>(s, ps, n).
     let X = svc_client V in
     case read_message (stream_read_exact (cl_ops X)) (cl_params X) (cl_codec X) s of
       (s, Inl _) \<Rightarrow> Closed (s, ps, n)
     | (s, Inr envelope) \<Rightarrow>
         let (ps, n, response) = respond E V c now (stream_clock (cl_ops X) s) ps n (message envelope)
         in (case response of
               Inl e \<Rightarrow> Failed (s, ps, n) (HandleFailed e)
             | Inr None \<Rightarrow> Served (s, ps, n)
             | Inr (Some m) \<Rightarrow>
                 (case write_message (stream_write_all (cl_ops X)) (cl_codec X) s (to_envelope (cl_params X) m) of
                    (s, Inl e) \<Rightarrow> Failed (s, ps, n) (RespondFailed e)
                  | (s, Inr _) \<Rightarrow> Served (s, ps, n))))"

text \<open>The loop, which lasts as long as the peer keeps sending: what it leaves after at most \<open>k\<close> messages.\<close>

fun serve_loop ::
  "('e, 't, 'f) node_env \<Rightarrow> ('s, 'w) service_env \<Rightarrow> string run_config \<Rightarrow> nat \<Rightarrow> nat \<Rightarrow>
   's \<times> (peer_table \<times> 'w) \<times> ('e, 'f) node \<Rightarrow> ('s \<times> (peer_table \<times> 'w) \<times> ('e, 'f) node) served" where
  "serve_loop E V c now 0 w = Served w"
| "serve_loop E V c now (Suc k) w =
     (case serve_message E V c now w of
        Served w' \<Rightarrow> serve_loop E V c now k w'
      | r \<Rightarrow> r)"

definition handle_p2p_stream_task ::
  "('e, 't, 'f) node_env \<Rightarrow> ('s, 'w) service_env \<Rightarrow> string run_config \<Rightarrow> nat \<Rightarrow> nat \<Rightarrow>
   's \<times> (peer_table \<times> 'w) \<times> ('e, 'f) node \<Rightarrow> ('s \<times> (peer_table \<times> 'w) \<times> ('e, 'f) node) served" where
  "handle_p2p_stream_task E V c now k = (\<lambda>(stream, w).
     case configure_stream (svc_sockets V) stream PERSISTENT_PEER_TIMEOUT of
       Inl e \<Rightarrow> Failed (stream, w) (ConfigureFailed e)
     | Inr stream \<Rightarrow> serve_loop E V c now k (stream, w))"

section \<open>Mining\<close>

definition needs_peer_handshake_before_mining :: "('s, 'e, 'f, 'w) service \<Rightarrow> bool" where
  "needs_peer_handshake_before_mining S \<longleftrightarrow>
     requires_peer_sync_before_mining S \<and> svc_peers S \<noteq> [] \<and>
     \<not> list_ex (\<lambda>(_, p). last_tip p \<noteq> None) (svc_peers S)"

definition peer_ahead_of_local_tip :: "('e, 't, 'f) node_env \<Rightarrow> ('s, 'e, 'f, 'w) service \<Rightarrow> bool" where
  "peer_ahead_of_local_tip E S \<longleftrightarrow>
     (let local_height = (case ledger_tip_height (env_core E) (node_ledger (svc_node S)) of None \<Rightarrow> 0 | Some h \<Rightarrow> h)
      in list_ex (\<lambda>(_, p). case last_tip p of None \<Rightarrow> False | Some h \<Rightarrow> local_height < h) (svc_peers S))"

definition mining_wait_reason :: "('e, 't, 'f) node_env \<Rightarrow> ('s, 'e, 'f, 'w) service \<Rightarrow> string option" where
  "mining_wait_reason E S =
     (if has_pending_sync_work (svc_node S) then Some ''sync_pending''
      else if needs_peer_handshake_before_mining S then Some ''handshake_pending''
      else if peer_ahead_of_local_tip E S then Some ''peer_ahead''
      else None)"

text \<open>The first locked section of \<open>mine_once_unlocked\<close>: prune the pool and prepare a candidate.\<close>

definition mine_prepare ::
  "('e, 't, 'f) node_env \<Rightarrow> string run_config \<Rightarrow> nat \<Rightarrow> u64 \<Rightarrow> ('e, 'f) node \<Rightarrow>
   ('e, 'f) node \<times> (service_error + block \<times> mining_config)" where
  "mine_prepare E c MAX_BLOCK_TXS timestamp n =
     (let n = n\<lparr>node_mempool := fst (prune_expired (env_core E) (node_mempool n) timestamp)\<rparr> in
      (n, res_bind (map_err DifficultyFailed (next_difficulty E n)) (\<lambda>difficulty.
          res_bind (map_err PrepareFailed (prepare_candidate_block (env_core E) (node_mempool n) (node_ledger n)
            (cfg_miner_address c) timestamp MAX_BLOCK_TXS difficulty)) (\<lambda>candidate.
          Ok (candidate, \<lparr>mc_difficulty = difficulty, mc_max_attempts = mine_attempts c,
            mc_transaction_limit = MAX_BLOCK_TXS\<rparr>)))))"

text \<open>The last locked section: the block is applied only on the tip it was prepared for.\<close>

definition mine_finish ::
  "('e, 't, 'f) node_env \<Rightarrow> hash \<Rightarrow> block \<Rightarrow> u64 \<Rightarrow> ('e, 'f) node \<Rightarrow> ('e, 'f) node \<times> (service_error + block option)" where
  "mine_finish E parent_hash b now n =
     (if ledger_tip_hash (env_core E) (node_ledger n) \<noteq> Some parent_hash then (n, Ok None)
      else case apply_block E n b now of
        (n', Inl e) \<Rightarrow> (n', Err (ApplyMinedFailed e))
      | (n', Inr _) \<Rightarrow> (case flush_to_storage E n' of
          (n'', Inl e) \<Rightarrow> (n'', Err (FlushMinedFailed e))
        | (n'', Inr _) \<Rightarrow> (n'', Ok (Some b))))"

text \<open>The round, where \<open>others\<close> is what other threads do to the node while the lock is free.\<close>

definition mine_once_unlocked ::
  "('e, 't, 'f) node_env \<Rightarrow> string run_config \<Rightarrow> nat \<Rightarrow> u64 \<Rightarrow> u64 \<Rightarrow> (('e, 'f) node \<Rightarrow> ('e, 'f) node) \<Rightarrow>
   ('e, 'f) node \<Rightarrow> ('e, 'f) node \<times> (service_error + block option)" where
  "mine_once_unlocked E c MAX_BLOCK_TXS timestamp now others n =
     (case mine_prepare E c MAX_BLOCK_TXS timestamp n of
        (n', Inl e) \<Rightarrow> (n', Err e)
      | (n', Inr (candidate, mining_config)) \<Rightarrow>
          (case mine_prepared_block (env_consensus E) candidate mining_config of
             Inl e \<Rightarrow> (others n', Err (MiningFailed e))
           | Inr None \<Rightarrow> (others n', Ok None)
           | Inr (Some result) \<Rightarrow>
               mine_finish E (previous_hash candidate) (mined_block result) now (others n')))"

text \<open>The hash rate shown to users, in hashes per second.\<close>

definition hashrate :: "u64 \<Rightarrow> nat \<Rightarrow> nat" where
  "hashrate attempts elapsed_nanos = min (unat attempts * 1000000000 div max elapsed_nanos 1) (2 ^ 64 - 1)"

section \<open>Gateway refresh\<close>

definition tip_report :: "('e, 't, 'f) node_env \<Rightarrow> ('s, 'w) service_env \<Rightarrow> ('e, 'f) node \<Rightarrow> u64 option \<times> string option" where
  "tip_report E V n =
     (ledger_tip_height (env_core E) (node_ledger n),
      map_option (gw_hex_encode (svc_gateway V)) (ledger_tip_hash (env_core E) (node_ledger n)))"

text \<open>The registrations or heartbeats of the public addresses, with their results, which are only logged.\<close>

definition announce ::
  "('e, 't, 'f) node_env \<Rightarrow> ('s, 'w) service_env \<Rightarrow> string run_config \<Rightarrow> string \<Rightarrow> bool \<Rightarrow> ('e, 'f) node \<Rightarrow> (http_error + unit) list" where
  "announce E V c url register n =
     (case tip_report E V n of (best_height, tip_hash) \<Rightarrow>
        map (\<lambda>a. if register then register_peer (svc_gateway V) url a best_height tip_hash
                else heartbeat_peer (svc_gateway V) url a best_height tip_hash) (public_addrs c))"

text \<open>The refresh: what the announcements returned, and the service with the peers the gateway knows.\<close>

definition discover_peers ::
  "('s, 'w) service_env \<Rightarrow> string run_config \<Rightarrow> nat \<Rightarrow> string \<Rightarrow> ('s, 'e, 'f, 'w) service \<Rightarrow> ('s, 'e, 'f, 'w) service" where
  "discover_peers V c now url S =
     (let available = unat (max_peers c) - length (svc_peers S);
          exclude = (case public_addrs c of a # _ \<Rightarrow> Some a
            | [] \<Rightarrow> (case listen_addrs c of a # _ \<Rightarrow> Some a | [] \<Rightarrow> None))
      in if available = 0 then S
         else case request_gateway_peers (svc_gateway V) url (min available 32) exclude of
           Inl _ \<Rightarrow> S
         | Inr infos \<Rightarrow> if infos = [] then S else add_peer_infos V c now infos S)"

definition refresh_gateway_peers ::
  "('e, 't, 'f) node_env \<Rightarrow> ('s, 'w) service_env \<Rightarrow> string run_config \<Rightarrow> nat \<Rightarrow> bool \<Rightarrow> ('s, 'e, 'f, 'w) service \<Rightarrow>
   ('s, 'e, 'f, 'w) service \<times> (http_error + unit) list" where
  "refresh_gateway_peers E V c now register S =
     (case gateway_url c of
        None \<Rightarrow> (S, [])
      | Some url \<Rightarrow> (discover_peers V c now url S, announce E V c url register (svc_node S)))"

section \<open>Broadcast\<close>

text \<open>One known peer: connect if need be, send, and remove the connection when sending fails.\<close>

definition broadcast_known ::
  "('s, 'w) service_env \<Rightarrow> network_message \<Rightarrow> string \<Rightarrow> (string \<times> 's) list \<times> broadcast_report \<Rightarrow> (string \<times> 's) list \<times> broadcast_report" where
  "broadcast_known V m a = (\<lambda>(conns, rep).
     case (case map_of conns a of Some s \<Rightarrow> Ok s | None \<Rightarrow> open_connection V a) of
       Inl _ \<Rightarrow> (conns, rep\<lparr>failed := Suc (failed rep)\<rparr>)
     | Inr s \<Rightarrow>
         (case connection_send (svc_client V) s m of
            (s', Inr _) \<Rightarrow> (conn_update a s' conns, rep\<lparr>sent := Suc (sent rep)\<rparr>)
          | (s', Inl _) \<Rightarrow> (conn_remove a (conn_update a s' conns), rep\<lparr>failed := Suc (failed rep)\<rparr>)))"

definition broadcast_inbound ::
  "('s, 'w) service_env \<Rightarrow> network_message \<Rightarrow> string \<Rightarrow> (string \<times> 's) list \<times> broadcast_report \<Rightarrow> (string \<times> 's) list \<times> broadcast_report" where
  "broadcast_inbound V m a = (\<lambda>(conns, rep).
     let rep = rep\<lparr>attempted := Suc (attempted rep)\<rparr> in
     case map_of conns a of
       None \<Rightarrow> (conn_remove a conns, rep\<lparr>failed := Suc (failed rep)\<rparr>)
     | Some s \<Rightarrow>
         (case connection_send (svc_client V) s m of
            (s', Inr _) \<Rightarrow> (conn_update a s' conns, rep\<lparr>sent := Suc (sent rep)\<rparr>)
          | (s', Inl _) \<Rightarrow> (conn_remove a (conn_update a s' conns), rep\<lparr>failed := Suc (failed rep)\<rparr>)))"

definition service_broadcast ::
  "('s, 'w) service_env \<Rightarrow> network_message \<Rightarrow> ('s, 'e, 'f, 'w) service \<Rightarrow> ('s, 'e, 'f, 'w) service \<times> broadcast_report" where
  "service_broadcast V m S =
     (let peers = map fst (svc_peers S);
          (conns, rep) = fold (broadcast_known V m) peers
            (peer_connections S, \<lparr>attempted = length peers, sent = 0, failed = 0\<rparr>);
          (inbound, rep) = fold (broadcast_inbound V m)
            (filter (\<lambda>a. a \<notin> set peers) (map fst (inbound_connections S))) (inbound_connections S, rep)
      in (S\<lparr>peer_connections := conns, inbound_connections := inbound\<rparr>, rep))"

text \<open>The calls of \<open>gossip.rs\<close>, over the same connections.\<close>

definition service_channel :: "('s, 'w) service_env \<Rightarrow> 's channel" where
  "service_channel V = \<lparr>connect = connection_connect (svc_sockets V),
     channel_send = (\<lambda>s m. case connection_send (svc_client V) s m of (s', r) \<Rightarrow> (s', map_err (\<lambda>_. ''send failed'') r))\<rparr>"

section \<open>Connections, submissions and shutdown\<close>

text \<open>A connection that was accepted, with the clone of its stream if there is one, and the end of its thread.\<close>

definition accept_connection ::
  "('s, 'w) service_env \<Rightarrow> string \<Rightarrow> 's option \<Rightarrow> ('s, 'e, 'f, 'w) service \<Rightarrow> ('s, 'e, 'f, 'w) service" where
  "accept_connection V a writer S =
     (case writer of
        None \<Rightarrow> S
      | Some stream \<Rightarrow>
          (case connection_from_stream (svc_sockets V) stream of
             Inl _ \<Rightarrow> S
           | Inr s \<Rightarrow> S\<lparr>inbound_connections := AList.update a s (inbound_connections S)\<rparr>))"

definition close_connection :: "string \<Rightarrow> ('s, 'e, 'f, 'w) service \<Rightarrow> ('s, 'e, 'f, 'w) service" where
  "close_connection a S = S\<lparr>inbound_connections := AList.delete a (inbound_connections S)\<rparr>"

text \<open>The locked section of \<open>rpc_submit_tx\<close>.\<close>

definition submit_section ::
  "('e, 't, 'f) node_env \<Rightarrow> signed_transaction \<Rightarrow> u64 \<Rightarrow> ('e, 'f) node \<Rightarrow> ('e, 'f) node \<times> (service_error + unit)" where
  "submit_section E tx now n =
     (case submit_transaction E n tx now of
        (n', Inl e) \<Rightarrow> (n', Err (SubmitFailed e))
      | (n', Inr _) \<Rightarrow> (case flush_to_storage E n' of
          (n'', r) \<Rightarrow> (n'', map_err FlushTransactionFailed r)))"

definition shutdown ::
  "('e, 't, 'f) node_env \<Rightarrow> ('s, 'w) service_env \<Rightarrow> string run_config \<Rightarrow> ('s, 'e, 'f, 'w) service \<Rightarrow>
   ('s, 'e, 'f, 'w) service \<times> (service_error + unit)" where
  "shutdown E V c S =
     (case flush_to_storage E (svc_node S) of
        (n, Inl e) \<Rightarrow> (S\<lparr>svc_node := n\<rparr>, Err (FlushOnShutdownFailed e))
      | (n, Inr _) \<Rightarrow> save_peers V c (S\<lparr>svc_node := n\<rparr>))"

section \<open>Activity\<close>

datatype node_activity = Starting | WaitingForPeers | Syncing | WaitingForTransactions | Mining | ServingPeers

definition current_activity ::
  "('e, 't, 'f) node_env \<Rightarrow> string run_config \<Rightarrow> ('s, 'e, 'f, 'w) service \<Rightarrow> node_activity" where
  "current_activity E c S =
     (if svc_peers S = [] \<and> gateway_url c \<noteq> None then WaitingForPeers
      else if has_pending_sync_work (svc_node S) \<or> needs_peer_handshake_before_mining S \<or> peer_ahead_of_local_tip E S
      then Syncing
      else if mine c \<and> mempool_len (node_mempool (svc_node S)) = 0 then WaitingForTransactions
      else if mine c then Mining
      else if svc_peers S \<noteq> [] then Syncing
      else ServingPeers)"

section \<open>Start-up\<close>

definition node_service_new ::
  "string run_config \<Rightarrow> nat \<Rightarrow> ('e, 'f) node \<Rightarrow> 'w \<Rightarrow> ('s, 'e, 'f, 'w) service" where
  "node_service_new c now n w = \<lparr>
     svc_node = n, svc_peers = map (\<lambda>a. (a, peer_state_new a now)) (cfg_peers c),
     peer_connections = [], inbound_connections = [],
     requires_peer_sync_before_mining = (mine c \<and> (cfg_peers c \<noteq> [] \<or> gateway_url c \<noteq> None)),
     svc_files = w\<rparr>"

definition check_miner :: "('s, 'w) service_env \<Rightarrow> string run_config \<Rightarrow> service_error + unit" where
  "check_miner V c =
     (if \<not> mine c then Ok ()
      else res_bind (ok_or (miner_secret_key c) MinerKeyMissing) (\<lambda>sk.
        if address_from_public_key (svc_crypto V) (derive_public_key (svc_crypto V) sk) \<noteq> cfg_miner_address c
        then Err MinerKeyMismatch else Ok ()))"

text \<open>\<open>poll_peer\<close>, over a connection of its own, and the round of the preflight for a peer.\<close>

definition poll_peer ::
  "('e, 't, 'f) node_env \<Rightarrow> ('s, 'w) service_env \<Rightarrow> string run_config \<Rightarrow> string \<Rightarrow> ('e, 'f) node \<Rightarrow>
   ('e, 'f) node \<times> (service_error + peer_poll)" where
  "poll_peer E V c a n =
     (case open_connection V a of
        Inl e \<Rightarrow> (n, Err (ConnectFailed e))
      | Inr s \<Rightarrow> (case poll_peer_connection E (svc_client V) (public_addrs c) (s, n) of
          ((_, n'), r) \<Rightarrow> (n', map_err PollFailed r)))"

definition preflight_peer ::
  "('e, 't, 'f) node_env \<Rightarrow> ('s, 'w) service_env \<Rightarrow> string run_config \<Rightarrow> nat \<Rightarrow> string \<Rightarrow>
   ('s, 'e, 'f, 'w) service \<Rightarrow> ('s, 'e, 'f, 'w) service" where
  "preflight_peer E V c now a S =
     (case poll_peer E V c a (svc_node S) of
        (n, r) \<Rightarrow>
          let mark = (case r of Inl _ \<Rightarrow> mark_failed now
                | Inr (Idle tip) \<Rightarrow> mark_ok now (Some tip) | Inr (Synced tip) \<Rightarrow> mark_ok now (Some tip))
          in S\<lparr>svc_node := n, svc_peers := update_peer a mark (svc_peers S)\<rparr>)"

definition preflight ::
  "('e, 't, 'f) node_env \<Rightarrow> ('s, 'w) service_env \<Rightarrow> string run_config \<Rightarrow> nat \<Rightarrow>
   ('s, 'e, 'f, 'w) service \<Rightarrow> ('s, 'e, 'f, 'w) service \<times> (service_error + unit)" where
  "preflight E V c now S =
     (if svc_exists V (svc_files S) (shutdown_file c) then (S, Err (ShutdownFileExists (shutdown_file c)))
      else case res_bind (map_err DifficultyFailed (next_difficulty E (svc_node S))) (\<lambda>_. check_miner V c) of
        Inl e \<Rightarrow> (S, Err e)
      | Inr _ \<Rightarrow>
          let S = fst (refresh_gateway_peers E V c now True S)
          in save_peers V c (fold (preflight_peer E V c now) (map fst (svc_peers S)) S))"

end
