(* ===== verification/Service_Properties.thy ===== *)
theory Service_Properties
  imports Service
begin

text \<open>
  The node service as a transition system, its invariant, and what a mining round and a broadcast do.
\<close>

section \<open>The service as a transition system\<close>

text \<open>
  The steps of a running node: an inbound message, either locked section of a mining round, a submission to the RPC
  server, a gateway refresh, a broadcast, a connection accepted or closed, the shutdown, and a synchronisation round; and so is a change of
  the files by somebody else, who creates the shutdown file. Any interleaving of the threads at these units is a sequence of
  steps. A synchronisation round, and the handling of one inbound message, are one step each, although the code releases
  and takes the locks again within them; the orders of the locks are in \<open>Locks\<close>. A
  service starts as \<open>run_node\<close> makes it: a node that has been opened, the configured peers and those of
  the peers file within the limit, and a successful preflight.
\<close>

fun served_state :: "'w served \<Rightarrow> 'w" where
  "served_state (Served w) = w"
| "served_state (Closed w) = w"
| "served_state (Failed w _) = w"

inductive service_step ::
  "('e, 't, 'f) node_env \<Rightarrow> ('s, 'w) service_env \<Rightarrow> string run_config \<Rightarrow>
   ('s, 'e, 'f, 'w) service \<Rightarrow> ('s, 'e, 'f, 'w) service \<Rightarrow> bool"
  for E V c where
  sync: "service_step E V c S (sync_peers E V c now S)"
| inbound: "served_state (serve_message E V c now (s, (svc_peers S, svc_files S), svc_node S)) = (s', (ps, w), n) \<Longrightarrow>
    service_step E V c S (S\<lparr>svc_peers := ps, svc_files := w, svc_node := n\<rparr>)"
| prepare: "service_step E V c S (S\<lparr>svc_node := fst (mine_prepare E c limit timestamp (svc_node S))\<rparr>)"
| finish: "service_step E V c S (S\<lparr>svc_node := fst (mine_finish E h b now (svc_node S))\<rparr>)"
| rpc: "service_step E V c S (S\<lparr>svc_node := fst (submit_section E tx now (svc_node S))\<rparr>)"
| refresh: "service_step E V c S (fst (refresh_gateway_peers E V c now register S))"
| broadcast: "service_step E V c S (fst (service_broadcast V m S))"
| accept: "service_step E V c S (accept_connection V a writer S)"
| close: "service_step E V c S (close_connection a S)"
| stop: "service_step E V c S (fst (shutdown E V c S))"
| outside: "service_step E V c S (S\<lparr>svc_files := w\<rparr>)"

definition service_init ::
  "('e, 't, 'f) node_env \<Rightarrow> ('s, 'w) service_env \<Rightarrow> string run_config \<Rightarrow> ('s, 'e, 'f, 'w) service \<Rightarrow> bool" where
  "service_init E V c S \<longleftrightarrow>
     (\<exists>c0 file_peers n w now. c = c0\<lparr>cfg_peers := run_node_peers c0 file_peers\<rparr> \<and>
        reach (node_init E) (node_step E) n \<and>
        preflight E V c now (node_service_new c now n w) = (S, Ok ()))"

definition peers_ok :: "nat \<Rightarrow> peer_table \<Rightarrow> bool" where
  "peers_ok limit ps \<longleftrightarrow> distinct (map fst ps) \<and> length ps \<le> limit \<and>
     (\<forall>e \<in> set ps. failures (snd e) < MAX_PEER_FAILURES)"

definition service_inv ::
  "('e, 't, 'f) node_env \<Rightarrow> string run_config \<Rightarrow> ('s, 'e, 'f, 'w) service \<Rightarrow> bool" where
  "service_inv E c S \<longleftrightarrow> reach (node_init E) (node_step E) (svc_node S) \<and> peers_ok (unat (max_peers c)) (svc_peers S)"

lemma map_fst_update_peer [simp]: "map fst (update_peer a f ps) = map fst ps"
  by (auto simp: update_peer_def)

lemma length_update_peer [simp]: "length (update_peer a f ps) = length ps"
  by (simp add: update_peer_def)

lemma set_update_peer: "e \<in> set (update_peer a f ps) \<Longrightarrow> e \<in> set ps \<and> fst e \<noteq> a \<or> (\<exists>p. (a, p) \<in> set ps \<and> e = (a, f p))"
  by (auto simp: update_peer_def split: if_splits)

lemma mark_ok_peers: "peers_ok k ps \<Longrightarrow> peers_ok k (update_peer a (mark_ok now tip) ps)"
  by (auto simp: peers_ok_def mark_ok_def MAX_PEER_FAILURES_def dest!: set_update_peer)

lemma add_infos_peers:
  "peers_ok k ps \<Longrightarrow> peers_ok k (fst (add_infos_loop parse public listen k now known_addrs infos ps changed))"
proof (induction infos arbitrary: ps changed)
  case (Cons info infos)
  have "peers_ok k (ps @ [(a, peer_state_new a now)])" if "a \<notin> fst ` set ps" "\<not> k \<le> length ps" for a
    using that Cons.prems by (auto simp: peers_ok_def peer_state_new_def MAX_PEER_FAILURES_def)
  then show ?case using Cons by (simp split: option.split)
qed simp

lemma add_peer_infos_peers:
  "peers_ok (unat (max_peers c)) ps \<Longrightarrow> peers_ok (unat (max_peers c)) (fst (add_peer_infos_to V c now infos ps))"
  by (simp add: add_peer_infos_to_def add_infos_peers)

lemma save_peers_frame [simp]:
  "svc_node (fst (save_peers V c S)) = svc_node S" "svc_peers (fst (save_peers V c S)) = svc_peers S"
  by (simp_all add: save_peers_def split: prod.split)

lemma add_peer_infos_frame [simp]: "svc_node (add_peer_infos V c now infos S) = svc_node S"
  by (simp add: add_peer_infos_def Let_def split: prod.split)

lemma add_peer_infos_table:
  "peers_ok (unat (max_peers c)) (svc_peers S) \<Longrightarrow> peers_ok (unat (max_peers c)) (svc_peers (add_peer_infos V c now infos S))"
  using add_peer_infos_peers [of c "svc_peers S" V now infos] by (simp add: add_peer_infos_def Let_def case_prod_beta)

lemma peer_polled_peers:
  "peers_ok (unat (max_peers c)) (svc_peers S) \<Longrightarrow> peers_ok (unat (max_peers c)) (svc_peers (peer_polled V c now a tip S))"
  by (auto simp: peer_polled_def Let_def mark_ok_peers intro!: add_peer_infos_table split: option.split prod.split sum.split)

text \<open>A failure counts, and a peer with three failures is removed.\<close>

lemma failed_peers:
  assumes "peers_ok k ps"
    and "ps' = (let qs = update_peer a (mark_failed now) ps in
      if (case map_of qs a of None \<Rightarrow> False | Some p \<Rightarrow> MAX_PEER_FAILURES \<le> failures p) then remove_peer a qs else qs)"
  shows "peers_ok k ps'"
proof -
  let ?ps = "update_peer a (mark_failed now) ps"
  have dis: "distinct (map fst ?ps)" using assms by (simp add: peers_ok_def)
  have low: "failures (snd e) < MAX_PEER_FAILURES" if "e \<in> set ?ps" "fst e \<noteq> a" for e
    using set_update_peer [OF that(1)] that(2) assms by (auto simp: peers_ok_def)
  have "failures p < MAX_PEER_FAILURES" if "(a, p) \<in> set ?ps" "\<not> (case map_of ?ps a of None \<Rightarrow> False | Some p \<Rightarrow> MAX_PEER_FAILURES \<le> failures p)" for p
    using map_of_is_SomeI [OF dis that(1)] that(2) by (simp add: not_le)
  then have "\<forall>e \<in> set ps'. failures (snd e) < MAX_PEER_FAILURES"
    using low unfolding assms(2) by (auto simp: Let_def remove_peer_def) (metis fst_conv snd_conv)+
  moreover have "distinct (map fst (remove_peer a ?ps))" "length (remove_peer a ?ps) \<le> length ps"
    using distinct_map_filter [OF dis] length_filter_le [of "\<lambda>e. fst e \<noteq> a" ?ps] by (simp_all add: remove_peer_def)
  ultimately show ?thesis using assms dis by (auto simp: peers_ok_def Let_def)
qed

lemma peer_failed_peers: "peers_ok k (svc_peers S) \<Longrightarrow> peers_ok k (svc_peers (peer_failed V c now a S))"
  by (erule failed_peers [where a = a and now = now]) (simp add: peer_failed_def Let_def)

lemma peer_frames [simp]:
  "svc_node (peer_polled V c now a tip S) = svc_node S" "svc_node (peer_failed V c now a S) = svc_node S"
  by (simp_all add: peer_polled_def peer_failed_def Let_def split: option.split prod.split sum.split)

lemma discover_peers_frame [simp]: "svc_node (discover_peers V c now url S) = svc_node S"
  by (simp add: discover_peers_def Let_def split: sum.split)

lemma refresh_frame [simp]: "svc_node (fst (refresh_gateway_peers E V c now register S)) = svc_node S"
  by (simp add: refresh_gateway_peers_def split: option.split)

lemma refresh_peers:
  "peers_ok (unat (max_peers c)) (svc_peers S) \<Longrightarrow>
   peers_ok (unat (max_peers c)) (svc_peers (fst (refresh_gateway_peers E V c now register S)))"
  by (auto simp: refresh_gateway_peers_def discover_peers_def Let_def intro!: add_peer_infos_table split: option.split sum.split)

lemma service_broadcast_frame [simp]:
  "svc_node (fst (service_broadcast V m S)) = svc_node S" "svc_peers (fst (service_broadcast V m S)) = svc_peers S"
  by (simp_all add: service_broadcast_def Let_def split: prod.split)

lemma connection_frames [simp]:
  "svc_node (accept_connection V a writer S) = svc_node S" "svc_peers (accept_connection V a writer S) = svc_peers S"
  "svc_node (close_connection a S) = svc_node S" "svc_peers (close_connection a S) = svc_peers S"
  by (simp_all add: accept_connection_def close_connection_def split: option.split sum.split)

lemma poll_persistent_peers [simp]: "svc_peers (fst (poll_persistent_peer E V c a S)) = svc_peers S"
  by (simp add: poll_persistent_peer_def split: sum.split prod.split)

lemma shutdown_frame [simp]:
  "svc_peers (fst (shutdown E V c S)) = svc_peers S"
  "svc_node (fst (shutdown E V c S)) = fst (flush_to_storage E (svc_node S))"
  by (simp_all add: shutdown_def case_prod_beta split: sum.split)

context node_provider begin

lemma poll_persistent_good: "good (svc_node S) \<Longrightarrow> good (svc_node (fst (poll_persistent_peer E V c a S)))"
  by (simp add: poll_persistent_peer_def case_prod_beta poll_good split: sum.split)

lemma sync_peer_good: "good (svc_node S) \<Longrightarrow> good (svc_node (sync_peer E V c now a S))"
  using poll_persistent_good [of S V c a] by (auto simp: sync_peer_def split: prod.split sum.split peer_poll.split)

lemma sync_fold_good: "good (svc_node S) \<Longrightarrow> good (svc_node (fold (sync_peer E V c now) as S))"
  by (induction as arbitrary: S) (simp_all add: sync_peer_good)

lemma prepare_good: "good n \<Longrightarrow> good (fst (mine_prepare E c limit timestamp n))"
  by (simp add: mine_prepare_def Let_def prune_good)

lemma finish_good: "good n \<Longrightarrow> good (fst (mine_finish E h b now n))"
  using apply_good [of n b now] flush_good [of "fst (apply_block E n b now)"]
  by (auto simp: mine_finish_def split: prod.split sum.split)

lemma submit_section_good: "good n \<Longrightarrow> good (fst (submit_section E tx now n))"
  using submit_good [of n tx now] flush_good [of "fst (submit_transaction E n tx now)"]
  by (auto simp: submit_section_def split: prod.split sum.split)

lemma poll_peer_good: "good n \<Longrightarrow> good (fst (poll_peer E V c a n))"
  by (simp add: poll_peer_def case_prod_beta poll_good split: sum.split)

lemma preflight_fold_good: "good (svc_node S) \<Longrightarrow> good (svc_node (fold (preflight_peer E V c now) as S))"
  by (induction as arbitrary: S) (simp_all add: preflight_peer_def case_prod_beta Let_def poll_peer_good)

lemma respond_good: "good n \<Longrightarrow> good (fst (snd (respond E V c now clock ps n m)))"
  by (cases ps; cases m) (simp_all add: case_prod_beta handle_message_good del: handle_message.simps)

lemma serve_message_good: "good n \<Longrightarrow> good (snd (snd (served_state (serve_message E V c now (s, ps, n)))))"
  by (auto simp: serve_message_def Let_def case_prod_beta respond_good split: sum.split option.split)

lemma preflight_good:
  assumes "preflight E V c now S = (S', Ok ())" "good (svc_node S)"
  shows "good (svc_node S')"
  using assms by (auto simp: preflight_def Let_def preflight_fold_good save_peers_def split: if_splits sum.splits prod.splits)

lemma service_step_good: "service_step E V c S S' \<Longrightarrow> good (svc_node S) \<Longrightarrow> good (svc_node S')"
proof (induction rule: service_step.induct)
  case (inbound now s S s' ps w n)
  then show ?case using serve_message_good [of "svc_node S" V c now s "(svc_peers S, svc_files S)"] by simp
qed (simp_all add: sync_peers_def sync_fold_good flush_good prepare_good finish_good submit_section_good)

lemma service_steps_good: "(service_step E V c)\<^sup>*\<^sup>* S S' \<Longrightarrow> good (svc_node S) \<Longrightarrow> good (svc_node S')"
  by (induction rule: rtranclp_induct) (auto intro: service_step_good)

end

lemma respond_peers:
  "peers_ok (unat (max_peers c)) (fst ps) \<Longrightarrow> peers_ok (unat (max_peers c)) (fst (fst (respond E V c now clock ps n m)))"
  by (cases ps; cases m) (simp_all add: case_prod_beta add_peer_infos_peers del: handle_message.simps)

lemma serve_message_peers:
  "peers_ok (unat (max_peers c)) (fst ps) \<Longrightarrow>
   peers_ok (unat (max_peers c)) (fst (fst (snd (served_state (serve_message E V c now (s, ps, n))))))"
  by (auto simp: serve_message_def Let_def case_prod_beta respond_peers split: sum.split option.split)

lemma sync_fold_peers:
  "peers_ok (unat (max_peers c)) (svc_peers S) \<Longrightarrow>
   peers_ok (unat (max_peers c)) (svc_peers (fold (sync_peer E V c now) as S))"
proof (induction as arbitrary: S)
  case (Cons a as)
  let ?S = "fst (poll_persistent_peer E V c a S)"
  have "peers_ok (unat (max_peers c)) (svc_peers ?S)" using Cons.prems by simp
  then have "peers_ok (unat (max_peers c)) (svc_peers (sync_peer E V c now a S))"
    by (auto simp: sync_peer_def case_prod_beta peer_polled_peers peer_failed_peers split: sum.split peer_poll.split)
  then show ?case using Cons.IH by simp
qed simp

lemma service_step_peers:
  "service_step E V c S S' \<Longrightarrow> peers_ok (unat (max_peers c)) (svc_peers S) \<Longrightarrow> peers_ok (unat (max_peers c)) (svc_peers S')"
proof (induction rule: service_step.induct)
  case (inbound now s S s' ps w n)
  then show ?case using serve_message_peers [of c "(svc_peers S, svc_files S)" E V now s "svc_node S"] by simp
qed (simp_all add: sync_peers_def sync_fold_peers refresh_peers)

lemma service_step_inv: "service_step E V c S S' \<Longrightarrow> service_inv E c S \<Longrightarrow> service_inv E c S'"
  using service_step_peers reached.service_step_good unfolding service_inv_def by blast

text \<open>Preflight: a peer that has not failed before fails at most once.\<close>

definition fresh_peers :: "string set \<Rightarrow> nat \<Rightarrow> peer_table \<Rightarrow> bool" where
  "fresh_peers A limit ps \<longleftrightarrow> distinct (map fst ps) \<and> length ps \<le> limit \<and>
     (\<forall>e \<in> set ps. failures (snd e) \<le> (if fst e \<in> A then 0 else 1))"

lemma fresh_peers_ok: "fresh_peers A limit ps \<Longrightarrow> peers_ok limit ps"
proof -
  assume f: "fresh_peers A limit ps"
  have "failures (snd e) < 3" if "e \<in> set ps" for e
  proof -
    have "failures (snd e) \<le> 1" using f that by (auto simp: fresh_peers_def split: if_splits)
    then show ?thesis by (rule le_less_trans) simp
  qed
  then show ?thesis using f by (simp add: fresh_peers_def peers_ok_def MAX_PEER_FAILURES_def)
qed

lemma mark_failed_once: "failures p = 0 \<Longrightarrow> failures (mark_failed now p) = 1"
  by (simp add: mark_failed_def Let_def saturating_add_def)

lemma preflight_fold_peers:
  "fresh_peers (set as) limit (svc_peers S) \<Longrightarrow> distinct as \<Longrightarrow>
   fresh_peers {} limit (svc_peers (fold (preflight_peer E V c now) as S))"
proof (induction as arbitrary: S)
  case (Cons a as)
  have "failures (snd e) \<le> (if fst e \<in> set as then 0 else 1)" if "e \<in> set (svc_peers (preflight_peer E V c now a S))" for e
  proof -
    obtain mark where up: "svc_peers (preflight_peer E V c now a S) = update_peer a mark (svc_peers S)"
      and mark: "mark = mark_failed now \<or> (\<exists>tip. mark = mark_ok now tip)"
      by (rule that [of "case snd (poll_peer E V c a (svc_node S)) of Inl _ \<Rightarrow> mark_failed now
            | Inr (Idle tip) \<Rightarrow> mark_ok now (Some tip) | Inr (Synced tip) \<Rightarrow> mark_ok now (Some tip)"])
        (auto simp: preflight_peer_def Let_def case_prod_beta split: sum.split peer_poll.split)
    have f: "failures (mark p) \<le> 1" if "failures p = 0" for p
      using mark mark_failed_once [OF that] by (auto simp: mark_ok_def)
    have "e \<in> set (svc_peers S) \<and> fst e \<noteq> a \<or> (\<exists>p. (a, p) \<in> set (svc_peers S) \<and> e = (a, mark p))"
      using set_update_peer that unfolding up by blast
    then show ?thesis using Cons.prems f by (auto simp: fresh_peers_def split: if_splits)
  qed
  moreover have "map fst (svc_peers (preflight_peer E V c now a S)) = map fst (svc_peers S)"
    "length (svc_peers (preflight_peer E V c now a S)) = length (svc_peers S)"
    by (simp_all add: preflight_peer_def Let_def split: prod.split)
  ultimately have "fresh_peers (set as) limit (svc_peers (preflight_peer E V c now a S))"
    using Cons.prems(1) by (simp add: fresh_peers_def)
  then show ?case using Cons by simp
qed (auto simp: fresh_peers_def)

lemma add_infos_fresh:
  "fresh_peers UNIV k ps \<Longrightarrow> fresh_peers UNIV k (fst (add_infos_loop parse public listen k now known_addrs infos ps changed))"
proof (induction infos arbitrary: ps changed)
  case (Cons info infos)
  have "fresh_peers UNIV k (ps @ [(a, peer_state_new a now)])" if "a \<notin> fst ` set ps" "\<not> k \<le> length ps" for a
    using that Cons.prems by (auto simp: fresh_peers_def peer_state_new_def)
  then show ?case using Cons by (simp split: option.split)
qed simp

lemma refresh_fresh:
  assumes "fresh_peers UNIV (unat (max_peers c)) (svc_peers S)"
  shows "fresh_peers UNIV (unat (max_peers c)) (svc_peers (fst (refresh_gateway_peers E V c now register S)))"
proof -
  have "fresh_peers UNIV (unat (max_peers c)) (svc_peers (add_peer_infos V c now infos S))" for infos
    using add_infos_fresh [OF assms] by (simp add: add_peer_infos_def add_peer_infos_to_def Let_def case_prod_beta)
  then show ?thesis
    using assms by (auto simp: refresh_gateway_peers_def discover_peers_def Let_def split: option.split sum.split)
qed

lemma preflight_ok:
  assumes "preflight E V c now S = (S', Ok ())" "fresh_peers UNIV (unat (max_peers c)) (svc_peers S)"
    and "reach (node_init E) (node_step E) (svc_node S)"
  shows "service_inv E c S'"
proof -
  let ?R = "fst (refresh_gateway_peers E V c now True S)"
  let ?F = "fold (preflight_peer E V c now) (map fst (svc_peers ?R)) ?R"
  have S': "S' = fst (save_peers V c ?F)"
    using assms(1) by (auto simp: preflight_def Let_def split: if_splits sum.splits)
  have fresh: "fresh_peers UNIV (unat (max_peers c)) (svc_peers ?R)" using assms(2) by (rule refresh_fresh)
  then have "fresh_peers (set (map fst (svc_peers ?R))) (unat (max_peers c)) (svc_peers ?R)"
    "distinct (map fst (svc_peers ?R))"
    by (auto simp: fresh_peers_def)
  from fresh_peers_ok [OF preflight_fold_peers [OF this]] have "peers_ok (unat (max_peers c)) (svc_peers ?F)" .
  then show ?thesis using reached.preflight_good [OF assms(1,3)] by (simp add: service_inv_def S')
qed

lemma service_init_inv: "service_init E V c S \<Longrightarrow> service_inv E c S"
proof -
  assume "service_init E V c S"
  then obtain c0 ps n w now where i: "c = c0\<lparr>cfg_peers := run_node_peers c0 ps\<rparr>" "reach (node_init E) (node_step E) n"
    "preflight E V c now (node_service_new c now n w) = (S, Ok ())"
    by (auto simp: service_init_def)
  have "distinct (run_node_peers c0 ps)" "length (run_node_peers c0 ps) \<le> unat (max_peers c0)"
    using run_node_peers_ok by blast+
  then have "fresh_peers UNIV (unat (max_peers c)) (svc_peers (node_service_new c now n w))"
    by (auto simp: i(1) fresh_peers_def node_service_new_def peer_state_new_def comp_def)
  with i show ?thesis by (intro preflight_ok [OF i(3)]) (simp_all add: node_service_new_def)
qed

interpretation running_service: invariant_system "service_init E V c" "service_step E V c" "service_inv E c" for E V c
  by unfold_locales (auto simp: service_init_inv intro: service_step_inv)

section \<open>Properties\<close>

text \<open>
  C1. From a successful start on, whatever interleaving of synchronisation rounds, gateway refreshes,
  inbound messages, RPC submissions, broadcasts and mining sections a running node goes through, with
  any peers and any gateway: the invariants of the node hold (orphan and
  request bounds, pool limits), the table of peers has no duplicates, at most \<open>max_peers\<close> entries, and
  no peer that has failed three times.
\<close>

theorem reachable_service_ok:
  assumes "reach (service_init E V c) (service_step E V c) S"
  shows "node_inv E (svc_node S) \<and> distinct (map fst (svc_peers S)) \<and> length (svc_peers S) \<le> unat (max_peers c) \<and>
    (\<forall>e \<in> set (svc_peers S). failures (snd e) < 3)"
  using running_service.reach_inv [OF assms] running_node.reach_inv
  by (auto simp: service_inv_def peers_ok_def MAX_PEER_FAILURES_def)

definition sample_run_config :: "string run_config" where
  "sample_run_config = \<lparr>db_path = ''d'', listen_addrs = [''l''], rpc_addr = ''r'', cfg_peers = [''a''],
     peers_file = None, gateway_url = None, public_addrs = [], gateway_heartbeat = 60, shutdown_file = ''s'',
     max_peers = 4, cfg_min_relay_fee = 1, cfg_market_fee = 2, low_fee_expiry = 10, mempool_expiry = 20,
     cfg_miner_address = [9], miner_secret_key = Some [9], mine = True, mine_interval = 60, mine_attempts = 5\<rparr>"

definition sample_gateway :: "string gateway_env" where
  "sample_gateway = \<lparr>gw_transport = \<lparr>tp_parse = Some, tp_show = id, tp_connect = (\<lambda>_. Some ''refused''),
       tp_exchange = (\<lambda>_ _. Err ''closed'')\<rparr>, gw_params = sample_params, gw_hex_encode = (\<lambda>_. []),
     gw_json_register = (\<lambda>_. None), gw_json_heartbeat = (\<lambda>_. None), gw_json_peers = (\<lambda>_. None)\<rparr>"

text \<open>A network without answers: every connection is refused.\<close>

definition sample_service_env :: "(unit, string \<rightharpoonup> string) service_env" where
  "sample_service_env = \<lparr>svc_sockets = refusing_sockets (), svc_client = closed_client, svc_parse = Some,
     svc_peers_env = sample_peers_env, svc_exists = (\<lambda>w p. w p \<noteq> None), svc_gateway = sample_gateway,
     svc_crypto = sample_crypto\<rparr>"

definition sample_service :: "(unit, mem_env, block list, string \<rightharpoonup> string) service" where
  "sample_service = \<lparr>svc_node = sample_node, svc_peers = [(''a'', mark_failed 0 (peer_state_new ''a'' 0))], peer_connections = [],
     inbound_connections = [], requires_peer_sync_before_mining = True, svc_files = Map.empty\<rparr>"

lemma sample_difficulty: "next_difficulty sample_env sample_node = Ok 0"
  by (simp add: next_difficulty_def next_difficulty_after_tip_def difficulty_window_def sample_node_def genesis_ledger_def
      sample_env_def sample_core_def)

lemma sample_service_reach:
  "reach (service_init sample_env sample_service_env sample_run_config)
     (service_step sample_env sample_service_env sample_run_config) sample_service"
proof (rule reach.start)
  have c: "sample_run_config = sample_run_config\<lparr>cfg_peers := run_node_peers sample_run_config []\<rparr>"
    by (simp add: sample_run_config_def run_node_peers_def dedupe_peers_def)
  have "preflight sample_env sample_service_env sample_run_config 0
      (node_service_new sample_run_config 0 sample_node Map.empty) = (sample_service, Ok ())"
    by (simp add: sample_difficulty preflight_def node_service_new_def sample_run_config_def sample_service_env_def check_miner_def
        sample_crypto_def refresh_gateway_peers_def preflight_peer_def poll_peer_def update_peer_def Let_def
        save_peers_def save_peers_from_def sample_service_def)
  then show "service_init sample_env sample_service_env sample_run_config sample_service"
    using c sample_node_reach unfolding service_init_def by blast
qed

theorem reachable_service_ok_witness:
  "length (svc_peers (sync_peers sample_env sample_service_env sample_run_config 7 sample_service)) \<le> 4 \<and>
   next_attempt (snd (hd (svc_peers (sync_peers sample_env sample_service_env sample_run_config 7 sample_service)))) = 11"
proof -
  let ?S = "sync_peers sample_env sample_service_env sample_run_config 7 sample_service"
  have "reach (service_init sample_env sample_service_env sample_run_config)
      (service_step sample_env sample_service_env sample_run_config) ?S"
    using sample_service_reach service_step.sync by (rule reach.step)
  from reachable_service_ok [OF this] have "length (svc_peers ?S) \<le> 4" by (simp add: sample_run_config_def)
  moreover have "next_attempt (snd (hd (svc_peers ?S))) = 11"
    by (simp add: sync_peers_def sample_service_def peer_state_new_def sync_peer_def poll_persistent_peer_def
        sample_service_env_def peer_failed_def update_peer_def mark_failed_def saturating_add_def saturating_sub_def
        saturating_mul_def PEER_RETRY_BASE_def PEER_RETRY_MAX_def MAX_PEER_FAILURES_def Let_def)
  ultimately show ?thesis by simp
qed

text \<open>
  C27. A mining round, with other threads free to change the node between its two locked sections: the
  node stays in a reachable state; a block is reported only if it was accepted on top of the very tip
  it was prepared for and the ledger with it was flushed; and if the tip is no longer the candidate's parent when the proof of work is done, the
  node is left exactly as the other threads left it and no block is reported, whatever the search gave.
\<close>

theorem mining_round_safe:
  assumes "reach (node_init E) (node_step E) n"
    and "\<And>x. reach (node_init E) (node_step E) x \<Longrightarrow> reach (node_init E) (node_step E) (others x)"
    and "mine_once_unlocked E c limit timestamp now others n = (n', r)"
    and "mine_prepare E c limit timestamp n = (p, prepared)"
  shows "reach (node_init E) (node_step E) n' \<and>
    (\<forall>b. r = Ok (Some b) \<longrightarrow> ledger_tip_hash (env_core E) (node_ledger (others p)) = Some (previous_hash b) \<and>
       (\<exists>q. apply_block E (others p) b now = (q, Ok ()) \<and> flush_to_storage E q = (n', Ok ()))) \<and>
    (r = Ok None \<longrightarrow> n' = others p) \<and>
    (\<forall>candidate mc. prepared = Ok (candidate, mc) \<longrightarrow>
       ledger_tip_hash (env_core E) (node_ledger (others p)) \<noteq> Some (previous_hash candidate) \<longrightarrow> n' = others p \<and> (\<forall>b. r \<noteq> Ok (Some b)))"
proof -
  have p: "reach (node_init E) (node_step E) p"
    using reached.prepare_good [OF assms(1), of c limit timestamp] by (simp add: assms(4))
  then have o: "reach (node_init E) (node_step E) (others p)" by (rule assms(2))
  have mined: "previous_hash (mined_block result) = previous_hash b"
    if "mine_prepared_block (env_consensus E) b mc = Ok (Some result)" for b mc result
    using that by (auto simp: mine_prepared_block_def mine_loop_Some_iff with_nonce_def)
  consider (early) e where "prepared = Err e" "n' = p" "r = Err e"
    | (none) "n' = others p" "r = Ok None \<or> (\<exists>e. r = Err e)"
    | (some) b mc result where "prepared = Ok (b, mc)" "mine_prepared_block (env_consensus E) b mc = Ok (Some result)"
        "mine_finish E (previous_hash b) (mined_block result) now (others p) = (n', r)"
    using assms(3) by (auto simp: mine_once_unlocked_def assms(4) split: sum.splits option.splits prod.splits)
  then show ?thesis
  proof cases
    case (some b mc result)
    have "reach (node_init E) (node_step E) n'"
      using reached.finish_good [OF o, of "previous_hash b" "mined_block result" now] some(3) by simp
    then show ?thesis
      using some mined [OF some(2)] by (auto simp: mine_finish_def split: if_splits prod.splits sum.splits)
  qed (use p o in auto)
qed

text \<open>While the node searches, another thread applies a block: the round leaves that block alone.\<close>

lemma sample_prepare:
  "\<exists>b mc. mine_prepare sample_env sample_run_config 10 50 sample_node = (sample_node, Ok (b, mc)) \<and> previous_hash b = [3]"
proof -
  have "next_difficulty sample_env sample_node = Ok 0"
    by (simp add: next_difficulty_def next_difficulty_after_tip_def difficulty_window_def sample_node_def genesis_ledger_def
        sample_env_def sample_core_def sample_consensus_def)
  moreover have "prune_expired sample_core mempool_new 50 = (mempool_new, 0)"
    by (simp add: mempool_new_def with_config_def prune_expired_def bt_retain_def)
  moreover have "\<exists>b. prepare_candidate_block sample_core mempool_new genesis_ledger [9] 50 10 0 = Ok b \<and> previous_hash b = [3]"
    by (simp add: prepare_candidate_block_def create_candidate_block_def genesis_ledger_def genesis_def sample_block_def Let_def)
      (simp add: sample_core_def with_difficulty_def saturating_add_def)
  ultimately show ?thesis by (auto simp: mine_prepare_def sample_run_config_def sample_node_def sample_env_def)
qed

lemma sample_others:
  "ledger_tip_hash sample_core (node_ledger (fst (apply_block sample_env sample_node block1 100))) = Some [4]"
proof -
  have "ledger_tip_hash sample_core stored_ledger = Some [4]" by (simp add: sample_core_def stored_ledger_def block1_def sample_block_def)
  then show ?thesis using apply_block_alone [OF _ _ sample_apply_block1] by (simp add: sample_node_def)
qed

theorem mining_round_safe_witness:
  "fst (mine_once_unlocked sample_env sample_run_config 10 50 51 (\<lambda>n. fst (apply_block sample_env n block1 100)) sample_node) =
     fst (apply_block sample_env sample_node block1 100)"
proof -
  let ?others = "\<lambda>n. fst (apply_block sample_env n block1 100)"
  obtain n' r where run: "mine_once_unlocked sample_env sample_run_config 10 50 51 ?others sample_node = (n', r)"
    by fastforce
  obtain b mc where prep: "mine_prepare sample_env sample_run_config 10 50 sample_node = (sample_node, Ok (b, mc))" "previous_hash b = [3]"
    using sample_prepare by blast
  have "n' = ?others sample_node"
    using mining_round_safe [OF sample_node_reach reached.apply_good run prep(1)] sample_others prep(2) by simp
  then show ?thesis by (simp add: run)
qed

text \<open>
  The two broadcasts of the program do the same: \<open>NodeService::broadcast\<close>, used for mined blocks, and
  \<open>broadcast_to_peers\<close> of the gossip module, used for submitted transactions, leave the same connections
  and give the same report.
\<close>

lemma broadcasts_agree:
  "broadcast_to_peers (service_channel V) (Some (map fst (svc_peers S))) True True (peer_connections S) (inbound_connections S) m =
     (let (S', rep) = service_broadcast V m S in (peer_connections S', inbound_connections S', rep))"
proof -
  have remove_absent: "conn_remove a cs = cs" if "map_of cs a = None" for a and cs :: "(string \<times> 's) list"
    using that by (auto simp: conn_remove_def map_of_eq_None_iff filter_id_conv)
  have "broadcast_round (send_outbound (service_channel V) m) True = broadcast_known V m"
    by (auto simp: fun_eq_iff broadcast_round_def broadcast_known_def send_outbound_def service_channel_def remove_absent
        split: option.split sum.split prod.split)
  moreover have "(\<lambda>a (cs, rep). broadcast_round (send_inbound (service_channel V) m) True a (cs, rep\<lparr>attempted := Suc (attempted rep)\<rparr>)) =
      broadcast_inbound V m"
    by (auto simp: fun_eq_iff broadcast_round_def broadcast_inbound_def send_inbound_def service_channel_def Let_def
        split: option.split sum.split prod.split)
  ultimately show ?thesis by (simp add: broadcast_to_peers_def service_broadcast_def Let_def case_prod_beta)
qed

end
