(* ===== verification/Connections.thy ===== *)
theory Connections
  imports Service_Properties
begin

text \<open>
  What holds of every connection that the service keeps. A predicate on streams that reading and writing keep, and that
  holds of the streams which \<open>PeerConnection\<close> makes, holds of all connections of a running service: it survives
  synchronisation, broadcasts, inbound connections and restarts of connections. The instance is the time-outs: no peer
  can make a thread of the node wait for ever.
\<close>

section \<open>Streams\<close>

locale kept_stream =
  fixes X :: "'s client" and Q :: "'s \<Rightarrow> bool"
  assumes write_kept: "Q s \<Longrightarrow> Q (fst (stream_write_all (cl_ops X) s bs))"
    and read_kept: "Q s \<Longrightarrow> Q (fst (stream_read_exact (cl_ops X) s k))"
begin

lemma write_message_kept: "Q s \<Longrightarrow> Q (fst (write_message (stream_write_all (cl_ops X)) C s v))"
  using write_kept by (auto simp: write_message_def case_prod_beta split: sum.split prod.split)

lemma read_message_kept: "Q s \<Longrightarrow> Q (fst (read_message (stream_read_exact (cl_ops X)) P C s))"
  using read_kept by (auto simp: read_message_def Let_def case_prod_beta split: sum.split prod.split)

lemma request_kept: "Q s \<Longrightarrow> Q (fst (request_on_stream X s m))"
  using write_message_kept read_message_kept
  by (auto simp: request_on_stream_def split: prod.split sum.split) (metis fst_conv)+

lemma send_kept: "Q s \<Longrightarrow> Q (fst (connection_send X s m))"
  using write_message_kept by (auto simp: connection_send_def case_prod_beta)

lemma request_peers_kept: "Q s \<Longrightarrow> Q (fst (request_peers_connection X s))"
  using request_kept [of s GetPeers]
  by (auto simp: request_peers_connection_def split: prod.split sum.split network_message.split)

lemma handshake_kept: "Q s \<Longrightarrow> Q (fst (handshake_peer E X addrs n s))"
  using request_kept [of s "Version (version_local (cl_params X) (node_tip E n))"] send_kept
  by (auto simp: handshake_peer_def split: prod.split sum.split network_message.split)

lemma request_tip_kept: "Q s \<Longrightarrow> Q (fst (request_tip X s))"
  using request_kept [of s GetTip] by (auto simp: request_tip_def split: prod.split sum.split network_message.split)

lemma request_block_kept: "Q (fst w) \<Longrightarrow> Q (fst (fst (request_block E X h w)))"
  using request_kept [of "fst w" "GetBlockByHeight h"]
  by (cases w) (auto simp: request_block_def split: prod.split sum.split network_message.split)

lemma request_block_by_hash_kept: "Q (fst w) \<Longrightarrow> Q (fst (fst (request_block_by_hash E X h w)))"
  using request_kept [of "fst w" "GetBlockByHash h"]
  by (cases w) (auto simp: request_block_by_hash_def split: prod.split sum.split network_message.split)

lemma request_blocks_kept: "Q (fst w) \<Longrightarrow> Q (fst (fst (request_blocks E X hs w)))"
proof (induction hs arbitrary: w)
  case (Cons h hs)
  then show ?case using request_block_kept [of w E h] by (auto split: prod.split sum.split)
qed simp

lemma request_parents_kept: "Q (fst w) \<Longrightarrow> Q (fst (fst (request_parents E X hs b w)))"
proof (induction hs arbitrary: w b)
  case (Cons h hs)
  then show ?case using request_block_by_hash_kept [of w E h] by (auto split: prod.split sum.split)
qed simp

lemma request_missing_kept: "Q (fst w) \<Longrightarrow> Q (fst (fst (request_missing_parent_blocks E X w)))"
  by (cases w) (simp add: request_missing_parent_blocks_def request_parents_kept split: prod.split)

lemma poll_kept: "Q s \<Longrightarrow> Q (fst (fst (poll_peer_connection E X addrs (s, n))))"
  using handshake_kept [of s E addrs n] request_tip_kept
  by (auto simp: poll_peer_connection_def Let_def case_prod_beta request_missing_kept request_blocks_kept split: prod.split sum.split)

end

section \<open>The connections of a service\<close>

definition streams_ok :: "('s \<Rightarrow> bool) \<Rightarrow> (string \<times> 's) list \<Rightarrow> bool" where
  "streams_ok Q cs \<longleftrightarrow> (\<forall>e \<in> set cs. Q (snd e))"

definition all_streams :: "('s \<Rightarrow> bool) \<Rightarrow> ('s, 'e, 'f, 'w) service \<Rightarrow> bool" where
  "all_streams Q S \<longleftrightarrow> streams_ok Q (peer_connections S) \<and> streams_ok Q (inbound_connections S)"

lemma all_streams_cong:
  "all_streams Q S \<Longrightarrow> peer_connections S' = peer_connections S \<Longrightarrow> inbound_connections S' = inbound_connections S \<Longrightarrow>
   all_streams Q S'"
  by (simp add: all_streams_def)

lemma streams_update: "streams_ok Q cs \<Longrightarrow> Q s \<Longrightarrow> streams_ok Q (AList.update a s cs)"
  by (induction cs) (auto simp: streams_ok_def)

lemma streams_delete: "streams_ok Q cs \<Longrightarrow> streams_ok Q (AList.delete a cs)"
  by (auto simp: streams_ok_def AList.delete_eq)

lemma streams_conn_update: "streams_ok Q cs \<Longrightarrow> Q s \<Longrightarrow> streams_ok Q (conn_update a s cs)"
  by (auto simp: streams_ok_def conn_update_def)

lemma streams_conn_remove: "streams_ok Q cs \<Longrightarrow> streams_ok Q (conn_remove a cs)"
  by (auto simp: streams_ok_def conn_remove_def)

lemma streams_found: "streams_ok Q cs \<Longrightarrow> map_of cs a = Some s \<Longrightarrow> Q s"
  by (force simp: streams_ok_def dest: map_of_SomeD)

lemmas streams_kept = streams_update streams_delete streams_conn_update streams_conn_remove

lemma table_frames [simp]:
  "peer_connections (fst (save_peers V c S)) = peer_connections S" "inbound_connections (fst (save_peers V c S)) = inbound_connections S"
  "peer_connections (add_peer_infos V c now infos S) = peer_connections S"
  "inbound_connections (add_peer_infos V c now infos S) = inbound_connections S"
  by (simp_all add: save_peers_def add_peer_infos_def Let_def split: prod.split)

lemma refresh_frames [simp]:
  "peer_connections (fst (refresh_gateway_peers E V c now r S)) = peer_connections S"
  "inbound_connections (fst (refresh_gateway_peers E V c now r S)) = inbound_connections S"
  by (simp_all add: refresh_gateway_peers_def discover_peers_def Let_def split: option.split sum.split)

locale kept_connections = kept_stream "svc_client V" Q for V :: "('s, 'w) service_env" and Q :: "'s \<Rightarrow> bool" +
  assumes connect_kept: "connection_connect (svc_sockets V) a = Ok s \<Longrightarrow> Q s"
    and from_stream_kept: "connection_from_stream (svc_sockets V) s0 = Ok s \<Longrightarrow> Q s"
begin

lemma found_or_opened:
  assumes "streams_ok Q cs" "(case map_of cs a of Some s \<Rightarrow> Ok s | None \<Rightarrow> open_connection V a) = Ok s"
  shows "Q s"
  using assms connect_kept streams_found by (fastforce split: option.splits)

lemma poll_persistent_kept:
  assumes "all_streams Q S"
  shows "all_streams Q (fst (poll_persistent_peer E V c a S))"
proof (cases "case map_of (peer_connections S) a of Some s \<Rightarrow> Ok s | None \<Rightarrow> open_connection V a")
  case (Inr s)
  then have "Q s" using found_or_opened assms by (auto simp: all_streams_def)
  then have "Q (fst (fst (poll_peer_connection E (svc_client V) (public_addrs c) (s, svc_node S))))" by (rule poll_kept)
  then show ?thesis using assms Inr
    by (auto simp: poll_persistent_peer_def all_streams_def case_prod_beta intro: streams_kept)
qed (use assms in \<open>simp add: poll_persistent_peer_def\<close>)

lemma peer_polled_kept:
  assumes "all_streams Q S"
  shows "all_streams Q (peer_polled V c now a tip S)"
proof (cases "map_of (peer_connections S) a")
  case (Some s)
  then have "Q (fst (request_peers_connection (svc_client V) s))"
    using assms streams_found request_peers_kept by (fastforce simp: all_streams_def)
  then show ?thesis using assms Some
    by (auto simp: peer_polled_def Let_def case_prod_beta all_streams_def intro: streams_kept split: sum.split)
qed (use assms in \<open>simp add: peer_polled_def all_streams_def\<close>)

lemma peer_failed_kept: "all_streams Q S \<Longrightarrow> all_streams Q (peer_failed V c now a S)"
  by (simp add: peer_failed_def Let_def all_streams_def streams_kept)

lemma sync_peer_kept: "all_streams Q S \<Longrightarrow> all_streams Q (sync_peer E V c now a S)"
  using poll_persistent_kept [of S E c a]
  by (auto simp: sync_peer_def peer_failed_kept peer_polled_kept split: prod.split sum.split peer_poll.split)

lemma sync_kept: "all_streams Q S \<Longrightarrow> all_streams Q (sync_peers E V c now S)"
  unfolding sync_peers_def
  by (rule fold_invariant [where P = "all_streams Q" and Q = "\<lambda>_. True"]) (use sync_peer_kept in auto)

lemma broadcast_known_kept:
  assumes "streams_ok Q (fst w)"
  shows "streams_ok Q (fst (broadcast_known V m a w))"
proof (cases "case map_of (fst w) a of Some s \<Rightarrow> Ok s | None \<Rightarrow> open_connection V a")
  case (Inr s)
  then have "Q (fst (connection_send (svc_client V) s m))" using found_or_opened [OF assms] send_kept by blast
  then show ?thesis using Inr assms
    by (auto simp: broadcast_known_def case_prod_beta intro: streams_kept split: sum.split)
qed (use assms in \<open>simp add: broadcast_known_def case_prod_beta\<close>)

lemma broadcast_inbound_kept:
  assumes "streams_ok Q (fst w)"
  shows "streams_ok Q (fst (broadcast_inbound V m a w))"
proof (cases "map_of (fst w) a")
  case (Some s)
  then have "Q (fst (connection_send (svc_client V) s m))" using streams_found [OF assms] send_kept by blast
  then show ?thesis using Some assms
    by (auto simp: broadcast_inbound_def Let_def case_prod_beta intro: streams_kept split: sum.split)
qed (use assms in \<open>simp add: broadcast_inbound_def case_prod_beta Let_def streams_kept\<close>)

lemma broadcast_kept:
  assumes "all_streams Q S"
  shows "all_streams Q (fst (service_broadcast V m S))"
proof -
  have "streams_ok Q (fst (fold (broadcast_known V m) as w))" if "streams_ok Q (fst w)" for as w
    by (rule fold_invariant [where P = "\<lambda>w. streams_ok Q (fst w)" and Q = "\<lambda>_. True"]) (use that broadcast_known_kept in auto)
  moreover have "streams_ok Q (fst (fold (broadcast_inbound V m) as w))" if "streams_ok Q (fst w)" for as w
    by (rule fold_invariant [where P = "\<lambda>w. streams_ok Q (fst w)" and Q = "\<lambda>_. True"]) (use that broadcast_inbound_kept in auto)
  ultimately show ?thesis
    using assms by (simp add: all_streams_def service_broadcast_def Let_def case_prod_beta)
qed

lemma accept_kept: "all_streams Q S \<Longrightarrow> all_streams Q (accept_connection V a writer S)"
  using from_stream_kept by (auto simp: accept_connection_def all_streams_def intro: streams_kept split: option.split sum.split)

lemma shutdown_kept: "all_streams Q S \<Longrightarrow> all_streams Q (fst (shutdown E V c S))"
  by (auto simp: shutdown_def all_streams_def split: prod.split sum.split)

lemma close_kept: "all_streams Q S \<Longrightarrow> all_streams Q (close_connection a S)"
  by (simp add: close_connection_def all_streams_def streams_kept)

lemma step_kept: "service_step E V c S S' \<Longrightarrow> all_streams Q S \<Longrightarrow> all_streams Q S'"
  by (induction rule: service_step.induct)
    (simp_all add: sync_kept broadcast_kept accept_kept close_kept shutdown_kept, simp_all add: all_streams_def)

lemma preflight_kept:
  assumes "all_streams Q S"
  shows "all_streams Q (fst (preflight E V c now S))"
proof -
  have "all_streams Q (fold (preflight_peer E V c now) as T)" if "all_streams Q T" for as T
    by (rule fold_invariant [where P = "all_streams Q" and Q = "\<lambda>_. True"])
      (use that in \<open>auto simp: preflight_peer_def Let_def all_streams_def split: prod.split\<close>)
  then show ?thesis using assms by (auto simp: preflight_def Let_def all_streams_def split: sum.split)
qed

lemma init_kept:
  assumes "service_init E V c S"
  shows "all_streams Q S"
proof -
  obtain now n w where S: "preflight E V c now (node_service_new c now n w) = (S, Ok ())"
    using assms unfolding service_init_def by blast
  have "all_streams Q (node_service_new c now n w)" by (simp add: node_service_new_def all_streams_def streams_ok_def)
  then show ?thesis using preflight_kept [of "node_service_new c now n w" E c now] S by simp
qed

lemma serve_kept: "Q s \<Longrightarrow> Q (fst (served_state (serve_message E V c now (s, ps, n))))"
  using read_message_kept [of s "cl_params (svc_client V)" "cl_codec (svc_client V)"] write_message_kept
  by (auto simp: serve_message_def Let_def case_prod_beta split: sum.split option.split)

lemma serve_loop_kept: "Q (fst w) \<Longrightarrow> Q (fst (served_state (serve_loop E V c now k w)))"
proof (induction k arbitrary: w)
  case (Suc k)
  obtain s ps n where w: "w = (s, ps, n)" by (cases w)
  then show ?case using serve_kept [of s E c now ps n] Suc by (auto split: served.split)
qed simp

end

sublocale kept_connections \<subseteq> service_streams: invariant_system "service_init E V c" "service_step E V c" "all_streams Q" for E c
  using init_kept step_kept by unfold_locales

section \<open>Time-outs\<close>

text \<open>Reading and writing leave the options of a socket alone.\<close>

definition stream_laws :: "'s client \<Rightarrow> ('s \<Rightarrow> socket_options) \<Rightarrow> bool" where
  "stream_laws X opt \<longleftrightarrow>
     (\<forall>s bs. opt (fst (stream_write_all (cl_ops X) s bs)) = opt s) \<and> (\<forall>s k. opt (fst (stream_read_exact (cl_ops X) s k)) = opt s)"

interpretation timed_connections: kept_connections V
  "\<lambda>s. socket_laws (svc_sockets V) opt \<longrightarrow> stream_laws (svc_client V) opt \<longrightarrow> timed PERSISTENT_PEER_TIMEOUT (opt s)"
  for V :: "('s, 'w) service_env" and opt :: "'s \<Rightarrow> socket_options"
  by unfold_locales (auto simp: stream_laws_def connections_timed)

text \<open>
  C22. No peer can make the node wait for ever: in every state that a running service reaches, with any peers and through
  any broadcasts, failures and reconnections, each connection that it keeps blocks for at most
  \<open>PERSISTENT_PEER_TIMEOUT\<close> in a read or a write; and so does the stream of an inbound connection for as long as it is served.
\<close>

theorem connections_never_hang:
  assumes "socket_laws (svc_sockets V) opt" "stream_laws (svc_client V) opt"
    and "reach (service_init E V c) (service_step E V c) S"
  shows "(\<forall>(a, s) \<in> set (peer_connections S) \<union> set (inbound_connections S). timed PERSISTENT_PEER_TIMEOUT (opt s)) \<and>
    (handle_p2p_stream_task E V c now k (s0, w) = r \<longrightarrow> timed PERSISTENT_PEER_TIMEOUT (opt (fst (served_state r))) \<or>
       (\<exists>e. r = Failed (s0, w) (ConfigureFailed e)))"
proof -
  have "all_streams (\<lambda>s. timed PERSISTENT_PEER_TIMEOUT (opt s)) S"
    using timed_connections.service_streams.reach_inv [of E V c S opt] assms by (simp add: all_streams_def streams_ok_def)
  moreover have "timed PERSISTENT_PEER_TIMEOUT (opt (fst (served_state (serve_loop E V c now k (s, w)))))"
    if "configure_stream (svc_sockets V) s0 PERSISTENT_PEER_TIMEOUT = Ok s" for s
    using timed_connections.serve_loop_kept [of V opt "(s, w)"] configure_stream_timed [OF assms(1) that] assms by simp
  ultimately show ?thesis
    by (auto simp: all_streams_def streams_ok_def handle_p2p_stream_task_def split: sum.splits)
qed

text \<open>A network in which peers connect and stay silent; a socket is its options.\<close>

definition option_sockets :: "socket_options sockets" where
  "option_sockets = (refusing_sockets \<lparr>opt_nonblocking = False, opt_read_timeout = None, opt_write_timeout = None\<rparr>)
     \<lparr>so_set_nonblocking := \<lambda>s b. Ok (s\<lparr>opt_nonblocking := b\<rparr>),
      so_set_read_timeout := \<lambda>s d. Ok (s\<lparr>opt_read_timeout := d\<rparr>),
      so_set_write_timeout := \<lambda>s d. Ok (s\<lparr>opt_write_timeout := d\<rparr>)\<rparr>"

definition silent_client :: "socket_options client" where
  "silent_client = \<lparr>cl_ops = \<lparr>stream_write_all = (\<lambda>s _. (s, Ok ())), stream_read_exact = (\<lambda>s _. (s, Err (OtherIoError 1))),
       stream_clock = (\<lambda>_. 100)\<rparr>, cl_params = sample_params, cl_codec = table_codec []\<rparr>"

definition option_env :: "(socket_options, string \<rightharpoonup> string) service_env" where
  "option_env = \<lparr>svc_sockets = option_sockets, svc_client = silent_client, svc_parse = Some,
     svc_peers_env = sample_peers_env, svc_exists = (\<lambda>w p. w p \<noteq> None), svc_gateway = sample_gateway,
     svc_crypto = sample_crypto\<rparr>"

definition option_service :: "(socket_options, mem_env, block list, string \<rightharpoonup> string) service" where
  "option_service = \<lparr>svc_node = sample_node, svc_peers = [(''a'', mark_failed 0 (peer_state_new ''a'' 0))], peer_connections = [],
     inbound_connections = [], requires_peer_sync_before_mining = True, svc_files = Map.empty\<rparr>"

lemma option_laws: "socket_laws option_sockets id" "stream_laws silent_client id"
  by (simp_all add: socket_laws_def option_sockets_def refusing_sockets_def stream_laws_def silent_client_def)

lemma option_service_reach:
  "reach (service_init sample_env option_env sample_run_config) (service_step sample_env option_env sample_run_config) option_service"
proof (rule reach.start)
  have c: "sample_run_config = sample_run_config\<lparr>cfg_peers := run_node_peers sample_run_config []\<rparr>"
    by (simp add: sample_run_config_def run_node_peers_def dedupe_peers_def)
  have "connection_connect option_sockets a = Err ''connect failed: refused''" for a
    by (simp add: option_sockets_def refusing_sockets_def connection_connect_def connect_peer_def describe_def map_err_def)
  then have "preflight sample_env option_env sample_run_config 0
      (node_service_new sample_run_config 0 sample_node Map.empty) = (option_service, Ok ())"
    using sample_difficulty
    by (simp add: preflight_def node_service_new_def sample_run_config_def option_env_def check_miner_def
        sample_crypto_def refresh_gateway_peers_def preflight_peer_def poll_peer_def update_peer_def Let_def
        save_peers_def save_peers_from_def option_service_def)
  then show "service_init sample_env option_env sample_run_config option_service"
    using c sample_node_reach unfolding service_init_def by blast
qed

theorem connections_never_hang_witness:
  "\<exists>s. inbound_connections (accept_connection option_env ''b'' (Some \<lparr>opt_nonblocking = True, opt_read_timeout = None,
       opt_write_timeout = None\<rparr>) option_service) = [(''b'', s)] \<and> timed 30 s"
proof -
  let ?S = "accept_connection option_env ''b'' (Some \<lparr>opt_nonblocking = True, opt_read_timeout = None,
       opt_write_timeout = None\<rparr>) option_service"
  have laws: "socket_laws (svc_sockets option_env) id" "stream_laws (svc_client option_env) id"
    using option_laws by (simp_all add: option_env_def)
  have "reach (service_init sample_env option_env sample_run_config) (service_step sample_env option_env sample_run_config) ?S"
    using option_service_reach service_step.accept by (rule reach.step)
  from connections_never_hang [OF laws this, THEN conjunct1]
  have "\<forall>(a, s) \<in> set (inbound_connections ?S). timed 30 s" by (auto simp: PERSISTENT_PEER_TIMEOUT_def)
  moreover obtain s where "inbound_connections ?S = [(''b'', s)]"
    by (simp add: accept_connection_def option_env_def option_service_def connection_from_stream_def configure_stream_def
        option_sockets_def describe_def map_err_def)
  ultimately show ?thesis by simp
qed

end
