(* ===== verification/Chain_Storage.thy ===== *)
theory Chain_Storage
  imports Storage_Properties
begin

text \<open>
  The earlier store \<open>ChainStorage\<close> (\<open>src/src/storage.rs\<close>). The file is kept in the repository but is not in the module
  list of the program. It saves one block, transaction or account at a time over the same storage engine, with databases of
  its own; its errors are texts, here what failed and the error of the library behind it.
\<close>

section \<open>Data\<close>

datatype chain_db =
    Blocks_by_height
  | Blocks_by_hash
  | Txs
  | Tx_index
  | Accounts
  | Meta

datatype chain_storage_error =
    LmdbFailed string lmdb_error
  | BorshFailed string io_error

record tx_location =
  txl_height :: u64
  txl_block_hash :: hash

record chain_codecs =
  cc_block :: "block codec"
  cc_tx :: "signed_transaction codec"
  cc_location :: "tx_location codec"
  cc_account :: "account codec"

type_synonym ('e, 't) chain_engine = "(chain_db, 'e, 't) engine"

section \<open>Operations\<close>

fun create_dbs :: "('e, 't) chain_engine \<Rightarrow> (chain_db \<times> string) list \<Rightarrow> 'e \<Rightarrow> chain_storage_error + 'e" where
  "create_dbs D [] e = Ok e"
| "create_dbs D ((d, name) # ds) e =
     (case create_db D e d of
        (_, Inl x) \<Rightarrow> Err (LmdbFailed (''failed to open '' @ name @ '' db'') x)
      | (e', Inr _) \<Rightarrow> create_dbs D ds e')"

definition chain_open :: "('e, 't) chain_engine \<Rightarrow> string \<Rightarrow> chain_storage_error + 'e" where
  "chain_open D path =
     res_bind (map_err (LmdbFailed ''failed to open lmdb environment'') (open_env D path))
       (create_dbs D [(Blocks_by_height, ''blocks_by_height''), (Blocks_by_hash, ''blocks_by_hash''), (Txs, ''txs''),
          (Tx_index, ''tx_index''), (Accounts, ''accounts''), (Meta, ''meta'')])"

definition chain_height_key :: "u64 \<Rightarrow> bytes" where
  "chain_height_key h = u64_to_be_bytes h"

definition chain_put :: "('e, 't) chain_engine \<Rightarrow> string \<Rightarrow> chain_db \<Rightarrow> bytes \<Rightarrow> bytes \<Rightarrow> 't \<Rightarrow> chain_storage_error + 't" where
  "chain_put D what d k bs t = map_err (LmdbFailed what) (txn_put D t d k bs)"

text \<open>A write transaction: begun, used, and committed last; dropped when an earlier call fails.\<close>

definition chain_write ::
  "('e, 't) chain_engine \<Rightarrow> string \<Rightarrow> ('t \<Rightarrow> chain_storage_error + 't) \<Rightarrow> 'e \<Rightarrow> 'e \<times> (chain_storage_error + unit)" where
  "chain_write D what f e =
     (case res_bind (map_err (LmdbFailed ''failed to begin write transaction'') (begin_rw_txn D e)) f of
        Inl x \<Rightarrow> (e, Err x)
      | Inr t \<Rightarrow> (case txn_commit D e t of (e', r) \<Rightarrow> (e', map_err (LmdbFailed (''failed to commit '' @ what)) r)))"

definition chain_save_transaction_in_txn ::
  "core \<Rightarrow> ('e, 't) chain_engine \<Rightarrow> chain_codecs \<Rightarrow> signed_transaction \<Rightarrow> u64 option \<Rightarrow> hash option \<Rightarrow> 't \<Rightarrow> chain_storage_error + 't" where
  "chain_save_transaction_in_txn K D C tx height hash t =
     res_bind (map_err (BorshFailed ''failed to serialize tx'') (enc (cc_tx C) tx)) (\<lambda>tx_bytes.
     res_bind (chain_put D ''failed to save tx'' Txs (tx_hash K tx) tx_bytes t) (\<lambda>t.
     case (height, hash) of
       (Some h, Some bh) \<Rightarrow>
         res_bind (map_err (BorshFailed ''failed to serialize tx index'') (enc (cc_location C) \<lparr>txl_height = h, txl_block_hash = bh\<rparr>)) (\<lambda>bs.
         chain_put D ''failed to save tx index'' Tx_index (tx_hash K tx) bs t)
     | _ \<Rightarrow> Ok t))"

definition chain_save_block ::
  "core \<Rightarrow> ('e, 't) chain_engine \<Rightarrow> chain_codecs \<Rightarrow> block \<Rightarrow> 'e \<Rightarrow> 'e \<times> (chain_storage_error + unit)" where
  "chain_save_block K D C b e =
     (case map_err (BorshFailed ''failed to serialize block'') (enc (cc_block C) b) of
        Inl x \<Rightarrow> (e, Err x)
      | Inr block_bytes \<Rightarrow> chain_write D ''block'' (\<lambda>t.
          res_bind (chain_put D ''failed to save block by height'' Blocks_by_height (chain_height_key (block_height b)) block_bytes t) (\<lambda>t.
          res_bind (chain_put D ''failed to save block by hash'' Blocks_by_hash (block_hash K b) block_bytes t) (\<lambda>t.
          res_bind (chain_put D ''failed to save tip height'' Meta (ascii ''tip_height'') (u64_to_be_bytes (block_height b)) t) (\<lambda>t.
          res_bind (chain_put D ''failed to save tip hash'' Meta (ascii ''tip_hash'') (block_hash K b) t) (\<lambda>t.
          try_fold (\<lambda>tx. chain_save_transaction_in_txn K D C tx (Some (block_height b)) (Some (block_hash K b)))
            (block_transactions b) t))))) e)"

definition chain_save_transaction ::
  "core \<Rightarrow> ('e, 't) chain_engine \<Rightarrow> chain_codecs \<Rightarrow> signed_transaction \<Rightarrow> u64 option \<Rightarrow> hash option \<Rightarrow> 'e \<Rightarrow>
   'e \<times> (chain_storage_error + unit)" where
  "chain_save_transaction K D C tx height hash =
     chain_write D ''transaction'' (chain_save_transaction_in_txn K D C tx height hash)"

definition chain_save_account ::
  "('e, 't) chain_engine \<Rightarrow> chain_codecs \<Rightarrow> account \<Rightarrow> 'e \<Rightarrow> 'e \<times> (chain_storage_error + unit)" where
  "chain_save_account D C a =
     chain_write D ''account'' (\<lambda>t.
       res_bind (map_err (BorshFailed ''failed to serialize account'') (enc (cc_account C) a)) (\<lambda>bs.
       chain_put D ''failed to save account'' Accounts (acc_address a) bs t))"

text \<open>A read: any error of the engine's lookup counts as an absent value.\<close>

definition chain_load ::
  "('e, 't) chain_engine \<Rightarrow> 'a codec \<Rightarrow> string \<Rightarrow> chain_db \<Rightarrow> bytes \<Rightarrow> 'e \<Rightarrow> chain_storage_error + 'a option" where
  "chain_load D c invalid d k e =
     res_bind (map_err (LmdbFailed ''failed to begin read transaction'') (begin_ro_txn D e)) (\<lambda>t.
     case txn_get D t d k of
       Inl _ \<Rightarrow> Ok None
     | Inr bs \<Rightarrow> res_bind (map_err (BorshFailed invalid) (dec c bs)) (\<lambda>v. Ok (Some v)))"

definition chain_load_block_by_height ::
  "('e, 't) chain_engine \<Rightarrow> chain_codecs \<Rightarrow> u64 \<Rightarrow> 'e \<Rightarrow> chain_storage_error + block option" where
  "chain_load_block_by_height D C h = chain_load D (cc_block C) ''invalid block bytes'' Blocks_by_height (chain_height_key h)"

definition chain_load_block_by_hash ::
  "('e, 't) chain_engine \<Rightarrow> chain_codecs \<Rightarrow> hash \<Rightarrow> 'e \<Rightarrow> chain_storage_error + block option" where
  "chain_load_block_by_hash D C h = chain_load D (cc_block C) ''invalid block bytes'' Blocks_by_hash h"

definition chain_load_transaction ::
  "('e, 't) chain_engine \<Rightarrow> chain_codecs \<Rightarrow> hash \<Rightarrow> 'e \<Rightarrow> chain_storage_error + signed_transaction option" where
  "chain_load_transaction D C h = chain_load D (cc_tx C) ''invalid tx bytes'' Txs h"

definition chain_load_account ::
  "('e, 't) chain_engine \<Rightarrow> chain_codecs \<Rightarrow> address \<Rightarrow> 'e \<Rightarrow> chain_storage_error + account option" where
  "chain_load_account D C a = chain_load D (cc_account C) ''invalid account bytes'' Accounts a"

definition chain_flush :: "('e, 't) chain_engine \<Rightarrow> 'e \<Rightarrow> chain_storage_error + unit" where
  "chain_flush D e = map_err (LmdbFailed ''failed to sync lmdb env'') (env_sync D e)"

section \<open>Reads and writes of the content\<close>

definition chain_codecs_ok :: "chain_codecs \<Rightarrow> bool" where
  "chain_codecs_ok C \<longleftrightarrow> codec_ok (cc_block C) \<and> codec_ok (cc_tx C) \<and> codec_ok (cc_location C) \<and> codec_ok (cc_account C)"

lemma chain_put_view:
  "lmdb_laws D V W \<Longrightarrow> chain_put D what d k bs t = Ok t' \<Longrightarrow> key_ok k \<and> W t' = (W t)(d := (W t d)(k \<mapsto> bs))"
  by (auto simp: chain_put_def map_err_Ok_iff dest: lmdb_put)

lemma chain_write_Ok:
  assumes "lmdb_laws D V W" "chain_write D what f e = (e', Ok ())"
  obtains t t' where "W t = V e" "f t = Ok t'" "V e' = W t'"
proof -
  obtain t t' where "begin_rw_txn D e = Ok t" "f t = Ok t'" "txn_commit D e t' = (e', Ok ())"
    using assms(2) by (auto simp: chain_write_def res_bind_Ok_iff map_err_Ok_iff split: sum.splits prod.splits)
  then show ?thesis using that lmdb_begin_rw [OF assms(1)] lmdb_commit [OF assms(1)] by blast
qed

lemma chain_write_Err:
  assumes "lmdb_laws D V W" "chain_write D what f e = (e', Err x)"
  shows "V e' = V e"
  using assms(2) lmdb_commit_Err [OF assms(1)] by (auto simp: chain_write_def map_err_Err_iff split: sum.splits prod.splits)

lemma chain_load_view:
  assumes "lmdb_laws D V W" "readable D e"
  shows "chain_load D c invalid d k e =
    (if key_ok k then (case V e d k of None \<Rightarrow> Ok None | Some bs \<Rightarrow> map_err (BorshFailed invalid) (res_bind (dec c bs) (\<lambda>v. Ok (Some v))))
     else Ok None)"
proof -
  obtain t where t: "begin_ro_txn D e = Ok t" "W t = V e" by (rule with_ro_view [OF assms])
  have "txn_get D t d k = (if key_ok k then (case V e d k of None \<Rightarrow> Err NotFound | Some v \<Rightarrow> Ok v) else Err BadValSize)"
    using assms(1) t(2) unfolding lmdb_laws_def by (elim conjE) simp
  then show ?thesis using t(1) by (auto simp: chain_load_def map_err_def split: option.split sum.split)
qed

lemma chain_load_stored:
  "lmdb_laws D V W \<Longrightarrow> readable D e \<Longrightarrow> key_ok k \<Longrightarrow> V e d k = Some bs \<Longrightarrow> codec_ok c \<Longrightarrow> enc c v = Ok bs \<Longrightarrow>
   chain_load D c invalid d k e = Ok (Some v)"
  by (simp add: chain_load_view codec_ok_def map_err_def)

lemma chain_load_cong:
  "lmdb_laws D V W \<Longrightarrow> readable D e \<Longrightarrow> readable D e' \<Longrightarrow> V e' d k = V e d k \<Longrightarrow>
   chain_load D c invalid d k e' = chain_load D c invalid d k e"
  by (simp add: chain_load_view)

lemma chain_height_key [simp]:
  "key_ok (chain_height_key h)" "chain_height_key h = chain_height_key h' \<longleftrightarrow> h = h'"
  by (simp_all add: key_ok_def chain_height_key_def inj_u64_to_be_bytes)

text \<open>What saving a transaction of a block, and all of them, does to the content.\<close>

lemma chain_save_tx_view:
  assumes laws: "lmdb_laws D V W" and saved: "chain_save_transaction_in_txn K D C tx (Some h) (Some bh) t = Ok t'"
  obtains bs ls where "enc (cc_tx C) tx = Ok bs" "enc (cc_location C) \<lparr>txl_height = h, txl_block_hash = bh\<rparr> = Ok ls" "key_ok (tx_hash K tx)"
    "W t' = (W t)(Txs := (W t Txs)(tx_hash K tx \<mapsto> bs), Tx_index := (W t Tx_index)(tx_hash K tx \<mapsto> ls))"
proof -
  obtain bs t1 ls where p: "enc (cc_tx C) tx = Ok bs" "chain_put D ''failed to save tx'' Txs (tx_hash K tx) bs t = Ok t1"
    "enc (cc_location C) \<lparr>txl_height = h, txl_block_hash = bh\<rparr> = Ok ls" "chain_put D ''failed to save tx index'' Tx_index (tx_hash K tx) ls t1 = Ok t'"
    using saved by (auto simp: chain_save_transaction_in_txn_def res_bind_Ok_iff map_err_Ok_iff)
  from that [OF p(1,3)] chain_put_view [OF laws p(2)] chain_put_view [OF laws p(4)] show ?thesis by simp
qed

lemma chain_save_txs_view:
  assumes laws: "lmdb_laws D V W"
  shows "try_fold (\<lambda>tx. chain_save_transaction_in_txn K D C tx (Some h) (Some bh)) txs t = Ok t' \<Longrightarrow>
    (\<forall>d. d \<notin> {Txs, Tx_index} \<longrightarrow> W t' d = W t d) \<and>
    (\<forall>x. x \<notin> tx_hash K ` set txs \<longrightarrow> W t' Txs x = W t Txs x) \<and>
    (\<forall>x \<in> tx_hash K ` set txs. key_ok x \<and> (\<exists>tx \<in> set txs. tx_hash K tx = x \<and> (\<exists>bs. enc (cc_tx C) tx = Ok bs \<and> W t' Txs x = Some bs)))"
proof (induction txs arbitrary: t)
  case (Cons tx txs)
  obtain t1 where t1: "chain_save_transaction_in_txn K D C tx (Some h) (Some bh) t = Ok t1"
    "try_fold (\<lambda>tx. chain_save_transaction_in_txn K D C tx (Some h) (Some bh)) txs t1 = Ok t'"
    using Cons.prems by (auto simp: res_bind_Ok_iff)
  obtain bs ls where tx: "enc (cc_tx C) tx = Ok bs" "key_ok (tx_hash K tx)"
    "W t1 = (W t)(Txs := (W t Txs)(tx_hash K tx \<mapsto> bs), Tx_index := (W t Tx_index)(tx_hash K tx \<mapsto> ls))"
    by (rule chain_save_tx_view [OF laws t1(1)])
  note rest = Cons.IH [OF t1(2)]
  show ?case
  proof (intro conjI allI ballI impI)
    fix x assume x: "x \<in> tx_hash K ` set (tx # txs)"
    show "key_ok x" using x rest tx(2) by auto
    show "\<exists>tx \<in> set (tx # txs). tx_hash K tx = x \<and> (\<exists>bs. enc (cc_tx C) tx = Ok bs \<and> W t' Txs x = Some bs)"
    proof (cases "x \<in> tx_hash K ` set txs")
      case False
      then have "x = tx_hash K tx" "W t' Txs x = Some bs" using x rest tx(3) by auto
      then show ?thesis using tx(1) by auto
    qed (use rest in auto)
  qed (use rest tx(3) in auto)
qed simp

lemma chain_save_block_view:
  assumes laws: "lmdb_laws D V W" and save: "chain_save_block K D C b e = (e', Ok ())"
  obtains bs where "enc (cc_block C) b = Ok bs" "key_ok (block_hash K b)"
    "V e' Blocks_by_height = (V e Blocks_by_height)(chain_height_key (block_height b) \<mapsto> bs)"
    "V e' Blocks_by_hash = (V e Blocks_by_hash)(block_hash K b \<mapsto> bs)"
    "\<forall>tx \<in> set (block_transactions b). key_ok (tx_hash K tx) \<and> (\<exists>tx' \<in> set (block_transactions b). tx_hash K tx' = tx_hash K tx \<and>
       (\<exists>bs. enc (cc_tx C) tx' = Ok bs \<and> V e' Txs (tx_hash K tx) = Some bs))"
proof -
  obtain bs where bs: "enc (cc_block C) b = Ok bs"
    using save by (auto simp: chain_save_block_def map_err_def split: sum.splits)
  obtain t t' where t: "W t = V e" "V e' = W t'" and body:
    "res_bind (chain_put D ''failed to save block by height'' Blocks_by_height (chain_height_key (block_height b)) bs t) (\<lambda>t.
     res_bind (chain_put D ''failed to save block by hash'' Blocks_by_hash (block_hash K b) bs t) (\<lambda>t.
     res_bind (chain_put D ''failed to save tip height'' Meta (ascii ''tip_height'') (u64_to_be_bytes (block_height b)) t) (\<lambda>t.
     res_bind (chain_put D ''failed to save tip hash'' Meta (ascii ''tip_hash'') (block_hash K b) t) (\<lambda>t.
     try_fold (\<lambda>tx. chain_save_transaction_in_txn K D C tx (Some (block_height b)) (Some (block_hash K b))) (block_transactions b) t)))) = Ok t'"
    using save by (auto simp: chain_save_block_def bs map_err_def elim: chain_write_Ok [OF laws])
  obtain t1 t2 t3 t4 where p:
    "chain_put D ''failed to save block by height'' Blocks_by_height (chain_height_key (block_height b)) bs t = Ok t1"
    "chain_put D ''failed to save block by hash'' Blocks_by_hash (block_hash K b) bs t1 = Ok t2"
    "chain_put D ''failed to save tip height'' Meta (ascii ''tip_height'') (u64_to_be_bytes (block_height b)) t2 = Ok t3"
    "chain_put D ''failed to save tip hash'' Meta (ascii ''tip_hash'') (block_hash K b) t3 = Ok t4"
    "try_fold (\<lambda>tx. chain_save_transaction_in_txn K D C tx (Some (block_height b)) (Some (block_hash K b))) (block_transactions b) t4 = Ok t'"
    using body by (auto simp: res_bind_Ok_iff)
  note put = p(1-4) [THEN chain_put_view [OF laws]] and txs = chain_save_txs_view [OF laws p(5)]
  show ?thesis by (rule that [OF bs]) (use txs put t in auto)
qed

section \<open>Properties\<close>

text \<open>
  The block store of \<open>storage.rs\<close> keeps what it is given: after a block was saved it is found by its height and by its
  hash, and each of its transactions by its hash (when two transactions had the same hash, one of them); blocks saved
  under other heights and hashes are still found; and a save that fails changes nothing.
\<close>

lemma chain_block_saved:
  assumes laws: "lmdb_laws D V W" "chain_codecs_ok C" "\<forall>e. readable D e" and save: "chain_save_block K D C b e = (e', r)"
  shows "case r of
      Inl _ \<Rightarrow> V e' = V e
    | Inr _ \<Rightarrow> chain_load_block_by_height D C (block_height b) e' = Ok (Some b) \<and>
        chain_load_block_by_hash D C (block_hash K b) e' = Ok (Some b) \<and>
        (\<forall>tx \<in> set (block_transactions b). \<exists>tx' \<in> set (block_transactions b). tx_hash K tx' = tx_hash K tx \<and>
           chain_load_transaction D C (tx_hash K tx) e' = Ok (Some tx')) \<and>
        (\<forall>h. h \<noteq> block_height b \<longrightarrow> chain_load_block_by_height D C h e' = chain_load_block_by_height D C h e) \<and>
        (\<forall>h. h \<noteq> block_hash K b \<longrightarrow> chain_load_block_by_hash D C h e' = chain_load_block_by_hash D C h e)"
proof (cases r)
  case (Inl x)
  then show ?thesis
    using save chain_write_Err [OF laws(1)] by (auto simp: chain_save_block_def split: sum.splits)
next
  case (Inr u)
  have c: "codec_ok (cc_block C)" "codec_ok (cc_tx C)" and rd: "readable D e" for e using laws(2,3) by (simp_all add: chain_codecs_ok_def)
  have "chain_save_block K D C b e = (e', Ok ())" using save Inr by simp
  then obtain bs where v: "enc (cc_block C) b = Ok bs" "key_ok (block_hash K b)"
    "V e' Blocks_by_height = (V e Blocks_by_height)(chain_height_key (block_height b) \<mapsto> bs)"
    "V e' Blocks_by_hash = (V e Blocks_by_hash)(block_hash K b \<mapsto> bs)"
    "\<forall>tx \<in> set (block_transactions b). key_ok (tx_hash K tx) \<and> (\<exists>tx' \<in> set (block_transactions b). tx_hash K tx' = tx_hash K tx \<and>
       (\<exists>bs. enc (cc_tx C) tx' = Ok bs \<and> V e' Txs (tx_hash K tx) = Some bs))"
    by (rule chain_save_block_view [OF laws(1)])
  have "chain_load_block_by_height D C (block_height b) e' = Ok (Some b)" "chain_load_block_by_hash D C (block_hash K b) e' = Ok (Some b)"
    unfolding chain_load_block_by_height_def chain_load_block_by_hash_def
    using chain_load_stored [OF laws(1) rd _ _ c(1) v(1)] v(2-4) by simp_all
  moreover have "\<exists>tx' \<in> set (block_transactions b). tx_hash K tx' = tx_hash K tx \<and> chain_load_transaction D C (tx_hash K tx) e' = Ok (Some tx')"
    if "tx \<in> set (block_transactions b)" for tx
    unfolding chain_load_transaction_def using bspec [OF v(5) that] chain_load_stored [OF laws(1) rd _ _ c(2)] by blast
  moreover have "chain_load_block_by_height D C h e' = chain_load_block_by_height D C h e" if "h \<noteq> block_height b" for h
    unfolding chain_load_block_by_height_def using that v(3)
    by (intro chain_load_cong [OF laws(1) rd rd]) simp
  moreover have "chain_load_block_by_hash D C h e' = chain_load_block_by_hash D C h e" if "h \<noteq> block_hash K b" for h
    unfolding chain_load_block_by_hash_def using that v(4) by (intro chain_load_cong [OF laws(1) rd rd]) simp
  ultimately show ?thesis using Inr by simp
qed

text \<open>The engine and codecs of the main store's witnesses; the block with a transaction is saved on an empty store.\<close>

definition chain_sample_codecs :: chain_codecs where
  "chain_sample_codecs = \<lparr>cc_block = table_codec [genesis, block1], cc_tx = table_codec [stored_tx],
     cc_location = table_codec [\<lparr>txl_height = 1, txl_block_hash = [4]\<rparr>], cc_account = table_codec [stored_account]\<rparr>"

lemma mem_chain_put: "key_ok k \<Longrightarrow> chain_put mem_lmdb what d k bs t = Ok (t(d := bt_insert k bs (sorted_db t d)))"
  by (simp add: chain_put_def mem_lmdb_def)

lemma mem_chain_write: "f e = Ok t \<Longrightarrow> chain_write mem_lmdb what f e = (t, Ok ())"
  by (simp add: chain_write_def mem_lmdb_def)

lemma chain_block_sample:
  "\<exists>e. chain_save_block sample_core mem_lmdb chain_sample_codecs block1 (\<lambda>_. []) = (e, Ok ()) \<and>
     chain_load_block_by_height mem_lmdb chain_sample_codecs 1 e = Ok (Some block1) \<and>
     chain_load_transaction mem_lmdb chain_sample_codecs [5] e = Ok (Some stored_tx)"
proof -
  have laws: "chain_codecs_ok chain_sample_codecs" "\<forall>e. readable mem_lmdb (e :: chain_db mem_envs)"
    by (simp_all add: chain_codecs_ok_def chain_sample_codecs_def table_codec_ok)
  have hashes: "block_hash sample_core block1 = [4]" "tx_hash sample_core stored_tx = [5]" "block_height block1 = 1"
    "block_transactions block1 = [stored_tx]"
    by (simp_all add: sample_core_def storage_sample_defs)
  have "key_ok [4]" "key_ok [5]" "key_ok (ascii ''tip_height'')" "key_ok (ascii ''tip_hash'')" by (simp_all add: key_ok_def ascii_def)
  moreover have "enc (cc_block chain_sample_codecs) block1 = Ok [1]" "enc (cc_tx chain_sample_codecs) stored_tx = Ok [0]"
    "enc (cc_location chain_sample_codecs) \<lparr>txl_height = 1, txl_block_hash = [4]\<rparr> = Ok [0]"
    by (simp_all add: chain_sample_codecs_def storage_sample_defs)
  ultimately obtain e where e: "chain_save_block sample_core mem_lmdb chain_sample_codecs block1 (\<lambda>_. []) = (e, Ok ())"
    by (simp add: chain_save_block_def map_err_def hashes mem_chain_write mem_chain_put chain_save_transaction_in_txn_def del: fun_upd_apply)
  from chain_block_saved [OF mem_lmdb_laws laws e] e hashes show ?thesis by simp
qed

text \<open>Accounts and single transactions are read back as they were saved.\<close>

lemma chain_account_saved:
  assumes "lmdb_laws D V W" "chain_codecs_ok C" "readable D e'" "chain_save_account D C a e = (e', Ok ())"
  shows "chain_load_account D C (acc_address a) e' = Ok (Some a)"
proof -
  obtain t t' where t: "V e' = W t'" "res_bind (map_err (BorshFailed ''failed to serialize account'') (enc (cc_account C) a)) (\<lambda>bs.
      chain_put D ''failed to save account'' Accounts (acc_address a) bs t) = Ok t'"
    by (rule chain_write_Ok [OF assms(1) assms(4) [unfolded chain_save_account_def]])
  then obtain bs where bs: "enc (cc_account C) a = Ok bs" "chain_put D ''failed to save account'' Accounts (acc_address a) bs t = Ok t'"
    by (auto simp: res_bind_Ok_iff map_err_Ok_iff)
  have "codec_ok (cc_account C)" using assms(2) by (simp add: chain_codecs_ok_def)
  from chain_load_stored [OF assms(1,3) _ _ this bs(1)] chain_put_view [OF assms(1) bs(2)] show ?thesis
    by (simp add: chain_load_account_def t(1))
qed

lemma chain_transaction_saved:
  assumes "lmdb_laws D V W" "chain_codecs_ok C" "readable D e'" "chain_save_transaction K D C tx h bh e = (e', Ok ())"
  shows "chain_load_transaction D C (tx_hash K tx) e' = Ok (Some tx)"
proof -
  obtain t t' where t: "V e' = W t'" "chain_save_transaction_in_txn K D C tx h bh t = Ok t'"
    by (rule chain_write_Ok [OF assms(1) assms(4) [unfolded chain_save_transaction_def]])
  obtain bs t1 where p: "enc (cc_tx C) tx = Ok bs" "chain_put D ''failed to save tx'' Txs (tx_hash K tx) bs t = Ok t1"
    "t' = t1 \<or> (\<exists>ls. chain_put D ''failed to save tx index'' Tx_index (tx_hash K tx) ls t1 = Ok t')"
    using t(2) by (cases h; cases bh) (auto simp: chain_save_transaction_in_txn_def res_bind_Ok_iff map_err_Ok_iff)
  have "W t' Txs = W t1 Txs" using p(3) by (auto dest: chain_put_view [OF assms(1)])
  moreover have "codec_ok (cc_tx C)" using assms(2) by (simp add: chain_codecs_ok_def)
  ultimately show ?thesis using chain_load_stored [OF assms(1,3) _ _ _ p(1)] chain_put_view [OF assms(1) p(2)]
    by (simp add: chain_load_transaction_def t(1))
qed

end
