(* ===== verification/Rpc.thy ===== *)
theory Rpc
  imports Service
begin

text \<open>
  The RPC server (\<open>src/main.rs\<close>, \<open>start_rpc_server\<close> and the handlers of its routes). A response is a
  status and a body; a body is the record that the code turns into JSON, and an error text is a value of
  \<open>rpc_fault\<close>. The constants and functions of the protocol crate that only the responses use, and the
  hex and JSON libraries, are fields of \<open>rpc_env\<close>. A mutex that a panicking thread has poisoned is a
  flag of \<open>poisoned_locks\<close>. The clock of the responses is an argument \<open>clock\<close>, \<open>None\<close> before the epoch.
\<close>

section \<open>Data\<close>

record rpc_env =
  rpc_config :: "string config_env"
  rpc_hex_encode :: "bytes \<Rightarrow> string"
  rpc_address_to_string :: "address \<Rightarrow> string"
  rpc_decode_transaction :: "bytes \<Rightarrow> signed_transaction option"
  rpc_json_ok :: "string \<Rightarrow> bool"
  transaction_count :: "block \<Rightarrow> usize"
  coinbase_total :: "coinbase_transaction \<Rightarrow> u32"
  CHAIN_NAME :: string
  COIN_NAME :: string
  PROTOCOL_STAGE :: string
  PROTOCOL_VERSION :: u8
  CONFIRMATION_DEPTH :: u32
  FINALITY_DEPTH :: u32
  BLOCK_REWARD_MATURITY :: u32
  GENESIS_PREMINE :: u32
  MAX_UNIT_SUPPLY :: u32
  MAX_MINED_SUPPLY :: u32

record poisoned_locks =
  node_poisoned :: bool
  peers_poisoned :: bool
  connections_poisoned :: bool
  inbound_poisoned :: bool

text \<open>The part of \<open>RpcState\<close> that is not shared with the service.\<close>

record rpc_stats =
  rpc_mining :: bool
  last_hashrate_hps :: u64
  last_attempts :: u64
  accepted_tx_total :: u64
  broadcast_tx_total :: u64

datatype rpc_fault =
    StateLockFailed
  | BadAddress config_error
  | InvalidHashHex
  | HashLength
  | InvalidTransactionHex
  | InvalidTransactionBytes
  | BlockNotFound
  | TransactionNotFound
  | LoadBlockFailed storage_error
  | SubmissionFailed service_error

record status_response =
  sr_chain :: string
  sr_stage :: string
  sr_protocol_version :: u8
  sr_height :: u64
  sr_tip_hash :: string
  sr_peers :: nat
  sr_known_peers :: nat
  sr_outbound_peers :: nat
  sr_inbound_peers :: nat
  sr_mining :: bool
  sr_hashrate_hps :: u64
  sr_last_mine_attempts :: u64

record peer_response =
  pr_addr :: string
  pr_failures :: u32
  pr_last_tip :: "u64 option"

record submit_tx_response =
  st_accepted :: bool
  st_hash :: string

record chain_response =
  cr_chain :: string
  cr_coin :: string
  cr_stage :: string
  cr_protocol_version :: u8
  cr_block_time_secs :: u32
  cr_confirmation_depth :: u32
  cr_finality_depth :: u32
  cr_block_reward_maturity :: u32
  cr_difficulty_start :: u32

record chain_stats_response =
  cs_chain :: string
  cs_coin :: string
  cs_height :: u64
  cs_blocks :: u64
  cs_average_block_time_secs :: "u64 option"
  cs_target_block_time_secs :: u32
  cs_target_supply :: u64
  cs_genesis_premine :: u64
  cs_max_mined_supply :: u64
  cs_mined_supply :: u64
  cs_current_supply :: u64
  cs_remaining_mined_supply :: u64
  cs_total_coinbase_rewards :: u64
  cs_total_fees_collected :: u64
  cs_total_transactions :: u64
  cs_pending_transactions :: u64
  cs_total_transfer_volume :: u64
  cs_total_transaction_fees :: u64
  cs_average_transfer_amount :: u64

record tx_response =
  tr_hash :: string
  tr_from :: string
  tr_to :: string
  tr_amount :: u32
  tr_fee :: u32
  tr_nonce :: u64
  tr_timestamp :: u64
  tr_age_secs :: u64
  tr_block_height :: "u64 option"
  tr_block_hash :: "string option"
  tr_status :: string

record coinbase_response =
  cbr_to :: string
  cbr_subsidy :: u32
  cbr_fees :: u32
  cbr_total :: u32

record genesis_allocation_response =
  gar_to :: string
  gar_amount :: u32

record block_response =
  br_height :: u64
  br_hash :: string
  br_short_hash :: string
  br_previous_hash :: string
  br_merkle_root :: string
  br_state_root :: string
  br_miner_address :: string
  br_difficulty :: u32
  br_timestamp :: u64
  br_age_secs :: u64
  br_confirmations :: u64
  br_block_time_secs :: "u64 option"
  br_target_block_time_secs :: u32
  br_block_time_delta_secs :: "int option"
  br_value_moved :: u32
  br_nonce :: u64
  br_tx_count :: usize
  br_size :: usize
  br_coinbase :: "coinbase_response option"
  br_genesis_allocations :: "genesis_allocation_response list"
  br_transactions :: "tx_response list"

record mined_block_response =
  mb_height :: u64
  mb_hash :: string
  mb_confirmations :: u64
  mb_maturity_height :: u64
  mb_matured :: bool
  mb_subsidy :: u32
  mb_fees :: u32
  mb_total :: u32
  mb_tx_count :: usize
  mb_timestamp :: u64

record address_activity =
  aa_mined_blocks :: "mined_block_response list"
  aa_transactions :: "tx_response list"

record address_response =
  ar_address :: string
  ar_balance :: string \<comment> \<open>a JSON value, as its text\<close>
  ar_mined_blocks :: "mined_block_response list"
  ar_transactions :: "tx_response list"

record account_response =
  acr_address :: string
  acr_confirmed :: u32
  acr_available :: u32
  acr_unspendable :: u32
  acr_pending_incoming :: u32
  acr_pending_outgoing :: u32
  acr_nonce :: u64
  acr_credits :: nat

record mempool_response =
  mr_size :: nat
  mr_transactions :: "tx_response list"

datatype rpc_body =
    StatusBody status_response
  | HealthBody bool
  | ChainBody chain_response
  | StatsBody chain_stats_response
  | PeersBody "peer_response list"
  | BalanceBody string
  | BlocksBody "block_response list"
  | BlockBody block_response
  | TxBody tx_response
  | AddressBody address_response
  | AccountsBody "account_response list"
  | MempoolBody mempool_response
  | SubmittedBody submit_tx_response
  | ErrorBody rpc_fault

datatype status_code = OK | BAD_REQUEST | NOT_FOUND | INTERNAL_SERVER_ERROR

type_synonym rpc_response = "status_code \<times> rpc_body"

definition rpc_error :: "status_code \<Rightarrow> rpc_fault \<Rightarrow> rpc_response" where
  "rpc_error status e = (status, ErrorBody e)"

section \<open>Parsing and printing\<close>

definition parse_hash_hex :: "core \<Rightarrow> rpc_env \<Rightarrow> string \<Rightarrow> rpc_fault + hash" where
  "parse_hash_hex K R s =
     res_bind (ok_or (hex_decode (rpc_config R) s) InvalidHashHex) (\<lambda>bs.
     if length bs = HASH_SIZE K then Ok bs else Err HashLength)"

definition signed_transaction_from_hex :: "rpc_env \<Rightarrow> string \<Rightarrow> rpc_fault + signed_transaction" where
  "signed_transaction_from_hex R s =
     res_bind (ok_or (hex_decode (rpc_config R) s) InvalidTransactionHex) (\<lambda>bs.
     ok_or (rpc_decode_transaction R bs) InvalidTransactionBytes)"

definition format_hash :: "rpc_env \<Rightarrow> hash option \<Rightarrow> string" where
  "format_hash R h = (case h of None \<Rightarrow> ''none'' | Some h \<Rightarrow> rpc_hex_encode R h)"

definition short_hash :: "rpc_env \<Rightarrow> hash option \<Rightarrow> string" where
  "short_hash R h =
     (let s = format_hash R h in
      if length s \<le> 16 then s else take 8 s @ ''..'' @ drop (length s - 8) s)"

text \<open>\<open>tip_height().unwrap_or(Height(0))\<close>.\<close>

definition tip_height_or_zero :: "('e, 't, 'f) node_env \<Rightarrow> ('e, 'f) node \<Rightarrow> u64" where
  "tip_height_or_zero E n = (case ledger_tip_height (env_core E) (node_ledger n) of None \<Rightarrow> 0 | Some h \<Rightarrow> h)"

text \<open>A double quote and the quoted field name of a JSON object.\<close>

definition quote :: "string \<Rightarrow> string" where
  "quote s = CHR 0x22 # s @ [CHR 0x22]"

definition balance_json :: "('e, 't, 'f) node_env \<Rightarrow> rpc_env \<Rightarrow> ('e, 'f) node \<Rightarrow> address \<Rightarrow> string" where
  "balance_json E R n a =
     (let start = ''{'' @ quote ''address'' @ '':'' @ quote (rpc_address_to_string R a) @ '','' @
            quote ''height'' @ '':'' @ show_word (tip_height_or_zero E n) @ '','' @ quote ''exists'' @ '':''
      in case balance_summary_of E n a of
        None \<Rightarrow> start @ ''false,'' @ quote ''confirmed'' @ '':0,'' @ quote ''available'' @ '':0,'' @
          quote ''pending_incoming'' @ '':0,'' @ quote ''pending_outgoing'' @ '':0,'' @
          quote ''nonce'' @ '':null,'' @ quote ''unspendable'' @ '':0}''
      | Some summary \<Rightarrow>
          let account = account_view_of E n a;
              nonce = (case account of None \<Rightarrow> ''null'' | Some v \<Rightarrow> show_word (view_nonce v));
              unspendable = (case account of None \<Rightarrow> 0 | Some v \<Rightarrow> view_unspendable v)
          in start @ ''true,'' @ quote ''confirmed'' @ '':'' @ show_word (bs_confirmed summary) @ '','' @
             quote ''available'' @ '':'' @ show_word (bs_available summary) @ '','' @
             quote ''pending_incoming'' @ '':'' @ show_word (incoming (bs_pending summary)) @ '','' @
             quote ''pending_outgoing'' @ '':'' @ show_word (outgoing (bs_pending summary)) @ '','' @
             quote ''nonce'' @ '':'' @ nonce @ '','' @ quote ''unspendable'' @ '':'' @ show_word unspendable @ ''}'')"

section \<open>Transactions and blocks\<close>

definition tx_response_of ::
  "core \<Rightarrow> rpc_env \<Rightarrow> u64 option \<Rightarrow> signed_transaction \<Rightarrow> u64 option \<Rightarrow> hash option \<Rightarrow> string \<Rightarrow> tx_response" where
  "tx_response_of K R clock t height h status =
     (let now = (case clock of None \<Rightarrow> tx_timestamp (payload t) | Some c \<Rightarrow> c) in
      \<lparr>tr_hash = rpc_hex_encode R (tx_hash K t),
       tr_from = rpc_address_to_string R (tx_from (payload t)), tr_to = rpc_address_to_string R (tx_to (payload t)),
       tr_amount = tx_amount (payload t), tr_fee = tx_fee (payload t), tr_nonce = tx_nonce (payload t),
       tr_timestamp = tx_timestamp (payload t), tr_age_secs = saturating_sub now (tx_timestamp (payload t)),
       tr_block_height = height, tr_block_hash = map_option (rpc_hex_encode R) h, tr_status = status\<rparr>)"

definition load_block_at :: "('e, 't, 'f) node_env \<Rightarrow> ('e, 'f) node \<Rightarrow> u64 \<Rightarrow> storage_error + block option" where
  "load_block_at E n h = load_block_by_height (env_lmdb E) (env_codecs E) (node_storage n) h"

definition block_response_of ::
  "('e, 't, 'f) node_env \<Rightarrow> rpc_env \<Rightarrow> u64 option \<Rightarrow> ('e, 'f) node \<Rightarrow> block \<Rightarrow> string option \<Rightarrow> block_response" where
  "block_response_of E R clock n b status =
     (let K = env_core E;
          bh = block_hash K b;
          height = block_height b;
          now = (case clock of None \<Rightarrow> block_timestamp b | Some c \<Rightarrow> c);
          previous = (if height = 0 then None
            else case load_block_at E n (height - 1) of
              Inr (Some p) \<Rightarrow> Some (block_timestamp p)
            | _ \<Rightarrow> None)
      in \<lparr>br_height = height, br_hash = rpc_hex_encode R bh, br_short_hash = short_hash R (Some bh),
          br_previous_hash = rpc_hex_encode R (previous_hash b),
          br_merkle_root = rpc_hex_encode R (bh_merkle_root (header b)),
          br_state_root = rpc_hex_encode R (block_state_root b),
          br_miner_address = rpc_address_to_string R (miner_address b),
          br_difficulty = block_difficulty b, br_timestamp = block_timestamp b,
          br_age_secs = saturating_sub now (block_timestamp b),
          br_confirmations = saturating_add (saturating_sub (tip_height_or_zero E n) height) 1,
          br_block_time_secs = map_option (saturating_sub (block_timestamp b)) previous,
          br_target_block_time_secs = BLOCK_TIME K,
          br_block_time_delta_secs =
            map_option (\<lambda>t. sint (saturating_sub (block_timestamp b) t - ucast (BLOCK_TIME K))) previous,
          br_value_moved = foldl (+) 0 (map (\<lambda>t. tx_amount (payload t)) (block_transactions b)),
          br_nonce = bh_nonce (header b), br_tx_count = transaction_count R b,
          br_size = block_serialized_size K b,
          br_coinbase = map_option (\<lambda>cb. \<lparr>cbr_to = rpc_address_to_string R (cb_to cb), cbr_subsidy = cb_subsidy cb,
            cbr_fees = cb_fees cb, cbr_total = coinbase_total R cb\<rparr>) (block_coinbase b),
          br_genesis_allocations = map (\<lambda>g. \<lparr>gar_to = rpc_address_to_string R (alloc_to g), gar_amount = alloc_amount g\<rparr>)
            (genesis_allocations b),
          br_transactions = map (\<lambda>t. tx_response_of K R clock t (Some height) (Some bh)
            (case status of None \<Rightarrow> ''confirmed'' | Some s \<Rightarrow> s)) (block_transactions b)\<rparr>)"

text \<open>The heights \<open>0..=tip\<close>, and the search through the pool, then through the chain.\<close>

definition heights :: "u64 \<Rightarrow> u64 list" where
  "heights tip = map of_nat [0..<Suc (unat tip)]"

fun find_in_chain ::
  "('e, 't, 'f) node_env \<Rightarrow> rpc_env \<Rightarrow> u64 option \<Rightarrow> ('e, 'f) node \<Rightarrow> hash \<Rightarrow> u64 list \<Rightarrow> rpc_fault + tx_response option" where
  "find_in_chain E R clock n h [] = Ok None"
| "find_in_chain E R clock n h (height # hs) =
     res_bind (map_err LoadBlockFailed (load_block_at E n height)) (\<lambda>ob. case ob of
       None \<Rightarrow> find_in_chain E R clock n h hs
     | Some b \<Rightarrow>
         (case find (\<lambda>t. tx_hash (env_core E) t = h) (block_transactions b) of
            Some t \<Rightarrow> Ok (Some (tx_response_of (env_core E) R clock t (Some (block_height b)) (Some (block_hash (env_core E) b)) ''confirmed''))
          | None \<Rightarrow> find_in_chain E R clock n h hs))"

definition find_transaction ::
  "('e, 't, 'f) node_env \<Rightarrow> rpc_env \<Rightarrow> u64 option \<Rightarrow> ('e, 'f) node \<Rightarrow> hash \<Rightarrow> rpc_fault + tx_response option" where
  "find_transaction E R clock n h =
     (case find (\<lambda>t. tx_hash (env_core E) t = h) (transactions (node_mempool n)) of
        Some t \<Rightarrow> Ok (Some (tx_response_of (env_core E) R clock t None None ''pending''))
      | None \<Rightarrow> find_in_chain E R clock n h (heights (tip_height_or_zero E n)))"

section \<open>The activity of an address\<close>

definition involves :: "address \<Rightarrow> signed_transaction \<Rightarrow> bool" where
  "involves a t \<longleftrightarrow> tx_from (payload t) = a \<or> tx_to (payload t) = a"

definition mined_block_of ::
  "('e, 't, 'f) node_env \<Rightarrow> rpc_env \<Rightarrow> u64 \<Rightarrow> u64 \<Rightarrow> block \<Rightarrow> coinbase_transaction \<Rightarrow> mined_block_response" where
  "mined_block_of E R tip height b cb =
     (let maturity_height = saturating_add height (ucast (BLOCK_REWARD_MATURITY R)) in
      \<lparr>mb_height = height, mb_hash = rpc_hex_encode R (block_hash (env_core E) b),
       mb_confirmations = saturating_add (saturating_sub tip height) 1,
       mb_maturity_height = maturity_height, mb_matured = (maturity_height \<le> tip),
       mb_subsidy = cb_subsidy cb, mb_fees = cb_fees cb, mb_total = coinbase_total R cb,
       mb_tx_count = transaction_count R b, mb_timestamp = block_timestamp b\<rparr>)"

definition activity_of_block ::
  "('e, 't, 'f) node_env \<Rightarrow> rpc_env \<Rightarrow> u64 option \<Rightarrow> u64 \<Rightarrow> address \<Rightarrow> u64 \<Rightarrow> block \<Rightarrow>
   mined_block_response list \<times> tx_response list \<Rightarrow> mined_block_response list \<times> tx_response list" where
  "activity_of_block E R clock tip a height b = (\<lambda>(mined, txs).
     (mined @ (if miner_address b = a
        then (case block_coinbase b of None \<Rightarrow> [] | Some cb \<Rightarrow> [mined_block_of E R tip height b cb]) else []),
      txs @ map (\<lambda>t. tx_response_of (env_core E) R clock t (Some (block_height b)) (Some (block_hash (env_core E) b)) ''confirmed'')
        (filter (involves a) (block_transactions b))))"

definition address_activity_of ::
  "('e, 't, 'f) node_env \<Rightarrow> rpc_env \<Rightarrow> u64 option \<Rightarrow> ('e, 'f) node \<Rightarrow> address \<Rightarrow> rpc_fault + address_activity" where
  "address_activity_of E R clock n a =
     (let tip = tip_height_or_zero E n in
      res_bind (try_fold (\<lambda>height acc.
          res_bind (map_err LoadBlockFailed (load_block_at E n height)) (\<lambda>ob.
          Ok (case ob of None \<Rightarrow> acc | Some b \<Rightarrow> activity_of_block E R clock tip a height b acc)))
        (heights tip) ([], [])) (\<lambda>(mined, txs).
      let txs = txs @ map (\<lambda>t. tx_response_of (env_core E) R clock t None None ''pending'')
            (filter (involves a) (transactions (node_mempool n)))
      in Ok \<lparr>aa_mined_blocks = rev mined, aa_transactions = rev txs\<rparr>))"

section \<open>Chain statistics\<close>

text \<open>The variables of the loop.\<close>

record stats_acc =
  st_blocks :: u64
  st_mined_supply :: u64
  st_coinbase_rewards :: u64
  st_fees_collected :: u64
  st_transactions :: u64
  st_transfer_volume :: u64
  st_transaction_fees :: u64
  st_previous_timestamp :: "u64 option"
  st_block_time_secs :: u64
  st_block_time_samples :: u64

definition stats_start :: stats_acc where
  "stats_start = \<lparr>st_blocks = 0, st_mined_supply = 0, st_coinbase_rewards = 0, st_fees_collected = 0,
     st_transactions = 0, st_transfer_volume = 0, st_transaction_fees = 0, st_previous_timestamp = None,
     st_block_time_secs = 0, st_block_time_samples = 0\<rparr>"

definition stats_transaction :: "signed_transaction \<Rightarrow> stats_acc \<Rightarrow> stats_acc" where
  "stats_transaction t s = s\<lparr>
     st_transactions := saturating_add (st_transactions s) 1,
     st_transfer_volume := saturating_add (st_transfer_volume s) (ucast (tx_amount (payload t))),
     st_transaction_fees := saturating_add (st_transaction_fees s) (ucast (tx_fee (payload t)))\<rparr>"

definition stats_block :: "rpc_env \<Rightarrow> block \<Rightarrow> stats_acc \<Rightarrow> stats_acc" where
  "stats_block R b s =
     (let s = s\<lparr>st_blocks := saturating_add (st_blocks s) 1\<rparr>;
          s = (case st_previous_timestamp s of
                 None \<Rightarrow> s
               | Some p \<Rightarrow> s\<lparr>st_block_time_secs := saturating_add (st_block_time_secs s) (saturating_sub (block_timestamp b) p),
                            st_block_time_samples := saturating_add (st_block_time_samples s) 1\<rparr>);
          s = s\<lparr>st_previous_timestamp := Some (block_timestamp b)\<rparr>;
          s = (case block_coinbase b of
                 None \<Rightarrow> s
               | Some cb \<Rightarrow> s\<lparr>st_mined_supply := saturating_add (st_mined_supply s) (ucast (cb_subsidy cb)),
                             st_fees_collected := saturating_add (st_fees_collected s) (ucast (cb_fees cb)),
                             st_coinbase_rewards := saturating_add (st_coinbase_rewards s) (ucast (coinbase_total R cb))\<rparr>)
      in fold stats_transaction (block_transactions b) s)"

definition stats_result ::
  "core \<Rightarrow> rpc_env \<Rightarrow> u64 \<Rightarrow> nat \<Rightarrow> stats_acc \<Rightarrow> chain_stats_response" where
  "stats_result K R tip pending s = \<lparr>
     cs_chain = CHAIN_NAME R, cs_coin = COIN_NAME R, cs_height = tip, cs_blocks = st_blocks s,
     cs_average_block_time_secs =
       (if st_block_time_samples s = 0 then None else Some (st_block_time_secs s div st_block_time_samples s)),
     cs_target_block_time_secs = BLOCK_TIME K, cs_target_supply = ucast (MAX_UNIT_SUPPLY R),
     cs_genesis_premine = ucast (GENESIS_PREMINE R), cs_max_mined_supply = ucast (MAX_MINED_SUPPLY R),
     cs_mined_supply = st_mined_supply s,
     cs_current_supply = saturating_add (ucast (GENESIS_PREMINE R)) (st_mined_supply s),
     cs_remaining_mined_supply = saturating_sub (ucast (MAX_MINED_SUPPLY R)) (st_mined_supply s),
     cs_total_coinbase_rewards = st_coinbase_rewards s, cs_total_fees_collected = st_fees_collected s,
     cs_total_transactions = st_transactions s, cs_pending_transactions = of_nat pending,
     cs_total_transfer_volume = st_transfer_volume s, cs_total_transaction_fees = st_transaction_fees s,
     cs_average_transfer_amount =
       (if st_transactions s = 0 then 0 else st_transfer_volume s div st_transactions s)\<rparr>"

definition chain_stats ::
  "('e, 't, 'f) node_env \<Rightarrow> rpc_env \<Rightarrow> ('e, 'f) node \<Rightarrow> rpc_fault + chain_stats_response" where
  "chain_stats E R n =
     (let tip = tip_height_or_zero E n in
      res_bind (try_fold (\<lambda>height s.
          res_bind (map_err LoadBlockFailed (load_block_at E n height)) (\<lambda>ob.
          Ok (case ob of None \<Rightarrow> s | Some b \<Rightarrow> stats_block R b s)))
        (heights tip) stats_start) (\<lambda>s.
      Ok (stats_result (env_core E) R tip (mempool_len (node_mempool n)) s)))"

section \<open>The routes\<close>

definition rpc_status ::
  "('e, 't, 'f) node_env \<Rightarrow> rpc_env \<Rightarrow> poisoned_locks \<Rightarrow> rpc_stats \<Rightarrow> ('s, 'e, 'f, 'w) service \<Rightarrow> rpc_response" where
  "rpc_status E R L st S =
     (if node_poisoned L \<or> peers_poisoned L \<or> connections_poisoned L \<or> inbound_poisoned L
      then rpc_error INTERNAL_SERVER_ERROR StateLockFailed
      else (OK, StatusBody \<lparr>sr_chain = CHAIN_NAME R, sr_stage = PROTOCOL_STAGE R, sr_protocol_version = PROTOCOL_VERSION R,
        sr_height = tip_height_or_zero E (svc_node S),
        sr_tip_hash = format_hash R (ledger_tip_hash (env_core E) (node_ledger (svc_node S))),
        sr_peers = length (svc_peers S), sr_known_peers = length (svc_peers S),
        sr_outbound_peers = length (peer_connections S), sr_inbound_peers = length (inbound_connections S),
        sr_mining = rpc_mining st, sr_hashrate_hps = last_hashrate_hps st, sr_last_mine_attempts = last_attempts st\<rparr>))"

definition rpc_health :: rpc_response where
  "rpc_health = (OK, HealthBody True)"

definition rpc_chain :: "core \<Rightarrow> rpc_env \<Rightarrow> rpc_response" where
  "rpc_chain K R = (OK, ChainBody \<lparr>cr_chain = CHAIN_NAME R, cr_coin = COIN_NAME R, cr_stage = PROTOCOL_STAGE R,
     cr_protocol_version = PROTOCOL_VERSION R, cr_block_time_secs = BLOCK_TIME K,
     cr_confirmation_depth = CONFIRMATION_DEPTH R, cr_finality_depth = FINALITY_DEPTH R,
     cr_block_reward_maturity = BLOCK_REWARD_MATURITY R, cr_difficulty_start = DIFFICULTY_START K\<rparr>)"

text \<open>A route that reads the node under its lock.\<close>

definition with_node :: "poisoned_locks \<Rightarrow> ('e, 'f) node \<Rightarrow> (('e, 'f) node \<Rightarrow> rpc_response) \<Rightarrow> rpc_response" where
  "with_node L n f = (if node_poisoned L then rpc_error INTERNAL_SERVER_ERROR StateLockFailed else f n)"

definition rpc_stats_route :: "('e, 't, 'f) node_env \<Rightarrow> rpc_env \<Rightarrow> poisoned_locks \<Rightarrow> ('e, 'f) node \<Rightarrow> rpc_response" where
  "rpc_stats_route E R L n = with_node L n (\<lambda>n.
     case chain_stats E R n of Inr stats \<Rightarrow> (OK, StatsBody stats) | Inl e \<Rightarrow> rpc_error INTERNAL_SERVER_ERROR e)"

definition rpc_peers :: "poisoned_locks \<Rightarrow> peer_table \<Rightarrow> rpc_response" where
  "rpc_peers L ps =
     (if peers_poisoned L then rpc_error INTERNAL_SERVER_ERROR StateLockFailed
      else (OK, PeersBody (map (\<lambda>(_, p). \<lparr>pr_addr = ps_addr p, pr_failures = failures p, pr_last_tip = last_tip p\<rparr>) ps)))"

definition rpc_balance ::
  "('e, 't, 'f) node_env \<Rightarrow> rpc_env \<Rightarrow> poisoned_locks \<Rightarrow> ('e, 'f) node \<Rightarrow> string \<Rightarrow> rpc_response" where
  "rpc_balance E R L n s =
     (case parse_address_hex (rpc_config R) s of
        Inl e \<Rightarrow> rpc_error BAD_REQUEST (BadAddress e)
      | Inr a \<Rightarrow> with_node L n (\<lambda>n. (OK, BalanceBody (balance_json E R n a))))"

definition rpc_latest_blocks ::
  "('e, 't, 'f) node_env \<Rightarrow> rpc_env \<Rightarrow> u64 option \<Rightarrow> poisoned_locks \<Rightarrow> ('e, 'f) node \<Rightarrow> rpc_response" where
  "rpc_latest_blocks E R clock L n = with_node L n (\<lambda>n.
     let tip = tip_height_or_zero E n;
         start = saturating_sub tip 9
     in case try_fold (\<lambda>height blocks.
            res_bind (map_err LoadBlockFailed (load_block_at E n height)) (\<lambda>ob.
            Ok (case ob of None \<Rightarrow> blocks | Some b \<Rightarrow> blocks @ [block_response_of E R clock n b None])))
          (rev (map of_nat [unat start..<Suc (unat tip)])) [] of
          Inl e \<Rightarrow> rpc_error INTERNAL_SERVER_ERROR e
        | Inr blocks \<Rightarrow> (OK, BlocksBody blocks))"

definition block_or_error ::
  "('e, 't, 'f) node_env \<Rightarrow> rpc_env \<Rightarrow> u64 option \<Rightarrow> ('e, 'f) node \<Rightarrow> storage_error + block option \<Rightarrow> rpc_response" where
  "block_or_error E R clock n r =
     (case r of
        Inr (Some b) \<Rightarrow> (OK, BlockBody (block_response_of E R clock n b None))
      | Inr None \<Rightarrow> rpc_error NOT_FOUND BlockNotFound
      | Inl e \<Rightarrow> rpc_error INTERNAL_SERVER_ERROR (LoadBlockFailed e))"

definition rpc_block_by_height ::
  "('e, 't, 'f) node_env \<Rightarrow> rpc_env \<Rightarrow> u64 option \<Rightarrow> poisoned_locks \<Rightarrow> ('e, 'f) node \<Rightarrow> u64 \<Rightarrow> rpc_response" where
  "rpc_block_by_height E R clock L n height = with_node L n (\<lambda>n.
     block_or_error E R clock n (load_block_at E n height))"

definition rpc_block_by_hash ::
  "('e, 't, 'f) node_env \<Rightarrow> rpc_env \<Rightarrow> u64 option \<Rightarrow> poisoned_locks \<Rightarrow> ('e, 'f) node \<Rightarrow> string \<Rightarrow> rpc_response" where
  "rpc_block_by_hash E R clock L n s =
     (case parse_hash_hex (env_core E) R s of
        Inl e \<Rightarrow> rpc_error BAD_REQUEST e
      | Inr h \<Rightarrow> with_node L n (\<lambda>n.
          block_or_error E R clock n (load_block_by_hash (env_core E) (env_lmdb E) (env_codecs E) (node_storage n) h)))"

definition rpc_tx ::
  "('e, 't, 'f) node_env \<Rightarrow> rpc_env \<Rightarrow> u64 option \<Rightarrow> poisoned_locks \<Rightarrow> ('e, 'f) node \<Rightarrow> string \<Rightarrow> rpc_response" where
  "rpc_tx E R clock L n s =
     (case parse_hash_hex (env_core E) R s of
        Inl e \<Rightarrow> rpc_error BAD_REQUEST e
      | Inr h \<Rightarrow> with_node L n (\<lambda>n.
          case find_transaction E R clock n h of
            Inr (Some t) \<Rightarrow> (OK, TxBody t)
          | Inr None \<Rightarrow> rpc_error NOT_FOUND TransactionNotFound
          | Inl e \<Rightarrow> rpc_error INTERNAL_SERVER_ERROR e))"

definition rpc_address ::
  "('e, 't, 'f) node_env \<Rightarrow> rpc_env \<Rightarrow> u64 option \<Rightarrow> poisoned_locks \<Rightarrow> ('e, 'f) node \<Rightarrow> string \<Rightarrow> rpc_response" where
  "rpc_address E R clock L n s =
     (case parse_address_hex (rpc_config R) s of
        Inl e \<Rightarrow> rpc_error BAD_REQUEST (BadAddress e)
      | Inr a \<Rightarrow> with_node L n (\<lambda>n.
          case address_activity_of E R clock n a of
            Inl e \<Rightarrow> rpc_error INTERNAL_SERVER_ERROR e
          | Inr activity \<Rightarrow>
              let text = balance_json E R n a;
                  balance = (if rpc_json_ok R text then text
                    else ''{'' @ quote ''error'' @ '':'' @ quote ''balance_encode_failed'' @ ''}'')
              in (OK, AddressBody \<lparr>ar_address = rpc_address_to_string R a, ar_balance = balance,
                   ar_mined_blocks = aa_mined_blocks activity, ar_transactions = aa_transactions activity\<rparr>)))"

definition rpc_accounts ::
  "('e, 't, 'f) node_env \<Rightarrow> rpc_env \<Rightarrow> poisoned_locks \<Rightarrow> ('e, 'f) node \<Rightarrow> rpc_response" where
  "rpc_accounts E R L n = with_node L n (\<lambda>n.
     let height = tip_height_or_zero E n in
     (OK, AccountsBody (map (\<lambda>acc.
        let pending = pending_balance_of n (acc_address acc) in
        \<lparr>acr_address = rpc_address_to_string R (acc_address acc), acr_confirmed = acc_balance acc,
         acr_available = available_balance_at (env_core E) acc height,
         acr_unspendable = unspendable_balance_at (env_core E) acc height,
         acr_pending_incoming = incoming pending, acr_pending_outgoing = outgoing pending,
         acr_nonce = acc_nonce acc, acr_credits = length (acc_credits acc)\<rparr>)
       (bt_values (ledger_accounts (node_ledger n))))))"

definition rpc_mempool ::
  "('e, 't, 'f) node_env \<Rightarrow> rpc_env \<Rightarrow> u64 option \<Rightarrow> poisoned_locks \<Rightarrow> ('e, 'f) node \<Rightarrow> rpc_response" where
  "rpc_mempool E R clock L n = with_node L n (\<lambda>n.
     (OK, MempoolBody \<lparr>mr_size = mempool_len (node_mempool n),
        mr_transactions = map (\<lambda>t. tx_response_of (env_core E) R clock t None None ''pending'')
          (transactions (node_mempool n))\<rparr>))"

text \<open>
  A submission: the section on the node, then, with the lock released, the broadcast. The counters wrap.
\<close>

definition broadcast_transaction ::
  "('s, 'w) service_env \<Rightarrow> poisoned_locks \<Rightarrow> signed_transaction \<Rightarrow> ('s, 'e, 'f, 'w) service \<Rightarrow> ('s, 'e, 'f, 'w) service" where
  "broadcast_transaction V L tx S =
     (case broadcast_to_peers (service_channel V) (if peers_poisoned L then None else Some (map fst (svc_peers S)))
        (\<not> connections_poisoned L) (\<not> inbound_poisoned L) (peer_connections S) (inbound_connections S) (Transaction tx) of
        (conns, inbound, _) \<Rightarrow> S\<lparr>peer_connections := conns, inbound_connections := inbound\<rparr>)"

definition rpc_submit_tx ::
  "('e, 't, 'f) node_env \<Rightarrow> ('s, 'w) service_env \<Rightarrow> rpc_env \<Rightarrow> u64 \<Rightarrow> poisoned_locks \<Rightarrow> string \<Rightarrow>
   rpc_stats \<times> ('s, 'e, 'f, 'w) service \<Rightarrow> (rpc_stats \<times> ('s, 'e, 'f, 'w) service) \<times> rpc_response" where
  "rpc_submit_tx E V R now L text = (\<lambda>(st, S).
     case signed_transaction_from_hex R text of
       Inl e \<Rightarrow> ((st, S), rpc_error BAD_REQUEST e)
     | Inr tx \<Rightarrow>
         if node_poisoned L then ((st, S), rpc_error INTERNAL_SERVER_ERROR StateLockFailed)
         else case submit_section E tx now (svc_node S) of
           (n, Inl e) \<Rightarrow> ((st, S\<lparr>svc_node := n\<rparr>),
             rpc_error (case e of SubmitFailed _ \<Rightarrow> BAD_REQUEST | _ \<Rightarrow> INTERNAL_SERVER_ERROR) (SubmissionFailed e))
         | (n, Inr _) \<Rightarrow>
             ((st\<lparr>accepted_tx_total := accepted_tx_total st + 1, broadcast_tx_total := broadcast_tx_total st + 1\<rparr>,
               broadcast_transaction V L tx (S\<lparr>svc_node := n\<rparr>)),
              (OK, SubmittedBody \<lparr>st_accepted = True, st_hash = rpc_hex_encode R (tx_hash (env_core E) tx)\<rparr>)))"

section \<open>The server\<close>

datatype rpc_request =
    GetStatus
  | GetHealth
  | GetChain
  | GetStats
  | GetPeerList
  | GetBalance string
  | GetLatestBlocks
  | GetBlockByHeightRoute u64
  | GetBlockByHashRoute string
  | GetTx string
  | GetAddress string
  | GetAccounts
  | GetMempoolRoute
  | PostTx string

text \<open>
  The table of \<open>start_rpc_server\<close> on the method, the segments of the path and, for a submission, the
  field \<open>tx\<close> of the body. A request without an entry is answered by the HTTP library.
\<close>

fun route :: "string \<Rightarrow> string list \<Rightarrow> string option \<Rightarrow> rpc_request option" where
  "route verb path body =
     (if verb = ''GET'' then
        (case path of
           [] \<Rightarrow> Some GetStatus
         | [p] \<Rightarrow>
             if p = ''status'' then Some GetStatus
             else if p = ''health'' then Some GetHealth
             else if p = ''chain'' then Some GetChain
             else if p = ''stats'' then Some GetStats
             else if p = ''peers'' then Some GetPeerList
             else if p = ''accounts'' then Some GetAccounts
             else if p = ''mempool'' then Some GetMempoolRoute
             else None
         | [p, q] \<Rightarrow>
             if p = ''chain'' \<and> q = ''stats'' then Some GetStats
             else if p = ''balance'' then Some (GetBalance q)
             else if p = ''blocks'' then
               (if q = ''latest'' then Some GetLatestBlocks else map_option GetBlockByHeightRoute (parse_word q))
             else if p = ''tx'' then Some (GetTx q)
             else if p = ''address'' then Some (GetAddress q)
             else None
         | [p, q, r] \<Rightarrow> if p = ''blocks'' \<and> q = ''hash'' then Some (GetBlockByHashRoute r) else None
         | _ \<Rightarrow> None)
      else if verb = ''POST'' \<and> (path = [''tx''] \<or> path = [''transaction'']) then map_option PostTx body
      else None)"

fun rpc_handle ::
  "('e, 't, 'f) node_env \<Rightarrow> ('s, 'w) service_env \<Rightarrow> rpc_env \<Rightarrow> u64 option \<Rightarrow> u64 \<Rightarrow> poisoned_locks \<Rightarrow> rpc_request \<Rightarrow>
   rpc_stats \<times> ('s, 'e, 'f, 'w) service \<Rightarrow> (rpc_stats \<times> ('s, 'e, 'f, 'w) service) \<times> rpc_response" where
  "rpc_handle E V R clock now L GetStatus w = (w, rpc_status E R L (fst w) (snd w))"
| "rpc_handle E V R clock now L GetHealth w = (w, rpc_health)"
| "rpc_handle E V R clock now L GetChain w = (w, rpc_chain (env_core E) R)"
| "rpc_handle E V R clock now L GetStats w = (w, rpc_stats_route E R L (svc_node (snd w)))"
| "rpc_handle E V R clock now L GetPeerList w = (w, rpc_peers L (svc_peers (snd w)))"
| "rpc_handle E V R clock now L (GetBalance s) w = (w, rpc_balance E R L (svc_node (snd w)) s)"
| "rpc_handle E V R clock now L GetLatestBlocks w = (w, rpc_latest_blocks E R clock L (svc_node (snd w)))"
| "rpc_handle E V R clock now L (GetBlockByHeightRoute h) w = (w, rpc_block_by_height E R clock L (svc_node (snd w)) h)"
| "rpc_handle E V R clock now L (GetBlockByHashRoute s) w = (w, rpc_block_by_hash E R clock L (svc_node (snd w)) s)"
| "rpc_handle E V R clock now L (GetTx s) w = (w, rpc_tx E R clock L (svc_node (snd w)) s)"
| "rpc_handle E V R clock now L (GetAddress s) w = (w, rpc_address E R clock L (svc_node (snd w)) s)"
| "rpc_handle E V R clock now L GetAccounts w = (w, rpc_accounts E R L (svc_node (snd w)))"
| "rpc_handle E V R clock now L GetMempoolRoute w = (w, rpc_mempool E R clock L (svc_node (snd w)))"
| "rpc_handle E V R clock now L (PostTx s) w = rpc_submit_tx E V R now L s w"

end
