(* ===== verification/Messages.thy ===== *)
theory Messages
  imports Rpc
begin

text \<open>
  What the program says: the texts of its errors (\<open>runtime/*/error.rs\<close>) with the causes they carry, and the
  lines of its log that it computes from its state (\<open>src/main.rs\<close>). The errors of the protocol crate, the storage
  engine and the standard library print themselves; their texts are a parameter.
\<close>

section \<open>Errors\<close>

record error_texts =
  show_transaction_error :: "transaction_error \<Rightarrow> string"
  show_ledger_error :: "ledger_error \<Rightarrow> string"
  show_consensus_error :: "consensus_error \<Rightarrow> string"
  show_genesis_error :: "nat \<Rightarrow> string"
  debug_fork_choice_error :: "fork_choice_error \<Rightarrow> string"
  show_lmdb_error :: "lmdb_error \<Rightarrow> string"
  show_io_error :: "io_error \<Rightarrow> string"

fun show_mempool_error :: "error_texts \<Rightarrow> mempool_error \<Rightarrow> string" where
  "show_mempool_error T DuplicateTransaction = ''transaction already exists in mempool''"
| "show_mempool_error T FeeTooLow = ''transaction fee is below node policy''"
| "show_mempool_error T MempoolFull = ''mempool transaction limit reached''"
| "show_mempool_error T ReplacementFeeTooLow = ''replacement transaction fee must be higher''"
| "show_mempool_error T (InvalidTransaction e) = ''invalid transaction: '' @ show_transaction_error T e"
| "show_mempool_error T (InvalidLedgerState e) = ''transaction does not fit ledger state: '' @ show_ledger_error T e"

fun show_storage_error :: "error_texts \<Rightarrow> storage_error \<Rightarrow> string" where
  "show_storage_error T (Database e) = ''storage database error: '' @ show_lmdb_error T e"
| "show_storage_error T (Io e) = ''storage io error: '' @ show_io_error T e"
| "show_storage_error T (Serialization e) = ''storage serialization error: '' @ show_io_error T e"
| "show_storage_error T (Integrity m) = ''storage integrity error: '' @ m"
| "show_storage_error T MissingStorageVersion = ''storage version is missing from existing database''"
| "show_storage_error T (UnsupportedStorageVersion exp fnd) =
     ''unsupported storage version: expected '' @ show_word exp @ '', found '' @ show_word fnd"

fun show_node_error :: "error_texts \<Rightarrow> node_error \<Rightarrow> string" where
  "show_node_error T (ConsensusError e) = ''consensus error: '' @ show_consensus_error T e"
| "show_node_error T (GenesisError e) = ''genesis error: '' @ show_genesis_error T e"
| "show_node_error T (ForkChoiceError e) = ''fork choice error: '' @ debug_fork_choice_error T e"
| "show_node_error T (LedgerError e) = ''ledger error: '' @ show_ledger_error T e"
| "show_node_error T (MempoolError e) = ''mempool error: '' @ show_mempool_error T e"
| "show_node_error T (StorageError e) = ''storage error: '' @ show_storage_error T e"
| "show_node_error T MiningExhausted = ''mining attempt budget was exhausted''"
| "show_node_error T MissingGenesisState = ''node cannot reorg without a genesis state snapshot''"
| "show_node_error T CheckpointMismatch = ''block does not match hardcoded checkpoint''"
| "show_node_error T ReorgRequired = ''fork choice selected a non-linear best tip''"

fun show_network_error :: "error_texts \<Rightarrow> network_error \<Rightarrow> string" where
  "show_network_error T MessageTooLarge = ''network message exceeds maximum size''"
| "show_network_error T (NodeFailure e) = ''network node handler error: '' @ show_node_error T e"
| "show_network_error T (NetworkIo e) = ''network I/O error: '' @ show_io_error T e"
| "show_network_error T (NetworkSerialization e) = ''network message serialization error: '' @ show_io_error T e"

fun show_wallet_error :: "wallet_error \<Rightarrow> string" where
  "show_wallet_error SenderAddressMismatch = ''transaction sender does not match wallet address''"

text \<open>\<open>Error::source\<close>: the error below, one of the program's own or one of a library.\<close>

datatype cause =
    MempoolCause mempool_error
  | StorageCause storage_error
  | NodeCause node_error
  | TransactionCause transaction_error
  | LedgerCause ledger_error
  | ConsensusCause consensus_error
  | GenesisCause nat
  | LmdbCause lmdb_error
  | IoCause io_error

fun mempool_error_source :: "mempool_error \<Rightarrow> cause option" where
  "mempool_error_source (InvalidTransaction e) = Some (TransactionCause e)"
| "mempool_error_source (InvalidLedgerState e) = Some (LedgerCause e)"
| "mempool_error_source _ = None"

fun storage_error_source :: "storage_error \<Rightarrow> cause option" where
  "storage_error_source (Database e) = Some (LmdbCause e)"
| "storage_error_source (Io e) = Some (IoCause e)"
| "storage_error_source (Serialization e) = Some (IoCause e)"
| "storage_error_source _ = None"

fun node_error_source :: "node_error \<Rightarrow> cause option" where
  "node_error_source (ConsensusError e) = Some (ConsensusCause e)"
| "node_error_source (GenesisError e) = Some (GenesisCause e)"
| "node_error_source (LedgerError e) = Some (LedgerCause e)"
| "node_error_source (MempoolError e) = Some (MempoolCause e)"
| "node_error_source (StorageError e) = Some (StorageCause e)"
| "node_error_source _ = None"

fun network_error_source :: "network_error \<Rightarrow> cause option" where
  "network_error_source MessageTooLarge = None"
| "network_error_source (NodeFailure e) = Some (NodeCause e)"
| "network_error_source (NetworkIo e) = Some (IoCause e)"
| "network_error_source (NetworkSerialization e) = Some (IoCause e)"

fun show_cause :: "error_texts \<Rightarrow> cause \<Rightarrow> string" where
  "show_cause T (MempoolCause e) = show_mempool_error T e"
| "show_cause T (StorageCause e) = show_storage_error T e"
| "show_cause T (NodeCause e) = show_node_error T e"
| "show_cause T (TransactionCause e) = show_transaction_error T e"
| "show_cause T (LedgerCause e) = show_ledger_error T e"
| "show_cause T (ConsensusCause e) = show_consensus_error T e"
| "show_cause T (GenesisCause e) = show_genesis_error T e"
| "show_cause T (LmdbCause e) = show_lmdb_error T e"
| "show_cause T (IoCause e) = show_io_error T e"

text \<open>
  A message ends with the message of its cause, at every level: what a peer's connection reports of a failed block
  says what the storage engine said.
\<close>

lemma network_error_text:
  assumes "network_error_source e = Some c"
  shows "\<exists>what. what \<noteq> [] \<and> show_network_error T e = what @ show_cause T c"
  using assms by (cases e) (auto intro!: exI)

lemma node_error_text:
  assumes "node_error_source e = Some c"
  shows "\<exists>what. what \<noteq> [] \<and> show_node_error T e = what @ show_cause T c"
  using assms by (cases e) (auto intro!: exI)

lemma storage_error_text:
  assumes "storage_error_source e = Some c"
  shows "\<exists>what. what \<noteq> [] \<and> show_storage_error T e = what @ show_cause T c"
  using assms by (cases e) (auto intro!: exI)

lemma mempool_error_text:
  assumes "mempool_error_source e = Some c"
  shows "\<exists>what. what \<noteq> [] \<and> show_mempool_error T e = what @ show_cause T c"
  using assms by (cases e) (auto intro!: exI)

section \<open>Connections\<close>

text \<open>The kinds of \<open>io::Error\<close> that the node treats as the end of a connection, not as an invalid message.\<close>

datatype io_kind = UnexpectedEof | WouldBlock | TimedOut | ConnectionReset | BrokenPipe | OtherKind nat

definition is_peer_stream_closed :: "(io_error \<Rightarrow> io_kind) \<Rightarrow> network_error \<Rightarrow> bool" where
  "is_peer_stream_closed kind e =
     (case e of NetworkIo x \<Rightarrow> kind x \<in> {UnexpectedEof, WouldBlock, TimedOut, ConnectionReset, BrokenPipe} | _ \<Rightarrow> False)"

section \<open>Log lines\<close>

definition inbound_message_log :: "core \<Rightarrow> rpc_env \<Rightarrow> string \<Rightarrow> network_message \<Rightarrow> string option" where
  "inbound_message_log K R peer m =
     (case m of
        Block b \<Rightarrow> Some (''received block height '' @ show_word (block_height b) @ '' from '' @ peer @ '' |hash::'' @
          short_hash R (Some (block_hash K b)) @ ''|txs::'' @ show_uint (length (block_transactions b)) @ ''|'')
      | Transaction tx \<Rightarrow> Some (''received tx:: |from::'' @ peer @ ''|hash::'' @ short_hash R (Some (tx_hash K tx)) @
          ''|amount::'' @ show_word (tx_amount (payload tx)) @ ''|fee::'' @ show_word (tx_fee (payload tx)) @
          ''|nonce::'' @ show_word (tx_nonce (payload tx)) @ ''|'')
      | _ \<Rightarrow> None)"

definition format_difficulty :: "error_texts \<Rightarrow> node_error + u32 \<Rightarrow> string" where
  "format_difficulty T d = (case d of Inl e \<Rightarrow> ''error:'' @ show_node_error T e | Inr d \<Rightarrow> show_word d)"

fun join :: "string \<Rightarrow> string list \<Rightarrow> string" where
  "join sep [] = []"
| "join sep [s] = s"
| "join sep (s # ss) = s @ sep @ join sep ss"

definition format_socket_addrs :: "string list \<Rightarrow> string" where
  "format_socket_addrs addrs = join '','' addrs"

definition hex_digit :: "nat \<Rightarrow> char" where
  "hex_digit d = ''0123456789abcdef'' ! d"

text \<open>\<open>{:02x}\<close> of a byte.\<close>

definition show_hex_byte :: "u8 \<Rightarrow> string" where
  "show_hex_byte b = [hex_digit (unat b div 16), hex_digit (unat b mod 16)]"

definition pow_target_description :: "u32 \<Rightarrow> string" where
  "pow_target_description difficulty =
     (if difficulty = 0 then ''disabled_for_test''
      else let zero_bytes = difficulty div 8; zero_bits = difficulty mod 8 in
        if zero_bits = 0 then ''hash_prefix_zero_bytes>='' @ show_word zero_bytes
        else ''hash_prefix_zero_bytes>='' @ show_word zero_bytes @ '',next_byte_mask=0x'' @
          show_hex_byte (push_bit (unat (8 - zero_bits)) 0xff) @ '',leading_zero_bits>='' @ show_word difficulty)"

text \<open>
  The mask that is printed is right: a byte has no bit of the mask set exactly when its first \<open>z\<close> bits are zero.
\<close>

lemma byte_mask:
  assumes "0 < z" "z < 8"
  shows "and (push_bit (8 - z) (0xff :: u8)) b = 0 \<longleftrightarrow> unat b < 2 ^ (8 - z)"
proof -
  have bits: "bit (push_bit (8 - z) (0xff :: u8)) i \<longleftrightarrow> 8 - z \<le> i \<and> i < 8" for i
  proof -
    have ff: "(0xff :: u8) = mask 8" by (simp add: mask_eq_exp_minus_1)
    show ?thesis unfolding ff bit_push_bit_iff bit_mask_iff by auto
  qed
  have "and (push_bit (8 - z) (0xff :: u8)) b = 0 \<longleftrightarrow> (\<forall>i. 8 - z \<le> i \<longrightarrow> i < 8 \<longrightarrow> \<not> bit b i)"
    by (auto simp: bit_eq_iff bit_and_iff bits)
  also have "\<dots> \<longleftrightarrow> take_bit (8 - z) b = b"
    using bit_imp_le_length [of b] by (auto simp: bit_eq_iff bit_take_bit_iff not_le)
  also have "\<dots> \<longleftrightarrow> unat b < 2 ^ (8 - z)"
    using assms by (simp add: word_unat_eq_iff unsigned_take_bit_eq take_bit_nat_eq_self_iff)
  finally show ?thesis .
qed

definition update_mining_stats :: "u64 \<Rightarrow> nat \<Rightarrow> rpc_stats \<Rightarrow> rpc_stats" where
  "update_mining_stats attempts elapsed_nanos s =
     s\<lparr>last_hashrate_hps := of_nat (hashrate attempts elapsed_nanos), last_attempts := attempts\<rparr>"

text \<open>The conversion to \<open>u64\<close> loses nothing, and no elapsed time is a division by zero.\<close>

lemma update_mining_stats_exact:
  "unat (last_hashrate_hps (update_mining_stats attempts elapsed_nanos s)) = hashrate attempts elapsed_nanos"
  by (simp add: update_mining_stats_def hashrate_def unat_of_nat)

section \<open>Starting up\<close>

definition warn_if_public_rpc :: "(string \<Rightarrow> bool) \<Rightarrow> string run_config \<Rightarrow> string list" where
  "warn_if_public_rpc loopback c =
     (if loopback (rpc_addr c) then []
      else [''warning: rpc is listening on '' @ rpc_addr c @
        ''; keep fullnode rpc internal and expose public traffic through paqus-gateway''])"

definition print_core_startup_info :: "core \<Rightarrow> chain_params \<Rightarrow> rpc_env \<Rightarrow> string list" where
  "print_core_startup_info K Q R =
     [''core chain::'' @ CHAIN_NAME R @ ''|chain_id::'' @ show_word (chain_id Q) @ ''|coin::'' @ COIN_NAME R @ ''|stage::'' @
        PROTOCOL_STAGE R @ ''|protocol::'' @ show_word (PROTOCOL_VERSION R) @ ''|storage::'' @ show_word STORAGE_VERSION @
        ''|magic::'' @ rpc_hex_encode R (network_magic Q),
      ''consensus: block_time::'' @ show_word (BLOCK_TIME K) @ ''s|confirmation::'' @ show_word (CONFIRMATION_DEPTH R) @
        ''|finality::'' @ show_word (FINALITY_DEPTH R) @ ''|reward_maturity::'' @ show_word (BLOCK_REWARD_MATURITY R) @
        ''|difficulty_start::'' @ show_word (DIFFICULTY_START K) @ ''|retarget_window::'' @
        show_word (DIFFICULTY_ADJUSTMENT_INTERVAL K)]"

definition show_bool :: "bool \<Rightarrow> string" where
  "show_bool b = (if b then ''true'' else ''false'')"

text \<open>The line that \<open>run_node\<close> prints when the preflight is over; \<open>bound\<close> are the addresses of the listeners.\<close>

definition running_line ::
  "('e, 't, 'f) node_env \<Rightarrow> rpc_env \<Rightarrow> error_texts \<Rightarrow> string run_config \<Rightarrow> string list \<Rightarrow> ('e, 'f) node \<Rightarrow> string" where
  "running_line E R T c bound n =
     ''Paqus Node db::'' @ db_path c @ ''|p2p::'' @ format_socket_addrs bound @ ''|rpc::'' @ rpc_addr c @
     ''|height::'' @ show_word (tip_height_or_zero E n) @ ''|tip::'' @ short_hash R (ledger_tip_hash (env_core E) (node_ledger n)) @
     ''|difficulty::'' @ format_difficulty T (next_difficulty E n) @ ''|peers::'' @ show_uint (length (cfg_peers c)) @
     ''|mining::'' @ show_bool (mine c) @ ''|min_relay_fee::'' @ show_word (cfg_min_relay_fee c) @ ''|market_fee::'' @
     show_word (cfg_market_fee c) @ ''|low_fee_expiry::'' @ show_word (low_fee_expiry c) @ ''s|mempool_expiry::'' @
     show_word (mempool_expiry c) @ ''s''"

section \<open>Activity\<close>

text \<open>
  The activity that was logged last and when; times are in seconds. \<open>update_activity\<close> and \<open>set_activity\<close> decide with
  complementary conditions.
\<close>

definition ACTIVITY_LOG_INTERVAL :: nat where "ACTIVITY_LOG_INTERVAL = 15"

record activity_log =
  last_activity :: node_activity
  last_activity_log :: nat

definition log_activity :: "node_activity \<Rightarrow> nat \<Rightarrow> activity_log \<Rightarrow> activity_log" where
  "log_activity activity now a =
     (if activity \<noteq> last_activity a \<or> ACTIVITY_LOG_INTERVAL \<le> now - last_activity_log a
      then a\<lparr>last_activity := activity, last_activity_log := now\<rparr> else a)"

definition set_activity :: "node_activity \<Rightarrow> nat \<Rightarrow> activity_log \<Rightarrow> activity_log" where
  "set_activity activity now a =
     (if activity = last_activity a \<and> now - last_activity_log a < ACTIVITY_LOG_INTERVAL then a
      else a\<lparr>last_activity := activity, last_activity_log := now\<rparr>)"

lemma activity_agrees: "set_activity activity now a = log_activity activity now a"
  by (auto simp: set_activity_def log_activity_def)

lemma activity_current: "last_activity (set_activity activity now a) = activity"
  by (simp add: set_activity_def)

end
