(* ===== verification/Rpc_Properties.thy ===== *)
theory Rpc_Properties
  imports Rpc Service_Properties
begin

text \<open>
  What the RPC server answers: its searches and sums over the stored chain against reference
  definitions, what a submission does, and that a submitted transaction can be looked up.
\<close>

section \<open>Loops over the stored chain\<close>

definition chain_stored :: "('e, 't, 'f) node_env \<Rightarrow> ('e, 'f) node \<Rightarrow> (nat \<Rightarrow> block) \<Rightarrow> bool" where
  "chain_stored E n f \<longleftrightarrow>
     stored (env_lmdb E) (env_codecs E) (node_storage n) f (unat (tip_height_or_zero E n))"

definition chain_of :: "('e, 't, 'f) node_env \<Rightarrow> ('e, 'f) node \<Rightarrow> (nat \<Rightarrow> block) \<Rightarrow> block list" where
  "chain_of E n f = map f [0..<Suc (unat (tip_height_or_zero E n))]"

lemma load_stored: "chain_stored E n f \<Longrightarrow> i \<le> unat (tip_height_or_zero E n) \<Longrightarrow> load_block_at E n (of_nat i) = Ok (Some (f i))"
  by (simp add: chain_stored_def stored_def load_block_at_def)

lemma try_fold_blocks:
  assumes "chain_stored E n f"
  shows "try_fold (\<lambda>height acc. res_bind (map_err LoadBlockFailed (load_block_at E n height)) (\<lambda>ob.
       Ok (case ob of None \<Rightarrow> acc | Some b \<Rightarrow> g height b acc))) (heights (tip_height_or_zero E n)) s =
     Ok (fold (\<lambda>i. g (of_nat i) (f i)) [0..<Suc (unat (tip_height_or_zero E n))] s)"
proof -
  have "try_fold (\<lambda>height acc. res_bind (map_err LoadBlockFailed (load_block_at E n height)) (\<lambda>ob.
       Ok (case ob of None \<Rightarrow> acc | Some b \<Rightarrow> g height b acc))) (map of_nat is) s =
     Ok (fold (\<lambda>i. g (of_nat i) (f i)) is s)" if "\<forall>i \<in> set is. i \<le> unat (tip_height_or_zero E n)" for "is"
    using that by (induction "is" arbitrary: s) (simp_all add: load_stored [OF assms])
  then show ?thesis unfolding heights_def by (simp del: upt_Suc)
qed

text \<open>The hypothesis holds whenever the ledger was saved last, as after every block and every flush.\<close>

lemma saved_chain_stored:
  assumes "lmdb_laws (env_lmdb E) V W" "codecs_ok (env_codecs E)" "ledger_laws (env_core E)"
    and "ledger_wf (env_core E) (node_ledger n)" "readable (env_lmdb E) (node_storage n)"
    and "save_ledger (env_core E) (env_lmdb E) (env_codecs E) e (node_ledger n) = (node_storage n, Ok ())"
  shows "\<exists>f. chain_stored E n f \<and> chain_of E n f = bt_values (chain_blocks (ledger_chain (node_ledger n)))"
proof -
  obtain f k where f: "k < 2 ^ 64" "bt_values (chain_blocks (ledger_chain (node_ledger n))) = map f [0..<Suc k]"
    "stored (env_lmdb E) (env_codecs E) (node_storage n) f k"
    by (rule saved_ledger_content [OF assms])
  obtain g j where g: "j < 2 ^ 64" "chain_blocks (ledger_chain (node_ledger n)) = map (\<lambda>i. (of_nat i, g i)) [0..<Suc j]"
    using assms(4) unfolding ledger_wf_def by blast
  have "length (chain_blocks (ledger_chain (node_ledger n))) = Suc j" using arg_cong [OF g(2), of length] by simp
  moreover have "length (chain_blocks (ledger_chain (node_ledger n))) = Suc k" using arg_cong [OF f(2), of length] by simp
  ultimately have "j = k" by simp
  then have "tip_height_or_zero E n = of_nat k" using ledger_tip [OF assms(3) g(2)] by (simp add: tip_height_or_zero_def)
  then have "unat (tip_height_or_zero E n) = k" using f(1) by (simp add: unat_of_nat)
  then show ?thesis using f by (auto simp: chain_stored_def chain_of_def)
qed

section \<open>A concrete server\<close>

text \<open>Bytes print as the characters with their codes; one transaction can be decoded.\<close>

definition sample_rpc_env :: rpc_env where
  "sample_rpc_env = \<lparr>rpc_config = sample_config_env\<lparr>hex_decode := (\<lambda>s. Some (as_bytes s))\<rparr>,
     rpc_hex_encode = map byte_char, rpc_address_to_string = map byte_char,
     rpc_decode_transaction = (\<lambda>bs. if bs = [7] then Some (sample_tx 7 0 2) else None),
     rpc_json_ok = (\<lambda>_. True), transaction_count = (\<lambda>b. of_nat (length (block_transactions b))),
     coinbase_total = (\<lambda>cb. cb_subsidy cb + cb_fees cb), CHAIN_NAME = ''c'', COIN_NAME = ''q'', PROTOCOL_STAGE = ''s'',
     PROTOCOL_VERSION = 1, CONFIRMATION_DEPTH = 6, FINALITY_DEPTH = 10, BLOCK_REWARD_MATURITY = 5,
     GENESIS_PREMINE = 10, MAX_UNIT_SUPPLY = 1000, MAX_MINED_SUPPLY = 990\<rparr>"

definition healthy :: poisoned_locks where
  "healthy = \<lparr>node_poisoned = False, peers_poisoned = False, connections_poisoned = False, inbound_poisoned = False\<rparr>"

definition sample_stats :: rpc_stats where
  "sample_stats = \<lparr>rpc_mining = False, last_hashrate_hps = 0, last_attempts = 0, accepted_tx_total = 0, broadcast_tx_total = 0\<rparr>"

definition rpc_node :: "(mem_env, block list) node" where
  "rpc_node = sample_node\<lparr>node_ledger := stored_ledger, node_cache := from_ledger sample_core stored_ledger,
     fork_choice := [genesis, block1]\<rparr>"

definition rpc_service :: "(unit, mem_env, block list, string \<rightharpoonup> string) service" where
  "rpc_service = sample_service\<lparr>svc_node := rpc_node\<rparr>"

lemma rpc_service_inv: "service_inv sample_env sample_run_config rpc_service"
proof -
  have "node_init sample_env rpc_node"
    unfolding node_init_def
    by (intro exI [of _ stored_ledger] exI [of _ env0] exI [of _ "[]"] exI [of _ rpc_node] exI [of _ mempool_new])
      (use stored_ledger_genuine in \<open>simp add: mempool_new_init with_genesis_accounts_def rpc_node_def sample_node_def
        stored_ledger_def list_fork_def known_def genesis_def block1_def sample_block_def sample_core_def\<close>)
  moreover have "failures (mark_failed 0 (peer_state_new ''a'' 0)) = 1"
    by (rule mark_failed_once) (simp add: peer_state_new_def)
  ultimately show ?thesis
    by (simp add: service_inv_def rpc_service_def sample_service_def peers_ok_def sample_run_config_def
        MAX_PEER_FAILURES_def reach.start)
qed

lemma rpc_chain_stored:
  "\<exists>f. chain_stored sample_env (rpc_node\<lparr>node_storage := env2\<rparr>) f \<and> chain_of sample_env (rpc_node\<lparr>node_storage := env2\<rparr>) f = [genesis, block1]"
  using saved_chain_stored [of sample_env mem_view mem_view "rpc_node\<lparr>node_storage := env2\<rparr>" env0] mem_lmdb_laws
    sample_codecs_ok sample_ledger_laws stored_ledger_wf mem_readable save_stored_ledger
  by (simp add: rpc_node_def) (simp add: stored_ledger_def)

section \<open>Looking up a transaction\<close>

text \<open>The transactions of the chain with their blocks, in chain order.\<close>

definition confirmed_transactions :: "block list \<Rightarrow> (block \<times> signed_transaction) list" where
  "confirmed_transactions bs = concat (map (\<lambda>b. map (Pair b) (block_transactions b)) bs)"

definition confirmed_response ::
  "('e, 't, 'f) node_env \<Rightarrow> rpc_env \<Rightarrow> u64 option \<Rightarrow> block \<times> signed_transaction \<Rightarrow> tx_response" where
  "confirmed_response E R clock = (\<lambda>(b, t).
     tx_response_of (env_core E) R clock t (Some (block_height b)) (Some (block_hash (env_core E) b)) ''confirmed'')"

text \<open>
  The search of the chain, whatever the store answers: it stops at the first height that has the transaction or cannot be read, and
  goes on over heights at which there is no block.
\<close>

definition lacks :: "('e, 't, 'f) node_env \<Rightarrow> ('e, 'f) node \<Rightarrow> hash \<Rightarrow> u64 \<Rightarrow> bool" where
  "lacks E n h height \<longleftrightarrow> load_block_at E n height = Ok None \<or>
     (\<exists>b. load_block_at E n height = Ok (Some b) \<and> (\<forall>t \<in> set (block_transactions b). tx_hash (env_core E) t \<noteq> h))"

lemma find_in_chain_lacks: "\<forall>x \<in> set xs. lacks E n h x \<Longrightarrow> find_in_chain E R clock n h (xs @ ys) = find_in_chain E R clock n h ys"
proof (induction xs)
  case (Cons x xs)
  then consider "load_block_at E n x = Ok None"
    | b where "load_block_at E n x = Ok (Some b)" "find (\<lambda>t. tx_hash (env_core E) t = h) (block_transactions b) = None"
    by (auto simp: lacks_def find_None_iff)
  then show ?case using Cons by cases simp_all
qed simp

text \<open>
  C29. Looking up a transaction is a search through the pool and then through the chain of the store, whatever the store
  holds. A pending transaction is reported as pending. Otherwise the heights from 0 to the tip are read in order; a height without a block is passed
  over. The first occurrence is reported as confirmed with its block; a height that cannot be read before
  it ends the search with the error; and nothing is found exactly when every height can be read and the hash is in no block.
\<close>

theorem find_transaction_searches:
  "let pending = find (\<lambda>t. tx_hash (env_core E) t = h) (transactions (node_mempool n));
       tip = unat (tip_height_or_zero E n); result = find_transaction E R clock n h in
   (\<forall>t. pending = Some t \<longrightarrow> result = Ok (Some (tx_response_of (env_core E) R clock t None None ''pending''))) \<and>
   (\<forall>i b t. pending = None \<longrightarrow> i \<le> tip \<longrightarrow> (\<forall>j < i. lacks E n h (of_nat j)) \<longrightarrow> load_block_at E n (of_nat i) = Ok (Some b) \<longrightarrow>
      find (\<lambda>t. tx_hash (env_core E) t = h) (block_transactions b) = Some t \<longrightarrow> result = Ok (Some (confirmed_response E R clock (b, t)))) \<and>
   (\<forall>i e. pending = None \<longrightarrow> i \<le> tip \<longrightarrow> (\<forall>j < i. lacks E n h (of_nat j)) \<longrightarrow> load_block_at E n (of_nat i) = Err e \<longrightarrow>
      result = Err (LoadBlockFailed e)) \<and>
   (result = Ok None \<longleftrightarrow> pending = None \<and> (\<forall>i \<le> tip. lacks E n h (of_nat i)))"
proof -
  define pending where "pending = find (\<lambda>t. tx_hash (env_core E) t = h) (transactions (node_mempool n))"
  define tip where "tip = unat (tip_height_or_zero E n)"
  define result where "result = find_transaction E R clock n h"
  let ?hs = "\<lambda>i. map of_nat [0..<i] :: u64 list"
  have split: "heights (tip_height_or_zero E n) = ?hs i @ of_nat i # map of_nat [Suc i..<Suc tip]" if "i \<le> tip" for i
  proof -
    have "[0..<Suc tip] = [0..<i] @ i # [Suc i..<Suc tip]"
      using that upt_add_eq_append [of 0 i "Suc tip - i"] by (simp add: upt_conv_Cons del: upt_Suc)
    then show ?thesis by (simp add: heights_def tip_def del: upt_Suc)
  qed
  have at: "result = find_in_chain E R clock n h (of_nat i # map of_nat [Suc i..<Suc tip])"
    if "pending = None" "i \<le> tip" "\<forall>j < i. lacks E n h (of_nat j)" for i
  proof -
    have "find_in_chain E R clock n h (?hs i @ ys) = find_in_chain E R clock n h ys" for ys
      using that(3) by (intro find_in_chain_lacks) simp
    then show ?thesis using that(1) by (simp only: result_def find_transaction_def pending_def split [OF that(2)] option.case)
  qed
  have none: "result = Ok None" if "pending = None" "\<forall>i \<le> tip. lacks E n h (of_nat i)"
    using that find_in_chain_lacks [of "heights (tip_height_or_zero E n)" E n h R clock "[]"]
    by (simp add: result_def find_transaction_def pending_def heights_def tip_def less_Suc_eq_le del: upt_Suc)
  have found: "result \<noteq> Ok None" if "pending = None" "i \<le> tip" "\<not> lacks E n h (of_nat i)" for i
  proof -
    define i0 where "i0 = (LEAST i. \<not> lacks E n h (of_nat i))"
    have "\<not> lacks E n h (of_nat i0)" "i0 \<le> i" "\<forall>j < i0. lacks E n h (of_nat j)"
      unfolding i0_def using that(3) LeastI [of "\<lambda>i. \<not> lacks E n h (of_nat i)"] Least_le [of "\<lambda>i. \<not> lacks E n h (of_nat i)"]
      by (auto dest: not_less_Least)
    with at [OF that(1), of i0] that(2) show ?thesis
      by (auto simp: lacks_def find_None_iff res_bind_Ok_iff map_err_Ok_iff split: option.splits)
  qed
  have some: "result = Ok (Some (tx_response_of (env_core E) R clock t None None ''pending''))" if "pending = Some t" for t
    using that by (simp add: result_def find_transaction_def pending_def)
  have hit: "result = Ok (Some (confirmed_response E R clock (b, t)))"
    if "pending = None" "i \<le> tip" "\<forall>j < i. lacks E n h (of_nat j)" "load_block_at E n (of_nat i) = Ok (Some b)"
      "find (\<lambda>t. tx_hash (env_core E) t = h) (block_transactions b) = Some t" for i b t
    using at [OF that(1-3)] that(4,5) by (simp add: confirmed_response_def)
  have err: "result = Err (LoadBlockFailed e)"
    if "pending = None" "i \<le> tip" "\<forall>j < i. lacks E n h (of_nat j)" "load_block_at E n (of_nat i) = Err e" for i e
    using at [OF that(1-3)] that(4) by (simp add: map_err_def)
  have "result = Ok None \<longleftrightarrow> pending = None \<and> (\<forall>i \<le> tip. lacks E n h (of_nat i))"
    using some none found by (cases pending) auto
  then show ?thesis
    unfolding Let_def pending_def [symmetric] tip_def [symmetric] result_def [symmetric] using some hit err by blast
qed

theorem find_transaction_searches_witness:
  "find_transaction sample_env sample_rpc_env (Some 1010) (rpc_node\<lparr>node_storage := env2\<rparr>) [5] =
     Ok (Some (confirmed_response sample_env sample_rpc_env (Some 1010) (block1, stored_tx)))"
proof -
  let ?n = "rpc_node\<lparr>node_storage := env2\<rparr>"
  obtain f where f: "chain_stored sample_env ?n f" "chain_of sample_env ?n f = [genesis, block1]"
    using rpc_chain_stored by blast
  have tip: "unat (tip_height_or_zero sample_env ?n) = 1" using arg_cong [OF f(2), of length] by (simp add: chain_of_def)
  then have "f 0 = genesis" "f 1 = block1" using f(2) by (simp_all add: chain_of_def upt_rec)
  with tip have load: "load_block_at sample_env ?n (of_nat 0) = Ok (Some genesis)" "load_block_at sample_env ?n (of_nat 1) = Ok (Some block1)"
    using load_stored [OF f(1), of 0] load_stored [OF f(1), of 1] by simp_all
  have "transactions (node_mempool ?n) = []"
    by (simp add: rpc_node_def sample_node_def mempool_new_def with_config_def transactions_def)
  moreover have "lacks sample_env ?n [5] (of_nat 0)" using load(1) by (simp add: lacks_def genesis_def sample_block_def)
  moreover have "find (\<lambda>t. tx_hash (env_core sample_env) t = [5]) (block_transactions block1) = Some stored_tx"
    by (simp add: block1_def sample_block_def) (simp add: sample_env_def sample_core_def stored_tx_def)
  ultimately show ?thesis
    using find_transaction_searches [where E = sample_env and n = ?n and h = "[5]" and R = sample_rpc_env and clock = "Some 1010",
        unfolded Let_def, THEN conjunct2, THEN conjunct1, rule_format, of 1 block1 stored_tx] load(2) tip by simp
qed

section \<open>The activity of an address\<close>

definition mined_by :: "('e, 't, 'f) node_env \<Rightarrow> rpc_env \<Rightarrow> u64 \<Rightarrow> address \<Rightarrow> (nat \<Rightarrow> block) \<Rightarrow> nat \<Rightarrow> mined_block_response list" where
  "mined_by E R tip a f i =
     (case block_coinbase (f i) of
        None \<Rightarrow> [] | Some cb \<Rightarrow> if miner_address (f i) = a then [mined_block_of E R tip (of_nat i) (f i) cb] else [])"

lemma filter_map_Pair: "filter (\<lambda>(_, t). P t) (map (Pair b) ts) = map (Pair b) (filter P ts)"
  by (induction ts) auto

lemma activity_block:
  "activity_of_block E R clock tip a (of_nat i) (f i) (mined, txs) =
     (mined @ mined_by E R tip a f i,
      txs @ map (confirmed_response E R clock) (filter (\<lambda>(_, t). involves a t) (map (Pair (f i)) (block_transactions (f i)))))"
  by (simp add: activity_of_block_def mined_by_def confirmed_response_def filter_map_Pair split: option.split)

lemma activity_fold:
  "fold (\<lambda>i. activity_of_block E R clock tip a (of_nat i) (f i)) is (mined, txs) =
     (mined @ concat (map (mined_by E R tip a f) is),
      txs @ map (confirmed_response E R clock) (filter (\<lambda>(_, t). involves a t) (confirmed_transactions (map f is))))"
  by (induction "is" arbitrary: mined txs) (simp_all add: activity_block confirmed_transactions_def)

text \<open>
  The activity of an address: the blocks it mined and the transactions that involve it, the chain's and
  then the pool's, the latest first.
\<close>

lemma address_activity_lists:
  assumes "chain_stored E n f"
  shows "address_activity_of E R clock n a = Ok \<lparr>
    aa_mined_blocks = rev (concat (map (mined_by E R (tip_height_or_zero E n) a f) [0..<Suc (unat (tip_height_or_zero E n))])),
    aa_transactions = rev (map (confirmed_response E R clock)
        (filter (\<lambda>(_, t). involves a t) (confirmed_transactions (chain_of E n f))) @
      map (\<lambda>t. tx_response_of (env_core E) R clock t None None ''pending'')
        (filter (involves a) (transactions (node_mempool n))))\<rparr>"
  unfolding address_activity_of_def Let_def
    try_fold_blocks [OF assms, of "activity_of_block E R clock (tip_height_or_zero E n) a"]
  by (simp add: activity_fold chain_of_def del: upt_Suc)

section \<open>Chain statistics\<close>

text \<open>Sums that stop at the largest \<open>u64\<close>, and what is summed.\<close>

definition sat :: "nat \<Rightarrow> nat" where "sat x = min x (2 ^ 64 - 1)"

definition coinbase_sum :: "(coinbase_transaction \<Rightarrow> u32) \<Rightarrow> block \<Rightarrow> nat" where
  "coinbase_sum f b = (case block_coinbase b of None \<Rightarrow> 0 | Some cb \<Rightarrow> unat (f cb))"

definition tx_sum :: "(transaction \<Rightarrow> u32) \<Rightarrow> block \<Rightarrow> nat" where
  "tx_sum f b = sum_list (map (\<lambda>t. unat (f (payload t))) (block_transactions b))"

text \<open>The times between consecutive blocks, none where the clock went back.\<close>

fun gaps :: "block list \<Rightarrow> nat list" where
  "gaps (a # b # bs) = (unat (block_timestamp b) - unat (block_timestamp a)) # gaps (b # bs)"
| "gaps _ = []"

lemma sat_add: "sat (sat a + b) = sat (a + b)"
  by (auto simp: sat_def)

lemma unat_sat: "unat (saturating_add a (b :: u64)) = sat (unat a + unat b)"
  by (simp add: unat_saturating_add sat_def)

lemma sat_unat [simp]: "sat (unat (w :: u64)) = unat w"
  using unat_bound [of w] by (simp add: sat_def)

lemma unat_ucast_u32 [simp]: "unat (ucast (w :: u32) :: u64) = unat w"
  using unat_bound [of w] by (simp add: unsigned_ucast_eq take_bit_nat_eq_self_iff)

lemma fold_sat:
  assumes "\<And>x s. unat (g (step x s) :: u64) = sat (unat (g s) + w x)"
  shows "unat (g (fold step xs s)) = sat (unat (g s) + sum_list (map w xs))"
proof (induction xs arbitrary: s)
  case (Cons x xs)
  show ?case by (simp add: Cons.IH assms sat_add add.assoc)
qed simp

lemma fold_same: "(\<And>x s. g (step x s) = g s) \<Longrightarrow> g (fold step xs s) = g s"
  by (induction xs arbitrary: s) simp_all

lemma stats_transactions_fields:
  "unat (st_transactions (fold stats_transaction ts s)) = sat (unat (st_transactions s) + length ts)"
  "unat (st_transfer_volume (fold stats_transaction ts s)) = sat (unat (st_transfer_volume s) + sum_list (map (\<lambda>t. unat (tx_amount (payload t))) ts))"
  "unat (st_transaction_fees (fold stats_transaction ts s)) = sat (unat (st_transaction_fees s) + sum_list (map (\<lambda>t. unat (tx_fee (payload t))) ts))"
  using fold_sat [of st_transactions stats_transaction "\<lambda>_. 1" ts s]
    fold_sat [of st_transfer_volume stats_transaction "\<lambda>t. unat (tx_amount (payload t))" ts s]
    fold_sat [of st_transaction_fees stats_transaction "\<lambda>t. unat (tx_fee (payload t))" ts s]
  by (simp_all add: stats_transaction_def unat_sat sum_list_triv)

lemma stats_transactions_frame [simp]:
  "st_blocks (fold stats_transaction ts s) = st_blocks s"
  "st_mined_supply (fold stats_transaction ts s) = st_mined_supply s"
  "st_coinbase_rewards (fold stats_transaction ts s) = st_coinbase_rewards s"
  "st_fees_collected (fold stats_transaction ts s) = st_fees_collected s"
  "st_previous_timestamp (fold stats_transaction ts s) = st_previous_timestamp s"
  "st_block_time_secs (fold stats_transaction ts s) = st_block_time_secs s"
  "st_block_time_samples (fold stats_transaction ts s) = st_block_time_samples s"
  by (rule fold_same, simp add: stats_transaction_def)+

lemma stats_block_fields:
  "unat (st_blocks (stats_block R b s)) = sat (unat (st_blocks s) + 1)"
  "unat (st_mined_supply (stats_block R b s)) = sat (unat (st_mined_supply s) + coinbase_sum cb_subsidy b)"
  "unat (st_fees_collected (stats_block R b s)) = sat (unat (st_fees_collected s) + coinbase_sum cb_fees b)"
  "unat (st_coinbase_rewards (stats_block R b s)) = sat (unat (st_coinbase_rewards s) + coinbase_sum (coinbase_total R) b)"
  "unat (st_transactions (stats_block R b s)) = sat (unat (st_transactions s) + length (block_transactions b))"
  "unat (st_transfer_volume (stats_block R b s)) = sat (unat (st_transfer_volume s) + tx_sum tx_amount b)"
  "unat (st_transaction_fees (stats_block R b s)) = sat (unat (st_transaction_fees s) + tx_sum tx_fee b)"
  "st_previous_timestamp (stats_block R b s) = Some (block_timestamp b)"
  by (simp_all add: stats_block_def Let_def unat_sat coinbase_sum_def tx_sum_def stats_transactions_fields split: option.split)

lemma stats_block_times:
  "unat (st_block_time_secs (stats_block R b s)) = (case st_previous_timestamp s of
     None \<Rightarrow> unat (st_block_time_secs s)
   | Some p \<Rightarrow> sat (unat (st_block_time_secs s) + (unat (block_timestamp b) - unat p)))"
  "unat (st_block_time_samples (stats_block R b s)) = (case st_previous_timestamp s of
     None \<Rightarrow> unat (st_block_time_samples s) | Some p \<Rightarrow> sat (unat (st_block_time_samples s) + 1))"
  by (simp_all add: stats_block_def Let_def unat_sat unat_saturating_sub split: option.split)

lemma stats_times_after:
  "st_previous_timestamp s = Some (block_timestamp b) \<Longrightarrow>
   unat (st_block_time_secs (fold (stats_block R) bs s)) = sat (unat (st_block_time_secs s) + sum_list (gaps (b # bs))) \<and>
   unat (st_block_time_samples (fold (stats_block R) bs s)) = sat (unat (st_block_time_samples s) + length bs)"
proof (induction bs arbitrary: b s)
  case (Cons c bs)
  show ?case
    using Cons.IH [of "stats_block R c s" c] Cons.prems
    by (simp add: stats_block_fields(8) stats_block_times sat_add add.assoc)
qed simp

lemma stats_times:
  "unat (st_block_time_secs (fold (stats_block R) (b # bs) stats_start)) = sat (sum_list (gaps (b # bs))) \<and>
   unat (st_block_time_samples (fold (stats_block R) (b # bs) stats_start)) = sat (length bs)"
  using stats_times_after [of "stats_block R b stats_start" b R bs]
  by (simp add: stats_block_fields(8) stats_block_times) (simp add: stats_start_def)

lemmas stats_sums =
  fold_sat [where step = "stats_block R" and s = stats_start for R, OF stats_block_fields(1)]
  fold_sat [where step = "stats_block R" and s = stats_start for R, OF stats_block_fields(2)]
  fold_sat [where step = "stats_block R" and s = stats_start for R, OF stats_block_fields(3)]
  fold_sat [where step = "stats_block R" and s = stats_start for R, OF stats_block_fields(4)]
  fold_sat [where step = "stats_block R" and s = stats_start for R, OF stats_block_fields(5)]
  fold_sat [where step = "stats_block R" and s = stats_start for R, OF stats_block_fields(6)]
  fold_sat [where step = "stats_block R" and s = stats_start for R, OF stats_block_fields(7)]

text \<open>
  The chain statistics are what they say, on a node whose store holds the blocks of its chain: the
  number of blocks and transactions, the subsidies, fees, rewards, amounts and block times summed over
  the whole chain, each up to the largest \<open>u64\<close>; the averages are their quotients, and an empty one is 0
  or absent.
\<close>

lemma chain_stats_sums:
  assumes "chain_stored E n f"
  shows "\<exists>r. chain_stats E R n = Ok r \<and>
    unat (cs_blocks r) = sat (length (chain_of E n f)) \<and>
    unat (cs_mined_supply r) = sat (sum_list (map (coinbase_sum cb_subsidy) (chain_of E n f))) \<and>
    unat (cs_total_fees_collected r) = sat (sum_list (map (coinbase_sum cb_fees) (chain_of E n f))) \<and>
    unat (cs_total_coinbase_rewards r) = sat (sum_list (map (coinbase_sum (coinbase_total R)) (chain_of E n f))) \<and>
    unat (cs_total_transactions r) = sat (length (confirmed_transactions (chain_of E n f))) \<and>
    unat (cs_total_transfer_volume r) = sat (sum_list (map (tx_sum tx_amount) (chain_of E n f))) \<and>
    unat (cs_total_transaction_fees r) = sat (sum_list (map (tx_sum tx_fee) (chain_of E n f))) \<and>
    unat (cs_average_transfer_amount r) = unat (cs_total_transfer_volume r) div unat (cs_total_transactions r) \<and>
    map_option unat (cs_average_block_time_secs r) =
      (if length (chain_of E n f) = 1 then None
       else Some (sat (sum_list (gaps (chain_of E n f))) div (length (chain_of E n f) - 1)))"
proof -
  let ?s = "fold (stats_block R) (chain_of E n f) stats_start"
  have res: "chain_stats E R n = Ok (stats_result (env_core E) R (tip_height_or_zero E n) (mempool_len (node_mempool n)) ?s)"
    unfolding chain_stats_def Let_def try_fold_blocks [OF assms, of "\<lambda>_. stats_block R"]
    by (simp add: chain_of_def fold_map comp_def del: upt_Suc)
  obtain b bs where bs: "chain_of E n f = b # bs" by (cases "chain_of E n f") (simp_all add: chain_of_def)
  have len: "length bs < 2 ^ 64"
    using arg_cong [OF bs, of length] unat_bound [of "tip_height_or_zero E n"] by (simp add: chain_of_def del: upt_Suc)
  have txs: "length (confirmed_transactions xs) = sum_list (map (\<lambda>b. length (block_transactions b)) xs)" for xs
    by (simp add: confirmed_transactions_def length_concat comp_def)
  have samples: "unat (st_block_time_samples ?s) = length bs"
    using stats_times [of R b bs] len by (simp add: bs sat_def)
  have "(st_block_time_samples ?s = 0) = (bs = [])" using samples by (simp add: unat_eq_0 [symmetric])
  moreover have "unat (st_block_time_secs ?s) = sat (sum_list (gaps (b # bs)))" using stats_times [of R b bs] by (simp add: bs)
  moreover have "unat (if c = 0 then 0 else v div c) = unat v div unat c" for v c :: u64
    by (simp add: unat_div)
  moreover have "unat (st_blocks stats_start) = 0" "unat (st_mined_supply stats_start) = 0" "unat (st_fees_collected stats_start) = 0"
    "unat (st_coinbase_rewards stats_start) = 0" "unat (st_transactions stats_start) = 0"
    "unat (st_transfer_volume stats_start) = 0" "unat (st_transaction_fees stats_start) = 0"
    by (simp_all add: stats_start_def)
  ultimately show ?thesis
    unfolding res by (simp add: stats_result_def stats_sums txs samples unat_div sum_list_triv) (simp add: bs)
qed

lemma chain_stats_sample:
  "\<exists>r. chain_stats sample_env sample_rpc_env (rpc_node\<lparr>node_storage := env2\<rparr>) = Ok r \<and>
     unat (cs_blocks r) = 2 \<and> unat (cs_total_transfer_volume r) = 10 \<and> cs_average_block_time_secs r = Some 0"
proof -
  obtain f where f: "chain_stored sample_env (rpc_node\<lparr>node_storage := env2\<rparr>) f"
    "chain_of sample_env (rpc_node\<lparr>node_storage := env2\<rparr>) f = [genesis, block1]"
    using rpc_chain_stored by blast
  have "sum_list (map (tx_sum tx_amount) [genesis, block1]) = 10" "gaps [genesis, block1] = [0]"
    by (simp_all add: tx_sum_def genesis_def block1_def sample_block_def stored_tx_def)
  with chain_stats_sums [OF f(1), of sample_rpc_env] show ?thesis
    unfolding f(2) by (auto simp: sat_def unat_eq_0)
qed

section \<open>Submissions\<close>

lemma find_pending:
  assumes "pool_wf K m"
  shows "find (\<lambda>t. tx_hash K t = h) (transactions m) = mempool_get m h"
proof -
  have "find (\<lambda>t. tx_hash K t = h) (map entry_transaction (map snd es)) = map_option entry_transaction (map_of es h)"
    if "\<forall>(k, e) \<in> set es. k = tx_hash K (entry_transaction e)" for es
    using that by (induction es) auto
  from this [of "pool_transactions m"] assms show ?thesis by (simp add: transactions_def mempool_get_def pool_wf_def)
qed

lemma broadcast_transaction_frame [simp]:
  "svc_node (broadcast_transaction V L tx S) = svc_node S" "svc_peers (broadcast_transaction V L tx S) = svc_peers S"
  by (simp_all add: broadcast_transaction_def split: prod.split)

lemma submit_section_frame:
  "node_mempool (fst (submit_section E tx now n)) = fst (insert_validated_at (env_core E) (node_mempool n) (node_ledger n) tx now)"
  "node_ledger (fst (submit_section E tx now n)) = node_ledger n"
  by (simp_all add: submit_section_def submit_transaction_def flush_to_storage_def split: prod.split sum.split)

lemma submit_section_Ok:
  "submit_section E tx now n = (n', Ok u) \<Longrightarrow>
   \<exists>h m. insert_validated_at (env_core E) (node_mempool n) (node_ledger n) tx now = (m, Ok h)"
  by (auto simp: submit_section_def submit_transaction_def map_err_Ok_iff split: prod.splits sum.splits)

lemma service_inv_pool: "service_inv E c S \<Longrightarrow> pool_ok (env_core E) (node_mempool (svc_node S)) \<and> slots_unique (node_mempool (svc_node S))"
  using running_node.reach_inv by (auto simp: service_inv_def node_inv_def)

lemma rpc_submit_keeps:
  assumes "service_inv E c S" "rpc_submit_tx E V R now L s (st, S) = ((st', S'), resp)"
  shows "service_inv E c S'"
proof -
  have "svc_peers S' = svc_peers S \<and> (svc_node S' = svc_node S \<or> (\<exists>tx r. submit_section E tx now (svc_node S) = (svc_node S', r)))"
    using assms(2) by (auto simp: rpc_submit_tx_def split: sum.splits if_splits prod.splits)
  then show ?thesis
    using assms(1) reached.submit_section_good [of E "svc_node S" _ now] unfolding service_inv_def by (metis fst_conv)
qed

lemma rpc_submit_accepted:
  assumes "service_inv E c S" "rpc_submit_tx E V R now L s (st, S) = ((st', S'), (OK, b))"
  obtains tx where "signed_transaction_from_hex R s = Ok tx"
    "mempool_get (node_mempool (svc_node S')) (tx_hash (env_core E) tx) = Some tx"
    "b = SubmittedBody \<lparr>st_accepted = True, st_hash = rpc_hex_encode R (tx_hash (env_core E) tx)\<rparr>"
proof -
  obtain tx n u where tx: "signed_transaction_from_hex R s = Ok tx" "submit_section E tx now (svc_node S) = (n, Ok u)"
    "S' = broadcast_transaction V L tx (S\<lparr>svc_node := n\<rparr>)"
    "b = SubmittedBody \<lparr>st_accepted = True, st_hash = rpc_hex_encode R (tx_hash (env_core E) tx)\<rparr>"
    using assms(2) by (auto simp: rpc_submit_tx_def rpc_error_def split: sum.splits if_splits prod.splits service_error.splits)
  obtain h m where ins: "insert_validated_at (env_core E) (node_mempool (svc_node S)) (node_ledger (svc_node S)) tx now = (m, Ok h)"
    using submit_section_Ok [OF tx(2)] by blast
  have "node_mempool n = m" using submit_section_frame(1) [of E tx now "svc_node S"] tx(2) ins by simp
  moreover have "mempool_get m (tx_hash (env_core E) tx) = Some tx"
    using insert_validated_at_entries(1,2) [OF _ _ ins] service_inv_pool [OF assms(1)] by (simp add: mempool_get_def)
  ultimately show ?thesis using tx by (intro that [of tx]) simp_all
qed

lemma rpc_submission:
  "\<exists>w. rpc_handle sample_env sample_service_env sample_rpc_env None 1000 healthy (PostTx [CHR 0x07])
     (sample_stats, rpc_service) =
   (w, (OK, SubmittedBody \<lparr>st_accepted = True, st_hash = [CHR 0x07]\<rparr>))"
proof -
  have dec: "signed_transaction_from_hex sample_rpc_env [CHR 0x07] = Ok (sample_tx 7 0 2)"
    by (simp add: signed_transaction_from_hex_def sample_rpc_env_def as_bytes_def)
  have "\<exists>m. insert_validated_at sample_core mempool_new stored_ledger (sample_tx 7 0 2) 1000 = (m, Ok [7])"
    by (simp add: sample_defs insert_defs mempool_new_def stored_ledger_def stored_account_def block1_def genesis_def sample_block_def)
  then obtain m where m: "insert_validated_at sample_core mempool_new stored_ledger (sample_tx 7 0 2) 1000 = (m, Ok [7])" ..
  have "submit_section sample_env (sample_tx 7 0 2) 1000 rpc_node = (rpc_node\<lparr>node_mempool := m, node_storage := env2\<rparr>, Ok ())"
    using m save_stored_ledger
    by (simp add: submit_section_def submit_transaction_def flush_to_storage_def rpc_node_def sample_node_def)
  moreover have "map byte_char [7] = [CHR 0x07]"
    using byte_char_as_bytes [of "[CHR 0x07]"] by (simp add: as_bytes_def)
  ultimately show ?thesis
    by (simp add: rpc_submit_tx_def dec healthy_def rpc_service_def)
      (simp add: sample_rpc_env_def sample_core_def sample_tx_def)
qed

text \<open>
  C21. Whatever the request, the RPC server keeps the invariants of the service; only a submission changes
  anything. A submission answered with success has put the transaction into the pool under its hash,
  and the answer carries that hash; one refused as a bad request leaves the ledger, the peers and all of
  the pool but its expired entries as they were.
\<close>

theorem rpc_request_safe:
  assumes "service_inv E c S" "rpc_handle E V R clock now L q (st, S) = ((st', S'), (code, b))"
  shows "service_inv E c S' \<and>
    ((\<exists>s. q = PostTx s) \<or> (st', S') = (st, S)) \<and>
    (\<forall>s. q = PostTx s \<and> code = OK \<longrightarrow>
       (\<exists>tx. signed_transaction_from_hex R s = Ok tx \<and>
          mempool_get (node_mempool (svc_node S')) (tx_hash (env_core E) tx) = Some tx \<and>
          b = SubmittedBody \<lparr>st_accepted = True, st_hash = rpc_hex_encode R (tx_hash (env_core E) tx)\<rparr>)) \<and>
    (code = BAD_REQUEST \<longrightarrow> node_ledger (svc_node S') = node_ledger (svc_node S) \<and> svc_peers S' = svc_peers S \<and>
       (node_mempool (svc_node S') = node_mempool (svc_node S) \<or>
        node_mempool (svc_node S') = fst (prune_expired (env_core E) (node_mempool (svc_node S)) now)))"
proof (cases "\<exists>s. q = PostTx s")
  case True
  then obtain s where q: "q = PostTx s" by blast
  then have run: "rpc_submit_tx E V R now L s (st, S) = ((st', S'), (code, b))" using assms(2) by simp
  have acc: "\<exists>tx. signed_transaction_from_hex R s = Ok tx \<and>
      mempool_get (node_mempool (svc_node S')) (tx_hash (env_core E) tx) = Some tx \<and>
      b = SubmittedBody \<lparr>st_accepted = True, st_hash = rpc_hex_encode R (tx_hash (env_core E) tx)\<rparr>" if "code = OK"
    using rpc_submit_accepted [OF assms(1)] run that by metis
  have bad: "(st', S') = (st, S) \<or> (\<exists>tx e n. submit_section E tx now (svc_node S) = (n, Err (SubmitFailed e)) \<and> S' = S\<lparr>svc_node := n\<rparr>)"
    if "code = BAD_REQUEST"
    using run that by (auto simp: rpc_submit_tx_def rpc_error_def split: sum.splits if_splits prod.splits service_error.splits)
  have "fst (insert_validated_at (env_core E) (node_mempool (svc_node S)) (node_ledger (svc_node S)) tx now) =
      fst (prune_expired (env_core E) (node_mempool (svc_node S)) now)"
    if "submit_section E tx now (svc_node S) = (n, Err (SubmitFailed e))" for tx e n
    using that insert_validated_at_Err [of "env_core E" "node_mempool (svc_node S)" "node_ledger (svc_node S)" tx now]
    by (auto simp: submit_section_def submit_transaction_def map_err_Err_iff split: prod.splits sum.splits)
  then have "node_mempool n = fst (prune_expired (env_core E) (node_mempool (svc_node S)) now) \<and> node_ledger n = node_ledger (svc_node S)"
    if "submit_section E tx now (svc_node S) = (n, Err (SubmitFailed e))" for tx e n
    using submit_section_frame [of E tx now "svc_node S"] that by (metis fst_conv)
  with bad have "code = BAD_REQUEST \<Longrightarrow> node_ledger (svc_node S') = node_ledger (svc_node S) \<and> svc_peers S' = svc_peers S \<and>
      (node_mempool (svc_node S') = node_mempool (svc_node S) \<or>
       node_mempool (svc_node S') = fst (prune_expired (env_core E) (node_mempool (svc_node S)) now))"
    by fastforce
  then show ?thesis using acc rpc_submit_keeps [OF assms(1) run] q by simp
next
  case False
  then have "(st', S') = (st, S)" using assms(2) by (cases q) auto
  then show ?thesis using assms(1) False by auto
qed

theorem rpc_request_safe_witness:
  "\<exists>st S. fst (rpc_handle sample_env sample_service_env sample_rpc_env None 1000 healthy (PostTx [CHR 0x07]) (sample_stats, rpc_service)) = (st, S) \<and>
     mempool_get (node_mempool (svc_node S)) [7] = Some (sample_tx 7 0 2)"
proof -
  obtain st S where run: "rpc_handle sample_env sample_service_env sample_rpc_env None 1000 healthy (PostTx [CHR 0x07]) (sample_stats, rpc_service) =
      ((st, S), (OK, SubmittedBody \<lparr>st_accepted = True, st_hash = [CHR 0x07]\<rparr>))"
    using rpc_submission by (metis surj_pair)
  have "signed_transaction_from_hex sample_rpc_env [CHR 0x07] = Ok (sample_tx 7 0 2)"
    by (simp add: signed_transaction_from_hex_def sample_rpc_env_def as_bytes_def)
  moreover have "tx_hash sample_core (sample_tx 7 0 2) = [7]" by (simp add: sample_core_def sample_tx_def)
  ultimately show ?thesis
    using rpc_request_safe [OF rpc_service_inv run] run by auto
qed

text \<open>
  C24. Submitting and looking up belong together: the hash in a successful answer, given to the lookup
  route, finds the transaction as pending, with the fields that were submitted.
\<close>

theorem submitted_transaction_found:
  assumes "service_inv E c S"
    and "rpc_handle E V R clock now L (PostTx s) (st, S) = ((st', S'), (OK, SubmittedBody r))"
    and "\<And>h. hex_decode (rpc_config R) (rpc_hex_encode R h) = Some h"
    and "\<And>tx. signed_transaction_from_hex R s = Ok tx \<Longrightarrow> length (tx_hash (env_core E) tx) = HASH_SIZE (env_core E)"
    and "\<not> node_poisoned L'"
  shows "\<exists>tx. signed_transaction_from_hex R s = Ok tx \<and>
    rpc_handle E V R clock' now' L' (GetTx (st_hash r)) (st', S') =
      ((st', S'), (OK, TxBody (tx_response_of (env_core E) R clock' tx None None ''pending'')))"
proof -
  have run: "rpc_submit_tx E V R now L s (st, S) = ((st', S'), (OK, SubmittedBody r))" using assms(2) by simp
  obtain tx where tx: "signed_transaction_from_hex R s = Ok tx"
    "mempool_get (node_mempool (svc_node S')) (tx_hash (env_core E) tx) = Some tx"
    "SubmittedBody r = SubmittedBody \<lparr>st_accepted = True, st_hash = rpc_hex_encode R (tx_hash (env_core E) tx)\<rparr>"
    by (rule rpc_submit_accepted [OF assms(1) run])
  have "pool_wf (env_core E) (node_mempool (svc_node S'))"
    using service_inv_pool [OF rpc_submit_keeps [OF assms(1) run]] pool_okD(1) by blast
  then show ?thesis
    using tx assms(3-5)
    by (simp add: rpc_tx_def parse_hash_hex_def with_node_def find_transaction_def find_pending)
qed

theorem submitted_transaction_found_witness:
  "\<exists>w. fst (rpc_handle sample_env sample_service_env sample_rpc_env None 1000 healthy (PostTx [CHR 0x07]) (sample_stats, rpc_service)) = w \<and>
     snd (rpc_handle sample_env sample_service_env sample_rpc_env None 1000 healthy (GetTx [CHR 0x07]) w) =
       (OK, TxBody (tx_response_of sample_core sample_rpc_env None (sample_tx 7 0 2) None None ''pending''))"
proof -
  obtain st S where run: "rpc_handle sample_env sample_service_env sample_rpc_env None 1000 healthy (PostTx [CHR 0x07]) (sample_stats, rpc_service) =
      ((st, S), (OK, SubmittedBody \<lparr>st_accepted = True, st_hash = [CHR 0x07]\<rparr>))"
    using rpc_submission by (metis surj_pair)
  have dec: "signed_transaction_from_hex sample_rpc_env [CHR 0x07] = Ok (sample_tx 7 0 2)"
    by (simp add: signed_transaction_from_hex_def sample_rpc_env_def as_bytes_def)
  have "hex_decode (rpc_config sample_rpc_env) (rpc_hex_encode sample_rpc_env h) = Some h" for h
    by (simp add: sample_rpc_env_def as_bytes_byte_char)
  moreover have "length (tx_hash (env_core sample_env) (sample_tx 7 0 2)) = HASH_SIZE (env_core sample_env)"
    by (simp add: sample_core_def sample_tx_def)
  ultimately show ?thesis
    using submitted_transaction_found [OF rpc_service_inv run, of healthy None 1000] run dec by (auto simp: healthy_def)
qed

end
