(* ===== verification/Commands.thy ===== *)
theory Commands
  imports Rpc_Properties
begin

text \<open>
  The wallet commands of the command line (\<open>src/main.rs\<close>), with the terminal, the wallet files and the
  opening of a node that the menus share. The terminal is a list of input lines and a list of printed lines, the files
  are a map from paths; a read at the end of the input gives an empty line, as \<open>read_line\<close> does. What the
  commands take from other crates (hex, JSON, key generation, opening the database, binding sockets) are
  fields of \<open>cli_env\<close>. An error is a value of \<open>cli_error\<close>.
\<close>

section \<open>Data\<close>

datatype cli_error =
    ConfigFailed config_error
  | AmountMissing string
  | AmountInvalid string
  | NonceMissing
  | NonceInvalid
  | OptionValueMissing string
  | UnknownPayOption string
  | UnknownSendOption string
  | MissingWalletPath
  | MissingTo
  | MissingAmount
  | RpcFailed http_error
  | RpcUnreadable
  | SignFailed wallet_error
  | EncodeTransactionFailed
  | SerializeWalletFailed
  | WriteFailed string
  | ClockBeforeEpoch
  | OpenStorageFailed string
  | OpenNodeFailed node_error
  | InvalidSelection
  | PremineOverride
  | Usage
  | UnknownCommand string
  | PeersFailed peers_error
  | NoListenAddress
  | BindFailed string
  | PreflightFailed service_error
  | SwarmFailed string
  | Panicked

record cli_env =
  cli_config :: "string config_env"
  cli_transport :: "string transport"
  cli_hex_encode :: "bytes \<Rightarrow> string"
  cli_encode_transaction :: "signed_transaction \<Rightarrow> bytes option"
  cli_json_balance :: "string \<Rightarrow> u64 option option"
  cli_json_mempool :: "string \<Rightarrow> mempool_tx_rpc_response list option"
  cli_json_wallet :: "string \<Rightarrow> string \<Rightarrow> string \<Rightarrow> string option"
  cli_json_transactions :: "string \<Rightarrow> string option"
  cli_json_config :: "run_config_file \<Rightarrow> string option"
  cli_create_parent :: "string \<Rightarrow> bool"
  cli_debug_height :: "u64 option \<Rightarrow> string"
  cli_clock :: "u64 option"
  cli_writable :: "string \<Rightarrow> bool"
  cli_entries :: "string \<Rightarrow> string list option"

text \<open>The world of a command: the terminal, the files, and the databases by their paths.\<close>

record 'e cli_world =
  cw_inputs :: "string list"
  cw_outputs :: "string list"
  cw_files :: "string \<Rightarrow> file_read"
  cw_db :: "string \<Rightarrow> string + 'e" \<comment> \<open>the error of a database that cannot be opened\<close>

type_synonym ('e, 'r) cli = "'e cli_world \<Rightarrow> 'e cli_world \<times> (cli_error + 'r)"

text \<open>Sequencing, results, printing, reading a line, writing a file.\<close>

definition cli_bind :: "('e, 'a) cli \<Rightarrow> ('a \<Rightarrow> ('e, 'b) cli) \<Rightarrow> ('e, 'b) cli" where
  "cli_bind m f w = (case m w of (w', Inl e) \<Rightarrow> (w', Err e) | (w', Inr x) \<Rightarrow> f x w')"

definition cli_result :: "cli_error + 'a \<Rightarrow> ('e, 'a) cli" where
  "cli_result r w = (w, r)"

definition println :: "string \<Rightarrow> ('e, unit) cli" where
  "println s w = (w\<lparr>cw_outputs := cw_outputs w @ [s]\<rparr>, Ok ())"

definition prompt :: "string \<Rightarrow> ('e, string) cli" where
  "prompt label w =
     (case cw_inputs w of
        [] \<Rightarrow> (w\<lparr>cw_outputs := cw_outputs w @ [label @ '': '']\<rparr>, Ok [])
      | l # ls \<Rightarrow> (w\<lparr>cw_outputs := cw_outputs w @ [label @ '': ''], cw_inputs := ls\<rparr>, Ok (trim l)))"

definition prompt_default :: "string \<Rightarrow> string \<Rightarrow> ('e, string) cli" where
  "prompt_default label dflt =
     cli_bind (prompt (label @ '' ['' @ dflt @ '']'')) (\<lambda>v. cli_result (Ok (if v = [] then dflt else v)))"

definition prompt_yes_no :: "string \<Rightarrow> ('e, bool) cli" where
  "prompt_yes_no label =
     cli_bind (prompt (label @ '' [y/N]'')) (\<lambda>v.
     cli_result (Ok (map ascii_lower v = ''y'' \<or> map ascii_lower v = ''yes'')))"

definition write_file :: "cli_env \<Rightarrow> string \<Rightarrow> string \<Rightarrow> ('e, unit) cli" where
  "write_file X path text w =
     (if cli_writable X path then (w\<lparr>cw_files := (cw_files w)(path := Contents text)\<rparr>, Ok ())
      else (w, Err (WriteFailed path)))"

definition file_exists :: "string \<Rightarrow> ('e, bool) cli" where
  "file_exists path w = (w, Ok (cw_files w path \<noteq> FileNotFound))"

definition files_env :: "cli_env \<Rightarrow> 'e cli_world \<Rightarrow> string config_env" where
  "files_env X w = (cli_config X)\<lparr>read_to_string := cw_files w\<rparr>"

section \<open>Wallet files\<close>

definition save_wallet_file :: "cli_env \<Rightarrow> string \<Rightarrow> wallet \<Rightarrow> ('e, unit) cli" where
  "save_wallet_file X path wallet =
     cli_bind (cli_result (ok_or (cli_json_wallet X (wallet_address (config_crypto (cli_config X)) wallet)
       (cli_hex_encode X (wallet_public_key wallet)) (cli_hex_encode X (wallet_secret_key wallet))) SerializeWalletFailed))
     (\<lambda>text. write_file X path text)"

definition open_wallet :: "cli_env \<Rightarrow> string \<Rightarrow> ('e, wallet) cli" where
  "open_wallet X path w = (w, map_err ConfigFailed (load_wallet (files_env X w) path))"

text \<open>The extension of the last component of a path is \<open>json\<close>.\<close>

definition is_json :: "string \<Rightarrow> bool" where
  "is_json path \<longleftrightarrow>
     (let name = rev (takeWhile (\<lambda>c. c \<noteq> CHR ''/'') (rev path)) in
      5 < length name \<and> drop (length name - 5) name = ''.json'')"

definition wallets_in :: "cli_env \<Rightarrow> 'e cli_world \<Rightarrow> string \<Rightarrow> (string \<times> wallet) list" where
  "wallets_in X w dir =
     (case cli_entries X dir of
        None \<Rightarrow> []
      | Some paths \<Rightarrow> concat (map (\<lambda>p. case load_wallet (files_env X w) p of Inl _ \<Rightarrow> [] | Inr v \<Rightarrow> [(p, v)])
          (filter is_json paths)))"

definition discover_wallets :: "cli_env \<Rightarrow> 'e cli_world \<Rightarrow> (string \<times> wallet) list" where
  "discover_wallets X w =
     (let found = sort_key fst (concat (map (wallets_in X w) [''.'', ''./data/paqus'']))
      in fold (\<lambda>e acc. if acc \<noteq> [] \<and> fst (last acc) = fst e then acc else acc @ [e]) found [])"

definition wallet_lines :: "cli_env \<Rightarrow> (string \<times> wallet) list \<Rightarrow> string list" where
  "wallet_lines X ws =
     map (\<lambda>(i, p, v). show_uint (Suc i) @ ''. '' @ wallet_address (config_crypto (cli_config X)) v @ '' ('' @ p @ '')'')
       (enumerate 0 ws)"

definition print_all :: "string list \<Rightarrow> ('e, unit) cli" where
  "print_all ls w = (w\<lparr>cw_outputs := cw_outputs w @ ls\<rparr>, Ok ())"

definition choose_wallet :: "cli_env \<Rightarrow> string \<Rightarrow> ('e, (string \<times> wallet) option) cli" where
  "choose_wallet X label w =
     (let ws = discover_wallets X w in
      if ws = [] then (w, Ok None)
      else cli_bind (print_all (label # wallet_lines X ws @ [show_uint (Suc (length ws)) @ ''. Manual address'']))
        (\<lambda>_. cli_bind (prompt ''Select'') (\<lambda>choice.
         cli_result (res_bind (ok_or (parse_uint (2 ^ 64) choice) InvalidSelection) (\<lambda>index.
           if index = Suc (length ws) then Ok None
           else if index - 1 < length ws then Ok (Some (ws ! (index - 1)))
           else Err InvalidSelection)))) w)"

section \<open>Sending\<close>

definition parse_amount :: "string option \<Rightarrow> string \<Rightarrow> cli_error + u32" where
  "parse_amount v flag = res_bind (ok_or v (AmountMissing flag)) (\<lambda>s. ok_or (parse_word s) (AmountInvalid flag))"

definition parse_nonce :: "string option \<Rightarrow> cli_error + u64" where
  "parse_nonce v = res_bind (ok_or v NonceMissing) (\<lambda>s. ok_or (parse_word s) NonceInvalid)"

definition signed_transaction_to_hex :: "cli_env \<Rightarrow> signed_transaction \<Rightarrow> cli_error + string" where
  "signed_transaction_to_hex X t =
     res_bind (ok_or (cli_encode_transaction X t) EncodeTransactionFailed) (\<lambda>bs. Ok (cli_hex_encode X bs))"

text \<open>\<open>resolve_wallet_nonce\<close> over HTTP.\<close>

definition rpc_nonce_of :: "cli_env \<Rightarrow> string \<Rightarrow> address \<Rightarrow> cli_error + u64" where
  "rpc_nonce_of X rpc a =
     resolve_wallet_nonce (config_crypto (cli_config X))
       (\<lambda>hex. res_bind (map_err RpcFailed (http_get (cli_transport X) rpc (''/balance/'' @ hex))) (\<lambda>body.
          ok_or (cli_json_balance X body) RpcUnreadable))
       (res_bind (map_err RpcFailed (http_get (cli_transport X) rpc ''/mempool'')) (\<lambda>body.
          ok_or (cli_json_mempool X body) RpcUnreadable)) a"

definition tx_body :: "string \<Rightarrow> string" where
  "tx_body hex = ''{'' @ quote ''tx'' @ '':'' @ quote hex @ ''}''"

definition signed_json :: "core \<Rightarrow> cli_env \<Rightarrow> string \<Rightarrow> signed_transaction \<Rightarrow> string" where
  "signed_json K X hex t =
     (let field = (\<lambda>name v. quote name @ '':'' @ v);
          addr = (\<lambda>a. quote (address_to_string (config_crypto (cli_config X)) a)) in
      ''{'' @ field ''tx'' (quote hex) @ '','' @ field ''hash'' (quote (cli_hex_encode X (tx_hash K t))) @ '','' @
      field ''from'' (addr (tx_from (payload t))) @ '','' @ field ''to'' (addr (tx_to (payload t))) @ '','' @
      field ''amount'' (show_word (tx_amount (payload t))) @ '','' @ field ''fee'' (show_word (tx_fee (payload t))) @ '','' @
      field ''nonce'' (show_word (tx_nonce (payload t))) @ '','' @ field ''timestamp'' (show_word (tx_timestamp (payload t))) @ ''}'')"

text \<open>The nonce is resolved even when one is given: the argument of \<open>unwrap_or\<close> is evaluated first.\<close>

definition signed_payment ::
  "cli_env \<Rightarrow> wallet \<Rightarrow> address \<Rightarrow> u32 \<Rightarrow> u32 \<Rightarrow> u64 option \<Rightarrow> string \<Rightarrow> cli_error + signed_transaction" where
  "signed_payment X v to amount fee nonce rpc =
     res_bind (rpc_nonce_of X rpc (wallet_address_field v)) (\<lambda>resolved.
     res_bind (ok_or (cli_clock X) ClockBeforeEpoch) (\<lambda>now.
     map_err SignFailed (sign_transaction (config_crypto (cli_config X)) v
       \<lparr>tx_from = wallet_address_field v, tx_to = to, tx_amount = amount, tx_fee = fee,
        tx_nonce = (case nonce of None \<Rightarrow> resolved | Some k \<Rightarrow> k), tx_timestamp = now\<rparr>)))"

definition submit_wallet_transaction ::
  "core \<Rightarrow> cli_env \<Rightarrow> string \<Rightarrow> address \<Rightarrow> u32 \<Rightarrow> u32 \<Rightarrow> u64 option \<Rightarrow> string \<Rightarrow> bool \<Rightarrow> ('e, unit) cli" where
  "submit_wallet_transaction K X path to amount fee nonce rpc submit =
     cli_bind (open_wallet X path) (\<lambda>v.
     cli_bind (cli_result (signed_payment X v to amount fee nonce rpc)) (\<lambda>signed.
     cli_bind (cli_result (signed_transaction_to_hex X signed)) (\<lambda>hex.
     if submit
     then cli_bind (cli_result (map_err RpcFailed (http_post_json (cli_transport X) rpc ''/tx'' (tx_body hex)))) println
     else println (signed_json K X hex signed))))"

definition submit_wallet_payment ::
  "core \<Rightarrow> cli_env \<Rightarrow> string \<Rightarrow> address \<Rightarrow> u32 \<Rightarrow> u32 \<Rightarrow> u64 option \<Rightarrow> string \<Rightarrow> ('e, unit) cli" where
  "submit_wallet_payment K X path to amount fee nonce rpc =
     submit_wallet_transaction K X path to amount fee nonce rpc True"

text \<open>The options of \<open>wallet pay\<close> and of the short form of \<open>wallet send\<close>; only the latter knows \<open>--nonce\<close>.\<close>

record pay_opts =
  po_wallet :: string
  po_rpc :: string
  po_fee :: u32
  po_nonce :: "u64 option"

definition default_pay_options :: pay_opts where
  "default_pay_options = \<lparr>po_wallet = ''wallet.json'', po_rpc = DEFAULT_RPC_ADDR, po_fee = DEFAULT_TRANSACTION_FEE, po_nonce = None\<rparr>"

fun pay_options :: "bool \<Rightarrow> (string \<Rightarrow> cli_error) \<Rightarrow> string list \<Rightarrow> pay_opts \<Rightarrow> cli_error + pay_opts" where
  "pay_options takes_nonce unknown [] p = Ok p"
| "pay_options takes_nonce unknown [a] p =
     (if a = ''--wallet'' then Err (OptionValueMissing ''--wallet'')
      else if a = ''--rpc'' \<or> a = ''--rpc-addr'' then Err (OptionValueMissing ''--rpc'')
      else if a = ''--fee'' then Err (AmountMissing ''--fee'')
      else if takes_nonce \<and> a = ''--nonce'' then Err NonceMissing
      else Err (unknown a))"
| "pay_options takes_nonce unknown (a # v # rest) p =
     (if a = ''--wallet'' then pay_options takes_nonce unknown rest (p\<lparr>po_wallet := v\<rparr>)
      else if a = ''--rpc'' \<or> a = ''--rpc-addr'' then pay_options takes_nonce unknown rest (p\<lparr>po_rpc := v\<rparr>)
      else if a = ''--fee'' then
        res_bind (parse_amount (Some v) ''--fee'') (\<lambda>x. pay_options takes_nonce unknown rest (p\<lparr>po_fee := x\<rparr>))
      else if takes_nonce \<and> a = ''--nonce'' then
        res_bind (parse_nonce (Some v)) (\<lambda>x. pay_options takes_nonce unknown rest (p\<lparr>po_nonce := Some x\<rparr>))
      else Err (unknown a))"

definition nth_arg :: "string list \<Rightarrow> nat \<Rightarrow> string option" where
  "nth_arg args i = (if i < length args then Some (args ! i) else None)"

definition cli_address :: "cli_env \<Rightarrow> string option \<Rightarrow> cli_error + address" where
  "cli_address X v = map_err ConfigFailed (parse_address (cli_config X) v)"

definition short_payment ::
  "core \<Rightarrow> cli_env \<Rightarrow> bool \<Rightarrow> (string \<Rightarrow> cli_error) \<Rightarrow> string list \<Rightarrow> ('e, unit) cli" where
  "short_payment K X takes_nonce unknown args =
     cli_bind (cli_result (cli_address X (nth_arg args 0))) (\<lambda>to.
     cli_bind (cli_result (parse_amount (nth_arg args 1) ''amount'')) (\<lambda>amount.
     cli_bind (cli_result (pay_options takes_nonce unknown (drop 2 args) default_pay_options)) (\<lambda>p.
     submit_wallet_payment K X (po_wallet p) to amount (po_fee p) (po_nonce p) (po_rpc p))))"

definition wallet_pay_command :: "core \<Rightarrow> cli_env \<Rightarrow> string list \<Rightarrow> ('e, unit) cli" where
  "wallet_pay_command K X args = short_payment K X False UnknownPayOption args"

text \<open>The long form of \<open>wallet send\<close>. A missing value of \<open>--wallet\<close> is the absence of a wallet.\<close>

record send_opts =
  so_wallet :: "string option"
  so_to :: "address option"
  so_amount :: "u32 option"
  so_fee :: u32
  so_nonce :: "u64 option"
  so_rpc :: string
  so_submit :: bool

definition default_send_options :: send_opts where
  "default_send_options = \<lparr>so_wallet = None, so_to = None, so_amount = None, so_fee = DEFAULT_TRANSACTION_FEE,
     so_nonce = None, so_rpc = DEFAULT_RPC_ADDR, so_submit = False\<rparr>"

text \<open>One option with the value that follows it: the options and whether the value was taken.\<close>

definition send_option ::
  "cli_env \<Rightarrow> string \<Rightarrow> string option \<Rightarrow> send_opts \<Rightarrow> cli_error + send_opts \<times> bool" where
  "send_option X a v p =
     (let took = (\<lambda>r. res_bind r (\<lambda>p. Ok (p, True))) in
      if a = ''--wallet'' then took (Ok (p\<lparr>so_wallet := v\<rparr>))
      else if a = ''--to'' then took (res_bind (cli_address X v) (\<lambda>x. Ok (p\<lparr>so_to := Some x\<rparr>)))
      else if a = ''--amount'' then took (res_bind (parse_amount v ''--amount'') (\<lambda>x. Ok (p\<lparr>so_amount := Some x\<rparr>)))
      else if a = ''--fee'' then took (res_bind (parse_amount v ''--fee'') (\<lambda>x. Ok (p\<lparr>so_fee := x\<rparr>)))
      else if a = ''--nonce'' then took (res_bind (parse_nonce v) (\<lambda>x. Ok (p\<lparr>so_nonce := Some x\<rparr>)))
      else if a = ''--rpc'' \<or> a = ''--rpc-addr'' then
        took (res_bind (ok_or v (OptionValueMissing ''--rpc'')) (\<lambda>x. Ok (p\<lparr>so_rpc := x\<rparr>)))
      else if a = ''--submit'' then Ok (p\<lparr>so_submit := True\<rparr>, False)
      else Err (UnknownSendOption a))"

function send_options :: "cli_env \<Rightarrow> string list \<Rightarrow> send_opts \<Rightarrow> cli_error + send_opts" where
  "send_options X [] p = Ok p"
| "send_options X (a # rest) p =
     (case send_option X a (if rest = [] then None else Some (hd rest)) p of
        Inl e \<Rightarrow> Err e
      | Inr (p', took) \<Rightarrow> send_options X (if took then tl rest else rest) p')"
  by pat_completeness auto

termination send_options
  by (relation "measure (\<lambda>(X, args, p). length args)") (auto split: if_splits)

definition is_flag :: "string \<Rightarrow> bool" where
  "is_flag s \<longleftrightarrow> starts_with ''-'' s"

definition wallet_send_command :: "core \<Rightarrow> cli_env \<Rightarrow> string list \<Rightarrow> ('e, unit) cli" where
  "wallet_send_command K X args =
     (if 2 \<le> length args \<and> \<not> is_flag (args ! 0) \<and> \<not> is_flag (args ! 1)
      then short_payment K X True UnknownSendOption args
      else cli_bind (cli_result (send_options X args default_send_options)) (\<lambda>p.
        cli_bind (cli_result (ok_or (so_wallet p) MissingWalletPath)) (\<lambda>path.
        cli_bind (cli_result (ok_or (so_to p) MissingTo)) (\<lambda>to.
        cli_bind (cli_result (ok_or (so_amount p) MissingAmount)) (\<lambda>amount.
        submit_wallet_transaction K X path to amount (so_fee p) (so_nonce p) (so_rpc p) (so_submit p))))))"

section \<open>Opening a node\<close>

text \<open>\<open>Panicked\<close> is the panic of an \<open>expect\<close> or \<open>assert\<close> in \<open>init_or_load\<close>.\<close>

definition open_node :: "('e, 't, 'f) node_env \<Rightarrow> string \<Rightarrow> ('e, ('e, 'f) node) cli" where
  "open_node E path w =
     (case cw_db w path of
        Inl e \<Rightarrow> (w, Err (OpenStorageFailed e))
      | Inr st \<Rightarrow> (case init_or_load E st of
          (st', r) \<Rightarrow> (w\<lparr>cw_db := (cw_db w)(path := Ok st')\<rparr>,
            case r of None \<Rightarrow> Err Panicked | Some r \<Rightarrow> map_err OpenNodeFailed r)))"

definition wallet_command ::
  "('e, 't, 'f) node_env \<Rightarrow> cli_env \<Rightarrow> rpc_env \<Rightarrow> string list \<Rightarrow> ('e, unit) cli" where
  "wallet_command E X R args =
     (let Y = config_crypto (cli_config X) in
      case nth_arg args 0 of
        None \<Rightarrow> cli_result (Err Usage)
      | Some cmd \<Rightarrow>
          if cmd = ''new'' then
            (let show_secret = list_ex (\<lambda>a. a = ''--show-secret'') args;
                 v = wallet_generate Y;
                 address = wallet_address Y v;
                 secret = cli_hex_encode X (wallet_secret_key v)
             in case find (\<lambda>a. \<not> is_flag a) (tl args) of
                  Some path \<Rightarrow>
                    cli_bind (save_wallet_file X path v) (\<lambda>_.
                    print_all ([''Wallet successfully saved to `'' @ path @ ''`'', ''address: '' @ address] @
                      (if show_secret then [''secret_key: '' @ secret] else [])))
                | None \<Rightarrow>
                    print_all [''address: '' @ address, ''public_key: '' @ cli_hex_encode X (wallet_public_key v),
                      if show_secret then ''secret_key: '' @ secret
                      else ''secret_key: hidden (rerun with --show-secret to print it)''])
          else if cmd = ''address'' then
            cli_bind (cli_result (map_err ConfigFailed (parse_secret_key (cli_config X) (nth_arg args 1)))) (\<lambda>sk.
            println (address_to_string Y (address_from_public_key Y (derive_public_key Y sk))))
          else if cmd = ''balance'' then
            cli_bind (cli_result (cli_address X (nth_arg args 1))) (\<lambda>a.
            cli_bind (open_node E (case nth_arg args 2 of None \<Rightarrow> DEFAULT_NODE_DB | Some p \<Rightarrow> p)) (\<lambda>n.
            println (balance_json E R n a)))
          else if cmd = ''pay'' then wallet_pay_command (env_core E) X (tl args)
          else if cmd = ''send'' then wallet_send_command (env_core E) X (tl args)
          else cli_result (Err Usage))"

section \<open>Properties\<close>

lemma cli_bind_Ok_iff:
  "cli_bind m f w = (w', Ok y) \<longleftrightarrow> (\<exists>v x. m w = (v, Ok x) \<and> f x v = (w', Ok y))"
  by (auto simp: cli_bind_def split: prod.splits sum.splits)

lemma cli_result_iff: "cli_result r w = (w', x) \<longleftrightarrow> w = w' \<and> r = x"
  by (auto simp: cli_result_def)

lemmas cli_simps = cli_bind_Ok_iff cli_result_iff

text \<open>
  What the commands rely on: hexadecimal digits decode to the bytes they encode, an address is printed as
  its digits, the JSON of a wallet has the fields it was made of, and the node decodes the transactions
  that the wallet encodes.
\<close>

definition cli_laws :: "cli_env \<Rightarrow> rpc_env \<Rightarrow> bool" where
  "cli_laws X R \<longleftrightarrow>
     (\<forall>bs. hex_decode (cli_config X) (cli_hex_encode X bs) = Some bs) \<and>
     hex_decode (rpc_config R) = hex_decode (cli_config X) \<and>
     (\<forall>a. address_to_string (config_crypto (cli_config X)) a = cli_hex_encode X a) \<and>
     (\<forall>a p k t. cli_json_wallet X a p k = Some t \<longrightarrow> json_wallet (cli_config X) t = Some \<lparr>wf_address = a, wf_secret_key = k\<rparr>) \<and>
     (\<forall>t bs. cli_encode_transaction X t = Some bs \<longrightarrow> rpc_decode_transaction R bs = Some t)"

text \<open>A wallet whose keys belong together and have the sizes of the protocol.\<close>

definition wallet_ok :: "cli_env \<Rightarrow> wallet \<Rightarrow> bool" where
  "wallet_ok X v \<longleftrightarrow> v = from_secret_key (config_crypto (cli_config X)) (wallet_secret_key v) \<and>
     length (wallet_secret_key v) = config_SECRET_KEY_SIZE (cli_config X) \<and>
     length (wallet_address_field v) = config_ADDRESS_SIZE (cli_config X)"

lemma files_env_simps [simp]:
  "read_to_string (files_env X w) = cw_files w" "json_wallet (files_env X w) = json_wallet (cli_config X)"
  "hex_decode (files_env X w) = hex_decode (cli_config X)" "config_crypto (files_env X w) = config_crypto (cli_config X)"
  "config_ADDRESS_SIZE (files_env X w) = config_ADDRESS_SIZE (cli_config X)"
  "config_SECRET_KEY_SIZE (files_env X w) = config_SECRET_KEY_SIZE (cli_config X)"
  "parse_addr (files_env X w) = parse_addr (cli_config X)" "json_run_config (files_env X w) = json_run_config (cli_config X)"
  "config_BLOCK_TIME (files_env X w) = config_BLOCK_TIME (cli_config X)"
  by (simp_all add: files_env_def)

lemma files_env_output [simp]: "files_env X (w\<lparr>cw_outputs := out\<rparr>) = files_env X w"
  by (simp add: files_env_def)

lemma saved_wallet_opens:
  assumes "cli_laws X R" "wallet_ok X v" "save_wallet_file X path v w = (w', Ok ())"
  shows "open_wallet X path w' = (w', Ok v) \<and> cw_outputs w' = cw_outputs w"
proof -
  obtain t where t: "cli_json_wallet X (wallet_address (config_crypto (cli_config X)) v)
      (cli_hex_encode X (wallet_public_key v)) (cli_hex_encode X (wallet_secret_key v)) = Some t"
    and w': "w' = w\<lparr>cw_files := (cw_files w)(path := Contents t)\<rparr>"
    using assms(3) by (auto simp: save_wallet_file_def cli_simps ok_or_def write_file_def split: option.splits if_splits)
  have laws: "hex_decode (cli_config X) (cli_hex_encode X bs) = Some bs"
    "address_to_string (config_crypto (cli_config X)) a = cli_hex_encode X a"
    "json_wallet (cli_config X) t = Some \<lparr>wf_address = wallet_address (config_crypto (cli_config X)) v,
       wf_secret_key = cli_hex_encode X (wallet_secret_key v)\<rparr>" for bs a
    using assms(1) t unfolding cli_laws_def by blast+
  show ?thesis
    using assms(2) laws
    by (simp add: open_wallet_def w' load_wallet_def parse_address_def parse_address_hex_def parse_secret_key_def
        wallet_address_def wallet_ok_def Let_def)
qed

text \<open>
  A new wallet can be used: when \<open>wallet new path\<close> succeeds, opening the file gives the wallet that was
  generated, with its secret key, and what was printed is the path and the address: the secret key is
  not shown.
\<close>

lemma wallet_new_opens:
  assumes "cli_laws X R" "wallet_ok X (wallet_generate (config_crypto (cli_config X)))" "\<not> is_flag path"
    and "wallet_command E X R [''new'', path] w = (w', Ok ())"
  shows "open_wallet X path w' = (w', Ok (wallet_generate (config_crypto (cli_config X)))) \<and>
    cw_outputs w' = cw_outputs w @ [''Wallet successfully saved to `'' @ path @ ''`'',
      ''address: '' @ wallet_address (config_crypto (cli_config X)) (wallet_generate (config_crypto (cli_config X)))]"
proof -
  let ?v = "wallet_generate (config_crypto (cli_config X))"
  have "path \<noteq> ''--show-secret''" using assms(3) by (auto simp: is_flag_def starts_with_def)
  then obtain w1 where save: "save_wallet_file X path ?v w = (w1, Ok ())"
    and w': "w' = w1\<lparr>cw_outputs := cw_outputs w1 @ [''Wallet successfully saved to `'' @ path @ ''`'',
      ''address: '' @ wallet_address (config_crypto (cli_config X)) ?v]\<rparr>"
    using assms(3,4) by (auto simp: wallet_command_def nth_arg_def Let_def cli_simps print_all_def)
  from saved_wallet_opens [OF assms(1,2) save] show ?thesis
    by (simp add: w' open_wallet_def)
qed

text \<open>
  C26. A payment arrives as it was signed: when a wallet command submits, the hexadecimal text it posts is
  decoded by the node to exactly the transaction that was signed, which moves the given amount and fee
  from the wallet's own address to the recipient, carries the nonce that was asked for or else the one
  resolved over the RPC, and is signed with the wallet's key; the command prints the node's answer.
\<close>

theorem payment_arrives:
  assumes "cli_laws X R" "submit_wallet_transaction K X path to amount fee nonce rpc True w = (w', Ok ())"
  shows "\<exists>v t hex response k. open_wallet X path w = (w, Ok v) \<and> rpc_nonce_of X rpc (wallet_address_field v) = Ok k \<and>
    http_post_json (cli_transport X) rpc ''/tx'' (tx_body hex) = Ok response \<and>
    w' = w\<lparr>cw_outputs := cw_outputs w @ [response]\<rparr> \<and> signed_transaction_from_hex R hex = Ok t \<and>
    tx_from (payload t) = wallet_address_field v \<and> tx_to (payload t) = to \<and> tx_amount (payload t) = amount \<and>
    tx_fee (payload t) = fee \<and> tx_nonce (payload t) = (case nonce of None \<Rightarrow> k | Some n \<Rightarrow> n) \<and>
    public_key t = wallet_public_key v \<and>
    signature t = sign (config_crypto (cli_config X)) (wallet_secret_key v) (signing_bytes (config_crypto (cli_config X)) (payload t))"
proof -
  obtain v t hex response where run: "open_wallet X path w = (w, Ok v)"
    "signed_payment X v to amount fee nonce rpc = Ok t" "signed_transaction_to_hex X t = Ok hex"
    "http_post_json (cli_transport X) rpc ''/tx'' (tx_body hex) = Ok response"
    "w' = w\<lparr>cw_outputs := cw_outputs w @ [response]\<rparr>"
    using assms(2)
    by (auto simp: submit_wallet_transaction_def cli_simps map_err_Ok_iff println_def open_wallet_def)
  obtain k now where signed: "rpc_nonce_of X rpc (wallet_address_field v) = Ok k"
    "sign_transaction (config_crypto (cli_config X)) v \<lparr>tx_from = wallet_address_field v, tx_to = to, tx_amount = amount,
       tx_fee = fee, tx_nonce = (case nonce of None \<Rightarrow> k | Some n \<Rightarrow> n), tx_timestamp = now\<rparr> = Ok t"
    using run(2) by (auto simp: signed_payment_def res_bind_Ok_iff map_err_Ok_iff)
  obtain bs where bs: "cli_encode_transaction X t = Some bs" "hex = cli_hex_encode X bs"
    using run(3) by (auto simp: signed_transaction_to_hex_def res_bind_Ok_iff ok_or_def split: option.splits)
  have "signed_transaction_from_hex R hex = Ok t"
    using assms(1) bs by (auto simp: cli_laws_def signed_transaction_from_hex_def)
  then show ?thesis
    using run(1,4,5) signed
    by (intro exI [of _ v] exI [of _ t] exI [of _ hex] exI [of _ response] exI [of _ k]) (simp add: sign_transaction_correct)
qed

text \<open>
  A nonce given on the command line does not spare the RPC: when the nonce cannot be resolved over the
  network, signing fails with that error, also with \<open>--nonce\<close> and without \<open>--submit\<close>.
\<close>

lemma offline_signing_fails:
  assumes "open_wallet X path w = (w, Ok v)" "rpc_nonce_of X rpc (wallet_address_field v) = Err e"
  shows "submit_wallet_transaction K X path to amount fee (Some n) rpc False w = (w, Err e)"
  using assms by (simp add: submit_wallet_transaction_def cli_bind_def cli_result_def signed_payment_def)

section \<open>The nonce of a payment and the pool\<close>

text \<open>What the wallet reads of the node's list of pending transactions.\<close>

definition pending_view :: "core \<Rightarrow> rpc_env \<Rightarrow> u64 option \<Rightarrow> mempool \<Rightarrow> mempool_tx_rpc_response list" where
  "pending_view K R clock m =
     map (\<lambda>t. \<lparr>rpc_from = tr_from t, rpc_nonce = tr_nonce t\<rparr>)
       (map (\<lambda>t. tx_response_of K R clock t None None ''pending'') (transactions m))"

lemma pending_view_nonces:
  assumes "inj (rpc_address_to_string R)"
  shows "set (pending_nonces (rpc_address_to_string R a) (pending_view K R clock m)) =
    (\<lambda>t. tx_nonce (payload t)) ` set (pending_from_sender m a None)"
proof -
  have "set (pending_from_sender m a None) = {t \<in> set (transactions m). tx_from (payload t) = a}"
    by (auto simp: pending_from_sender_def transactions_def image_image split_def)
  moreover have "set (pending_nonces (rpc_address_to_string R a) (pending_view K R clock m)) =
      (\<lambda>t. tx_nonce (payload t)) ` {t \<in> set (transactions m). rpc_address_to_string R (tx_from (payload t)) = rpc_address_to_string R a}"
    by (force simp: pending_nonces_def pending_view_def tx_response_of_def Let_def image_iff)
  ultimately show ?thesis using assms by (simp add: inj_eq)
qed

text \<open>The least free nonce after a run of pending ones is the end of the run.\<close>

lemma next_free_after_run:
  assumes "sorted ns" "distinct ns" "unat ` set ns = {unat s..<unat s + k}" "unat s + k < 2 ^ 64"
  shows "unat (next_free ns s) = unat s + k"
proof -
  have "n \<noteq> - 1" if "n \<in> set ns" for n :: u64
  proof
    assume "n = - 1"
    then have "unat n = 2 ^ 64 - 1" by (simp add: unat_minus_one_word_max)
    moreover have "unat n \<in> {unat s..<unat s + k}" using that assms(3) by blast
    ultimately show False using assms(4) by simp
  qed
  from next_free_correct [OF assms(1,2)] this
  have c: "s \<le> next_free ns s" "next_free ns s \<notin> set ns" "\<forall>n. s \<le> n \<and> n < next_free ns s \<longrightarrow> n \<in> set ns"
    by blast+
  define e where "e = unat s + k"
  have u: "unat (of_nat e :: u64) = e" using assms(4) by (simp add: e_def [symmetric] unat_of_nat)
  have "(of_nat e :: u64) \<notin> set ns"
  proof
    assume "(of_nat e :: u64) \<in> set ns"
    then have "unat (of_nat e :: u64) \<in> {unat s..<unat s + k}" using assms(3) by blast
    then show False unfolding u by (simp add: e_def)
  qed
  moreover have "unat s \<le> e" by (simp add: e_def)
  ultimately have "\<not> e < unat (next_free ns s)"
    using c(3) [rule_format, of "of_nat e"] u by (auto simp: word_le_nat_alt word_less_nat_alt)
  moreover have "\<not> unat (next_free ns s) < unat s + k"
  proof
    assume "unat (next_free ns s) < unat s + k"
    then have "unat (next_free ns s) \<in> unat ` set ns" using c(1) assms(3) by (simp add: word_le_nat_alt)
    then obtain n where "n \<in> set ns" "unat (next_free ns s) = unat n" by blast
    then show False using c(2) by (simp add: word_unat_eq_iff [symmetric])
  qed
  ultimately show ?thesis by (simp add: e_def)
qed

text \<open>
  C25. The wallet and the node agree on nonces: for an account whose pending queue is executable, the nonce
  that the wallet computes from the node's own answers (the account's nonce and the list of pending
  transactions) is the one that the pool accepts next: any validly signed payment with it, with a
  sufficient fee and covered by the funds the queue leaves, passes the ledger check.
\<close>

theorem resolved_nonce_accepted:
  assumes "inj (rpc_address_to_string R)" "address_to_string Y = rpc_address_to_string R"
    and "account_of K L a = Some acc" "unat (acc_nonce acc) + length (pool_transactions m) < 2 ^ 64"
    and "payable (unat (acc_nonce acc)) (funds_of K L acc) (pending_from_sender m a None)"
  shows "\<exists>k. resolve_wallet_nonce Y (\<lambda>_. Ok (Some (acc_nonce acc))) (Ok (pending_view K R clock m)) a = Ok k \<and>
    (\<forall>tx. tx_from (payload tx) = a \<and> tx_nonce (payload tx) = k \<and> validate_signed K tx = Ok () \<and> fee_ok m tx \<and>
       sum_list (map cost (pending_from_sender m a None)) + cost tx \<le> funds_of K L acc \<longrightarrow>
       validate_against_ledger K m L tx = Ok ())"
proof -
  let ?q = "pending_from_sender m a None"
  let ?ns = "pending_nonces (rpc_address_to_string R a) (pending_view K R clock m)"
  have len: "unat (acc_nonce acc) + length ?q < 2 ^ 64"
    using assms(4) length_pending_from_sender [of m a None] by simp
  have "unat ` set ?ns = nonce_of ` set ?q"
    by (simp add: pending_view_nonces [OF assms(1)] image_image nonce_of_def)
  also have "\<dots> = {unat (acc_nonce acc)..<unat (acc_nonce acc) + length ?q}"
    using assms(5) unfolding payable_def by (metis list.set_map set_upt)
  finally have k: "unat (next_free ?ns (acc_nonce acc)) = unat (acc_nonce acc) + length ?q"
    using len by (intro next_free_after_run) (simp_all add: pending_nonces_def distinct_adj_remdups_sorted)
  have "validate_against_ledger K m L tx = Ok ()"
    if "tx_from (payload tx) = a" "tx_nonce (payload tx) = next_free ?ns (acc_nonce acc)" "validate_signed K tx = Ok ()"
      "fee_ok m tx" "sum_list (map cost ?q) + cost tx \<le> funds_of K L acc" for tx
    using that assms(3-5) k
    by (subst validate_against_ledger_Ok_iff) (auto simp: nonce_room_def admissible_def payable_snoc nonce_of_def)
  then show ?thesis
    by (intro exI [of _ "next_free ?ns (acc_nonce acc)"]) (simp add: resolve_wallet_nonce_def assms(2))
qed

section \<open>Examples\<close>

text \<open>
  A command line on one wallet file: bytes are printed as characters, the RPC server answers every
  request with an empty object, read as a fresh account and an empty pool.
\<close>

definition sample_cli_crypto :: crypto where
  "sample_cli_crypto = sample_crypto\<lparr>generate_keypair := ([2], [2]), address_to_string := map byte_char\<rparr>"

definition sample_payment :: signed_transaction where
  "sample_payment = \<lparr>payload = \<lparr>tx_from = [2], tx_to = [3], tx_amount = 5, tx_fee = 1, tx_nonce = 0, tx_timestamp = 0\<rparr>,
     public_key = [2], signature = [2, 2]\<rparr>"

definition sample_cli :: cli_env where
  "sample_cli = \<lparr>
     cli_config = sample_config_env\<lparr>hex_decode := (\<lambda>s. Some (as_bytes s)), config_crypto := sample_cli_crypto,
       config_ADDRESS_SIZE := 1, config_SECRET_KEY_SIZE := 1,
       json_wallet := (\<lambda>t. if t = ''W'' then Some \<lparr>wf_address = map byte_char [2], wf_secret_key = map byte_char [2]\<rparr> else None)\<rparr>,
     cli_transport = \<lparr>tp_parse = Some, tp_show = id, tp_connect = (\<lambda>_. None), tp_exchange = (\<lambda>_ _. Ok [Chunk [123, 125]])\<rparr>,
     cli_hex_encode = map byte_char,
     cli_encode_transaction = (\<lambda>t. if t = sample_payment then Some [7] else None),
     cli_json_balance = (\<lambda>_. Some None), cli_json_mempool = (\<lambda>_. Some []),
     cli_json_wallet = (\<lambda>a p k. if a = map byte_char [2] \<and> k = map byte_char [2] then Some ''W'' else None),
     cli_json_transactions = (\<lambda>_. None), cli_json_config = (\<lambda>_. None), cli_create_parent = (\<lambda>_. True), cli_debug_height = (\<lambda>_. []), cli_clock = Some 0,
     cli_writable = (\<lambda>_. True), cli_entries = (\<lambda>_. None)\<rparr>"

definition sample_cli_rpc :: rpc_env where
  "sample_cli_rpc = sample_rpc_env\<lparr>rpc_decode_transaction := (\<lambda>bs. if bs = [7] then Some sample_payment else None)\<rparr>"

definition sample_world :: "mem_env cli_world" where
  "sample_world = \<lparr>cw_inputs = [], cw_outputs = [], cw_files = (\<lambda>p. if p = ''w'' then Contents ''W'' else FileNotFound),
     cw_db = (\<lambda>_. Ok env0)\<rparr>"

lemma sample_cli_laws: "cli_laws sample_cli sample_cli_rpc"
  by (auto simp: cli_laws_def sample_cli_def sample_cli_rpc_def sample_rpc_env_def sample_cli_crypto_def as_bytes_byte_char
      split: if_splits)

lemma sample_http:
  "http_get (cli_transport sample_cli) a p = Ok (map byte_char [123, 125])"
  "http_post_json (cli_transport sample_cli) a p b = Ok (map byte_char [123, 125])"
proof -
  have "find_sub crlf2 [123, 125 :: u8] = None" by (simp add: crlf2_def)
  then have "read_http_response [Chunk [123, 125]] = Ok (map byte_char [123, 125])"
    by (simp add: read_http_response_def response_body_complete_def from_utf8_def split_once_def header_separator_def byte_char_def)
  then show "http_get (cli_transport sample_cli) a p = Ok (map byte_char [123, 125])"
    "http_post_json (cli_transport sample_cli) a p b = Ok (map byte_char [123, 125])"
    by (simp_all add: http_get_def http_post_json_def exchange_def sample_cli_def)
qed

definition sample_wallet :: wallet where
  "sample_wallet = \<lparr>wallet_public_key = [2], wallet_secret_key = [2], wallet_address_field = [2]\<rparr>"

lemma sample_wallet_opens: "open_wallet sample_cli ''w'' sample_world = (sample_world, Ok sample_wallet)"
  by (simp add: open_wallet_def load_wallet_def sample_world_def parse_address_def parse_address_hex_def parse_secret_key_def)
    (simp add: sample_cli_def sample_cli_crypto_def sample_crypto_def as_bytes_byte_char [of "[2]", simplified]
      from_secret_key_def from_keypair_def sample_wallet_def)

lemma sample_nonce: "rpc_nonce_of sample_cli ''r'' a = Ok 0"
  by (simp add: rpc_nonce_of_def resolve_wallet_nonce_def sample_http pending_nonces_def) (simp add: sample_cli_def pending_nonces_def)

theorem payment_arrives_witness:
  "\<exists>t hex. submit_wallet_transaction sample_core sample_cli ''w'' [3] 5 1 None ''r'' True sample_world =
       (sample_world\<lparr>cw_outputs := [map byte_char [123, 125]]\<rparr>, Ok ()) \<and>
     signed_transaction_from_hex sample_cli_rpc hex = Ok t \<and> tx_to (payload t) = [3] \<and> tx_amount (payload t) = 5"
proof -
  have "signed_payment sample_cli sample_wallet [3] 5 1 None ''r'' = Ok sample_payment"
    by (simp add: signed_payment_def sample_nonce)
      (simp add: sample_cli_def sample_cli_crypto_def sample_crypto_def sign_transaction_def sample_wallet_def sample_payment_def)
  then have run: "submit_wallet_transaction sample_core sample_cli ''w'' [3] 5 1 None ''r'' True sample_world =
      (sample_world\<lparr>cw_outputs := [map byte_char [123, 125]]\<rparr>, Ok ())"
    by (simp add: submit_wallet_transaction_def cli_bind_def cli_result_def sample_wallet_opens signed_transaction_to_hex_def
        sample_http println_def) (simp add: sample_cli_def sample_world_def)
  from payment_arrives [OF sample_cli_laws run] run show ?thesis by blast
qed

theorem resolved_nonce_accepted_witness:
  "\<exists>k. resolve_wallet_nonce sample_cli_crypto (\<lambda>_. Ok (Some 0)) (Ok (pending_view sample_core sample_rpc_env None sample_pool)) [1] = Ok k \<and>
     validate_against_ledger sample_core sample_pool sample_ledger (sample_tx 7 k 2) = Ok ()"
proof -
  have "inj (map byte_char)" by (rule inj_on_inverseI [where g = as_bytes]) (rule as_bytes_byte_char)
  then have inj: "inj (rpc_address_to_string sample_rpc_env)"
    "address_to_string sample_cli_crypto = rpc_address_to_string sample_rpc_env"
    by (simp_all add: sample_rpc_env_def sample_cli_crypto_def)
  obtain acc where acc: "account_of sample_core sample_ledger [1] = Some acc" "acc_nonce acc = 0"
    by (simp add: sample_defs)
  have room: "unat (acc_nonce acc) + length (pool_transactions sample_pool) < 2 ^ 64" by (simp add: acc(2) sample_defs)
  have pay: "payable (unat (acc_nonce acc)) (funds_of sample_core sample_ledger acc) (pending_from_sender sample_pool [1] None)"
    using acc by (auto simp: payable_def pending_from_sender_def cost_def nonce_of_def funds_of_def upt_rec sample_defs)
  have "validate_signed sample_core (sample_tx 7 k 2) = Ok ()" "fee_ok sample_pool (sample_tx 7 k 2)" "tx_nonce (payload (sample_tx 7 k 2)) = k"
    "tx_from (payload (sample_tx 7 k 2)) = [1]"
    "sum_list (map cost (pending_from_sender sample_pool [1] None)) + cost (sample_tx 7 k 2) \<le> funds_of sample_core sample_ledger acc" for k
    using acc by (auto simp: pending_from_sender_def cost_def funds_of_def fee_ok_def sample_defs)
  then show ?thesis
    using resolved_nonce_accepted [OF inj acc(1) room pay, of None] acc(2) by auto
qed

end
