(* ===== verification/Run_Loop.thy ===== *)
theory Run_Loop
  imports Service_Properties Node_Life
begin

text \<open>
  The main loop of a running node (\<open>src/main.rs\<close>, \<open>NodeService::run\<close>): one round after the other until the
  shutdown file appears or a round fails. What happens outside the loop is the input of a round: the
  time, the connections that wait to be accepted, and what the other threads do before the round and
  during its proof of work. Times are in seconds. The periodic status line is left out.
\<close>

section \<open>The loop\<close>

record ('s, 'e, 'f, 'w) round_input =
  ri_now :: nat
  ri_timestamp :: u64 \<comment> \<open>the system clock when a candidate is prepared and when it is applied\<close>
  ri_clock :: u64
  ri_accepted :: "(string \<times> 's option) list"
  ri_accept_failed :: bool
  ri_others :: "('s, 'e, 'f, 'w) service \<Rightarrow> ('s, 'e, 'f, 'w) service"
  ri_mining_others :: "('e, 'f) node \<Rightarrow> ('e, 'f) node"

record run_timers =
  last_mine :: nat
  last_gateway_heartbeat :: nat

datatype run_error = AcceptFailed | RoundFailed service_error

text \<open>The timers \<open>NodeService::new\<close> sets, when the clock has run for longer than the heartbeat.\<close>

definition timers_new :: "string run_config \<Rightarrow> nat \<Rightarrow> run_timers" where
  "timers_new c now = \<lparr>last_mine = now,
     last_gateway_heartbeat = (if unat (gateway_heartbeat c) \<le> now then now - unat (gateway_heartbeat c) else now)\<rparr>"

definition accept_p2p ::
  "('s, 'w) service_env \<Rightarrow> (string \<times> 's option) list \<Rightarrow> bool \<Rightarrow> ('s, 'e, 'f, 'w) service \<Rightarrow>
   ('s, 'e, 'f, 'w) service \<times> (run_error + unit)" where
  "accept_p2p V accepted fails S =
     (fold (\<lambda>(a, writer). accept_connection V a writer) accepted S, if fails then Err AcceptFailed else Ok ())"

definition heartbeat_round ::
  "('e, 't, 'f) node_env \<Rightarrow> ('s, 'w) service_env \<Rightarrow> string run_config \<Rightarrow> nat \<Rightarrow>
   ('s, 'e, 'f, 'w) service \<times> run_timers \<Rightarrow> ('s, 'e, 'f, 'w) service \<times> run_timers" where
  "heartbeat_round E V c now = (\<lambda>(S, T).
     if unat (gateway_heartbeat c) \<le> now - last_gateway_heartbeat T
     then (fst (refresh_gateway_peers E V c now False S),
           if gateway_url c = None then T else T\<lparr>last_gateway_heartbeat := now\<rparr>)
     else (S, T))"

definition mining_round ::
  "('e, 't, 'f) node_env \<Rightarrow> ('s, 'w) service_env \<Rightarrow> string run_config \<Rightarrow> nat \<Rightarrow> ('s, 'e, 'f, 'w) round_input \<Rightarrow>
   ('s, 'e, 'f, 'w) service \<times> run_timers \<Rightarrow> (('s, 'e, 'f, 'w) service \<times> run_timers) \<times> (run_error + unit)" where
  "mining_round E V c MAX_BLOCK_TXS r = (\<lambda>(S, T).
     if mine c \<and> unat (mine_interval c) \<le> ri_now r - last_mine T then
       (case mining_wait_reason E S of
          Some _ \<Rightarrow> ((S, T\<lparr>last_mine := ri_now r\<rparr>), Ok ())
        | None \<Rightarrow>
            (case mine_once_unlocked E c MAX_BLOCK_TXS (ri_timestamp r) (ri_clock r) (ri_mining_others r) (svc_node S) of
               (n, Inl e) \<Rightarrow> ((S\<lparr>svc_node := n\<rparr>, T), Err (RoundFailed e))
             | (n, Inr None) \<Rightarrow> ((S\<lparr>svc_node := n\<rparr>, T\<lparr>last_mine := ri_now r\<rparr>), Ok ())
             | (n, Inr (Some b)) \<Rightarrow>
                 ((fst (service_broadcast V (Block b) (S\<lparr>svc_node := n\<rparr>)), T\<lparr>last_mine := ri_now r\<rparr>), Ok ())))
     else ((S, T), Ok ()))"

text \<open>One round: whether the node has stopped, or the error that ends the process.\<close>

definition run_round ::
  "('e, 't, 'f) node_env \<Rightarrow> ('s, 'w) service_env \<Rightarrow> string run_config \<Rightarrow> nat \<Rightarrow> ('s, 'e, 'f, 'w) round_input \<Rightarrow>
   ('s, 'e, 'f, 'w) service \<times> run_timers \<Rightarrow> (('s, 'e, 'f, 'w) service \<times> run_timers) \<times> (run_error + bool)" where
  "run_round E V c MAX_BLOCK_TXS r = (\<lambda>(S, T).
     let S = ri_others r S in
     if svc_exists V (svc_files S) (shutdown_file c) then
       (case shutdown E V c S of (S', res) \<Rightarrow> ((S', T), res_bind (map_err RoundFailed res) (\<lambda>_. Ok True)))
     else
       (case accept_p2p V (ri_accepted r) (ri_accept_failed r) S of
          (S', Inl e) \<Rightarrow> ((S', T), Err e)
        | (S', Inr _) \<Rightarrow>
            (case mining_round E V c MAX_BLOCK_TXS r (heartbeat_round E V c (ri_now r) (sync_peers E V c (ri_now r) S', T)) of
               (st, res) \<Rightarrow> (st, res_bind res (\<lambda>_. Ok False)))))"

text \<open>The rounds of a list of inputs; \<open>None\<close> when the node still runs after them.\<close>

fun service_run ::
  "('e, 't, 'f) node_env \<Rightarrow> ('s, 'w) service_env \<Rightarrow> string run_config \<Rightarrow> nat \<Rightarrow> ('s, 'e, 'f, 'w) round_input list \<Rightarrow>
   ('s, 'e, 'f, 'w) service \<times> run_timers \<Rightarrow> (('s, 'e, 'f, 'w) service \<times> run_timers) \<times> (run_error + unit) option" where
  "service_run E V c MAX_BLOCK_TXS [] st = (st, None)"
| "service_run E V c MAX_BLOCK_TXS (r # rs) st =
     (case run_round E V c MAX_BLOCK_TXS r st of
        (st', Inl e) \<Rightarrow> (st', Some (Err e))
      | (st', Inr True) \<Rightarrow> (st', Some (Ok ()))
      | (st', Inr False) \<Rightarrow> service_run E V c MAX_BLOCK_TXS rs st')"

section \<open>Runs are paths of the transition system\<close>

text \<open>What other threads do is some sequence of the service's steps.\<close>

abbreviation service_steps where
  "service_steps E V c \<equiv> (service_step E V c)\<^sup>*\<^sup>*"

definition others_step ::
  "('e, 't, 'f) node_env \<Rightarrow> ('s, 'w) service_env \<Rightarrow> string run_config \<Rightarrow> ('s, 'e, 'f, 'w) round_input \<Rightarrow> bool" where
  "others_step E V c r \<longleftrightarrow>
     (\<forall>S. service_steps E V c S (ri_others r S) \<and>
        service_steps E V c S (S\<lparr>svc_node := ri_mining_others r (svc_node S)\<rparr>))"

lemma mine_once_steps:
  assumes "others_step E V c r"
  shows "service_steps E V c S (S\<lparr>svc_node := fst (mine_once_unlocked E c limit ts clock (ri_mining_others r) (svc_node S))\<rparr>)"
proof -
  let ?n = "fst (mine_prepare E c limit ts (svc_node S))"
  let ?o = "ri_mining_others r ?n"
  have prep: "service_steps E V c S (S\<lparr>svc_node := ?n\<rparr>)" using service_step.prepare by blast
  moreover have "service_steps E V c (S\<lparr>svc_node := ?n\<rparr>) (S\<lparr>svc_node := ?o\<rparr>)"
    using assms unfolding others_step_def by (fastforce dest: spec [of _ "S\<lparr>svc_node := ?n\<rparr>"])
  ultimately have other: "service_steps E V c S (S\<lparr>svc_node := ?o\<rparr>)" by (rule rtranclp_trans)
  have "service_step E V c (S\<lparr>svc_node := ?o\<rparr>) (S\<lparr>svc_node := fst (mine_finish E h b clock ?o)\<rparr>)" for h b
    using service_step.finish [of E V c "S\<lparr>svc_node := ?o\<rparr>" h b clock] by simp
  with other have fin: "service_steps E V c S (S\<lparr>svc_node := fst (mine_finish E h b clock ?o)\<rparr>)" for h b
    by (rule rtranclp.rtrancl_into_rtrancl)
  show ?thesis
    using prep other fin by (auto simp: mine_once_unlocked_def split: prod.split sum.split option.split)
qed

lemma accept_steps: "service_steps E V c S (fst (accept_p2p V as fails S))"
  unfolding accept_p2p_def
  by (induction as arbitrary: S) (auto intro: converse_rtranclp_into_rtranclp service_step.accept)

lemma mining_round_steps:
  assumes "others_step E V c r"
  shows "service_steps E V c S (fst (fst (mining_round E V c limit r (S, T))))"
proof -
  obtain n res where m: "mine_once_unlocked E c limit (ri_timestamp r) (ri_clock r) (ri_mining_others r) (svc_node S) = (n, res)"
    by fastforce
  have mined: "service_steps E V c S (S\<lparr>svc_node := n\<rparr>)"
    using mine_once_steps [OF assms, of S limit "ri_timestamp r" "ri_clock r"] m by simp
  then have "service_steps E V c S (fst (service_broadcast V msg (S\<lparr>svc_node := n\<rparr>)))" for msg
    using service_step.broadcast by (rule rtranclp.rtrancl_into_rtrancl)
  with mined show ?thesis by (auto simp: mining_round_def m split: option.split sum.split)
qed

lemma run_round_steps:
  assumes "others_step E V c r"
  shows "service_steps E V c S (fst (fst (run_round E V c limit r (S, T))))"
proof -
  have other: "service_steps E V c S (ri_others r S)" using assms unfolding others_step_def by simp
  let ?A = "fst (accept_p2p V (ri_accepted r) (ri_accept_failed r) (ri_others r S))"
  have acc: "service_steps E V c S ?A" using other accept_steps by (rule rtranclp_trans)
  then have sync: "service_steps E V c S (sync_peers E V c (ri_now r) ?A)"
    using service_step.sync by (rule rtranclp.rtrancl_into_rtrancl)
  obtain S' T' where beat': "heartbeat_round E V c (ri_now r) (sync_peers E V c (ri_now r) ?A, T) = (S', T')" by fastforce
  then have beat: "service_steps E V c S S'"
    using sync rtranclp.rtrancl_into_rtrancl [OF sync service_step.refresh]
    by (auto simp: heartbeat_round_def split: if_splits)
  have stop: "service_steps E V c S (fst (shutdown E V c (ri_others r S)))"
    using other service_step.stop by (rule rtranclp.rtrancl_into_rtrancl)
  show ?thesis
    using stop acc rtranclp_trans [OF beat mining_round_steps [OF assms, of S' limit T']]
    by (auto simp: run_round_def Let_def case_prod_beta beat' split: sum.split)
qed

lemma service_run_steps:
  "\<forall>r \<in> set rs. others_step E V c r \<Longrightarrow> service_steps E V c S (fst (fst (service_run E V c limit rs (S, T))))"
proof (induction rs arbitrary: S T)
  case (Cons r rs)
  obtain S' T' res where r: "run_round E V c limit r (S, T) = ((S', T'), res)" by (metis surj_pair)
  have "service_steps E V c S S'" using run_round_steps [of E V c r S limit T] Cons.prems by (simp add: r)
  then show ?case
    using Cons rtranclp_trans [of "service_step E V c" S S'] by (auto simp: r split: sum.split bool.split)
qed simp

text \<open>A round in which nothing else happens, and one before which the shutdown file is created.\<close>

definition quiet_round :: "(unit, mem_env, block list, string \<rightharpoonup> string) round_input" where
  "quiet_round = \<lparr>ri_now = 7, ri_timestamp = 0, ri_clock = 0, ri_accepted = [(''b'', Some ())], ri_accept_failed = False,
     ri_others = id, ri_mining_others = id\<rparr>"

definition stop_round :: "(unit, mem_env, block list, string \<rightharpoonup> string) round_input" where
  "stop_round = quiet_round\<lparr>ri_others := (\<lambda>S. S\<lparr>svc_files := (svc_files S)(''s'' \<mapsto> [])\<rparr>)\<rparr>"

section \<open>Stopping\<close>

text \<open>
  The node stops when asked: once a round finds the shutdown file, the run is over by the end of that
  round, with a result that no later round can change.
\<close>

lemma shutdown_file_stops:
  assumes "\<forall>S. svc_exists V (svc_files (ri_others r S)) (shutdown_file c)"
  shows "\<exists>st res. service_run E V c limit (before @ r # after) start = (st, Some res) \<and>
    service_run E V c limit (before @ [r]) start = (st, Some res)"
proof (induction before arbitrary: start)
  case Nil
  show ?case using assms by (auto simp: run_round_def Let_def res_bind_Ok_iff split: prod.split sum.split)
next
  case (Cons r' before)
  then show ?case by (auto split: prod.split sum.split bool.split)
qed

text \<open>A run ends well only in the shutdown, so what it leaves has been flushed and saved.\<close>

lemma run_Ok_shutdown:
  "service_run E V c limit rs (S, T) = ((S', T'), Some (Ok ())) \<Longrightarrow> \<forall>r \<in> set rs. others_step E V c r \<Longrightarrow>
   \<exists>S0. service_steps E V c S S0 \<and> shutdown E V c S0 = (S', Ok ())"
proof (induction rs arbitrary: S T)
  case (Cons r rs)
  obtain S1 T1 res where r: "run_round E V c limit r (S, T) = ((S1, T1), res)" by (metis surj_pair)
  have other: "service_steps E V c S (ri_others r S)" using Cons.prems(2) by (simp add: others_step_def)
  have steps: "service_steps E V c S S1" using run_round_steps [of E V c r S limit T] Cons.prems(2) by (simp add: r)
  show ?case
  proof (cases "res = Ok True")
    case True
    then have "shutdown E V c (ri_others r S) = (S1, Ok ())" "S1 = S'"
      using r Cons.prems(1)
      by (auto simp: run_round_def Let_def case_prod_beta res_bind_Ok_iff map_err_Ok_iff prod_eq_iff split: if_splits sum.splits)
    then show ?thesis using other by blast
  next
    case False
    then have "service_run E V c limit rs (S1, T1) = ((S', T'), Some (Ok ()))"
      using Cons.prems(1) by (auto simp: r split: sum.splits bool.splits)
    with Cons.IH Cons.prems(2) steps show ?thesis using rtranclp_trans [of "service_step E V c" S S1] by fastforce
  qed
qed simp

lemma shutdown_OkD:
  assumes "shutdown E V c S = (S', Ok ())" "peers_file c = Some path" "peers_file_laws (svc_peers_env V)"
  shows "flush_to_storage E (svc_node S) = (svc_node S', Ok ())"
    "load_peers_file (svc_peers_env V) (svc_files S') path = Ok (sort_key (pf_key (svc_peers_env V)) (map fst (svc_peers S')))"
proof -
  obtain n r where flush': "flush_to_storage E (svc_node S) = (n, r)" by fastforce
  with assms(1) have flush: "flush_to_storage E (svc_node S) = (n, Ok ())" by (cases r) (auto simp: shutdown_def)
  with assms(1) have save: "save_peers V c (S\<lparr>svc_node := n\<rparr>) = (S', Ok ())" by (simp add: shutdown_def)
  then show "flush_to_storage E (svc_node S) = (svc_node S', Ok ())" using flush by (auto simp: save_peers_def split: prod.splits)
  obtain w where "save_peers_from (svc_peers_env V) (Some path) (map fst (svc_peers S')) w = (svc_files S', Ok ())"
    using save assms(2) by (auto simp: save_peers_def map_err_Ok_iff split: prod.splits)
  then show "load_peers_file (svc_peers_env V) (svc_files S') path = Ok (sort_key (pf_key (svc_peers_env V)) (map fst (svc_peers S')))"
    by (rule saved_peers_load [OF assms(3)])
qed

text \<open>What the store and the index keep, the service keeps, for it changes its node only through the node's operations.\<close>

lemma service_lasting:
  assumes "crate_laws E" "lmdb_laws (env_lmdb E) view txn_view"
  shows "preflight E V c now S = (S', Ok ()) \<Longrightarrow> lasting E view (svc_node S) \<Longrightarrow> lasting E view (svc_node S')"
    "service_steps E V c S S' \<Longrightarrow> lasting E view (svc_node S) \<Longrightarrow> lasting E view (svc_node S')"
  using node_provider.preflight_good [OF lasting_node.client.node_provider_axioms, of E V c now S S' view txn_view]
    node_provider.service_steps_good [OF lasting_node.client.node_provider_axioms, of E V c S S' view txn_view] assms
  by blast+

text \<open>
  C3. A node that has stopped on request loses nothing. It was first started on an empty store, perhaps restarted since, passes its
  preflight and runs any number of rounds, with any peers, gateway, clock and other threads; when the run ends well, a start on the
  store it leaves succeeds, with the ledger it had, consistent and ready to run, and the peers file names exactly the peers it
  knew, in the order of addresses.
\<close>

theorem clean_stop_recovers:
  assumes "life_ok E view txn_view weight" "reach (first_started E view) (life_step E view) n"
    and "preflight E V c now (node_service_new c now n w) = (S, Ok ())"
    and "\<forall>r \<in> set rs. others_step E V c r" "service_run E V c limit rs (S, T) = ((S', T'), Some (Ok ()))"
    and "peers_file c = Some path" "peers_file_laws (svc_peers_env V)" "pool_init m"
  shows "(\<exists>st r. init_or_load E (node_storage (svc_node S')) = (st, Some (Ok r)) \<and>
      node_ledger r = node_ledger (svc_node S') \<and> consistent_start E (r\<lparr>node_mempool := m\<rparr>)) \<and>
    load_peers_file (svc_peers_env V) (svc_files S') path = Ok (sort_key (pf_key (svc_peers_env V)) (map fst (svc_peers S')))"
proof -
  note laws = life_okD [OF assms(1)]
  obtain S0 where S0: "service_steps E V c S S0" "shutdown E V c S0 = (S', Ok ())" using run_Ok_shutdown [OF assms(5,4)] by blast
  note stopped = shutdown_OkD [OF S0(2) assms(6,7)]
  have S0': "lasting E view (svc_node S0)"
    using service_lasting [OF laws(1,4)] life_lasting [OF assms(1,2)] assms(3) S0(1) by (fastforce simp: node_service_new_def)
  then have "lasting E view (svc_node S')" using lasting_flush [OF laws(1,4), of "svc_node S0"] by (simp add: stopped(1))
  from resumes [OF laws this flush_holds [OF laws(1,4) S0' stopped(1)] assms(8)] stopped(2) show ?thesis by blast
qed

text \<open>A node that knows two peers which do not answer, and which is asked to stop at once.\<close>

definition life_config :: "string run_config" where
  "life_config = sample_run_config\<lparr>peers_file := Some ''f'', cfg_peers := [''b'', ''a'']\<rparr>"

definition life_service :: "(mem_env, block list) node \<Rightarrow> (string \<rightharpoonup> string) \<Rightarrow> (unit, mem_env, block list, string \<rightharpoonup> string) service" where
  "life_service n w = \<lparr>svc_node = n, svc_peers = map (\<lambda>a. (a, mark_failed 0 (peer_state_new a 0))) [''b'', ''a''], peer_connections = [],
     inbound_connections = [], requires_peer_sync_before_mining = True, svc_files = w\<rparr>"

lemma life_save_peers:
  "save_peers_from sample_peers_env (Some ''f'') [''b'', ''a''] w = (w(''f'' \<mapsto> ''{ab}''), Ok ())"
  unfolding save_peers_from_def save_peers_file_def by (simp add: sample_peers_sort) (simp add: sample_peers_env_def)

lemma life_preflight:
  assumes "node_ledger n = genesis_ledger"
  shows "preflight life_env sample_service_env life_config 0 (node_service_new life_config 0 n Map.empty) =
    (life_service n [''f'' \<mapsto> ''{ab}''], Ok ())"
proof -
  have "next_difficulty life_env n = Ok 0"
    by (simp add: next_difficulty_def next_difficulty_after_tip_def difficulty_window_def assms genesis_ledger_def
        life_env_def sample_env_def linked_core_def sample_core_def)
  then show ?thesis
    using life_save_peers
    by (simp add: preflight_def node_service_new_def life_config_def sample_run_config_def sample_service_env_def check_miner_def
        sample_crypto_def refresh_gateway_peers_def preflight_peer_def poll_peer_def update_peer_def Let_def
        save_peers_def life_service_def)
qed

lemma stop_round_others: "others_step E V c stop_round"
  by (auto simp: others_step_def stop_round_def quiet_round_def intro: r_into_rtranclp service_step.outside)

theorem clean_stop_recovers_witness:
  "\<exists>st n S T st' r. init_or_load life_env env0 = (st, Some (Ok n)) \<and>
     service_run life_env sample_service_env life_config 1 [stop_round]
       (life_service (n\<lparr>node_mempool := mempool_new\<rparr>) [''f'' \<mapsto> ''{ab}''], timers_new life_config 0) = ((S, T), Some (Ok ())) \<and>
     init_or_load life_env (node_storage (svc_node S)) = (st', Some (Ok r)) \<and> node_ledger r = genesis_ledger \<and>
     load_peers_file sample_peers_env (svc_files S) ''f'' = Ok [''a'', ''b'']"
proof (rule life_start)
  fix st n
  assume start: "init_or_load life_env env0 = (st, Some (Ok n))" "node_ledger n = genesis_ledger" "genesis_accounts n = [([1], stored_account)]"
  let ?n = "n\<lparr>node_mempool := mempool_new\<rparr>"
  let ?T = "timers_new life_config 0"
  obtain e where "save_ledger linked_core mem_lmdb life_codecs (node_storage n) genesis_ledger = (e, Ok ())" using life_save by blast
  then have flush: "flush_to_storage life_env ?n = (?n\<lparr>node_storage := e\<rparr>, Ok ())" by (simp add: flush_to_storage_def start(2))
  define S where "S = life_service (?n\<lparr>node_storage := e\<rparr>) (Map.empty(''f'' \<mapsto> ''{ab}'', ''s'' \<mapsto> [], ''f'' \<mapsto> ''{ab}''))"
  have stop: "shutdown life_env sample_service_env life_config (life_service ?n w) =
      (life_service (?n\<lparr>node_storage := e\<rparr>) (w(''f'' \<mapsto> ''{ab}'')), Ok ())" for w
    using flush life_save_peers
    by (simp add: shutdown_def save_peers_def life_service_def life_config_def sample_service_env_def del: fun_upd_apply)
  have files: "life_service ?n w\<lparr>svc_files := w'\<rparr> = life_service ?n w'" "svc_files (life_service ?n w) = w" for w w'
    by (simp_all add: life_service_def)
  have "svc_exists sample_service_env w (shutdown_file life_config) \<longleftrightarrow> w ''s'' \<noteq> None" for w
    by (simp add: sample_service_env_def life_config_def sample_run_config_def)
  then have run: "service_run life_env sample_service_env life_config 1 [stop_round] (life_service ?n [''f'' \<mapsto> ''{ab}''], ?T) =
      ((S, ?T), Some (Ok ()))"
    by (simp add: run_round_def stop_round_def files stop S_def)
  have live: "reach (first_started life_env mem_view) (life_step life_env mem_view) ?n"
    using first_start_lives [OF life_env_ok life_empty start(1) mempool_new_init] start(3) by simp
  have pre: "preflight life_env sample_service_env life_config 0 (node_service_new life_config 0 ?n Map.empty) =
      (life_service ?n [''f'' \<mapsto> ''{ab}''], Ok ())" by (rule life_preflight) (simp add: start)
  have "(\<exists>st'' r. init_or_load life_env (node_storage (svc_node S)) = (st'', Some (Ok r)) \<and>
      node_ledger r = node_ledger (svc_node S) \<and> consistent_start life_env (r\<lparr>node_mempool := mempool_new\<rparr>)) \<and>
    load_peers_file (svc_peers_env sample_service_env) (svc_files S) ''f'' =
      Ok (sort_key (pf_key (svc_peers_env sample_service_env)) (map fst (svc_peers S)))"
    using stop_round_others sample_peers_laws
    by (intro clean_stop_recovers [OF life_env_ok live pre _ run _ _ mempool_new_init]) (simp_all add: life_config_def sample_service_env_def)
  then show ?thesis
    using start(1,2) run sample_peers_sort by (fastforce simp: S_def life_service_def sample_service_env_def)
qed

section \<open>A node that no peer answers\<close>

text \<open>
  Other threads that may submit transactions and write files, but change neither the chain nor what the node knows of its
  peers.
\<close>

definition others_passive :: "('s, 'e, 'f, 'w) round_input \<Rightarrow> bool" where
  "others_passive r \<longleftrightarrow> (\<forall>S. node_ledger (svc_node (ri_others r S)) = node_ledger (svc_node S) \<and> svc_peers (ri_others r S) = svc_peers S \<and>
     peer_connections (ri_others r S) = peer_connections S \<and>
     requires_peer_sync_before_mining (ri_others r S) = requires_peer_sync_before_mining S)"

text \<open>Nobody has answered: no connection, and no peer whose tip is known.\<close>

definition unanswered :: "('s, 'e, 'f, 'w) service \<Rightarrow> bool" where
  "unanswered S \<longleftrightarrow> peer_connections S = [] \<and> (\<forall>p \<in> snd ` set (svc_peers S). last_tip p = None)"

text \<open>
  What a part of a round does to a service that nobody answers, when nobody answers: it may forget peers, and it leaves the chain
  alone unless it mines.
\<close>

definition shut_out :: "('s, 'e, 'f, 'w) service \<Rightarrow> ('s, 'e, 'f, 'w) service \<Rightarrow> bool" where
  "shut_out S S' \<longleftrightarrow> unanswered S' \<and> fst ` set (svc_peers S') \<subseteq> fst ` set (svc_peers S) \<and>
     requires_peer_sync_before_mining S' = requires_peer_sync_before_mining S"

definition left_alone :: "('s, 'e, 'f, 'w) service \<Rightarrow> ('s, 'e, 'f, 'w) service \<Rightarrow> bool" where
  "left_alone S S' \<longleftrightarrow> unanswered S' \<and> node_ledger (svc_node S') = node_ledger (svc_node S) \<and>
     fst ` set (svc_peers S') \<subseteq> fst ` set (svc_peers S) \<and>
     requires_peer_sync_before_mining S' = requires_peer_sync_before_mining S"

lemma left_alone_iff: "left_alone S S' \<longleftrightarrow> shut_out S S' \<and> node_ledger (svc_node S') = node_ledger (svc_node S)"
  by (auto simp: left_alone_def shut_out_def)

lemma shut_out_trans: "shut_out S S' \<Longrightarrow> shut_out S' S'' \<Longrightarrow> shut_out S S''"
  using subset_trans [of "fst ` set (svc_peers S'')" "fst ` set (svc_peers S')" "fst ` set (svc_peers S)"] by (simp add: shut_out_def)

lemma left_alone_trans: "left_alone S S' \<Longrightarrow> left_alone S' S'' \<Longrightarrow> left_alone S S''"
  using subset_trans [of "fst ` set (svc_peers S'')" "fst ` set (svc_peers S')" "fst ` set (svc_peers S)"] by (simp add: left_alone_def)

lemma left_alone_refl: "unanswered S \<Longrightarrow> left_alone S S"
  by (simp add: left_alone_def)

lemma left_alone_fold:
  assumes "\<And>x S. unanswered S \<Longrightarrow> left_alone S (f x S)"
  shows "unanswered S \<Longrightarrow> left_alone S (fold f xs S)"
proof (induction xs arbitrary: S)
  case (Cons x xs)
  from assms [OF Cons.prems] have "left_alone S (f x S)" "unanswered (f x S)" by (auto simp: left_alone_def)
  then show ?case using Cons.IH left_alone_trans by fastforce
qed (simp add: left_alone_refl)

lemma marked_unanswered:
  "(\<forall>p \<in> snd ` set ps. last_tip p = None) \<Longrightarrow> (\<forall>p \<in> snd ` set (update_peer a (mark_failed now) ps). last_tip p = None)"
  "fst ` set (update_peer a f ps) \<subseteq> fst ` set ps" "set (remove_peer a ps) \<subseteq> set ps"
proof -
  show "(\<forall>p \<in> snd ` set ps. last_tip p = None) \<Longrightarrow> (\<forall>p \<in> snd ` set (update_peer a (mark_failed now) ps). last_tip p = None)"
    by (auto simp: update_peer_def mark_failed_def Let_def)
  show "fst ` set (update_peer a f ps) \<subseteq> fst ` set ps" by (force simp: update_peer_def)
qed (auto simp: remove_peer_def)

lemma save_peers_left: "unanswered S \<Longrightarrow> left_alone S (fst (save_peers V c S))"
  by (simp add: left_alone_def unanswered_def save_peers_def case_prod_beta)

lemma refused_sync_peer:
  assumes "\<forall>a. \<exists>e. open_connection V a = Err e" "unanswered S"
  shows "left_alone S (sync_peer E V c now a S)"
proof -
  obtain e where "open_connection V a = Err e" using assms(1) by blast
  then have sync: "sync_peer E V c now a S = peer_failed V c now a S"
    using assms(2) by (simp add: sync_peer_def poll_persistent_peer_def unanswered_def)
  let ?ps = "update_peer a (mark_failed now) (svc_peers S)"
  let ?S = "\<lambda>ps. S\<lparr>svc_peers := ps, peer_connections := AList.delete a (peer_connections S)\<rparr>"
  have alone: "left_alone S (?S ps)"
    if "ps = ?ps \<or> ps = remove_peer a ?ps" for ps
  proof -
    have sub: "set ps \<subseteq> set ?ps" using that marked_unanswered(3) by blast
    have "fst ` set ps \<subseteq> fst ` set (svc_peers S)"
      using image_mono [OF sub, of fst] marked_unanswered(2) [of a "mark_failed now" "svc_peers S"] by (rule subset_trans)
    moreover have all: "\<forall>p \<in> snd ` set ?ps. last_tip p = None" by (rule marked_unanswered(1)) (use assms(2) in \<open>simp add: unanswered_def\<close>)
    have "last_tip p = None" if "p \<in> snd ` set ps" for p
      by (rule bspec [OF all subsetD [OF image_mono [OF sub] that]])
    ultimately show ?thesis using assms(2) by (simp add: left_alone_def unanswered_def)
  qed
  have gone: "left_alone S (?S (remove_peer a ?ps))" by (rule alone) simp
  then have "unanswered (?S (remove_peer a ?ps))" by (simp add: left_alone_def)
  then have "left_alone S (fst (save_peers V c (?S (remove_peer a ?ps))))" using left_alone_trans [OF gone save_peers_left] by blast
  with alone [of ?ps] show ?thesis unfolding sync by (simp add: peer_failed_def Let_def)
qed

lemma refused_sync:
  "\<forall>a. \<exists>e. open_connection V a = Err e \<Longrightarrow> unanswered S \<Longrightarrow> left_alone S (sync_peers E V c now S)"
  unfolding sync_peers_def by (rule left_alone_fold) (rule refused_sync_peer)

text \<open>
  A round leaves such a service alone unless it mines, which it does only when it is configured to, when the interval has passed,
  and when the table of peers is empty.
\<close>

lemma accept_connection_left: "unanswered S \<Longrightarrow> left_alone S (accept_connection V a writer S)"
  by (cases writer; cases "connection_from_stream (svc_sockets V) (the writer)")
    (simp_all add: accept_connection_def left_alone_def unanswered_def)

lemma accept_left: "unanswered S \<Longrightarrow> left_alone S (fst (accept_p2p V as fails S))"
  unfolding accept_p2p_def fst_conv by (rule left_alone_fold) (simp_all add: case_prod_beta accept_connection_left)

lemma waiting_for_peers:
  "requires_peer_sync_before_mining S \<Longrightarrow> unanswered S \<Longrightarrow> svc_peers S \<noteq> [] \<Longrightarrow> \<exists>x. mining_wait_reason E S = Some x"
  by (auto simp: mining_wait_reason_def needs_peer_handshake_before_mining_def unanswered_def list_ex_iff)

lemma mining_left:
  assumes "unanswered S" "requires_peer_sync_before_mining S \<or> \<not> mine c" and round: "mining_round E V c limit r (S, T) = ((S', T'), res)"
  shows "\<not> mine c \<or> svc_peers S' \<noteq> [] \<or> ri_now r - last_mine T < unat (mine_interval c) \<Longrightarrow> left_alone S S'"
    "last_mine T' = last_mine T \<or> unat (mine_interval c) \<le> ri_now r - last_mine T"
proof -
  have "S' = S" if due: "\<not> mine c \<or> svc_peers S' \<noteq> [] \<or> ri_now r - last_mine T < unat (mine_interval c)"
  proof (cases "mine c \<and> unat (mine_interval c) \<le> ri_now r - last_mine T")
    case True
    have "svc_peers S' = svc_peers S"
      using round by (auto simp: mining_round_def service_broadcast_def case_prod_beta Let_def split: option.splits sum.splits if_splits)
    with True assms due obtain x where "mining_wait_reason E S = Some x" using waiting_for_peers [of S E] by auto
    then show ?thesis using round True by (simp add: mining_round_def)
  next
    case False
    then show ?thesis using round by (auto simp: mining_round_def split: if_splits)
  qed
  then show "left_alone S S'" if "\<not> mine c \<or> svc_peers S' \<noteq> [] \<or> ri_now r - last_mine T < unat (mine_interval c)"
    using left_alone_refl assms(1) that by simp
  show "last_mine T' = last_mine T \<or> unat (mine_interval c) \<le> ri_now r - last_mine T"
    using round by (auto simp: mining_round_def)
qed

lemma mining_shut_out:
  assumes "unanswered S" "requires_peer_sync_before_mining S \<or> \<not> mine c" and round: "mining_round E V c limit r (S, T) = ((S', T'), res)"
  shows "shut_out S S'"
proof (cases "mine c \<and> svc_peers S = []")
  case True
  then have "svc_peers S' = []" "peer_connections S' = peer_connections S"
      "requires_peer_sync_before_mining S' = requires_peer_sync_before_mining S"
    using round
    by (auto simp: mining_round_def service_broadcast_def case_prod_beta Let_def split: option.splits sum.splits if_splits)
  then show ?thesis using assms(1) by (simp add: shut_out_def unanswered_def)
next
  case False
  then have "mine c \<longrightarrow> (\<exists>x. mining_wait_reason E S = Some x)" using assms(1,2) waiting_for_peers by blast
  then have "S' = S" using round by (auto simp: mining_round_def split: if_splits)
  then show ?thesis using left_alone_refl [OF assms(1)] by (simp add: left_alone_iff)
qed

lemma shutdown_left: "unanswered S \<Longrightarrow> left_alone S (fst (shutdown E V c S))"
proof -
  assume S: "unanswered S"
  obtain n r where flush: "flush_to_storage E (svc_node S) = (n, r)" by fastforce
  then have "node_ledger n = node_ledger (svc_node S)" using flush_frame(1) [of E "svc_node S"] by simp
  then have n: "left_alone S (S\<lparr>svc_node := n\<rparr>)" using S by (simp add: left_alone_def unanswered_def)
  then have "left_alone S (fst (save_peers V c (S\<lparr>svc_node := n\<rparr>)))"
    using left_alone_trans [OF n save_peers_left] by (simp add: left_alone_def)
  with n show ?thesis by (cases r) (simp_all add: shutdown_def flush)
qed

lemma run_round_left:
  assumes "\<forall>a. \<exists>e. open_connection V a = Err e" "gateway_url c = None" "others_passive r" "unanswered S"
    and "requires_peer_sync_before_mining S \<or> \<not> mine c" and round: "run_round E V c limit r (S, T) = ((S', T'), res)"
  shows "shut_out S S'"
    "\<not> mine c \<or> svc_peers S' \<noteq> [] \<or> ri_now r - last_mine T < unat (mine_interval c) \<Longrightarrow> left_alone S S'"
    "last_mine T' = last_mine T \<or> unat (mine_interval c) \<le> ri_now r - last_mine T"
proof -
  let ?O = "ri_others r S"
  let ?A = "fst (accept_p2p V (ri_accepted r) (ri_accept_failed r) ?O)"
  let ?Y = "sync_peers E V c (ri_now r) ?A"
  have O: "left_alone S ?O" using assms(3,4) by (simp add: others_passive_def left_alone_def unanswered_def)
  then have A: "left_alone S ?A" using left_alone_trans accept_left unfolding left_alone_def by metis
  then have Y: "left_alone S ?Y" using left_alone_trans refused_sync [OF assms(1)] unfolding left_alone_def by metis
  have stop: "left_alone S (fst (shutdown E V c ?O))" using O left_alone_trans shutdown_left unfolding left_alone_def by metis
  have beat: "heartbeat_round E V c (ri_now r) (?Y, T) = (?Y, T)"
    by (simp add: heartbeat_round_def refresh_gateway_peers_def assms(2))
  obtain S1 T1 res1 where m: "mining_round E V c limit r (?Y, T) = ((S1, T1), res1)" by (metis surj_pair)
  consider "S' = fst (shutdown E V c ?O)" "T' = T" | "S' = ?A" "T' = T" | "S' = S1" "T' = T1"
    using round by (auto simp: run_round_def Let_def case_prod_beta beat m split: if_splits sum.splits)
  then have "shut_out S S' \<and>
      (\<not> mine c \<or> svc_peers S' \<noteq> [] \<or> ri_now r - last_mine T < unat (mine_interval c) \<longrightarrow> left_alone S S') \<and>
      (last_mine T' = last_mine T \<or> unat (mine_interval c) \<le> ri_now r - last_mine T)" (is "?shut \<and> (?due \<longrightarrow> ?left) \<and> ?last")
  proof cases
    case 3
    have now: "unanswered ?Y" "requires_peer_sync_before_mining ?Y \<or> \<not> mine c" using Y assms(5) by (simp_all add: left_alone_def)
    have "shut_out S ?Y" using Y by (simp add: left_alone_iff)
    then have ?shut unfolding 3 using mining_shut_out [OF now m] by (rule shut_out_trans)
    moreover have "?due \<longrightarrow> ?left" unfolding 3 using mining_left(1) [OF now m] left_alone_trans [OF Y] by blast
    moreover have ?last unfolding 3 by (rule mining_left(2) [OF now m])
    ultimately show ?thesis by blast
  qed (use stop A in \<open>simp_all add: left_alone_iff\<close>)
  then show ?shut "?due \<Longrightarrow> ?left" ?last by simp_all
qed

lemma service_run_left:
  assumes refused: "\<forall>a. \<exists>e. open_connection V a = Err e" "gateway_url c = None"
  shows "service_run E V c limit rs (S, T) = ((S', T'), res) \<Longrightarrow> \<forall>r \<in> set rs. others_passive r \<Longrightarrow> unanswered S \<Longrightarrow>
    requires_peer_sync_before_mining S \<or> \<not> mine c \<Longrightarrow>
    shut_out S S' \<and> (\<not> mine c \<or> svc_peers S' \<noteq> [] \<or> (\<forall>r \<in> set rs. ri_now r - last_mine T < unat (mine_interval c)) \<longrightarrow> left_alone S S')"
proof (induction rs arbitrary: S T)
  case Nil
  then show ?case using left_alone_refl by (auto simp: left_alone_iff)
next
  case (Cons r rs)
  obtain S1 T1 res1 where round: "run_round E V c limit r (S, T) = ((S1, T1), res1)" by (metis surj_pair)
  have quiet: "others_passive r" using Cons.prems(2) by simp
  note first = run_round_left [OF refused quiet Cons.prems(3,4) round]
  show ?case
  proof (cases "res1 = Ok False")
    case False
    then have "S' = S1" using Cons.prems(1) by (auto simp: round split: sum.splits bool.splits)
    then show ?thesis using first(1,2) by auto
  next
    case True
    then have run: "service_run E V c limit rs (S1, T1) = ((S', T'), res)" using Cons.prems(1) by (simp add: round)
    have S1: "unanswered S1" "requires_peer_sync_before_mining S1 \<or> \<not> mine c" "\<forall>r \<in> set rs. others_passive r"
      using first(1) Cons.prems(2,4) by (auto simp: shut_out_def)
    note rest = Cons.IH [OF run S1(3,1,2)]
    have "left_alone S S'" if "\<not> mine c \<or> svc_peers S' \<noteq> [] \<or> (\<forall>r \<in> set (r # rs). ri_now r - last_mine T < unat (mine_interval c))"
    proof -
      have "svc_peers S1 \<noteq> []" if "svc_peers S' \<noteq> []" using that rest by (auto simp: shut_out_def)
      then have "left_alone S S1" "left_alone S1 S'" using that first(2,3) rest by auto
      then show ?thesis by (rule left_alone_trans)
    qed
    moreover have "shut_out S S'" using first(1) rest shut_out_trans by blast
    ultimately show ?thesis by blast
  qed
qed

lemma refused_preflight_peer:
  assumes "\<forall>a. \<exists>e. open_connection V a = Err e" "unanswered S"
  shows "left_alone S (preflight_peer E V c now a S)"
proof -
  obtain e where "open_connection V a = Err e" using assms(1) by blast
  then have "preflight_peer E V c now a S = S\<lparr>svc_peers := update_peer a (mark_failed now) (svc_peers S)\<rparr>"
    by (simp add: preflight_peer_def poll_peer_def)
  moreover have "\<forall>p \<in> snd ` set (update_peer a (mark_failed now) (svc_peers S)). last_tip p = None"
    by (rule marked_unanswered(1)) (use assms(2) in \<open>simp add: unanswered_def\<close>)
  ultimately show ?thesis using assms(2) marked_unanswered(2) by (simp add: left_alone_def unanswered_def)
qed

lemma refused_preflight:
  fixes V :: "('a, 'b) service_env" and E :: "('e, 't, 'f) node_env"
  assumes "\<forall>a. \<exists>e. open_connection V a = Err e" "gateway_url c = None"
    and pre: "preflight E V c now (node_service_new c now n w) = (S, Ok ())"
  shows "left_alone (node_service_new c now n w) S"
proof -
  define N :: "('a, 'e, 'f, 'b) service" where "N = node_service_new c now n w"
  let ?S = "fold (preflight_peer E V c now) (map fst (svc_peers N)) N"
  have "unanswered N" by (auto simp: N_def unanswered_def node_service_new_def peer_state_new_def)
  then have S: "left_alone N ?S" by (intro left_alone_fold refused_preflight_peer [OF assms(1)])
  have "save_peers V c ?S = (S, Ok ())"
    using pre unfolding N_def [symmetric] by (auto simp: preflight_def Let_def refresh_gateway_peers_def assms(2) split: if_splits sum.splits)
  then have "S = fst (save_peers V c ?S)" by simp
  moreover have "unanswered ?S" using S by (simp add: left_alone_def)
  ultimately show ?thesis using left_alone_trans [OF S save_peers_left] by (simp add: N_def)
qed

text \<open>
  C2. A node that cannot reach anybody does not build a chain of its own. It is configured with peers and without a gateway, passes its
  preflight and runs any number of rounds, while every connection it tries to open is refused and the other threads change neither
  the chain nor what the node knows of its peers (they may submit transactions, accept connections and write files). As
  long as it still has a peer to try, or does not mine, or the mining interval has not passed since the preflight, its ledger is
  the one it was started with, also when a round fails or the node stops; and it never knows a peer that it was not configured with.
\<close>

theorem isolated_run_keeps_chain:
  assumes "\<forall>a. \<exists>e. open_connection V a = Err e" "gateway_url c = None" "cfg_peers c \<noteq> []"
    and "preflight E V c now (node_service_new c now n w) = (S, Ok ())"
    and "\<forall>r \<in> set rs. others_passive r" "service_run E V c limit rs (S, timers_new c now) = ((S', T'), res)"
  shows "fst ` set (svc_peers S') \<subseteq> set (cfg_peers c) \<and>
    (svc_peers S' \<noteq> [] \<or> \<not> mine c \<or> (\<forall>r \<in> set rs. ri_now r - now < unat (mine_interval c)) \<longrightarrow>
      node_ledger (svc_node S') = node_ledger n)"
proof -
  have start: "left_alone (node_service_new c now n w) S" by (rule refused_preflight [OF assms(1,2,4)])
  then have S: "unanswered S" "requires_peer_sync_before_mining S \<or> \<not> mine c" "node_ledger (svc_node S) = node_ledger n"
      "fst ` set (svc_peers S) \<subseteq> set (cfg_peers c)"
    using assms(3) by (auto simp: left_alone_def node_service_new_def)
  note run = service_run_left [OF assms(1,2,6,5) S(1,2)]
  have "fst ` set (svc_peers S') \<subseteq> fst ` set (svc_peers S)" using run by (simp add: shut_out_def)
  then have "fst ` set (svc_peers S') \<subseteq> set (cfg_peers c)" using S(4) by (rule subset_trans)
  with run S(3) show ?thesis by (simp add: left_alone_def timers_new_def)
qed

text \<open>The node of the last example after more than the mining interval: both peers have failed twice, and it still waits.\<close>

definition due_round :: "(unit, mem_env, block list, string \<rightharpoonup> string) round_input" where
  "due_round = quiet_round\<lparr>ri_now := 70\<rparr>"

lemma due_sync:
  "map fst (svc_peers (sync_peers life_env sample_service_env life_config 70 S)) = [''b'', ''a'']"
  if "svc_peers S = map (\<lambda>a. (a, mark_failed 0 (peer_state_new a 0))) [''b'', ''a'']" "peer_connections S = []"
  using that
  by (simp add: sync_peers_def peer_state_new_def sync_peer_def poll_persistent_peer_def
        sample_service_env_def peer_failed_def update_peer_def mark_failed_def saturating_add_def saturating_sub_def
        saturating_mul_def PEER_RETRY_BASE_def PEER_RETRY_MAX_def MAX_PEER_FAILURES_def Let_def)

theorem isolated_run_keeps_chain_witness:
  "\<exists>S T res. service_run life_env sample_service_env life_config 1 [due_round]
       (life_service sample_node [''f'' \<mapsto> ''{ab}''], timers_new life_config 0) = ((S, T), res) \<and>
     mine life_config \<and> unat (mine_interval life_config) \<le> ri_now due_round \<and> svc_peers S \<noteq> [] \<and>
     node_ledger (svc_node S) = genesis_ledger"
proof -
  let ?S = "life_service sample_node [''f'' \<mapsto> ''{ab}'']"
  have L: "node_ledger sample_node = genesis_ledger" by (simp add: sample_node_def)
  obtain S T res where run: "service_run life_env sample_service_env life_config 1 [due_round] (?S, timers_new life_config 0) = ((S, T), res)"
    by (metis surj_pair)
  define A where "A = fst (accept_p2p sample_service_env [(''b'', Some ())] False ?S)"
  define Y where "Y = sync_peers life_env sample_service_env life_config 70 A"
  have "svc_peers A = svc_peers ?S" "peer_connections A = []"
    by (simp_all add: A_def accept_p2p_def accept_connection_def sample_service_env_def life_service_def)
  then have "map fst (svc_peers Y) = [''b'', ''a'']" unfolding Y_def by (intro due_sync) (simp_all add: life_service_def)
  moreover obtain S1 T1 r where m: "mining_round life_env sample_service_env life_config 1 due_round (Y, timers_new life_config 0) = ((S1, T1), r)"
    by (metis surj_pair)
  then have "svc_peers S1 = svc_peers Y"
    by (auto simp: mining_round_def service_broadcast_def case_prod_beta Let_def split: option.splits sum.splits if_splits)
  moreover have "S = S1"
  proof -
    have "\<not> svc_exists sample_service_env (svc_files ?S) (shutdown_file life_config)"
      by (simp add: sample_service_env_def life_config_def sample_run_config_def life_service_def)
    moreover have "accept_p2p sample_service_env (ri_accepted due_round) (ri_accept_failed due_round) ?S = (A, Ok ())" "ri_others due_round = id"
        "ri_now due_round = 70"
      by (simp_all add: A_def due_round_def quiet_round_def accept_p2p_def)
    moreover have "heartbeat_round life_env sample_service_env life_config 70 (Y, T0) = (Y, T0)" for T0
      by (simp add: heartbeat_round_def refresh_gateway_peers_def life_config_def sample_run_config_def)
    ultimately have "run_round life_env sample_service_env life_config 1 due_round (?S, timers_new life_config 0) = ((S1, T1), res_bind r (\<lambda>_. Ok False))"
      using m by (simp add: run_round_def Y_def)
    then show ?thesis using run by (cases r) (simp_all)
  qed
  ultimately have peers: "svc_peers S \<noteq> []" by auto
  have "others_passive due_round" by (simp add: others_passive_def due_round_def quiet_round_def)
  then have "node_ledger (svc_node S) = genesis_ledger"
    using peers isolated_run_keeps_chain [OF _ _ _ life_preflight [OF L] _ run] L by (simp add: sample_service_env_def life_config_def sample_run_config_def)
  moreover have "mine life_config" "unat (mine_interval life_config) \<le> ri_now due_round"
    by (simp_all add: life_config_def sample_run_config_def due_round_def)
  ultimately show ?thesis using run peers by blast
qed

end
