(* ===== verification/Libp2p.thy ===== *)
theory Libp2p
  imports Network
begin

text \<open>
  The libp2p front end (\<open>src/libp2p_node.rs\<close>): the topics and the protocol name, the commands and events,
  and the messages as the request-response protocol carries them. Peer identities and network addresses
  are types \<open>'p\<close> and \<open>'a\<close> of the libp2p crate. The swarm itself is built by that crate; what the program asks of it is the
  record \<open>swarm_plan\<close>.
\<close>

definition PAQUS_BLOCK_TOPIC :: string where "PAQUS_BLOCK_TOPIC = ''paqus/devnet/blocks/1''"
definition PAQUS_TX_TOPIC :: string where "PAQUS_TX_TOPIC = ''paqus/devnet/tx/1''"
definition PAQUS_REQUEST_PROTOCOL :: string where "PAQUS_REQUEST_PROTOCOL = ''/paqus/devnet/sync/1''"

datatype ('a, 'p) libp2p_command =
    Dial 'a
  | PublishBlock network_message
  | PublishTransaction network_message
  | Request 'p network_message

datatype 'p libp2p_event =
    MessageEvent "'p option" network_message
  | RequestEvent 'p network_message
  | ResponseEvent 'p network_message

record wire_message =
  wire_bytes :: bytes

datatype wire_error = EncodeEnvelopeFailed network_error | DecodeEnvelopeFailed network_error

definition wire_encode :: "chain_params \<Rightarrow> network_envelope codec \<Rightarrow> network_message \<Rightarrow> wire_error + wire_message" where
  "wire_encode Q c m =
     res_bind (map_err EncodeEnvelopeFailed (to_bytes c (to_envelope Q m))) (\<lambda>bs. Ok \<lparr>wire_bytes = bs\<rparr>)"

definition wire_decode :: "chain_params \<Rightarrow> network_envelope codec \<Rightarrow> wire_message \<Rightarrow> wire_error + network_message" where
  "wire_decode Q c w =
     res_bind (map_err DecodeEnvelopeFailed (from_bytes Q c (wire_bytes w))) (\<lambda>v. Ok (message v))"

text \<open>A message that could be encoded is decoded again, within the size limit; a foreign network's is not.\<close>

lemma wire_roundtrip:
  assumes "codec_ok c" "wire_encode Q c m = Ok w"
  shows "wire_decode Q c w = Ok m \<and> length (wire_bytes w) \<le> unat MAX_NETWORK_MESSAGE_SIZE"
proof -
  obtain bs where bs: "enc c (to_envelope Q m) = Ok bs" "length bs \<le> unat MAX_NETWORK_MESSAGE_SIZE" "w = \<lparr>wire_bytes = bs\<rparr>"
    using assms(2) by (auto simp: wire_encode_def to_bytes_def res_bind_Ok_iff map_err_Ok_iff split: if_splits)
  moreover have "dec c bs = Ok (to_envelope Q m)" using assms(1) bs(1) unfolding codec_ok_def by blast
  ultimately show ?thesis by (simp add: wire_decode_def from_bytes_def to_envelope_def)
qed

lemma wire_foreign:
  assumes "codec_ok c" "wire_encode Q' c m = Ok w" "network_magic Q' \<noteq> network_magic Q"
  shows "wire_decode Q c w = Err (DecodeEnvelopeFailed (NetworkSerialization (InvalidData ''network magic mismatch'')))"
proof -
  obtain bs where bs: "enc c (to_envelope Q' m) = Ok bs" "length bs \<le> unat MAX_NETWORK_MESSAGE_SIZE" "w = \<lparr>wire_bytes = bs\<rparr>"
    using assms(2) by (auto simp: wire_encode_def to_bytes_def res_bind_Ok_iff map_err_Ok_iff split: if_splits)
  moreover have "dec c bs = Ok (to_envelope Q' m)" using assms(1) bs(1) unfolding codec_ok_def by blast
  ultimately show ?thesis using assms(3) by (simp add: wire_decode_def from_bytes_def to_envelope_def)
qed

section \<open>The swarm\<close>

text \<open>
  The events of the four behaviours, tagged by where they come from. What \<open>build_behaviour\<close> and \<open>build_swarm\<close> configure:
  durations in seconds, the topics in the order of their subscription, the protocol of requests and of identification.
\<close>

datatype ('g, 'r, 'i, 'p) paqus_behaviour_event =
    GossipsubEvent 'g
  | RequestResponseEvent 'r
  | IdentifyEvent 'i
  | PingEvent 'p

datatype validation_mode = Strict
datatype protocol_support = Full

record swarm_plan =
  gossipsub_heartbeat :: nat
  gossipsub_validation :: validation_mode
  gossipsub_topics :: "string list"
  request_protocols :: "(string \<times> protocol_support) list"
  request_timeout :: nat
  identify_protocol :: string
  idle_connection_timeout :: nat

definition block_topic :: string where "block_topic = PAQUS_BLOCK_TOPIC"
definition transaction_topic :: string where "transaction_topic = PAQUS_TX_TOPIC"

definition build_behaviour :: "swarm_plan \<Rightarrow> swarm_plan" where
  "build_behaviour p = p\<lparr>gossipsub_heartbeat := 10, gossipsub_validation := Strict,
     gossipsub_topics := [block_topic, transaction_topic],
     request_protocols := [(PAQUS_REQUEST_PROTOCOL, Full)], request_timeout := 10,
     identify_protocol := PAQUS_REQUEST_PROTOCOL\<rparr>"

datatype swarm_error = TransportFailed string | BehaviourFailed string

text \<open>The steps of the builder that may fail are the TCP transport and the behaviour; \<open>p\<close> holds the crate's defaults.\<close>

definition build_swarm :: "string option \<Rightarrow> string option \<Rightarrow> swarm_plan \<Rightarrow> swarm_error + swarm_plan" where
  "build_swarm tcp_failed behaviour_failed p =
     (case tcp_failed of Some e \<Rightarrow> Err (TransportFailed e)
      | None \<Rightarrow> (case behaviour_failed of Some e \<Rightarrow> Err (BehaviourFailed e)
          | None \<Rightarrow> Ok ((build_behaviour p)\<lparr>idle_connection_timeout := 60\<rparr>)))"

text \<open>
  A swarm that is built listens to blocks and transactions, on different topics, answers the requests it can make, and
  keeps a connection for longer than a request may take.
\<close>

lemma built_swarm:
  assumes "build_swarm tcp behaviour p = Ok q"
  shows "distinct (gossipsub_topics q) \<and> set (gossipsub_topics q) = {block_topic, transaction_topic} \<and>
    map fst (request_protocols q) = [identify_protocol q] \<and> request_timeout q < idle_connection_timeout q"
  using assms
  by (auto simp: build_swarm_def build_behaviour_def block_topic_def transaction_topic_def PAQUS_BLOCK_TOPIC_def PAQUS_TX_TOPIC_def
      split: option.splits)

end
