(* ===== verification/Program.thy ===== *)
theory Program
  imports Commands Run_Loop Libp2p
begin

text \<open>
  The program (\<open>src/main.rs\<close>): \<open>run_node\<close> up to the running service, the node commands, the interactive
  menu and the dispatch of \<open>run\<close>. A command either finishes or leaves a node running, which is then the
  loop of \<open>Run_Loop\<close>; the files of the service are those of the command's world. The menu's loop has a
  bound on its rounds. What a running node logs is left out, and so is what goes to the error stream.
\<close>

section \<open>Starting a node\<close>

text \<open>What start-up takes from outside: binding sockets, the clock, and constants of the build and of the protocol crate.\<close>

record startup_env =
  su_now :: nat
  su_version :: string
  su_BLOCK_TIME :: u32
  su_DIFFICULTY_START :: u32
  su_GENESIS_PREMINE_ADDRESS :: address
  su_local_peer_id :: "string + string" \<comment> \<open>of the swarm, or why it cannot be built\<close>

type_synonym files = "string \<Rightarrow> file_read"
type_synonym ('s, 'e, 'f) running = "string run_config \<times> ('s, 'e, 'f, files) service"

text \<open>The listeners, and the addresses they are bound to.\<close>

definition bind_listeners :: "'s sockets \<Rightarrow> string list \<Rightarrow> cli_error + 's list \<times> string list" where
  "bind_listeners Z addrs =
     try_fold (\<lambda>addr (listeners, bound_addrs).
       res_bind (map_err BindFailed (bind_nonblocking Z addr ''p2p'')) (\<lambda>listener.
       res_bind (map_err BindFailed (describe Z ''failed to read listener address'' (so_local_addr Z listener))) (\<lambda>bound.
       Ok (listeners @ [listener], bound_addrs @ [bound])))) addrs ([], [])"

definition start_service ::
  "('e, 't, 'f) node_env \<Rightarrow> ('s, files) service_env \<Rightarrow> nat \<Rightarrow> string run_config \<Rightarrow> ('e, 'f) node \<Rightarrow>
   ('e, ('s, 'e, 'f) running) cli" where
  "start_service E V now c n w =
     (case preflight E V c now (node_service_new c now n (cw_files w)) of
        (S, r) \<Rightarrow> (w\<lparr>cw_files := svc_files S, cw_db := (cw_db w)(db_path c := Ok (node_storage (svc_node S)))\<rparr>,
          res_bind (map_err PreflightFailed r) (\<lambda>_. Ok (c, S))))"

definition run_node ::
  "('e, 't, 'f) node_env \<Rightarrow> ('s, files) service_env \<Rightarrow> cli_env \<Rightarrow> startup_env \<Rightarrow> string list \<Rightarrow>
   ('e, ('s, 'e, 'f) running) cli" where
  "run_node E V X U args =
     cli_bind (\<lambda>w. (w, case parse_run_config (files_env X w) args of
        None \<Rightarrow> Err Panicked | Some r \<Rightarrow> map_err ConfigFailed r)) (\<lambda>c.
     cli_bind (\<lambda>w. (w, case peers_file c of
        None \<Rightarrow> Ok [] | Some path \<Rightarrow> map_err PeersFailed (load_peers_file (svc_peers_env V) (cw_files w) path))) (\<lambda>file_peers.
     let c = c\<lparr>cfg_peers := run_node_peers c file_peers\<rparr> in
     cli_bind (open_node E (db_path c)) (\<lambda>n.
     let n = n\<lparr>node_mempool := run_node_mempool c\<rparr> in
     cli_bind (cli_result (if listen_addrs c = [] then Err NoListenAddress else Ok ())) (\<lambda>_.
     let c = c\<lparr>listen_addrs := dedupe_socket_addrs (listen_addrs c), public_addrs := dedupe_socket_addrs (public_addrs c)\<rparr> in
     cli_bind (cli_result (bind_listeners (svc_sockets V) (listen_addrs c))) (\<lambda>_.
     start_service E V (su_now U) c n)))))"

section \<open>Node commands\<close>

definition write_default_run_config :: "cli_env \<Rightarrow> string \<Rightarrow> ('e, unit) cli" where
  "write_default_run_config X path =
     cli_bind (cli_result (if cli_create_parent X path then Ok () else Err (WriteFailed path))) (\<lambda>_.
     cli_bind (cli_result (ok_or (default_run_config_file id (cli_config X)) Panicked)) (\<lambda>f.
     cli_bind (cli_result (ok_or (cli_json_config X f) (WriteFailed path))) (\<lambda>contents.
     write_file X path contents)))"

definition node_config_command :: "cli_env \<Rightarrow> string list \<Rightarrow> ('e, unit) cli" where
  "node_config_command X args =
     (let path = (case nth_arg args 0 of None \<Rightarrow> DEFAULT_CONFIG_FILE | Some p \<Rightarrow> p) in
      cli_bind (write_default_run_config X path) (\<lambda>_.
      print_all [''node config written: '' @ path, ''run with: cargo run -- node run'']))"

definition node_init_command ::
  "('e, 't, 'f) node_env \<Rightarrow> cli_env \<Rightarrow> rpc_env \<Rightarrow> startup_env \<Rightarrow> string list \<Rightarrow> ('e, unit) cli" where
  "node_init_command E X R U args =
     (let path = (case nth_arg args 1 of None \<Rightarrow> DEFAULT_NODE_DB | Some p \<Rightarrow> p);
          miner_address = (case parse_address (cli_config X) (nth_arg args 2) of Inl _ \<Rightarrow> replicate 20 9 | Inr a \<Rightarrow> a);
          addr = address_to_string (config_crypto (cli_config X))
      in if nth_arg args 3 \<noteq> None then cli_result (Err PremineOverride)
         else cli_bind (open_node E path) (\<lambda>n.
           print_all [''database: '' @ path,
             ''tip_height: '' @ cli_debug_height X (ledger_tip_height (env_core E) (node_ledger n)),
             ''tip_hash: '' @ format_hash R (ledger_tip_hash (env_core E) (node_ledger n)),
             ''miner_address: '' @ addr miner_address,
             ''premine_address: '' @ addr (su_GENESIS_PREMINE_ADDRESS U)]))"

definition print_network_info :: "rpc_env \<Rightarrow> startup_env \<Rightarrow> string list" where
  "print_network_info R U = [''chain: '' @ CHAIN_NAME R, ''coin: '' @ COIN_NAME R, ''stage: '' @ PROTOCOL_STAGE R,
     ''protocol_version: '' @ show_word (PROTOCOL_VERSION R), ''block_time_secs: '' @ show_word (su_BLOCK_TIME U),
     ''confirmation_depth: '' @ show_word (CONFIRMATION_DEPTH R), ''finality_depth: '' @ show_word (FINALITY_DEPTH R),
     ''difficulty_start: '' @ show_word (su_DIFFICULTY_START U)]"

definition print_version :: "rpc_env \<Rightarrow> startup_env \<Rightarrow> string list" where
  "print_version R U = [CHAIN_NAME R @ '' '' @ su_version U @ '' ('' @ PROTOCOL_STAGE R @ '', protocol '' @
     show_word (PROTOCOL_VERSION R) @ '')'']"

definition print_libp2p_info :: "startup_env \<Rightarrow> ('e, unit) cli" where
  "print_libp2p_info U =
     cli_bind (cli_result (map_err SwarmFailed (su_local_peer_id U))) (\<lambda>peer.
     print_all [''peer_id: '' @ peer, ''block_topic: '' @ PAQUS_BLOCK_TOPIC, ''tx_topic: '' @ PAQUS_TX_TOPIC,
       ''request_protocol: '' @ PAQUS_REQUEST_PROTOCOL])"

text \<open>A command that finishes.\<close>

definition completes :: "('e, unit) cli \<Rightarrow> ('e, 'r option) cli" where
  "completes m = cli_bind m (\<lambda>_. cli_result (Ok None))"

definition serving :: "('e, 'r) cli \<Rightarrow> ('e, 'r option) cli" where
  "serving m = cli_bind m (\<lambda>r. cli_result (Ok (Some r)))"

definition node_command ::
  "('e, 't, 'f) node_env \<Rightarrow> ('s, files) service_env \<Rightarrow> cli_env \<Rightarrow> rpc_env \<Rightarrow> startup_env \<Rightarrow> string list \<Rightarrow>
   ('e, ('s, 'e, 'f) running option) cli" where
  "node_command E V X R U args =
     (case nth_arg args 0 of
        None \<Rightarrow> cli_result (Err Usage)
      | Some cmd \<Rightarrow>
          if cmd = ''init'' then completes (node_init_command E X R U args)
          else if cmd = ''run'' then serving (run_node E V X U (tl args))
          else if cmd = ''config'' then completes (node_config_command X (tl args))
          else if cmd = ''libp2p-info'' then completes (print_libp2p_info U)
          else if cmd = ''info'' then completes (print_all (print_network_info R U))
          else cli_result (Err Usage))"

section \<open>Menus\<close>

definition confirm_overwrite :: "string \<Rightarrow> ('e, bool) cli" where
  "confirm_overwrite path =
     cli_bind (file_exists path) (\<lambda>exists. if exists then prompt_yes_no ''File exists. Overwrite?'' else cli_result (Ok True))"

text \<open>Save a wallet to a file the user names, unless the file exists and the user declines.\<close>

definition menu_save_wallet :: "cli_env \<Rightarrow> string \<Rightarrow> wallet \<Rightarrow> string \<Rightarrow> ('e, unit) cli" where
  "menu_save_wallet X label v path =
     cli_bind (confirm_overwrite path) (\<lambda>ok.
     if \<not> ok then cli_result (Ok ())
     else cli_bind (save_wallet_file X path v) (\<lambda>_.
       print_all [label @ path, ''address: '' @ wallet_address (config_crypto (cli_config X)) v]))"

definition menu_create_wallet :: "cli_env \<Rightarrow> ('e, unit) cli" where
  "menu_create_wallet X =
     cli_bind (prompt_default ''Wallet file'' ''wallet.json'')
       (menu_save_wallet X ''wallet: '' (wallet_generate (config_crypto (cli_config X))))"

definition menu_import_wallet :: "cli_env \<Rightarrow> ('e, unit) cli" where
  "menu_import_wallet X =
     cli_bind (prompt ''Secret key hex'') (\<lambda>s.
     cli_bind (cli_result (map_err ConfigFailed (parse_secret_key (cli_config X) (Some s)))) (\<lambda>sk.
     cli_bind (prompt_default ''Wallet file'' ''wallet.json'')
       (menu_save_wallet X ''wallet imported: '' (from_secret_key (config_crypto (cli_config X)) sk))))"

definition menu_address :: "cli_env \<Rightarrow> string \<Rightarrow> ('e, address) cli" where
  "menu_address X label =
     cli_bind (choose_wallet X label) (\<lambda>choice.
     case choice of
       Some (_, v) \<Rightarrow> cli_result (Ok (wallet_address_field v))
     | None \<Rightarrow> cli_bind (prompt ''Address hex'') (\<lambda>s. cli_result (cli_address X (Some s))))"

definition menu_check_balance :: "('e, 't, 'f) node_env \<Rightarrow> cli_env \<Rightarrow> rpc_env \<Rightarrow> ('e, unit) cli" where
  "menu_check_balance E X R =
     cli_bind (menu_address X ''Select wallet for balance'') (\<lambda>a.
     cli_bind (prompt_default ''Node DB path'' DEFAULT_NODE_DB) (\<lambda>path.
     cli_bind (open_node E path) (\<lambda>n.
     println (balance_json E R n a))))"

definition menu_send :: "core \<Rightarrow> cli_env \<Rightarrow> ('e, unit) cli" where
  "menu_send K X =
     cli_bind (choose_wallet X ''Select wallet to send from'') (\<lambda>choice.
     case choice of
       None \<Rightarrow> println ''No wallet selected.''
     | Some (path, _) \<Rightarrow>
         cli_bind (prompt ''Recipient address'') (\<lambda>s.
         cli_bind (cli_result (cli_address X (Some s))) (\<lambda>to.
         cli_bind (prompt ''Amount'') (\<lambda>s.
         cli_bind (cli_result (parse_amount (Some s) ''amount'')) (\<lambda>amount.
         cli_bind (prompt_default ''Fee'' (show_word DEFAULT_TRANSACTION_FEE)) (\<lambda>s.
         cli_bind (cli_result (parse_amount (Some s) ''fee'')) (\<lambda>fee.
         cli_bind (prompt_default ''RPC address'' DEFAULT_RPC_ADDR) (\<lambda>rpc.
         submit_wallet_payment K X path to amount fee None rpc))))))))"

definition menu_receive :: "cli_env \<Rightarrow> ('e, unit) cli" where
  "menu_receive X w =
     (let ws = discover_wallets X w;
          show_address = (\<lambda>i. println (wallet_address (config_crypto (cli_config X)) (snd (ws ! i))))
      in if ws = [] then println ''No wallet files found. Create or import a wallet first.'' w
         else if length ws = 1 then show_address 0 w
         else cli_bind (print_all (wallet_lines X ws)) (\<lambda>_.
           cli_bind (prompt ''Select address'') (\<lambda>choice.
           cli_bind (cli_result (ok_or (parse_uint (2 ^ 64) choice) InvalidSelection)) (\<lambda>index.
           if index = 0 \<or> length ws \<le> index - 1 then cli_result (Err InvalidSelection)
           else show_address (index - 1)))) w)"

definition menu_explorer :: "cli_env \<Rightarrow> ('e, unit) cli" where
  "menu_explorer X =
     cli_bind (menu_address X ''Select wallet/address for transactions'') (\<lambda>a.
     cli_bind (prompt_default ''RPC address'' DEFAULT_RPC_ADDR) (\<lambda>rpc.
     cli_bind (cli_result (map_err RpcFailed (http_get (cli_transport X) rpc
       (''/address/'' @ address_to_string (config_crypto (cli_config X)) a)))) (\<lambda>body.
     cli_bind (cli_result (ok_or (cli_json_transactions X body) RpcUnreadable)) println)))"

definition menu_lines :: "string list" where
  "menu_lines = [[], ''Paqus Node CLI'', ''1. Create wallet'', ''2. Import wallet'', ''3. Run node'', ''4. Check balance'',
     ''5. Send'', ''6. Receive'', ''7. Explorer'', ''8. Exit'']"

text \<open>The entries that return to the menu.\<close>

definition menu_entry :: "('e, 't, 'f) node_env \<Rightarrow> cli_env \<Rightarrow> rpc_env \<Rightarrow> string \<Rightarrow> ('e, unit) cli" where
  "menu_entry E X R choice =
     (if choice = ''1'' then menu_create_wallet X
      else if choice = ''2'' then menu_import_wallet X
      else if choice = ''4'' then menu_check_balance E X R
      else if choice = ''5'' then menu_send (env_core E) X
      else if choice = ''6'' then menu_receive X
      else if choice = ''7'' then menu_explorer X
      else println (''Unknown menu `'' @ choice @ ''`''))"

text \<open>The loop, for a number of rounds; \<open>None\<close> when it has not returned after them.\<close>

fun interactive_menu ::
  "nat \<Rightarrow> ('e, 't, 'f) node_env \<Rightarrow> ('s, files) service_env \<Rightarrow> cli_env \<Rightarrow> rpc_env \<Rightarrow> startup_env \<Rightarrow> 'e cli_world \<Rightarrow>
   ('e cli_world \<times> (cli_error + ('s, 'e, 'f) running option)) option" where
  "interactive_menu 0 E V X R U w = None"
| "interactive_menu (Suc rounds) E V X R U w =
     (case cli_bind (print_all menu_lines) (\<lambda>_. prompt ''Select menu'') w of
        (w1, Inl e) \<Rightarrow> Some (w1, Err e)
      | (w1, Inr choice) \<Rightarrow>
          if choice = ''3'' then
            Some (cli_bind (println ''Starting node. Press Ctrl+C to stop, or create the STOP file from another terminal.'')
              (\<lambda>_. serving (run_node E V X U [])) w1)
          else if choice = ''8'' then Some (w1, Ok None)
          else
            (case menu_entry E X R choice w1 of
               (w2, Inl e) \<Rightarrow> Some (w2, Err e)
             | (w2, Inr _) \<Rightarrow> interactive_menu rounds E V X R U w2))"

section \<open>Dispatch\<close>

text \<open>The lines of \<open>print_help\<close>.\<close>

definition help_text :: "string list" where
  "help_text = [
     ''paqus'',
     [],
     ''Usage:'',
     ''  paqus'',
     ''  paqus menu'',
     ''  paqus --help'',
     ''  paqus version'',
     ''  paqus node info'',
     ''  paqus node libp2p-info'',
     ''  paqus node config [config-path]'',
     ''  paqus node init [db-path] [miner-address-hex]'',
     ''  paqus node run [db-path] [--config path] [--listen addr] [--rpc-listen addr] [--peer addr] [--peers-file path] [--gateway host:port] [--public-addr host:port] [--min-relay-fee units] [--market-fee units] [--low-fee-expiry-secs n] [--mempool-expiry-secs n] [--wallet path] [--miner address-hex] [--miner-secret-key key-hex] [--mine]'',
     ''  paqus wallet new [wallet-path] [--show-secret]'',
     ''  paqus wallet address <secret-key-hex>'',
     ''  paqus wallet balance <address-hex> [db-path]'',
     ''  paqus wallet pay <address-hex> <amount> [--wallet path] [--fee units] [--rpc addr]'',
     ''  paqus wallet send <address-hex> <amount> [--wallet path] [--nonce n] [--fee units] [--rpc addr]'',
     ''  paqus wallet send --wallet path --to address-hex --amount units [--nonce n] [--fee units] [--submit] [--rpc addr]'',
     [],
     ''RPC:'',
     ''  GET  /status'',
     ''  GET  /health'',
     ''  GET  /chain'',
     ''  GET  /stats'',
     ''  GET  /peers'',
     ''  GET  /balance/<address-hex>'',
     ''  GET  /blocks/latest'',
     ''  GET  /blocks/<height>'',
     ''  GET  /blocks/hash/<block-hash>'',
     ''  GET  /tx/<tx-hash>'',
     ''  GET  /address/<address-hex>'',
     ''  GET  /accounts'',
     ''  GET  /mempool'',
     ''  POST /tx              JSON: {'' @ quote ''tx'' @ '':'' @ quote ''signed-transaction-hex'' @ ''}'',
     [],
     ''To bootstrap mining with your own account:'',
     ''  1. Create a wallet: paqus wallet new wallet.json'',
     ''  2. Create config: paqus node config'',
     ''  3. Edit ./data/paqus/node.json once'',
     ''  4. Run: paqus node run'',
     []]"

definition run ::
  "nat \<Rightarrow> ('e, 't, 'f) node_env \<Rightarrow> ('s, files) service_env \<Rightarrow> cli_env \<Rightarrow> rpc_env \<Rightarrow> startup_env \<Rightarrow> string list \<Rightarrow>
   'e cli_world \<Rightarrow> ('e cli_world \<times> (cli_error + ('s, 'e, 'f) running option)) option" where
  "run rounds E V X R U args w =
     (case args of
        [] \<Rightarrow> interactive_menu rounds E V X R U w
      | cmd # rest \<Rightarrow>
          if cmd = ''-h'' \<or> cmd = ''--help'' \<or> cmd = ''help'' then Some (completes (print_all help_text) w)
          else if cmd = ''-V'' \<or> cmd = ''--version'' \<or> cmd = ''version'' then Some (completes (print_all (print_version R U)) w)
          else if cmd = ''wallet'' then Some (completes (wallet_command E X R rest) w)
          else if cmd = ''node'' then Some (node_command E V X R U rest w)
          else if cmd = ''menu'' \<or> cmd = ''cli'' then interactive_menu rounds E V X R U w
          else Some (w, Err (UnknownCommand cmd)))"

text \<open>The exit code: whether the command ended without an error.\<close>

definition main_exit :: "cli_error + 'r \<Rightarrow> bool" where
  "main_exit r = (case r of Inl _ \<Rightarrow> False | Inr _ \<Rightarrow> True)"

section \<open>Properties\<close>

lemma open_node_init:
  assumes "open_node E path w = (w', Ok n)" "pool_init m"
  shows "node_init E (n\<lparr>node_mempool := m\<rparr>)"
proof -
  obtain st st' where "init_or_load E st = (st', Some (Ok n))"
    using assms(1) by (auto simp: open_node_def map_err_Ok_iff split: sum.splits prod.splits option.splits)
  then show ?thesis using assms(2) by (rule init_or_load_init)
qed

lemma bind_listeners_Ok:
  assumes "bind_listeners Z as = Ok (ls, bs)"
  shows "list_all2 (\<lambda>a l. bind_nonblocking Z a ''p2p'' = Ok l) as ls"
proof -
  let ?f = "\<lambda>addr (listeners, bound_addrs).
       res_bind (map_err BindFailed (bind_nonblocking Z addr ''p2p'')) (\<lambda>listener.
       res_bind (map_err BindFailed (describe Z ''failed to read listener address'' (so_local_addr Z listener))) (\<lambda>bound.
       Ok (listeners @ [listener], bound_addrs @ [bound])))"
  have "try_fold ?f as (ls0, bs0) = Ok (ls, bs) \<Longrightarrow> \<exists>ls1. ls = ls0 @ ls1 \<and> list_all2 (\<lambda>a l. bind_nonblocking Z a ''p2p'' = Ok l) as ls1" for ls0 bs0
  proof (induction as arbitrary: ls0 bs0)
    case (Cons a as)
    then show ?case by (fastforce simp: res_bind_Ok_iff map_err_Ok_iff)
  qed simp
  then show ?thesis using assms unfolding bind_listeners_def by fastforce
qed

lemma start_service_ok:
  assumes "start_service E V now c n w = (w', Ok (c', S))"
  shows "c' = c \<and> preflight E V c now (node_service_new c now n (cw_files w)) = (S, Ok ()) \<and> cw_files w' = svc_files S \<and>
    \<not> svc_exists V (cw_files w) (shutdown_file c) \<and> check_miner V c = Ok ()"
proof -
  have pre: "preflight E V c now (node_service_new c now n (cw_files w)) = (S, Ok ())" "c' = c" "cw_files w' = svc_files S"
    using assms by (auto simp: start_service_def res_bind_Ok_iff map_err_Ok_iff split: prod.splits)
  from pre(1) have "\<not> svc_exists V (cw_files w) (shutdown_file c)" "check_miner V c = Ok ()"
    by (auto simp: preflight_def node_service_new_def res_bind_Ok_iff split: if_splits sum.splits)
  with pre show ?thesis by simp
qed

text \<open>
  C20. A node that \<open>run_node\<close> starts is one that the service's transition system starts from, so that
  everything proved of its runs holds for it. Moreover it listens on at least one address, on none twice and
  only on addresses that could be bound, no shutdown file was there, and if it mines, the configured
  secret key is that of the miner's address.
\<close>

theorem run_node_starts:
  assumes "run_node E V X U args w = (w', Ok (c, S))"
  shows "service_init E V c S \<and> listen_addrs c \<noteq> [] \<and> distinct (listen_addrs c) \<and>
    (\<exists>ls. list_all2 (\<lambda>a l. bind_nonblocking (svc_sockets V) a ''p2p'' = Ok l) (listen_addrs c) ls) \<and> \<not> svc_exists V (cw_files w) (shutdown_file c) \<and>
    (mine c \<longrightarrow> (\<exists>sk. miner_secret_key c = Some sk \<and>
       address_from_public_key (svc_crypto V) (derive_public_key (svc_crypto V) sk) = cfg_miner_address c))"
proof -
  obtain c0 ps n w1 ls bs where run: "open_node E (db_path c0) w = (w1, Ok n)" "listen_addrs c0 \<noteq> []"
    "bind_listeners (svc_sockets V) (dedupe_socket_addrs (listen_addrs c0)) = Ok (ls, bs)"
    and start: "start_service E V (su_now U) (c0\<lparr>cfg_peers := run_node_peers c0 ps, listen_addrs := dedupe_socket_addrs (listen_addrs c0),
      public_addrs := dedupe_socket_addrs (public_addrs c0)\<rparr>) (n\<lparr>node_mempool := run_node_mempool (c0\<lparr>cfg_peers := run_node_peers c0 ps\<rparr>)\<rparr>) w1 = (w', Ok (c, S))"
    using assms by (auto simp: run_node_def cli_simps Let_def split: if_splits)
  define c1 where "c1 = c0\<lparr>listen_addrs := dedupe_socket_addrs (listen_addrs c0), public_addrs := dedupe_socket_addrs (public_addrs c0)\<rparr>"
  note started = start_service_ok [OF start]
  have c: "c = c1\<lparr>cfg_peers := run_node_peers c1 ps\<rparr>"
  proof -
    have "run_node_peers c1 ps = run_node_peers c0 ps" by (simp add: c1_def run_node_peers_def Let_def)
    then show ?thesis using started by (simp add: c1_def)
  qed
  have "reach (node_init E) (node_step E) (n\<lparr>node_mempool := run_node_mempool (c0\<lparr>cfg_peers := run_node_peers c0 ps\<rparr>)\<rparr>)"
    by (intro reach.start open_node_init [OF run(1)] run_node_mempool_init)
  then have init: "service_init E V c S"
    using started c unfolding service_init_def by blast
  have listen: "listen_addrs c = dedupe_socket_addrs (listen_addrs c0)" using started by auto
  have files: "cw_files w1 = cw_files w"
    using run(1) by (auto simp: open_node_def split: sum.splits prod.splits)
  have "listen_addrs c \<noteq> []" "distinct (listen_addrs c)"
    using run(2) dedupe_peers_correct [of "listen_addrs c0"] unfolding listen
    by (auto simp: dedupe_socket_addrs_def dedupe_peers_def)
  moreover have "\<exists>ls. list_all2 (\<lambda>a l. bind_nonblocking (svc_sockets V) a ''p2p'' = Ok l) (listen_addrs c) ls"
    unfolding listen using bind_listeners_Ok [OF run(3)] by blast
  moreover have "mine c \<longrightarrow> (\<exists>sk. miner_secret_key c = Some sk \<and>
       address_from_public_key (svc_crypto V) (derive_public_key (svc_crypto V) sk) = cfg_miner_address c)"
    using started by (auto simp: check_miner_def res_bind_Ok_iff ok_or_def split: if_splits option.splits)
  ultimately show ?thesis using init started files by simp
qed

text \<open>
  The configuration file that \<open>node config\<close> writes is neutral: a node started with it has the same
  configuration as one started without a file, namely the defaults.
\<close>

lemma default_config_neutral:
  assumes "write_default_run_config X path w = (w', Ok ())" "trim path = path"
    and "\<forall>f t. cli_json_config X f = Some t \<longrightarrow> json_run_config (cli_config X) t = Some f"
    and "\<forall>s a. parse_addr (cli_config X) s = Some a \<longrightarrow> parse_addr (cli_config X) a = Some a"
  shows "\<exists>c. default_run_config (cli_config X) = Some c \<and>
    parse_run_config (files_env X w') [''--config'', path] = Some (Ok c) \<and>
    parse_run_config (files_env X (w'\<lparr>cw_files := (cw_files w')(path := FileNotFound)\<rparr>)) [''--config'', path] = Some (Ok c)"
proof -
  obtain f t where f: "default_run_config_file id (cli_config X) = Some f" "cli_json_config X f = Some t"
    and w': "cw_files w' path = Contents t"
    using assms(1) by (auto simp: write_default_run_config_def cli_simps ok_or_def write_file_def split: option.splits if_splits)
  then obtain c where c: "default_run_config (cli_config X) = Some c" by (auto simp: default_run_config_file_def)
  have same: "default_run_config (files_env X v) = Some c" "default_run_config_file id (files_env X v) = Some f" for v
  proof -
    have "default_run_config (files_env X v) = default_run_config (cli_config X)"
      by (simp add: default_run_config_def split: option.split)
    then show "default_run_config (files_env X v) = Some c" "default_run_config_file id (files_env X v) = Some f"
      using c f(1) by (simp_all add: default_run_config_file_def)
  qed
  have neutral: "apply_run_config_file (files_env X v) f c = Ok c" for v
    using same [of v] assms(4) by (intro default_file_neutral [where shw = id]) auto
  have args: "map trim [''--config'', path] = [''--config'', path]" using assms(2) by (simp add: trim_def trim_start_def trim_end_matches_def is_whitespace_def)
  have opts: "parse_options (files_env X v) [''--config'', path] s = Ok s" for v s by (simp add: apply_option_def)
  have "json_run_config (cli_config X) t = Some f" using assms(3) f(2) by blast
  then have run: "parse_run_config (files_env X v) [''--config'', path] = Some (Ok c)" if "cw_files v path \<in> {Contents t, FileNotFound}" for v
    using that default_config_normal [OF c]
    by (auto simp: parse_run_config_def same args opts neutral load_run_config_file_if_exists_def Let_def simp del: list.map parse_options.simps)
  show ?thesis
    using run [of w'] run [of "w'\<lparr>cw_files := (cw_files w')(path := FileNotFound)\<rparr>"] c w' by auto
qed

text \<open>
  At the end of its input the menu never returns: every further prompt reads an empty line, which is
  no entry of the menu, so that the loop prints the menu for ever, whatever number of rounds it is given.
\<close>

lemma menu_eof_loops:
  assumes "cw_inputs w = []"
  shows "interactive_menu rounds E V X R U w = None"
  using assms
proof (induction rounds arbitrary: w)
  case (Suc rounds)
  then show ?case
    by (simp add: cli_bind_def print_all_def prompt_def menu_entry_def println_def)
qed simp

section \<open>Examples\<close>

text \<open>A first start in an empty directory: no file exists, the store is empty and forgets what is written to it.\<close>

definition blank_codec :: "'a codec" where
  "blank_codec = \<lparr>enc = (\<lambda>_. Ok []), dec = (\<lambda>_. Err (OtherIoError 0))\<rparr>"

definition blank_env :: "(unit, unit, block list) node_env" where
  "blank_env = \<lparr>env_core = sample_core,
     env_lmdb = \<lparr>create_dir_all = (\<lambda>_. Ok ()), open_env = (\<lambda>_. Ok ()), create_db = (\<lambda>_ _. ((), Ok ())), begin_ro_txn = Ok, begin_rw_txn = Ok,
       txn_get = (\<lambda>_ _ _. Err NotFound), txn_put = (\<lambda>_ _ _ _. Ok ()), txn_clear_db = (\<lambda>_ _. Ok ()), txn_iter = (\<lambda>_ _. Ok []),
       txn_commit = (\<lambda>_ _. ((), Ok ())), env_sync = (\<lambda>_. Ok ())\<rparr>,
     env_codecs = \<lparr>block_codec = blank_codec, account_codec = blank_codec, accounts_codec = blank_codec, snapshot_codec = blank_codec,
       location_codec = blank_codec, address_location_codec = blank_codec, height_codec = blank_codec, version_codec = blank_codec\<rparr>,
     env_consensus = env_consensus sample_env, env_fork = list_fork sample_core, env_is_genesis = env_is_genesis sample_env,
     env_validate_checkpoint = (\<lambda>_ _. True), env_genesis_block = genesis, env_GENESIS_HASH = [3]\<rparr>"

definition blank_service_env :: "(unit, files) service_env" where
  "blank_service_env = \<lparr>svc_sockets = refusing_sockets (), svc_client = closed_client, svc_parse = Some,
     svc_peers_env = \<lparr>pf_read = (\<lambda>w p. w p), pf_write = (\<lambda>w p s. (w(p := Contents s), True)), pf_create_parent = (\<lambda>w _. (w, True)),
       pf_decode = (\<lambda>_. Some []), pf_encode = (\<lambda>_. Some ''{}''), pf_parse = Some, pf_show = id, pf_key = (\<lambda>_. [])\<rparr>,
     svc_exists = (\<lambda>w p. w p \<noteq> FileNotFound), svc_gateway = sample_gateway, svc_crypto = sample_crypto\<rparr>"

definition blank_world :: "unit cli_world" where
  "blank_world = \<lparr>cw_inputs = [], cw_outputs = [], cw_files = (\<lambda>_. FileNotFound), cw_db = (\<lambda>_. Ok ())\<rparr>"

definition sample_startup :: startup_env where
  "sample_startup = \<lparr>su_now = 0, su_version = ''1'', su_BLOCK_TIME = 60, su_DIFFICULTY_START = 8,
     su_GENESIS_PREMINE_ADDRESS = [1], su_local_peer_id = Ok ''p''\<rparr>"

definition blank_ledger :: ledger where
  "blank_ledger = \<lparr>ledger_accounts = [], ledger_chain = \<lparr>chain_blocks = [(0, genesis)]\<rparr>\<rparr>"

lemma blank_env_simps [simp]:
  "env_core blank_env = sample_core" "env_fork blank_env = list_fork sample_core" "env_genesis_block blank_env = genesis"
  "env_GENESIS_HASH blank_env = [3]" "block_codec (env_codecs blank_env) = blank_codec"
  "accounts_codec (env_codecs blank_env) = blank_codec" "snapshot_codec (env_codecs blank_env) = blank_codec"
  "height_codec (env_codecs blank_env) = blank_codec"
  by (simp_all add: blank_env_def)

lemma blank_storage [simp]:
  "put_bytes (env_lmdb blank_env) d k bs t = Ok ()" "put_value (env_lmdb blank_env) blank_codec d k v t = Ok ()"
  "clear_db (env_lmdb blank_env) d t = Ok ()" "read_bytes (env_lmdb blank_env) t d k = Ok None"
  "with_ro (env_lmdb blank_env) e g = g ()" "f () = Ok () \<Longrightarrow> with_rw (env_lmdb blank_env) e f = ((), Ok ())"
  "flush (env_lmdb blank_env) e = Ok ()" "encode blank_codec x = Ok []"
  by (simp_all add: put_bytes_def put_value_def encode_def clear_db_def read_bytes_def with_ro_def with_rw_def flush_def
      blank_env_def blank_codec_def)

lemma blank_load: "load_or_create_ledger blank_env () = ((), Some (Ok blank_ledger))"
proof -
  have L: "ledger_apply_block sample_core (ledger_new sample_core) genesis = Ok blank_ledger"
    "ledger_tip_height sample_core blank_ledger = Some 0" "ledger_tip_hash sample_core blank_ledger = Some [3]"
    "block_hash sample_core genesis = [3]" "ledger_accounts blank_ledger = []"
    "bt_values (chain_blocks (ledger_chain blank_ledger)) = [genesis]" "block_transactions genesis = []"
    by (simp_all add: sample_core_def blank_ledger_def genesis_def sample_block_def)
  have "put_ledger sample_core (env_lmdb blank_env) (env_codecs blank_env) blank_ledger = (\<lambda>_. Ok ())"
    by (auto simp: put_ledger_def put_tip_state_def L put_tip_def put_block_def index_block_transactions_def fun_eq_iff)
  then show ?thesis
    by (simp add: load_or_create_ledger_def load_tip_def L save_ledger_def then_env_def save_genesis_accounts_def Let_def)
qed

definition blank_node :: "(unit, block list) node" where
  "blank_node = \<lparr>node_ledger = blank_ledger, node_mempool = mempool_new, node_storage = (),
     node_cache = from_ledger sample_core blank_ledger, fork_choice = [genesis], genesis_accounts = [],
     orphan_blocks = [], orphan_children_by_parent = [], missing_parent_requests = [],
     missing_parent_request_set = {}, missing_parent_retry_at = []\<rparr>"

lemma blank_open: "open_node blank_env path blank_world = (blank_world, Ok blank_node)"
proof -
  have "with_genesis_accounts blank_env blank_ledger () [] = Some blank_node"
    by (simp add: with_genesis_accounts_def blank_node_def blank_ledger_def list_fork_def known_def genesis_def sample_block_def)
  moreover have "index_stored_blocks blank_env blank_node = (blank_node, Ok ())"
    by (simp add: index_stored_blocks_def load_blocks_by_hash_def index_loop.simps) (simp add: blank_env_def index_loop.simps)
  moreover have "ledger_accounts blank_ledger = []" by (simp add: blank_ledger_def)
  ultimately have "init_or_load blank_env () = ((), Some (Ok blank_node))"
    by (simp add: init_or_load_def blank_load load_genesis_accounts_def read_value_def)
  then show ?thesis by (simp add: open_node_def blank_world_def fun_eq_iff)
qed

theorem run_node_starts_witness:
  "\<exists>w c S. run_node blank_env blank_service_env sample_cli sample_startup [] blank_world = (w, Ok (c, S)) \<and>
     service_init blank_env blank_service_env c S"
proof -
  obtain c where c: "parse_run_config (files_env sample_cli blank_world) [] = Some (Ok c)"
      "default_run_config (files_env sample_cli blank_world) = Some c" "listen_addrs c = [DEFAULT_LISTEN_ADDR]"
      "cfg_peers c = []" "peers_file c = Some DEFAULT_PEERS_FILE" "gateway_url c = None" "mine c = False" "public_addrs c = []"
  proof -
    have p: "parse_addr (files_env sample_cli blank_world) = Some" by (simp add: sample_cli_def sample_config_env_def)
    then obtain c where c: "default_run_config (files_env sample_cli blank_world) = Some c" by (simp add: default_run_config_def)
    then have "parse_run_config (files_env sample_cli blank_world) [] = Some (Ok c)"
      using default_config_normal [OF c]
      by (simp add: parse_run_config_def load_run_config_file_if_exists_def Let_def) (simp add: blank_world_def)
    then show ?thesis using c p that [of c] by (auto simp: default_run_config_def)
  qed
  let ?c = "c\<lparr>cfg_peers := [], listen_addrs := [DEFAULT_LISTEN_ADDR], public_addrs := []\<rparr>"
  have peers: "run_node_peers c [] = []" using c(4) by (simp add: run_node_peers_def dedupe_peers_def)
  have load: "load_peers_file (svc_peers_env blank_service_env) (cw_files blank_world) p = Ok []" for p
    by (simp add: load_peers_file_def blank_service_env_def blank_world_def)
  have "next_difficulty blank_env n = Ok 0" if "node_ledger n = blank_ledger" for n
    using that by (simp add: next_difficulty_def next_difficulty_after_tip_def difficulty_window_def blank_ledger_def
        sample_env_def blank_env_def sample_core_def)
  then have start: "\<exists>w S. start_service blank_env blank_service_env 0 ?c (blank_node\<lparr>node_mempool := m\<rparr>) blank_world = (w, Ok (?c, S))" for m
    using c(5-7) by (simp add: start_service_def preflight_def node_service_new_def blank_node_def check_miner_def
        refresh_gateway_peers_def save_peers_def save_peers_from_def save_peers_file_def Let_def)
      (simp add: blank_service_env_def blank_world_def)
  have "dedupe_socket_addrs [a] = [a]" "dedupe_socket_addrs [] = ([] :: string list)" for a :: string by (simp_all add: dedupe_socket_addrs_def)
  moreover have "bind_listeners (svc_sockets blank_service_env) [a] = Ok ([()], [[]])" for a
    by (simp add: bind_listeners_def blank_service_env_def map_err_def)
  ultimately have "run_node blank_env blank_service_env sample_cli sample_startup [] blank_world =
      start_service blank_env blank_service_env 0 ?c (blank_node\<lparr>node_mempool := run_node_mempool (c\<lparr>cfg_peers := []\<rparr>)\<rparr>) blank_world"
    using c(1,3,5,8) peers
    by (simp add: run_node_def cli_bind_def cli_result_def load blank_open sample_startup_def Let_def)
  then obtain w S where run: "run_node blank_env blank_service_env sample_cli sample_startup [] blank_world = (w, Ok (?c, S))"
    using start by metis
  from run_node_starts [OF run] run show ?thesis by blast
qed

end
