(* ===== verification/Spec2Isabelle.thy ===== *)
theory Spec2Isabelle
  imports Mempool_Selection Mempool_Refinement Gossip Locks Node_Agreement Connections Chain_Storage Messages Program
begin

text \<open>
  A verification development for the Paqus full node (the Rust crate under \<open>src/\<close>).

  The program. A Paqus node keeps a ledger and a chain of blocks in an LMDB store, a pool of pending
  transactions, a cache, and an index of known blocks for fork choice; it receives blocks and
  transactions from peers over a framed TCP protocol, asks peers for missing blocks, serves an RPC
  interface and mines blocks. The protocol rules (transaction and block validation, ledger
  transition, consensus, fork choice, cryptography) live in the crate \<open>paqus\<close>, which is not part of
  the repository. The binary (\<open>src/src/main.rs\<close>) reads a configuration, opens the node and runs a
  service: threads that serve inbound connections, a loop that synchronises with known peers and
  mines, and an RPC server, all sharing one node behind a mutex.

  How it is modelled. Functions and methods of the source are HOL functions; a method on a mutable
  receiver returns the receiver beside its result; \<open>Result\<close> is a sum type and every early return
  is a branch; integers keep their width. Code outside the repository is a parameter: a record of
  functions that the definitions take as an argument (\<open>core\<close> for the protocol crate, \<open>lmdb\<close> for the
  storage engine, \<open>codecs\<close> for Borsh, \<open>consensus\<close>, \<open>crypto\<close>, \<open>fork_choice_ops\<close>, streams, the file
  system). Definitions assume nothing of it. A theorem that needs its documented behaviour says so
  with a named hypothesis: \<open>block_laws\<close> and \<open>ledger_laws\<close> (setters and the empty ledger),
  \<open>lmdb_laws\<close> (transactions read and write the content, commits publish it), \<open>codecs_ok\<close> (decoding
  inverts encoding), \<open>readable\<close> (a read transaction can be opened), \<open>chain_laws\<close> (a block is inserted into a
  chain above its parent, and a transition of the ledger inserts its block and keeps accounts under their
  addresses), \<open>fork_tree_laws\<close> (the fork-choice index is a tree that grows by one block per insertion and has one best tip),
  \<open>fork_weighs\<close> (the best tip is the first of greatest weight), \<open>fork_accepts\<close> (acceptance depends on the block and its
  parent), \<open>touch_laws\<close> (a block changes the accounts it names), \<open>peers_file_laws\<close> and \<open>cli_laws\<close> (files, JSON and hexadecimal text are read back
  as they were written), \<open>socket_laws\<close> and \<open>stream_laws\<close> (a setter sets its option of a socket, reads and writes set none).
  \<open>crate_laws\<close> bundles \<open>chain_laws\<close>, \<open>ledger_laws\<close> and \<open>fork_tree_laws\<close>; \<open>life_ok\<close> adds what the restart theorems
  need of the index, the storage engine and the codecs. Every property with such a
  hypothesis has a witness on concrete instances (\<open>sample_core\<close>, \<open>linked_core\<close>, \<open>mem_lmdb\<close>, \<open>table_codec\<close>, \<open>list_fork\<close>, \<open>tree_fork\<close>,
  \<open>option_sockets\<close>).

  The clock is an argument. A call of a public method of the node uses one reading of it, where
  the code reads the clock again in its helpers. The arithmetic wraps as in a release build.

  The theories.

  \<^item> \<open>Prelude\<close>, \<open>BTreeMap\<close>, \<open>Core\<close>: words with saturating and checked operations, results, big-endian
    bytes; ordered maps as sorted association lists with the contract \<open>ordered_map\<close>; the data shared
    with the protocol crate and the node's constants (\<open>runtime/mod.rs\<close>). The locale
    \<open>invariant_system\<close> is the contract of a transition system with an invariant.
  \<^item> \<open>Mempool\<close> (\<open>runtime/mempool/\<close>): the pool. \<open>Mempool_Accounting\<close> and \<open>Mempool_Admission\<close> hold the
    invariants and the admission checks (interpretations \<open>any_pool\<close>, \<open>node_pool\<close>),
    \<open>Mempool_Properties\<close> what admission, replacement, expiry and confirmation do, and
    \<open>Mempool_Selection\<close> the selection for a block and the candidate block. The selection loop has
    fuel, one unit per selected transaction; \<open>select_for_block_length\<close> shows that it ends.
  \<^item> \<open>Storage\<close> (\<open>runtime/storage/\<close>): the store, over the storage engine's transactions.
    \<open>Storage_Laws\<close> and \<open>Storage_Ledger\<close> relate each operation to the content of the databases;
    \<open>Storage_Properties\<close> holds round trips, chain validation, atomicity and the version gate.
  \<^item> \<open>Miner\<close>, \<open>Cache\<close>, \<open>Wallet\<close> (\<open>runtime/miner/\<close>, \<open>runtime/cache.rs\<close>, \<open>runtime/wallet/\<close>,
    \<open>src/mempool.rs\<close>): proof-of-work search, cache, signing and nonce choice.
  \<^item> \<open>Node\<close> (\<open>runtime/node/\<close>): the node with orphans, missing-parent requests, validation,
    reorganisation, mining and balances; the two loops without structural recursion
    (\<open>process_stack\<close>, \<open>index_loop\<close>) are shown to end. \<open>Node_Orphans\<close> has the orphan invariant,
    \<open>Node_Properties\<close> the node as a transition system (interpretation \<open>running_node\<close>) and the effect of
    its operations. The locale \<open>node_provider\<close> is what the node promises to its clients.
  \<^item> \<open>Ledger_Chain\<close>, \<open>Fork_Tree\<close>, \<open>Node_Chain\<close>, \<open>Node_Start\<close>: ledgers as the crate builds them, block by block; the
    branches of the fork-choice index; and the invariant \<open>chain_inv\<close> that the ledger is the replay of the best tip's
    branch. The locale \<open>chain_predicate\<close> is the contract of a predicate that applying a block and flushing keep; it gives
    \<open>node_provider\<close> (a sublocale) and is interpreted for the active chain, the type of the ledger, the cache and the store.
    \<open>Node_Reorg\<close> has the properties of reorganisations and of refused blocks;
    \<open>Two_Branches\<close> is the concrete node on which they are evaluated.
  \<^item> \<open>Storage_Blocks\<close>, \<open>Node_Restart\<close>, \<open>Node_Lifecycle\<close>: what stays in the store through failed and successful writes, the
    first start on an empty store, and the restart: it succeeds, finds the ledger and rebuilds an index with the same
    best tip. \<open>Node_Life\<close> is the life of a node, a sequence of calls and restarts (\<open>life_step\<close>, interpretation \<open>node_life\<close>): a node whose
    writes have all succeeded knows after a restart the blocks that it knew. \<open>Node_Crash\<close> has the invariant \<open>durable\<close>: whatever writes failed, the store holds the replay of a branch that the
    node knows, so that a start on it succeeds. \<open>Node_Cache\<close> is about a start on any store: the ledger is well-formed, and the cache
    agrees with it. \<open>Node_Agreement\<close> shows what the nodes of a network agree on: each follows the best tip at any time of its
    life, and nodes with the same genesis block and the same tip have the same ledger.
  \<^item> \<open>Network\<close>, \<open>Gossip\<close>, \<open>P2p\<close> (\<open>runtime/network/\<close>, \<open>src/gossip.rs\<close>, \<open>src/p2p.rs\<close>): messages, framing and
    handler; deduplication and broadcast; the sync client. Their safety is proved in
    \<open>node_provider\<close>, for any peer and any stream. \<open>Libp2p\<close> (\<open>src/libp2p_node.rs\<close>): topics, commands, events
    the messages of the request protocol and what is asked of the swarm.
  \<^item> \<open>Sockets\<close>, \<open>Connections\<close> (\<open>src/network.rs\<close>, \<open>PeerConnection\<close> of \<open>src/p2p.rs\<close>): listeners, connections and their time-outs
    over the calls of the operating system. The locale \<open>kept_stream\<close> is what a client promises of a stream and
    \<open>kept_connections\<close> extends it to the service, with a sublocale of \<open>invariant_system\<close>; the instance
    \<open>timed_connections\<close> gives that every connection has its time-outs.
  \<^item> \<open>Chain_Storage\<close> (\<open>src/src/storage.rs\<close>): the earlier store, which the program no longer compiles, over the same engine.
  \<^item> \<open>Text\<close>, \<open>Http\<close>, \<open>Gateway\<close> (\<open>src/network.rs\<close>, \<open>src/gateway.rs\<close>): the functions of the standard library on text
    that the program uses, the HTTP client and its framing, and the discovery gateway's requests.
  \<^item> \<open>Config\<close>, \<open>Peers_File\<close> (\<open>src/main.rs\<close>, \<open>src/p2p.rs\<close>): configuration file and command line; the file of
    known peers.
  \<^item> \<open>Service\<close> (\<open>src/main.rs\<close>): peer table, preflight, synchronisation rounds, gateway refresh, inbound
    connections, broadcasts, submissions, mining rounds and shutdown. \<open>Service_Properties\<close> is the service as a
    transition system (interpretation \<open>running_service\<close>); a whole synchronisation round is one of its steps, although
    the code releases the node's lock within it. \<open>Run_Loop\<close> is the main loop, a function from what happens outside (time, connections,
    other threads) to the state and result: its runs are paths of the transition system, a run of a node that nobody answers keeps
    the chain as long as the node has a peer to try, and after a clean stop a start finds everything again.
  \<^item> \<open>Locks\<close>: the order in which the threads take the four mutexes, for every interleaving (interpretation
    \<open>running_threads\<close>).
  \<^item> \<open>Rpc\<close>, \<open>Rpc_Properties\<close> (\<open>src/main.rs\<close>): the routes of the RPC server with their responses, searches and
    statistics. Responses are records; the JSON of the balance, which the program formats itself, is text.
  \<^item> \<open>Commands\<close> and \<open>Program\<close> (\<open>src/main.rs\<close>): wallet commands, menus, \<open>run_node\<close> and the dispatch of \<open>run\<close>,
    over a world of input lines, output lines, files and databases. The menu's loop is bounded by a
    number of rounds; \<open>menu_eof_loops\<close> shows that at the end of its input no number is enough.
  \<^item> \<open>Messages\<close> (\<open>runtime/*/error.rs\<close>, \<open>src/main.rs\<close>): the texts and causes of errors, and the log lines.
  \<^item> This theory: crash safety, which spans node, index, store and start-up.

  What is shown. Invariants of every reachable pool, node and service (bounds, agreement of
  indices, one pending transaction per sender and nonce), and that a started node is in a reachable state; that a node that no peer
  answers does not mine on its own while it has peers to try; that the pool refines a map from senders and nonces to
  transactions; what admission accepts, exactly, and that the nonce a wallet computes from the node's
  answers is one that is accepted; that a node follows the best tip with the ledger that replaying its branch gives, so that
  nodes with the same tip agree, whatever reorganisations they went through; what a block on the tip and a
  reorganisation change, and that a refused block changes nothing; that ledger and cache stay well-formed and coherent;
  round trips of transactions, messages, payments and peers; that stored chains are validated exactly and
  writes are atomic; that a start after a crash or a clean stop succeeds and resumes with the ledger the node had, in a state
  from which all of this holds again; that a crash at any other moment, after any failed writes, leaves a store on which the node
  starts; that every connection of a node has time-outs; that the searches and sums of the RPC
  server are those of the stored chain; that mined blocks go on the tip they were made for; that an
  HTTP response is read the same however it is cut; that the configuration policy holds whatever the
  options; that the threads of a node finish as long as nobody asks for its status.
  Some theorems state behaviour that the code probably does not intend: \<open>status_request_deadlocks\<close>
  (a status request and the main thread can block each other for ever),
  \<open>failed_round_drops_requests\<close> (requests lost after a failed one), \<open>remove_confirmed_correct\<close> (the byte
  total is not reduced), \<open>known_block_ignored\<close> with \<open>block_all_or_nothing\<close> (a block whose write failed is not written when it arrives
  again),
  \<open>stale_start\<close> (a start after lost writes can index a better tip than its ledger's and does not move to it),
  \<open>confirmed_stays_pending\<close> (a reorganisation leaves the transactions it confirms in the pool),
  \<open>replacement_below_last_rejected\<close> (replacement only of the last pending
  transaction), \<open>offline_signing_fails\<close> (a given nonce does not spare the RPC) and \<open>menu_eof_loops\<close>.

  What is not modelled. The libp2p swarm; the encoding of
  responses as JSON and the HTTP server around the routes; where and when log lines are printed; the sizes and flags with which the storage engine is opened. Outside \<open>Rpc\<close>, locks are never poisoned.
  The restart theorems start from an empty store and allow any number of restarts, each on a store that holds the node's ledger
  and, of every block it has, the parent (\<open>restartable\<close>); that a start on any other store succeeds is shown
  (\<open>crash_restarts\<close>), not what follows it once blocks arrive, since the ledger may then be behind the index (\<open>stale_start\<close>).
\<close>

section \<open>Crashes\<close>

text \<open>
  C4. Crash safety across the node, the index, the ledger store and the start-up code: a node first started on an empty store, with a
  genesis block that creates an account, handles anything, with writes that fail or not, and may have been restarted in between, when its store had
  its ledger and the parent of every stored block (\<open>restartable\<close>); once it has applied a block that changed its
  ledger, by extending the tip or by a reorganisation, the process can be killed at once. A start on the store it leaves succeeds,
  and the node resumes with the ledger that has the block, in a consistent state. When no earlier write is missing (\<open>written\<close>), it also
  knows the same blocks as before, and its life goes on as that of a node that was never killed.
\<close>

theorem crash_resumes:
  assumes "life_ok E V W w" "reach (first_started E V) (life_step E V) n"
    and "apply_known_parent_block E n b now = (n', Ok ())" "node_ledger n' \<noteq> node_ledger n" "pool_init m"
  shows "\<exists>st r. init_or_load E (node_storage n') = (st, Some (Ok r)) \<and> node_ledger r = node_ledger n' \<and>
    consistent_start E (r\<lparr>node_mempool := m\<rparr>) \<and>
    (written E V n \<longrightarrow> fc_get (env_fork E) (fork_choice r) = fc_get (env_fork E) (fork_choice n') \<and>
       life_step E V n' (r\<lparr>node_mempool := m\<rparr>))"
proof -
  note laws = life_okD [OF assms(1)] and n = life_lasting [OF assms(1,2)]
  have n': "lasting E V n'" using lasting_apply [OF laws(1,4) n, of b now] by (simp add: assms(3))
  have inv: "chain_inv E n" using n by (simp add: lasting_def)
  from laws(1) inv assms(3)
  have "save_ledger (env_core E) (env_lmdb E) (env_codecs E) (node_storage n) (node_ledger n') = (node_storage n', Ok ())"
    by (cases rule: apply_known_parent_cases) (use assms(4) in \<open>auto simp: eq_commute [of "Ok ()"] map_err_Ok_iff\<close>)
  then have "holds_ledger (env_core E) (env_codecs E) (V (node_storage n')) (node_ledger n')"
    using saved_ledger_holds(1) [OF laws(4) _ kept_ledger_wf [OF laws(1) own_ledger_kept [OF n']]] laws(1)
    by (simp add: crate_laws_def)
  from resumes [OF laws n' this assms(5)] obtain st r where r: "init_or_load E (node_storage n') = (st, Some (Ok r))"
    "node_ledger r = node_ledger n'" "consistent_start E (r\<lparr>node_mempool := m\<rparr>)" by blast
  have "fc_get (env_fork E) (fork_choice r) = fc_get (env_fork E) (fork_choice n') \<and> life_step E V n' (r\<lparr>node_mempool := m\<rparr>)"
    if "written E V n"
  proof -
    have "written E V n'" by (rule written_apply [OF laws(1,4) n that assms(3)])
    then show ?thesis
      using written_restart [OF assms(1) n' _ r(1)] life_step.restart [OF written_restartable [OF laws(1,5) n'] r(1) assms(5)] by blast
  qed
  with r show ?thesis by blast
qed

theorem crash_resumes_witness:
  "\<exists>st n0 n st' r. init_or_load life_env env0 = (st, Some (Ok n0)) \<and>
     apply_known_parent_block life_env (n0\<lparr>node_mempool := mempool_new\<rparr>) block1 100 = (n, Ok ()) \<and>
     init_or_load life_env (node_storage n) = (st', Some (Ok r)) \<and> node_ledger r = stored_ledger \<and>
     fc_get (tree_fork linked_core) (fork_choice r) = fc_get (tree_fork linked_core) (fork_choice n)"
proof (rule life_block1)
  fix st and n0 n :: "(mem_env, block list) node"
  let ?n0 = "n0\<lparr>node_mempool := mempool_new\<rparr>"
  assume start: "init_or_load life_env env0 = (st, Some (Ok n0))" "genesis_accounts n0 \<noteq> []" "node_ledger n0 = genesis_ledger"
    "node_ledger n = stored_ledger" "apply_known_parent_block life_env ?n0 block1 100 = (n, Ok ())"
  note live = first_start_lives [OF life_env_ok life_empty start(1) mempool_new_init start(2)]
  have "node_ledger n \<noteq> node_ledger ?n0" by (simp add: start genesis_ledger_def stored_ledger_def)
  then show ?thesis
    using crash_resumes [OF life_env_ok live start(5) _ mempool_new_init] start(1,4,5)
      first_start_written [OF life_env_ok life_empty start(1) mempool_new_init] by fastforce
qed

end
